(* ===== verification/Harness_Prelude.thy ===== *)
theory Harness_Prelude
  imports Main "HOL-Library.AList" "HOL-Library.Char_ord" "HOL-Library.List_Lexorder"
begin

text \<open>
  Shared vocabulary of the development.

  \<^item> Go strings are byte strings: \<^typ>\<open>string\<close>, ordered bytewise
    (the orders of \<^theory_text>\<open>Char_ord\<close> and \<^theory_text>\<open>List_Lexorder\<close> are Go's \<^verbatim>\<open><\<close> on strings).
  \<^item> A Go map with string keys is an association list. Reading is \<^const>\<open>map_of\<close>,
    \<^verbatim>\<open>m[k] = v\<close> is \<open>gm_put\<close>, \<^verbatim>\<open>delete(m, k)\<close> is \<open>gm_del\<close>, and \<open>gm_ok\<close> says
    that the keys are distinct. The position of an entry in the list is the order
    in which a \<^verbatim>\<open>range\<close> loop meets it. Go leaves that order open, so statements hold
    for every order of the entries, and the order-independence lemmas say
    which results do not depend on it.
  \<^item> A Go function that returns \<^verbatim>\<open>(T, error)\<close> returns a value of a sum type, the error
    on the left.
\<close>

named_theorems gomap_simps \<open>rewriting of association-list operations to maps\<close>
named_theorems chan_defs \<open>definitions of the channel operations\<close>

type_synonym 'v gomap = "(string \<times> 'v) list"

abbreviation gm_put :: "string \<Rightarrow> 'v \<Rightarrow> 'v gomap \<Rightarrow> 'v gomap" where
  "gm_put \<equiv> AList.update"

abbreviation gm_del :: "string \<Rightarrow> 'v gomap \<Rightarrow> 'v gomap" where
  "gm_del \<equiv> AList.delete"

abbreviation gm_keys :: "'v gomap \<Rightarrow> string list" where
  "gm_keys m \<equiv> map fst m"

abbreviation gm_dom :: "'v gomap \<Rightarrow> string set" where
  "gm_dom m \<equiv> fst ` set m"

abbreviation gm_ok :: "'v gomap \<Rightarrow> bool" where
  "gm_ok m \<equiv> distinct (gm_keys m)"

text \<open>Reading a missing key of a \<^verbatim>\<open>map[string]bool\<close> gives false, of a \<^verbatim>\<open>map[string]int\<close> gives 0.\<close>

definition gm_bool :: "bool gomap \<Rightarrow> string \<Rightarrow> bool" where
  "gm_bool m k = (case map_of m k of None \<Rightarrow> False | Some b \<Rightarrow> b)"

definition gm_int :: "int gomap \<Rightarrow> string \<Rightarrow> int" where
  "gm_int m k = (case map_of m k of None \<Rightarrow> 0 | Some i \<Rightarrow> i)"

lemmas gm_put_conv [gomap_simps] = AList.update_conv'
lemmas gm_del_conv [gomap_simps] = AList.delete_conv'

lemma gm_ok_put [simp, intro]: "gm_ok m \<Longrightarrow> gm_ok (gm_put k v m)"
  by (simp add: AList.distinct_update)

lemma gm_ok_del [simp, intro]: "gm_ok m \<Longrightarrow> gm_ok (gm_del k m)"
  by (simp add: AList.distinct_delete)

lemma gm_keys_put [gomap_simps]: "gm_dom (gm_put k v m) = insert k (gm_dom m)"
  by (simp flip: dom_map_of_conv_image_fst add: AList.update_conv')

lemma gm_keys_del [gomap_simps]: "gm_dom (gm_del k m) = gm_dom m - {k}"
  by (simp flip: dom_map_of_conv_image_fst add: AList.delete_conv')

lemma gm_bool_put [simp]: "gm_bool (gm_put k b m) x = (if x = k then b else gm_bool m x)"
  by (simp add: gm_bool_def gomap_simps)

lemma gm_bool_Nil [simp]: "\<not> gm_bool [] k"
  by (simp add: gm_bool_def)

lemma gm_int_put [simp]: "gm_int (gm_put k i m) x = (if x = k then i else gm_int m x)"
  by (simp add: gm_int_def gomap_simps)

lemma map_of_eq_None_keys: "map_of m k = None \<longleftrightarrow> k \<notin> gm_dom m"
  by (simp add: map_of_eq_None_iff)

lemma map_of_Some_key: "map_of m k = Some v \<Longrightarrow> k \<in> gm_dom m"
  by (metis map_of_eq_None_keys option.distinct(1))

lemma gm_perm_map_of: "gm_ok m \<Longrightarrow> gm_ok m' \<Longrightarrow> set m = set m' \<Longrightarrow> map_of m = map_of m'"
  by (simp add: map_of_inject_set)

lemma gm_put_new: "k \<notin> gm_dom m \<Longrightarrow> gm_put k v m = m @ [(k, v)]"
  by (induction m) auto

lemma length_gm_ok: "gm_ok m \<Longrightarrow> length m = card (gm_dom m)"
  using distinct_card [of "gm_keys m"] by simp

text \<open>Membership of values after an update.\<close>

lemma gm_put_mem: "(k', v') \<in> set (gm_put k v m) \<Longrightarrow> (k', v') = (k, v) \<or> (k', v') \<in> set m"
  by (induction m) (auto split: if_splits)

lemma gm_del_mem: "(k', v') \<in> set (gm_del k m) \<Longrightarrow> (k', v') \<in> set m"
  by (auto simp: AList.delete_eq)

text \<open>
  \<^verbatim>\<open>strings.Join\<close> and \<^verbatim>\<open>strings.Split\<close> with a one-byte separator.
  \<^verbatim>\<open>Split(s, sep)\<close> always returns at least one part.
\<close>

fun go_join :: "string \<Rightarrow> string list \<Rightarrow> string" where
  "go_join sep [] = []"
| "go_join sep [s] = s"
| "go_join sep (s # t # ss) = s @ sep @ go_join sep (t # ss)"

fun go_split :: "char \<Rightarrow> string \<Rightarrow> string list" where
  "go_split c [] = [[]]"
| "go_split c (x # xs) =
     (if x = c then [] # go_split c xs
      else (case go_split c xs of [] \<Rightarrow> [[x]] | p # ps \<Rightarrow> (x # p) # ps))"

lemma go_split_nonempty [simp]: "go_split c s \<noteq> []"
  by (cases s) (auto split: list.splits)

lemma go_split_no_sep: "c \<notin> set s \<Longrightarrow> go_split c s = [s]"
  by (induction s) auto

lemma go_split_append_sep: "c \<notin> set s \<Longrightarrow> go_split c (s @ c # t) = s # go_split c t"
  by (induction s) auto

lemma go_split_join:
  assumes "ss \<noteq> []" and "\<forall>s\<in>set ss. c \<notin> set s"
  shows "go_split c (go_join [c] ss) = ss"
  using assms
proof (induction ss rule: induct_list012)
  case 1
  then show ?case by simp
next
  case (2 s)
  then show ?case by (simp add: go_split_no_sep)
next
  case (3 s t ss)
  then show ?case by (simp add: go_split_append_sep)
qed

lemma go_join_Cons_char: "go_join sep ((x # p) # ps) = x # go_join sep (p # ps)"
  by (cases ps) auto

lemma go_join_Cons: "ps \<noteq> [] \<Longrightarrow> go_join sep (p # ps) = p @ sep @ go_join sep ps"
  by (cases ps) auto

lemma go_join_split: "go_join [c] (go_split c s) = s"
  by (induction s) (auto simp: go_join_Cons go_join_Cons_char split: list.splits)

end
