(* ===== verification/Go_Float.thy ===== *)
theory Go_Float
  imports Complex_Main "HOL-Library.Log_Nat"
begin

text \<open>
  Go's \<^verbatim>\<open>float64\<close> as the harness uses it: addition, multiplication, division, square root, comparison and the
  conversions to and from \<^verbatim>\<open>int\<close>. A finite double is its exact rational value, and every operation
  rounds the exact result to nearest, ties to even, with 53 bits of precision, the
  subnormal range below and the overflow to an infinity above. The two
  zeros of IEEE 754 are one value here: no modelled operation tells them apart.
\<close>

datatype float64 = F_NaN | F_Inf bool | F_Fin rat

definition pow2 :: "int \<Rightarrow> rat" where
  "pow2 k = (if 0 \<le> k then 2 ^ nat k else 1 / 2 ^ nat (- k))"

text \<open>Floor of the binary logarithm of a positive rational.\<close>

definition ilog2 :: "rat \<Rightarrow> int" where
  "ilog2 x =
     (let nd = quotient_of x;
          k = int (floorlog 2 (nat (fst nd))) - int (floorlog 2 (nat (snd nd)))
      in if pow2 k \<le> x then k else k - 1)"

definition round_half_even :: "rat \<Rightarrow> int" where
  "round_half_even x =
     (let f = floor x; r = x - of_int f
      in if r < 1 / 2 then f
         else if 1 / 2 < r then f + 1
         else if even f then f else f + 1)"

definition round64 :: "rat \<Rightarrow> float64" where
  "round64 x =
     (if x = 0 then F_Fin 0
      else let e = max (ilog2 \<bar>x\<bar> - 52) (-1074);
               y = of_int (round_half_even (x / pow2 e)) * pow2 e
           in if pow2 1024 \<le> \<bar>y\<bar> then F_Inf (y < 0) else F_Fin y)"

fun f_add :: "float64 \<Rightarrow> float64 \<Rightarrow> float64" where
  "f_add (F_Fin a) (F_Fin b) = round64 (a + b)"
| "f_add (F_Inf s) (F_Fin b) = F_Inf s"
| "f_add (F_Fin a) (F_Inf s) = F_Inf s"
| "f_add (F_Inf s) (F_Inf t) = (if s = t then F_Inf s else F_NaN)"
| "f_add _ _ = F_NaN"

fun f_neg :: "float64 \<Rightarrow> bool" where
  "f_neg F_NaN = False"
| "f_neg (F_Inf neg) = neg"
| "f_neg (F_Fin x) = (x < 0)"

fun f_zero :: "float64 \<Rightarrow> bool" where
  "f_zero (F_Fin x) = (x = 0)"
| "f_zero _ = False"

definition f_mul :: "float64 \<Rightarrow> float64 \<Rightarrow> float64" where
  "f_mul a b =
     (case (a, b) of
        (F_Fin x, F_Fin y) \<Rightarrow> round64 (x * y)
      | (F_NaN, _) \<Rightarrow> F_NaN
      | (_, F_NaN) \<Rightarrow> F_NaN
      | _ \<Rightarrow> if f_zero a \<or> f_zero b then F_NaN else F_Inf (f_neg a \<noteq> f_neg b))"

fun f_less :: "float64 \<Rightarrow> float64 \<Rightarrow> bool" where
  "f_less (F_Fin a) (F_Fin b) = (a < b)"
| "f_less (F_Inf s) (F_Fin b) = s"
| "f_less (F_Fin a) (F_Inf s) = (\<not> s)"
| "f_less (F_Inf s) (F_Inf t) = (s \<and> \<not> t)"
| "f_less _ _ = False"

text \<open>The operator \<^verbatim>\<open>==\<close>: a NaN is not equal to itself.\<close>

fun f_eq :: "float64 \<Rightarrow> float64 \<Rightarrow> bool" where
  "f_eq F_NaN _ = False"
| "f_eq _ F_NaN = False"
| "f_eq a b = (a = b)"

text \<open>
  Division and \<^verbatim>\<open>math.Sqrt\<close>, both correctly rounded. A quotient by zero takes the sign of the dividend, as for a
  positive zero. The root is computed with a quotient of 53 bits; it is never subnormal and never half-way.
\<close>

definition f_div :: "float64 \<Rightarrow> float64 \<Rightarrow> float64" where
  "f_div a b =
     (case (a, b) of
        (F_NaN, _) \<Rightarrow> F_NaN
      | (_, F_NaN) \<Rightarrow> F_NaN
      | (F_Fin x, F_Fin y) \<Rightarrow> if y \<noteq> 0 then round64 (x / y) else if x = 0 then F_NaN else F_Inf (x < 0)
      | (F_Fin x, F_Inf s) \<Rightarrow> F_Fin 0
      | (F_Inf s, F_Fin y) \<Rightarrow> F_Inf (s \<noteq> (y < 0))
      | (F_Inf s, F_Inf t) \<Rightarrow> F_NaN)"

fun nat_sqrt :: "nat \<Rightarrow> nat" where
  "nat_sqrt n =
     (if n = 0 then 0
      else let r = 2 * nat_sqrt (n div 4) in if (r + 1) * (r + 1) \<le> n then r + 1 else r)"

declare nat_sqrt.simps [simp del]

definition rat_sqrt :: "rat \<Rightarrow> float64" where
  "rat_sqrt x =
     (let e = ilog2 x div 2 - 52;
          y = x / pow2 (2 * e);
          m = nat_sqrt (nat (floor y));
          m = (if (of_nat m + 1 / 2) * (of_nat m + 1 / 2) < y then m + 1 else m)
      in F_Fin (of_nat m * pow2 e))"

definition f_sqrt :: "float64 \<Rightarrow> float64" where
  "f_sqrt a =
     (case a of
        F_NaN \<Rightarrow> F_NaN
      | F_Inf s \<Rightarrow> if s then F_NaN else F_Inf False
      | F_Fin x \<Rightarrow> if x < 0 then F_NaN else if x = 0 then F_Fin 0 else rat_sqrt x)"

lemma nat_sqrt_correct: "nat_sqrt n * nat_sqrt n \<le> n \<and> n < Suc (nat_sqrt n) * Suc (nat_sqrt n)"
proof (induction n rule: nat_sqrt.induct)
  case (1 n)
  show ?case
  proof (cases "n = 0")
    case False
    define r where "r = nat_sqrt (n div 4)"
    have "r * r \<le> n div 4" and "n div 4 < Suc r * Suc r"
      using 1 [OF False] by (simp_all add: r_def)
    then have "2 * r * (2 * r) \<le> n" and "n < (2 * r + 2) * (2 * r + 2)" by auto
    then show ?thesis using False by (subst (1 2 3 4) nat_sqrt.simps) (simp add: Let_def flip: r_def)
  qed (simp add: nat_sqrt.simps)
qed

definition f_of_int :: "int \<Rightarrow> float64" where
  "f_of_int n = round64 (of_int n)"

text \<open>
  The conversion \<^verbatim>\<open>int(x)\<close> truncates towards zero. A value that does not fit is
  implementation-specific in Go; the result of amd64 is taken.
\<close>

definition rat_trunc :: "rat \<Rightarrow> int" where
  "rat_trunc x = (if 0 \<le> x then floor x else - floor (- x))"

definition int_of_f :: "float64 \<Rightarrow> int" where
  "int_of_f f =
     (case f of
        F_Fin x \<Rightarrow> (let t = rat_trunc x in if - (2 ^ 63) \<le> t \<and> t < 2 ^ 63 then t else - (2 ^ 63))
      | _ \<Rightarrow> - (2 ^ 63))"

subsection \<open>Integers up to \<open>2 ^ 53\<close> survive the conversion\<close>

lemma pow2_pos [simp]: "0 < pow2 k"
  by (simp add: pow2_def)

lemma pow2_nonzero [simp]: "pow2 k \<noteq> 0"
  using pow2_pos [of k] by linarith

lemma pow2_mono: "j \<le> k \<Longrightarrow> pow2 j \<le> pow2 k"
proof -
  assume "j \<le> k"
  then consider "0 \<le> j" | "j < 0" "0 \<le> k" | "k < 0" by linarith
  then show ?thesis
  proof cases
    case 1
    with \<open>j \<le> k\<close> show ?thesis by (simp add: pow2_def power_increasing)
  next
    case 2
    then have "1 / 2 ^ nat (- j) \<le> (1::rat)" "(1::rat) \<le> 2 ^ nat k"
      by (simp_all add: divide_le_eq_1)
    then have "1 / 2 ^ nat (- j) \<le> (2::rat) ^ nat k" by (rule order_trans)
    with 2 show ?thesis by (simp add: pow2_def)
  next
    case 3
    with \<open>j \<le> k\<close> have "(2::rat) ^ nat (- k) \<le> 2 ^ nat (- j)"
      by (intro power_increasing) auto
    with 3 \<open>j \<le> k\<close> show ?thesis by (simp add: pow2_def frac_le)
  qed
qed

lemma round_half_even_of_int [simp]: "round_half_even (of_int n) = n"
  by (simp add: round_half_even_def)

lemma ilog2_le_of_int:
  assumes "0 < n" and "n < 2 ^ m"
  shows "ilog2 (of_int n) < int m"
proof -
  have q: "quotient_of (of_int n) = (n, 1)"
    by (simp add: quotient_of_int)
  have "floorlog 2 (nat n) \<le> m"
  proof (rule floorlog_leI)
    show "nat n < 2 ^ m"
      using assms by (simp add: nat_less_iff)
  qed simp_all
  moreover have "floorlog 2 (nat 1) = 1"
    by (simp add: floorlog_def)
  ultimately show ?thesis
    using assms by (simp add: ilog2_def q Let_def)
qed

lemma round64_of_int:
  assumes "\<bar>n\<bar> < 2 ^ 53"
  shows "round64 (of_int n) = F_Fin (of_int n)"
proof (cases "n = 0")
  case True
  then show ?thesis by (simp add: round64_def)
next
  case False
  define e where "e = max (ilog2 \<bar>of_int n :: rat\<bar> - 52) (-1074)"
  have abs: "\<bar>of_int n :: rat\<bar> = of_int \<bar>n\<bar>" by simp
  have "ilog2 (of_int \<bar>n\<bar>) < int 53"
    using False assms by (intro ilog2_le_of_int) auto
  then have e: "e \<le> 0" "-1074 \<le> e"
    by (auto simp: e_def)
  then have inv: "1 / pow2 e = of_int (2 ^ nat (- e))"
    by (auto simp: pow2_def)
  have "of_int n / pow2 e = of_int (n * 2 ^ nat (- e))"
    using inv by (metis divide_inverse inverse_eq_divide of_int_mult)
  then have "round_half_even (of_int n / pow2 e) = n * 2 ^ nat (- e)"
    by (simp only: round_half_even_of_int)
  then have y: "of_int (round_half_even (of_int n / pow2 e)) * pow2 e = (of_int n :: rat)"
    using \<open>of_int n / pow2 e = _\<close> pow2_nonzero [of e] by (metis nonzero_divide_eq_eq)
  have "\<bar>of_int n :: rat\<bar> < of_int (2 ^ 53)"
    unfolding abs using assms by (simp only: of_int_less_iff)
  also have "\<dots> = pow2 53" by (simp add: pow2_def)
  also have "\<dots> \<le> pow2 1024" by (rule pow2_mono) simp
  finally have "\<not> pow2 1024 \<le> \<bar>of_int n :: rat\<bar>" by simp
  with False y show ?thesis
    unfolding round64_def e_def [symmetric] Let_def by simp
qed

lemma int_of_f_of_int:
  assumes "\<bar>n\<bar> < 2 ^ 53"
  shows "int_of_f (f_of_int n) = n"
proof -
  have "rat_trunc (of_int n) = n"
    by (simp add: rat_trunc_def flip: of_int_minus)
  moreover have "- (2 ^ 63) \<le> n \<and> n < 2 ^ 63"
    using assms by auto
  ultimately show ?thesis
    using assms by (simp add: f_of_int_def round64_of_int int_of_f_def Let_def)
qed

lemma f_add_of_int:
  assumes "\<bar>a\<bar> < 2 ^ 53" and "\<bar>b\<bar> < 2 ^ 53"
  shows "f_add (f_of_int a) (f_of_int b) = f_of_int (a + b)"
  using assms by (simp add: f_of_int_def round64_of_int)

subsection \<open>Rounding a value that is not negative\<close>

lemma pow2_powi: "pow2 k = 2 powi k"
  by (simp add: pow2_def power_int_def inverse_eq_divide power_one_over)

lemma pow2_ilog2_le:
  assumes "0 < x"
  shows "pow2 (ilog2 x) \<le> x"
proof -
  obtain n d where q: "quotient_of x = (n, d)" by force
  have x: "x = of_int n / of_int d" using quotient_of_div [OF q] .
  have d: "0 < d" using quotient_of_denom_pos [OF q] .
  have n: "0 < n" using assms d by (simp add: x zero_less_divide_iff)
  define a b where "a = floorlog 2 (nat n)" and "b = floorlog 2 (nat d)"
  have a: "2 ^ (a - 1) \<le> nat n" "0 < a"
    using n floorlog_bounds [of "nat n" 2] by (auto simp: a_def floorlog_def)
  have b: "nat d < 2 ^ b"
    using d floorlog_bounds [of "nat d" 2] by (simp add: b_def)
  have "2 ^ (a - 1) \<le> n" "d \<le> 2 ^ b"
    using a(1) b n d by (simp_all add: le_nat_iff nat_less_iff)
  then have "of_int (2 ^ (a - 1)) \<le> (of_int n :: rat)" "of_int d \<le> (of_int (2 ^ b) :: rat)"
    by (simp_all only: of_int_le_iff)
  then have "(2::rat) ^ (a - 1) \<le> of_int n" "(of_int d :: rat) \<le> 2 ^ b"
    by simp_all
  then have "2 ^ (a - 1) / 2 ^ b \<le> x"
    unfolding x using n d by (intro frac_le) auto
  moreover have "pow2 (int a - int b - 1) = 2 ^ (a - 1) / 2 ^ b"
  proof -
    have "int a - int b - 1 = int (a - 1) - int b" using a(2) by simp
    moreover have "(2::rat) powi (int (a - 1) - int b) = 2 powi int (a - 1) / 2 powi int b"
      by (rule power_int_diff) simp
    ultimately show ?thesis unfolding pow2_powi by (simp only: power_int_of_nat)
  qed
  ultimately show ?thesis
    by (simp add: ilog2_def q Let_def a_def [symmetric] b_def [symmetric])
qed

lemma round_half_even_le: "of_int (round_half_even z) \<le> z + 1 / 2"
  and round_half_even_floor: "floor z \<le> round_half_even z"
proof -
  have "of_int (floor z) \<le> z" by simp
  then have "of_int (floor z) \<le> z + 1 / 2" by linarith
  then show "of_int (round_half_even z) \<le> z + 1 / 2"
    by (auto simp: round_half_even_def Let_def)
  show "floor z \<le> round_half_even z"
    by (simp add: round_half_even_def Let_def)
qed

lemma round64_nonneg:
  assumes "0 \<le> x" and "x < 2 ^ 100"
  shows "\<exists>y. round64 x = F_Fin y \<and> 0 \<le> y \<and> y \<le> 2 * x + 1"
proof (cases "x = 0")
  case True
  then show ?thesis by (simp add: round64_def)
next
  case False
  with assms have pos: "0 < x" by simp
  define e where "e = max (ilog2 x - 52) (-1074)"
  define y where "y = of_int (round_half_even (x / pow2 e)) * pow2 e"
  have "pow2 e \<le> x + 1"
  proof (cases "e = -1074")
    case True
    have "pow2 (-1074) \<le> pow2 0" by (rule pow2_mono) simp
    also have "pow2 0 = 1" by (simp add: pow2_def)
    finally show ?thesis using True pos by simp
  next
    case False
    then have "pow2 e \<le> pow2 (ilog2 x)" by (intro pow2_mono) (auto simp: e_def)
    with pow2_ilog2_le [OF pos] show ?thesis by simp
  qed
  moreover have "y \<le> (x / pow2 e + 1 / 2) * pow2 e"
    unfolding y_def by (intro mult_right_mono round_half_even_le) (simp add: less_imp_le)
  moreover have "(x / pow2 e + 1 / 2) * pow2 e = x + pow2 e / 2"
    by (simp add: algebra_simps)
  ultimately have le: "y \<le> 2 * x + 1" using pos by linarith
  have "0 \<le> floor (x / pow2 e)" using pos by (simp add: less_imp_le)
  then have "0 \<le> round_half_even (x / pow2 e)" using round_half_even_floor by (rule order_trans)
  then have nonneg: "0 \<le> y" by (simp add: y_def less_imp_le)
  have "(2::rat) * 2 ^ 100 + 1 < pow2 102" by (simp add: pow2_def)
  also have "\<dots> \<le> pow2 1024" by (rule pow2_mono) simp
  finally have "\<not> pow2 1024 \<le> \<bar>y\<bar>" using le nonneg assms(2) by linarith
  then show ?thesis
    using False pos le nonneg by (simp add: round64_def Let_def flip: e_def) (simp add: y_def e_def)
qed

text \<open>Rounding does not cross a power of two.\<close>

lemma round_half_even_le_int:
  assumes "z \<le> of_int n"
  shows "round_half_even z \<le> n"
proof -
  have "of_int (round_half_even z) \<le> (of_int n :: rat) + 1 / 2" using round_half_even_le [of z] assms by linarith
  also have "\<dots> < of_int (n + 1)" by simp
  finally have "round_half_even z < n + 1" by (simp only: of_int_less_iff)
  then show ?thesis by simp
qed

lemma round64_le_pow2:
  assumes "0 \<le> x" and "x \<le> 2 ^ k" and "k < 100"
  shows "\<exists>y. round64 x = F_Fin y \<and> 0 \<le> y \<and> y \<le> 2 ^ k"
proof (cases "x = 0")
  case True
  then show ?thesis by (simp add: round64_def)
next
  case False
  with assms have pos: "0 < x" by simp
  have "(2::rat) ^ k < 2 ^ 100" using assms(3) by (intro power_strict_increasing) simp_all
  with assms obtain y where y: "round64 x = F_Fin y" "0 \<le> y" using round64_nonneg [of x] by force
  define e where "e = max (ilog2 x - 52) (-1074)"
  have yd: "y = of_int (round_half_even (x / pow2 e)) * pow2 e"
    using y(1) False pos by (auto simp: round64_def Let_def e_def split: if_splits)
  have k: "pow2 (int k) = 2 ^ k" by (simp add: pow2_def)
  have "ilog2 x \<le> int k"
  proof (rule ccontr)
    assume "\<not> ilog2 x \<le> int k"
    then have "pow2 (int (Suc k)) \<le> pow2 (ilog2 x)" by (intro pow2_mono) simp
    also have "\<dots> \<le> 2 ^ k" using pow2_ilog2_le [OF pos] assms(2) by simp
    finally show False by (simp add: pow2_def nat_add_distrib)
  qed
  then have e: "e \<le> int k" by (simp add: e_def)
  then have "(2::rat) powi (int k) = 2 powi (int k - e) * 2 powi e" by (simp add: power_int_add [symmetric])
  then have split: "2 ^ k = of_int (2 ^ nat (int k - e)) * pow2 e"
    using e by (simp add: pow2_powi power_int_def [of _ "int k - e"])
  then have "x / pow2 e \<le> of_int (2 ^ nat (int k - e))" using assms(2) by (simp add: divide_le_eq)
  then have "round_half_even (x / pow2 e) \<le> 2 ^ nat (int k - e)" by (rule round_half_even_le_int)
  then have "(of_int (round_half_even (x / pow2 e)) :: rat) \<le> of_int (2 ^ nat (int k - e))" by (simp only: of_int_le_iff)
  then have "y \<le> 2 ^ k" unfolding yd split by (intro mult_right_mono) (simp_all add: less_imp_le)
  with y show ?thesis by blast
qed

text \<open>Products of values that are not negative are not negative.\<close>

lemma round64_not_neg:
  assumes "0 \<le> x"
  shows "\<not> f_neg (round64 x)"
proof -
  have "0 \<le> round_half_even (x / pow2 e)" for e
  proof -
    have "0 \<le> floor (x / pow2 e)" using assms by (simp add: less_imp_le)
    then show ?thesis using round_half_even_floor by (rule order_trans)
  qed
  then have "0 \<le> of_int (round_half_even (x / pow2 e)) * pow2 e" for e by (simp add: less_imp_le)
  then show ?thesis by (auto simp: round64_def Let_def not_less)
qed

lemma f_mul_not_neg: "\<not> f_neg a \<Longrightarrow> \<not> f_neg b \<Longrightarrow> \<not> f_neg (f_mul a b)"
  by (cases a; cases b) (auto simp: f_mul_def round64_not_neg not_less)

lemma int_of_f_min: "- (2 ^ 63) \<le> int_of_f f"
  by (simp add: int_of_f_def Let_def split: float64.split)

lemma int_of_f_overflow: "2 ^ 63 \<le> x \<Longrightarrow> int_of_f (F_Fin x) = - (2 ^ 63)"
proof -
  assume "2 ^ 63 \<le> x"
  then have "2 ^ 63 \<le> rat_trunc x" by (simp add: rat_trunc_def le_floor_iff)
  then show ?thesis by (simp add: int_of_f_def)
qed

lemma int_of_f_nonneg: "0 \<le> y \<Longrightarrow> y < 2 ^ 63 \<Longrightarrow> 0 \<le> int_of_f (F_Fin y)"
  by (simp add: int_of_f_def Let_def rat_trunc_def floor_less_iff)

end
