(* ===== verification/Go_Values.thy ===== *)
theory Go_Values
  imports Harness_Prelude Go_Float "HOL-Library.Word"
begin

text \<open>
  Go's \<^verbatim>\<open>interface{}\<close> values. A constructor per dynamic type that the harness
  distinguishes by a type assertion, a type switch or by reflection:

  \<^item> \<open>GMissing\<close> is the sentinel \<^verbatim>\<open>channels.Missing\<close>;
  \<^item> \<open>GInt\<close> and \<open>GInt64\<close> keep the 64-bit width, \<open>GNum\<close> is any other integer kind;
  \<^item> \<open>GSlice\<close> is \<^verbatim>\<open>[]interface{}\<close>, \<open>GMap\<close> is \<^verbatim>\<open>map[string]interface{}\<close>; the
    maps with a concrete element type are separate, as a type assertion sees them;
  \<^item> \<open>GOverwrite\<close> is \<^verbatim>\<open>*types.Overwrite\<close>, \<open>GOverwriter n v\<close> a value of some other type \<open>n\<close> with a
    \<^verbatim>\<open>GetValue()\<close> method;
  \<^item> \<open>GStruct n z fs\<close> is a struct of type \<open>n\<close> with the exported fields \<open>fs\<close> and \<open>z\<close> the
    fields of the zero value of its type; \<open>GPtr\<close> points to such a value;
  \<^item> \<open>GType\<close> is a \<^verbatim>\<open>reflect.Type\<close>, \<open>GOther\<close> a value of a type with no JSON
    encoding (a function, a Go channel).

  Values are immutable here: a Go map that is updated in place is a map that is returned
  updated.
\<close>

datatype go_kind =
    K_Bool | K_Int | K_Int8 | K_Int16 | K_Int32 | K_Int64
  | K_Uint | K_Uint8 | K_Uint16 | K_Uint32 | K_Uint64 | K_Float32 | K_Float64
  | K_String | K_Slice | K_Array | K_Map | K_Struct | K_Ptr | K_Interface | K_Func

datatype goval =
    GNil
  | GMissing
  | GBool bool
  | GInt "64 word"
  | GInt64 "64 word"
  | GNum go_kind int
  | GFloat float64
  | GStr string
  | GBytes string
  | GSlice "goval list"
  | GStrs "string list"
  | GFloats "float64 list"
  | GSliceMap "(string \<times> goval) list list"
  | GMap "(string \<times> goval) list"
  | GMapBool "(string \<times> bool) list"
  | GMapInt "(string \<times> int) list"
  | GMapMapInt "(string \<times> (string \<times> int) list) list"
  | GOverwrite goval
  | GOverwriter string goval
  | GStruct string "(string \<times> goval) list" "(string \<times> goval) list"
  | GPtr goval
  | GType go_kind
  | GOther string nat

lemma size_goval_map [termination_simp]:
  "(k, v) \<in> set m \<Longrightarrow> size v < Suc (size_list (size_prod (\<lambda>x. 0) size) m)"
  by (induction m) auto

lemma size_goval_map' [termination_simp]:
  "(k, v) \<in> set m \<Longrightarrow> size v < Suc (size_list (size_prod (size_list size) size) m)"
  by (induction m) auto

text \<open>Type assertions.\<close>

definition as_string :: "goval \<Rightarrow> string option" where
  "as_string v = (case v of GStr s \<Rightarrow> Some s | _ \<Rightarrow> None)"

definition as_bool :: "goval \<Rightarrow> bool option" where
  "as_bool v = (case v of GBool b \<Rightarrow> Some b | _ \<Rightarrow> None)"

definition as_float :: "goval \<Rightarrow> float64 option" where
  "as_float v = (case v of GFloat f \<Rightarrow> Some f | _ \<Rightarrow> None)"

definition as_map :: "goval \<Rightarrow> goval gomap option" where
  "as_map v = (case v of GMap m \<Rightarrow> Some m | _ \<Rightarrow> None)"

definition as_slice :: "goval \<Rightarrow> goval list option" where
  "as_slice v = (case v of GSlice xs \<Rightarrow> Some xs | _ \<Rightarrow> None)"

text \<open>Reading a missing key of a \<^verbatim>\<open>map[string]interface{}\<close> gives nil.\<close>

definition gm_val :: "goval gomap \<Rightarrow> string \<Rightarrow> goval" where
  "gm_val m k = (case map_of m k of None \<Rightarrow> GNil | Some v \<Rightarrow> v)"

lemmas type_assert_defs = as_string_def as_bool_def as_float_def as_map_def as_slice_def

lemma as_string_GStr [simp]: "as_string (GStr s) = Some s" by (simp add: as_string_def)
lemma as_bool_GBool [simp]: "as_bool (GBool b) = Some b" by (simp add: as_bool_def)
lemma as_float_GFloat [simp]: "as_float (GFloat f) = Some f" by (simp add: as_float_def)
lemma as_map_GMap [simp]: "as_map (GMap m) = Some m" by (simp add: as_map_def)
lemma as_slice_GSlice [simp]: "as_slice (GSlice xs) = Some xs" by (simp add: as_slice_def)

lemma as_string_eq_Some: "as_string v = Some s \<longleftrightarrow> v = GStr s"
  by (cases v) (simp_all add: as_string_def)

lemma as_map_eq_Some: "as_map v = Some m \<longleftrightarrow> v = GMap m"
  by (cases v) (simp_all add: as_map_def)

lemma as_slice_eq_Some: "as_slice v = Some xs \<longleftrightarrow> v = GSlice xs"
  by (cases v) (simp_all add: as_slice_def)

lemma gm_val_put [simp]: "gm_val (gm_put k v m) x = (if x = k then v else gm_val m x)"
  by (simp add: gm_val_def gomap_simps)

text \<open>
  Merging two maps: a copy of the first, then every entry of the second. The harness
  writes this loop in several places.
\<close>

definition gm_merge :: "'v gomap \<Rightarrow> 'v gomap \<Rightarrow> 'v gomap" where
  "gm_merge a b = fold (\<lambda>(k, v) m. gm_put k v m) b a"

lemma map_of_gm_merge: "gm_ok b \<Longrightarrow> map_of (gm_merge a b) = map_of a ++ map_of b"
  unfolding gm_merge_def
proof (induction b arbitrary: a)
  case (Cons kv b)
  obtain k v where kv: "kv = (k, v)" by force
  with Cons.prems have new: "map_of b k = None" by (simp add: map_of_eq_None_iff)
  have "map_of (fold (\<lambda>(k, v) m. gm_put k v m) b (gm_put k v a)) = (map_of a)(k \<mapsto> v) ++ map_of b"
    using Cons by (simp add: gomap_simps)
  also have "\<dots> = map_of a ++ (map_of b)(k \<mapsto> v)"
    using new by (auto simp: fun_eq_iff map_add_def split: option.split)
  finally show ?case by (auto simp: kv fun_eq_iff map_add_def split: option.split)
qed simp

lemma gm_ok_merge [simp]: "gm_ok a \<Longrightarrow> gm_ok (gm_merge a b)"
  unfolding gm_merge_def by (induction b arbitrary: a) auto

lemma fold_put_distinct:
  assumes "distinct (gm_keys acc @ gm_keys m)"
  shows "fold (\<lambda>(k, v). gm_put k (f v)) m acc = acc @ map (\<lambda>(k, v). (k, f v)) m"
  using assms
proof (induction m arbitrary: acc)
  case (Cons kv m)
  then have "fst kv \<notin> gm_dom acc" by auto
  then have "gm_put (fst kv) (f (snd kv)) acc = acc @ [(fst kv, f (snd kv))]" by (rule gm_put_new)
  with Cons show ?case by (simp add: split_beta)
qed simp

lemma gm_merge_disjoint: "distinct (gm_keys a @ gm_keys b) \<Longrightarrow> gm_merge a b = a @ b"
  using fold_put_distinct [of a b "\<lambda>v. v"] by (simp add: gm_merge_def)

lemma gm_merge_Nil [simp]: "gm_ok m \<Longrightarrow> gm_merge [] m = m"
  by (simp add: gm_merge_disjoint)

subsection \<open>Decimal integers\<close>

text \<open>The verb \<^verbatim>\<open>%d\<close> of \<^verbatim>\<open>fmt.Sprintf\<close>.\<close>

fun nat_digits :: "nat \<Rightarrow> string" where
  "nat_digits n =
     (if n < 10 then [char_of (48 + n)] else nat_digits (n div 10) @ [char_of (48 + n mod 10)])"

declare nat_digits.simps [simp del]

definition fmt_d :: "int \<Rightarrow> string" where
  "fmt_d i = (if i < 0 then CHR ''-'' # nat_digits (nat (- i)) else nat_digits (nat i))"

subsection \<open>Type names and flag sets\<close>

text \<open>The verb \<^verbatim>\<open>%T\<close>: the name of the dynamic type.\<close>

fun kind_name :: "go_kind \<Rightarrow> string" where
  "kind_name K_Bool = ''bool''"
| "kind_name K_Int = ''int''"
| "kind_name K_Int8 = ''int8''"
| "kind_name K_Int16 = ''int16''"
| "kind_name K_Int32 = ''int32''"
| "kind_name K_Int64 = ''int64''"
| "kind_name K_Uint = ''uint''"
| "kind_name K_Uint8 = ''uint8''"
| "kind_name K_Uint16 = ''uint16''"
| "kind_name K_Uint32 = ''uint32''"
| "kind_name K_Uint64 = ''uint64''"
| "kind_name K_Float32 = ''float32''"
| "kind_name K_Float64 = ''float64''"
| "kind_name K_String = ''string''"
| "kind_name K_Slice = ''slice''"
| "kind_name K_Array = ''array''"
| "kind_name K_Map = ''map''"
| "kind_name K_Struct = ''struct''"
| "kind_name K_Ptr = ''ptr''"
| "kind_name K_Interface = ''interface''"
| "kind_name K_Func = ''func''"

fun fmt_T :: "goval \<Rightarrow> string" where
  "fmt_T GNil = ''<nil>''"
| "fmt_T GMissing = ''*channels.missingSentinel''"
| "fmt_T (GBool b) = ''bool''"
| "fmt_T (GInt i) = ''int''"
| "fmt_T (GInt64 i) = ''int64''"
| "fmt_T (GNum k i) = kind_name k"
| "fmt_T (GFloat f) = ''float64''"
| "fmt_T (GStr s) = ''string''"
| "fmt_T (GBytes s) = ''[]uint8''"
| "fmt_T (GSlice xs) = ''[]interface {}''"
| "fmt_T (GStrs xs) = ''[]string''"
| "fmt_T (GFloats xs) = ''[]float64''"
| "fmt_T (GSliceMap xs) = ''[]map[string]interface {}''"
| "fmt_T (GMap m) = ''map[string]interface {}''"
| "fmt_T (GMapBool m) = ''map[string]bool''"
| "fmt_T (GMapInt m) = ''map[string]int''"
| "fmt_T (GMapMapInt m) = ''map[string]map[string]int''"
| "fmt_T (GOverwrite v) = ''*types.Overwrite''"
| "fmt_T (GOverwriter n v) = n"
| "fmt_T (GStruct n z fs) = n"
| "fmt_T (GPtr v) = ''*'' @ fmt_T v"
| "fmt_T (GType k) = ''*reflect.rtype''"
| "fmt_T (GOther n i) = n"

text \<open>The verb \<^verbatim>\<open>%v\<close> on a \<^verbatim>\<open>map[string]bool\<close>: the keys in order.\<close>

definition fmt_flags :: "bool gomap \<Rightarrow> string" where
  "fmt_flags m =
     ''map['' @ go_join '' '' (map (\<lambda>(k, b). k @ '':'' @ (if b then ''true'' else ''false'')) (sort_key fst m))
     @ '']''"

end
