(* ===== verification/Go_Errors.thy ===== *)
theory Go_Errors
  imports Go_Values
begin

text \<open>
  The error types of the harness (\<^verbatim>\<open>internal/harness/graph/errors/errors.go\<close>) and the
  functions on them. An \<^verbatim>\<open>error\<close> interface value that is not nil is a \<open>go_error\<close>; nil is
  \<open>None\<close> where a function accepts or returns an optional error. The errors that other
  packages define (version conflicts, exhausted retries, store and write errors) are constructors of
  the same type. \<open>Errorf s\<close> is \<^verbatim>\<open>fmt.Errorf\<close> without \<^verbatim>\<open>%w\<close>, \<open>WrapErr p e\<close> is
  \<^verbatim>\<open>fmt.Errorf("<p>%w", e)\<close>, \<open>ContextErr\<close> is \<^verbatim>\<open>ctx.Err()\<close>, and \<open>GoPanic\<close> marks a run-time
  panic, which is no error value but ends the call.

  The formatting of an arbitrary value by the verb \<^verbatim>\<open>%v\<close> is an argument \<open>fv\<close>, the captured
  stack trace an argument \<open>tr\<close>.
\<close>

type_synonym error_code = string

datatype go_error =
    EmptyChannelError string
  | GraphRecursionError int
  | InvalidUpdateError string
  | GraphBubbleUp string "go_error option"
  | GraphInterrupt "goval list"
  | ParentCommand goval
  | EmptyInputError string
  | TaskNotFound string
  | InvalidNodeError string string
  | InvalidEdgeError string string string
  | ChannelNotFoundError string
  | NodeNotFoundError string
  | ErrorContext error_code string "string list" "go_error option" "goval gomap"
  | VersionConflictError int int string string
  | RetryExhaustedError string int "go_error option" goval
  | StoreError string string
  | WriteValidationError string string
  | WriteSkipError string
  | Errorf string
  | WrapErr string go_error
  | ContextErr string
  | GoPanic string

type_synonym 'a go_result = "go_error + 'a"

definition ErrorCodeGraphRecursionLimit :: error_code where
  "ErrorCodeGraphRecursionLimit = ''GRAPH_RECURSION_LIMIT''"

definition ErrorCodeInvalidConcurrentGraphUpdate :: error_code where
  "ErrorCodeInvalidConcurrentGraphUpdate = ''INVALID_CONCURRENT_GRAPH_UPDATE''"

definition ErrorCodeCancellation :: error_code where
  "ErrorCodeCancellation = ''CANCELLATION''"

text \<open>A newline byte.\<close>

definition nl :: string where
  "nl = [CHR 0x0A]"

definition CreateErrorMessage :: "string \<Rightarrow> error_code \<Rightarrow> string" where
  "CreateErrorMessage message errorCode =
     message @ nl @ ''For troubleshooting, visit: https://ragflow/internal/harness/docs/errors/'' @ errorCode"

subsection \<open>Messages\<close>

text \<open>The method \<^verbatim>\<open>Error()\<close> of every error type.\<close>

fun err_Error :: "(goval \<Rightarrow> string) \<Rightarrow> go_error \<Rightarrow> string" where
  "err_Error fv (EmptyChannelError m) = (if m \<noteq> [] then m else ''channel is empty'')"
| "err_Error fv (GraphRecursionError limit) =
     ''Graph recursion limit of '' @ fmt_d limit @ '' reached. To increase the limit, ''
     @ ''run your graph with a config specifying a higher recursion_limit.''"
| "err_Error fv (InvalidUpdateError m) = ''Invalid update: '' @ m"
| "err_Error fv (GraphBubbleUp m cause) =
     (if m \<noteq> [] then m
      else case cause of Some c \<Rightarrow> err_Error fv c | None \<Rightarrow> ''graph bubble up'')"
| "err_Error fv (GraphInterrupt is) =
     ''graph interrupted with '' @ fmt_d (int (length is)) @ '' interrupt(s)''"
| "err_Error fv (ParentCommand c) = ''parent command''"
| "err_Error fv (EmptyInputError m) = (if m \<noteq> [] then m else ''empty input'')"
| "err_Error fv (TaskNotFound t) = ''task not found: '' @ t"
| "err_Error fv (InvalidNodeError n m) = ''invalid node '' @ [CHR 0x27] @ n @ [CHR 0x27] @ '': '' @ m"
| "err_Error fv (InvalidEdgeError f t m) =
     ''invalid edge from '' @ [CHR 0x27] @ f @ [CHR 0x27] @ '' to '' @ [CHR 0x27] @ t @ [CHR 0x27]
     @ '': '' @ m"
| "err_Error fv (ChannelNotFoundError c) = ''channel not found: '' @ c"
| "err_Error fv (NodeNotFoundError n) = ''node not found: '' @ n"
| "err_Error fv (ErrorContext code m st cause md) =
     ''['' @ code @ ''] '' @ m
     @ (case cause of Some c \<Rightarrow> nl @ ''Caused by: '' @ err_Error fv c | None \<Rightarrow> [])
     @ (if st \<noteq> [] then nl @ ''Stack trace:'' @ concat (map (\<lambda>frame. nl @ ''  '' @ frame) st) else [])
     @ (if md \<noteq> [] then nl @ ''Metadata:''
          @ concat (map (\<lambda>(k, v). nl @ ''  '' @ k @ '': '' @ fv v) md) else [])"
| "err_Error fv (VersionConflictError cur ex cid tid) =
     ''version conflict: expected version '' @ fmt_d ex @ '' but found '' @ fmt_d cur
     @ '' for checkpoint '' @ cid @ '' in thread '' @ tid"
| "err_Error fv (RetryExhaustedError n k last_err out) =
     ''node '' @ n @ '' failed after '' @ fmt_d k @ '' attempts: ''
     @ (case last_err of Some c \<Rightarrow> err_Error fv c | None \<Rightarrow> ''<nil>'')"
| "err_Error fv (StoreError m code) = (if code \<noteq> [] then code @ '': '' @ m else m)"
| "err_Error fv (WriteValidationError ch m) = ''write validation error for channel '' @ ch @ '': '' @ m"
| "err_Error fv (WriteSkipError ch) = ''write skipped for channel '' @ ch"
| "err_Error fv (Errorf s) = s"
| "err_Error fv (WrapErr p e) = p @ err_Error fv e"
| "err_Error fv (ContextErr s) = s"
| "err_Error fv (GoPanic s) = s"

text \<open>The method \<^verbatim>\<open>Unwrap()\<close> where the type has one.\<close>

definition err_Unwrap :: "go_error \<Rightarrow> go_error option" where
  "err_Unwrap e =
     (case e of
        ErrorContext code m st cause md \<Rightarrow> cause
      | GraphBubbleUp m cause \<Rightarrow> cause
      | RetryExhaustedError n k last_err out \<Rightarrow> last_err
      | WrapErr p c \<Rightarrow> Some c
      | _ \<Rightarrow> None)"

subsection \<open>Error contexts\<close>

definition NewErrorContext :: "string list \<Rightarrow> error_code \<Rightarrow> string \<Rightarrow> go_error option \<Rightarrow> go_error" where
  "NewErrorContext tr code message cause = ErrorContext code message tr cause []"

definition AddMetadata :: "string \<Rightarrow> goval \<Rightarrow> go_error \<Rightarrow> go_error" where
  "AddMetadata key value ec =
     (case ec of
        ErrorContext code m st cause md \<Rightarrow> ErrorContext code m st cause (gm_put key value md)
      | e \<Rightarrow> e)"

definition GetMetadata :: "go_error \<Rightarrow> string \<Rightarrow> goval option" where
  "GetMetadata ec key =
     (case ec of ErrorContext code m st cause md \<Rightarrow> map_of md key | _ \<Rightarrow> None)"

definition WrapError :: "string list \<Rightarrow> go_error option \<Rightarrow> error_code \<Rightarrow> string \<Rightarrow> go_error option" where
  "WrapError tr err code message =
     (case err of
        None \<Rightarrow> None
      | Some (ErrorContext c m st cause md) \<Rightarrow>
          Some (ErrorContext code message tr (Some (ErrorContext c m st cause md)) [])
      | Some e \<Rightarrow> Some (NewErrorContext tr code message (Some e)))"

subsection \<open>Classification\<close>

fun IsEmptyChannelError :: "go_error \<Rightarrow> bool" where
  "IsEmptyChannelError (EmptyChannelError m) = True"
| "IsEmptyChannelError _ = False"

fun IsGraphRecursionError :: "go_error \<Rightarrow> bool" where
  "IsGraphRecursionError (GraphRecursionError l) = True"
| "IsGraphRecursionError _ = False"

fun IsInvalidUpdateError :: "go_error \<Rightarrow> bool" where
  "IsInvalidUpdateError (InvalidUpdateError m) = True"
| "IsInvalidUpdateError _ = False"

fun IsGraphInterrupt :: "go_error \<Rightarrow> bool" where
  "IsGraphInterrupt (GraphInterrupt is) = True"
| "IsGraphInterrupt _ = False"

fun IsParentCommand :: "go_error \<Rightarrow> bool" where
  "IsParentCommand (ParentCommand c) = True"
| "IsParentCommand _ = False"

fun IsEmptyInputError :: "go_error \<Rightarrow> bool" where
  "IsEmptyInputError (EmptyInputError m) = True"
| "IsEmptyInputError _ = False"

fun IsTaskNotFound :: "go_error \<Rightarrow> bool" where
  "IsTaskNotFound (TaskNotFound t) = True"
| "IsTaskNotFound _ = False"

definition GetErrorCode :: "go_error option \<Rightarrow> error_code" where
  "GetErrorCode err =
     (case err of
        None \<Rightarrow> []
      | Some (ErrorContext code m st cause md) \<Rightarrow> code
      | Some e \<Rightarrow>
          (if IsGraphRecursionError e then ErrorCodeGraphRecursionLimit
           else if IsGraphInterrupt e then ErrorCodeCancellation
           else if IsParentCommand e then ErrorCodeInvalidConcurrentGraphUpdate
           else []))"

definition GetErrorStack :: "go_error option \<Rightarrow> string list" where
  "GetErrorStack err =
     (case err of Some (ErrorContext code m st cause md) \<Rightarrow> st | _ \<Rightarrow> [])"

subsection \<open>Formatting a chain\<close>

text \<open>
  The loop of \<^verbatim>\<open>FormatError\<close>: at most ten rounds, the text of the error that was passed in
  compared with the text of the current one. The arguments are the depth, the text
  of the current error and the text of the error passed in; the rounds left make the
  recursion structural.
\<close>

fun format_loop :: "nat \<Rightarrow> nat \<Rightarrow> string \<Rightarrow> string \<Rightarrow> string" where
  "format_loop 0 depth cur err = []"
| "format_loop (Suc left) depth cur err =
     concat (replicate depth ''  '') @ cur @ nl
     @ (if err \<noteq> cur then format_loop left (Suc depth) err err else [])"

definition FormatError :: "(goval \<Rightarrow> string) \<Rightarrow> go_error option \<Rightarrow> string" where
  "FormatError fv err =
     (case err of None \<Rightarrow> [] | Some e \<Rightarrow> format_loop 10 0 (err_Error fv e) (err_Error fv e))"

definition ChainError :: "(goval \<Rightarrow> string) \<Rightarrow> go_error option \<Rightarrow> go_error option \<Rightarrow> go_error option" where
  "ChainError fv base newErr =
     (case newErr of
        None \<Rightarrow> base
      | Some n \<Rightarrow> (case base of None \<Rightarrow> newErr | Some b \<Rightarrow> Some (WrapErr (err_Error fv n @ '': '') b)))"

subsection \<open>Facts about the error functions\<close>

text \<open>
  \<^verbatim>\<open>errors.Is\<close>/\<^verbatim>\<open>errors.As\<close> walk this chain: the error and everything \<^verbatim>\<open>Unwrap\<close> leads to.
\<close>

inductive unwraps_to :: "go_error \<Rightarrow> go_error \<Rightarrow> bool" where
  self: "unwraps_to e e"
| step: "err_Unwrap e = Some c \<Longrightarrow> unwraps_to c d \<Longrightarrow> unwraps_to e d"

inductive_cases unwraps_toE: "unwraps_to e d"

lemma WrapError_Some:
  "WrapError tr (Some e) code m = Some (ErrorContext code m tr (Some e) [])"
  by (cases e) (simp_all add: WrapError_def NewErrorContext_def)

lemma FormatError_Some: "FormatError fv (Some e) = err_Error fv e @ nl"
  by (simp add: FormatError_def eval_nat_numeral)

lemma GetErrorCode_wrapped: "GetErrorCode (WrapError tr (Some e) code m) = code"
  by (simp add: WrapError_Some GetErrorCode_def)

text \<open>
  Wrapping keeps the whole chain. A wrapped error reports the new code, the caller's
  stack trace and no metadata, it unwraps to the error that was wrapped, and so to everything
  that error unwraps to; a chained error unwraps to its base.
\<close>

theorem WrapError_chain:
  "WrapError tr None code m = None
   \<and> (\<exists>w. WrapError tr (Some e) code m = Some w
        \<and> GetErrorCode (Some w) = code \<and> GetErrorStack (Some w) = tr \<and> GetMetadata w k = None
        \<and> err_Unwrap w = Some e \<and> (unwraps_to w d \<longleftrightarrow> d = w \<or> unwraps_to e d))
   \<and> (\<exists>c. ChainError fv (Some e) (Some n) = Some c \<and> (unwraps_to c d \<longleftrightarrow> d = c \<or> unwraps_to e d))"
proof -
  have walk: "unwraps_to w d \<longleftrightarrow> d = w \<or> unwraps_to e d" if "err_Unwrap w = Some e" for w
    using that by (auto intro: unwraps_to.intros elim: unwraps_toE)
  show ?thesis
    by (simp add: WrapError_Some GetErrorCode_def GetErrorStack_def GetMetadata_def ChainError_def
        err_Unwrap_def walk) (simp add: WrapError_def)
qed

end
