(* ===== verification/Channels.thy ===== *)
theory Channels
  imports Go_Errors
begin

text \<open>
  The channel types of \<^verbatim>\<open>internal/harness/graph/channels\<close>: the state of one named slot of
  the shared graph state. Each struct is a record that extends \<open>base_channel\<close>
  (Go's embedded \<^verbatim>\<open>BaseChannel\<close>), each method a function that takes the record and returns
  the updated one where the method mutates it. The Go interface \<^verbatim>\<open>Channel\<close> is the
  datatype \<open>channel\<close> with one constructor per implementation, and the interface
  methods dispatch on it (\<open>ch_Get\<close>, \<open>ch_Update\<close> and so on).

  \<^verbatim>\<open>Get\<close> returns the channel too, since \<^verbatim>\<open>EphemeralValue.Get\<close> clears it, and \<^verbatim>\<open>Update\<close>
  returns the channel also beside an error, since several implementations have already
  written part of the update when they fail. Mutexes are not modelled: each method is one
  atomic step.
\<close>

section \<open>The shared part\<close>

record base_channel =
  Key :: string
  Typ :: goval
  Version :: int

definition IsMissing :: "goval \<Rightarrow> bool" where
  "IsMissing v \<longleftrightarrow> (case v of GMissing \<Rightarrow> True | _ \<Rightarrow> False)"

lemma IsMissing_iff [simp]: "IsMissing v \<longleftrightarrow> v = GMissing"
  by (cases v) (simp_all add: IsMissing_def)

text \<open>The error of an empty channel, with no message of its own.\<close>

abbreviation emptyErr :: "go_error" where
  "emptyErr \<equiv> EmptyChannelError []"

section \<open>Single-value channels\<close>

subsection \<open>LastValue\<close>

record last_value = base_channel +
  lv_value :: goval

definition NewLastValue :: "goval \<Rightarrow> last_value" where
  "NewLastValue typ = \<lparr>Key = [], Typ = typ, Version = 0, lv_value = GMissing\<rparr>"

definition lv_Get :: "last_value \<Rightarrow> goval go_result \<times> last_value" where
  "lv_Get c = (if IsMissing (lv_value c) then Inl emptyErr else Inr (lv_value c), c)"

definition lv_IsAvailable :: "last_value \<Rightarrow> bool" where
  "lv_IsAvailable c \<longleftrightarrow> \<not> IsMissing (lv_value c)"

definition lv_Update :: "last_value \<Rightarrow> goval list \<Rightarrow> bool go_result \<times> last_value" where
  "lv_Update c values =
     (if length values = 0 then (Inr False, c)
      else if length values \<noteq> 1 then
        (Inl (InvalidUpdateError (''At key '' @ [CHR 0x27] @ Key c @ [CHR 0x27]
           @ '': Can receive only one value per step. Use a reducer to handle multiple values.'')), c)
      else (Inr True, c\<lparr>lv_value := last values\<rparr>))"

definition lv_Copy :: "last_value \<Rightarrow> last_value" where
  "lv_Copy c = (NewLastValue (Typ c))\<lparr>Key := Key c, lv_value := lv_value c\<rparr>"

definition lv_Checkpoint :: "last_value \<Rightarrow> goval" where
  "lv_Checkpoint c = lv_value c"

definition lv_FromCheckpoint :: "last_value \<Rightarrow> goval \<Rightarrow> last_value" where
  "lv_FromCheckpoint c cp =
     (let newCh = (NewLastValue (Typ c))\<lparr>Key := Key c\<rparr>
      in if \<not> IsMissing cp then newCh\<lparr>lv_value := cp\<rparr> else newCh)"

lemmas lv_defs [chan_defs] = NewLastValue_def lv_Get_def lv_IsAvailable_def lv_Update_def lv_Copy_def
  lv_Checkpoint_def lv_FromCheckpoint_def

subsection \<open>AnyValue\<close>

record any_value = base_channel +
  av_value :: goval

definition NewAnyValue :: "goval \<Rightarrow> any_value" where
  "NewAnyValue typ = \<lparr>Key = [], Typ = typ, Version = 0, av_value = GMissing\<rparr>"

definition av_Get :: "any_value \<Rightarrow> goval go_result \<times> any_value" where
  "av_Get c = (if IsMissing (av_value c) then Inl emptyErr else Inr (av_value c), c)"

definition av_IsAvailable :: "any_value \<Rightarrow> bool" where
  "av_IsAvailable c \<longleftrightarrow> \<not> IsMissing (av_value c)"

definition av_Update :: "any_value \<Rightarrow> goval list \<Rightarrow> bool go_result \<times> any_value" where
  "av_Update c values =
     (if length values = 0 then (Inr False, c) else (Inr True, c\<lparr>av_value := last values\<rparr>))"

definition av_Copy :: "any_value \<Rightarrow> any_value" where
  "av_Copy c = (NewAnyValue (Typ c))\<lparr>Key := Key c, av_value := av_value c\<rparr>"

definition av_Checkpoint :: "any_value \<Rightarrow> goval" where
  "av_Checkpoint c = av_value c"

definition av_FromCheckpoint :: "any_value \<Rightarrow> goval \<Rightarrow> any_value" where
  "av_FromCheckpoint c cp =
     (let newCh = (NewAnyValue (Typ c))\<lparr>Key := Key c\<rparr>
      in if \<not> IsMissing cp then newCh\<lparr>av_value := cp\<rparr> else newCh)"

lemmas av_defs [chan_defs] = NewAnyValue_def av_Get_def av_IsAvailable_def av_Update_def av_Copy_def
  av_Checkpoint_def av_FromCheckpoint_def

subsection \<open>EphemeralValue\<close>

record ephemeral_value = base_channel +
  ev_value :: goval
  ev_guard :: bool

definition NewEphemeralValue :: "goval \<Rightarrow> bool \<Rightarrow> ephemeral_value" where
  "NewEphemeralValue typ guard =
     \<lparr>Key = [], Typ = typ, Version = 0, ev_value = GMissing, ev_guard = guard\<rparr>"

definition ev_Get :: "ephemeral_value \<Rightarrow> goval go_result \<times> ephemeral_value" where
  "ev_Get c =
     (if IsMissing (ev_value c)
      then (if ev_guard c then Inl emptyErr else Inr GNil, c)
      else (Inr (ev_value c), c\<lparr>ev_value := GMissing\<rparr>))"

definition ev_IsAvailable :: "ephemeral_value \<Rightarrow> bool" where
  "ev_IsAvailable c \<longleftrightarrow> \<not> IsMissing (ev_value c)"

definition ev_Update :: "ephemeral_value \<Rightarrow> goval list \<Rightarrow> bool go_result \<times> ephemeral_value" where
  "ev_Update c values =
     (if length values = 0 then (Inr False, c) else (Inr True, c\<lparr>ev_value := last values\<rparr>))"

definition ev_Copy :: "ephemeral_value \<Rightarrow> ephemeral_value" where
  "ev_Copy c = (NewEphemeralValue (Typ c) (ev_guard c))\<lparr>Key := Key c, ev_value := ev_value c\<rparr>"

definition ev_Checkpoint :: "ephemeral_value \<Rightarrow> goval" where
  "ev_Checkpoint c = ev_value c"

definition ev_FromCheckpoint :: "ephemeral_value \<Rightarrow> goval \<Rightarrow> ephemeral_value" where
  "ev_FromCheckpoint c cp =
     (let newCh = (NewEphemeralValue (Typ c) (ev_guard c))\<lparr>Key := Key c\<rparr>
      in if \<not> IsMissing cp then newCh\<lparr>ev_value := cp\<rparr> else newCh)"

lemmas ev_defs [chan_defs] = NewEphemeralValue_def ev_Get_def ev_IsAvailable_def ev_Update_def
  ev_Copy_def ev_Checkpoint_def ev_FromCheckpoint_def

subsection \<open>UntrackedValue\<close>

record untracked_value = base_channel +
  uv_value :: goval

definition NewUntrackedValue :: "goval \<Rightarrow> untracked_value" where
  "NewUntrackedValue typ = \<lparr>Key = [], Typ = typ, Version = 0, uv_value = GMissing\<rparr>"

definition uv_Get :: "untracked_value \<Rightarrow> goval go_result \<times> untracked_value" where
  "uv_Get c = (if IsMissing (uv_value c) then Inl emptyErr else Inr (uv_value c), c)"

definition uv_IsAvailable :: "untracked_value \<Rightarrow> bool" where
  "uv_IsAvailable c \<longleftrightarrow> \<not> IsMissing (uv_value c)"

definition uv_Update :: "untracked_value \<Rightarrow> goval list \<Rightarrow> bool go_result \<times> untracked_value" where
  "uv_Update c values =
     (if length values = 0 then (Inr False, c) else (Inr True, c\<lparr>uv_value := last values\<rparr>))"

definition uv_Copy :: "untracked_value \<Rightarrow> untracked_value" where
  "uv_Copy c = (NewUntrackedValue (Typ c))\<lparr>Key := Key c\<rparr>"

definition uv_Checkpoint :: "untracked_value \<Rightarrow> goval" where
  "uv_Checkpoint c = GMissing"

definition uv_FromCheckpoint :: "untracked_value \<Rightarrow> goval \<Rightarrow> untracked_value" where
  "uv_FromCheckpoint c cp = NewUntrackedValue (Typ c)"

lemmas uv_defs [chan_defs] = NewUntrackedValue_def uv_Get_def uv_IsAvailable_def uv_Update_def
  uv_Copy_def uv_Checkpoint_def uv_FromCheckpoint_def

section \<open>Topic\<close>

record topic = base_channel +
  tp_values :: "goval list"
  tp_accumulate :: bool

definition NewTopic :: "goval \<Rightarrow> bool \<Rightarrow> topic" where
  "NewTopic typ accumulate =
     \<lparr>Key = [], Typ = typ, Version = 0, tp_values = [], tp_accumulate = accumulate\<rparr>"

definition tp_Get :: "topic \<Rightarrow> goval go_result \<times> topic" where
  "tp_Get c = (if length (tp_values c) = 0 then Inl emptyErr else Inr (GSlice (tp_values c)), c)"

definition tp_IsAvailable :: "topic \<Rightarrow> bool" where
  "tp_IsAvailable c \<longleftrightarrow> 0 < length (tp_values c)"

fun flatten :: "goval list \<Rightarrow> goval list" where
  "flatten [] = []"
| "flatten (v # vs) =
     (case as_slice v of Some list \<Rightarrow> list @ flatten vs | None \<Rightarrow> v # flatten vs)"

definition tp_Update :: "topic \<Rightarrow> goval list \<Rightarrow> bool go_result \<times> topic" where
  "tp_Update c values =
     (let updated = (\<not> tp_accumulate c \<and> 0 < length (tp_values c));
          kept = (if tp_accumulate c then tp_values c else []);
          flatValues = flatten values
      in if 0 < length flatValues
         then (Inr True, c\<lparr>tp_values := kept @ flatValues\<rparr>)
         else (Inr updated, c\<lparr>tp_values := kept\<rparr>))"

definition tp_Copy :: "topic \<Rightarrow> topic" where
  "tp_Copy c = (NewTopic (Typ c) (tp_accumulate c))\<lparr>Key := Key c, tp_values := tp_values c\<rparr>"

definition tp_Checkpoint :: "topic \<Rightarrow> goval" where
  "tp_Checkpoint c = (if length (tp_values c) = 0 then GMissing else GSlice (tp_values c))"

definition tp_FromCheckpoint :: "topic \<Rightarrow> goval \<Rightarrow> topic" where
  "tp_FromCheckpoint c cp =
     (let newCh = (NewTopic (Typ c) (tp_accumulate c))\<lparr>Key := Key c\<rparr>
      in if \<not> IsMissing cp
         then (case as_slice cp of Some v \<Rightarrow> newCh\<lparr>tp_values := v\<rparr> | None \<Rightarrow> newCh)
         else newCh)"

lemmas tp_defs [chan_defs] = NewTopic_def tp_Get_def tp_IsAvailable_def tp_Update_def tp_Copy_def
  tp_Checkpoint_def tp_FromCheckpoint_def

section \<open>BinaryOperatorAggregate\<close>

type_synonym binary_operator = "goval \<Rightarrow> goval \<Rightarrow> goval"

record binop_channel = base_channel +
  bo_value :: goval
  bo_operator :: binary_operator

text \<open>The zero value of an integer or float kind, as \<^verbatim>\<open>reflect.Zero(t).Interface()\<close> gives it.\<close>

definition zero_of_kind :: "go_kind \<Rightarrow> goval" where
  "zero_of_kind k =
     (case k of
        K_Bool \<Rightarrow> GBool False
      | K_Int \<Rightarrow> GInt 0
      | K_Int64 \<Rightarrow> GInt64 0
      | K_Float64 \<Rightarrow> GFloat (F_Fin 0)
      | K_String \<Rightarrow> GStr []
      | _ \<Rightarrow> GNum k 0)"

text \<open>
  The argument is a value whose dynamic type is inspected. A \<^verbatim>\<open>reflect.Type\<close> passed by
  mistake is a pointer to the type descriptor, and its zero value is an empty
  descriptor, here \<open>GStruct ''reflect.rtype''\<close>; a pointer to a pointer gives a nil pointer, here \<open>GOther ''nil pointer''\<close>.
\<close>

fun createZeroValue :: "goval \<Rightarrow> goval" where
  "createZeroValue GNil = GMissing"
| "createZeroValue GMissing = GStruct ''channels.missingSentinel'' [] []"
| "createZeroValue (GBool b) = GBool False"
| "createZeroValue (GInt i) = GInt 0"
| "createZeroValue (GInt64 i) = GInt64 0"
| "createZeroValue (GNum k i) = zero_of_kind k"
| "createZeroValue (GFloat f) = GFloat (F_Fin 0)"
| "createZeroValue (GStr s) = GStr []"
| "createZeroValue (GBytes s) = GBytes []"
| "createZeroValue (GSlice xs) = GSlice []"
| "createZeroValue (GStrs xs) = GStrs []"
| "createZeroValue (GFloats xs) = GFloats []"
| "createZeroValue (GSliceMap xs) = GSliceMap []"
| "createZeroValue (GMap m) = GMap []"
| "createZeroValue (GMapBool m) = GMapBool []"
| "createZeroValue (GMapInt m) = GMapInt []"
| "createZeroValue (GMapMapInt m) = GMapMapInt []"
| "createZeroValue (GOverwrite v) = GStruct ''types.Overwrite'' [(''Value'', GNil)] [(''Value'', GNil)]"
| "createZeroValue (GOverwriter n v) = GOther n 0"
| "createZeroValue (GStruct n z fs) = GStruct n z z"
| "createZeroValue (GPtr v) =
     (case v of
        GPtr w \<Rightarrow> GOther ''nil pointer'' 0
      | GOverwrite w \<Rightarrow> GOther ''nil pointer'' 0
      | GMissing \<Rightarrow> GOther ''nil pointer'' 0
      | GType k \<Rightarrow> GOther ''nil pointer'' 0
      | GNil \<Rightarrow> GNil
      | _ \<Rightarrow> createZeroValue v)"
| "createZeroValue (GType k) = GStruct ''reflect.rtype'' [] []"
| "createZeroValue (GOther n i) = GOther n 0"

definition NewBinaryOperatorAggregate :: "goval \<Rightarrow> binary_operator \<Rightarrow> binop_channel" where
  "NewBinaryOperatorAggregate typ operator =
     \<lparr>Key = [], Typ = typ, Version = 0, bo_value = createZeroValue typ, bo_operator = operator\<rparr>"

definition bo_Get :: "binop_channel \<Rightarrow> goval go_result \<times> binop_channel" where
  "bo_Get c = (if IsMissing (bo_value c) then Inl emptyErr else Inr (bo_value c), c)"

definition bo_IsAvailable :: "binop_channel \<Rightarrow> bool" where
  "bo_IsAvailable c \<longleftrightarrow> \<not> IsMissing (bo_value c)"

text \<open>\<open>None\<close> for no wrapper, \<open>Some v\<close> for a wrapper around \<open>v\<close>.\<close>

definition isOverwrite :: "goval \<Rightarrow> goval option" where
  "isOverwrite value =
     (case value of
        GNil \<Rightarrow> None
      | GOverwriter n v \<Rightarrow> Some v
      | GMap m \<Rightarrow> (if length m = 1 then map_of m ''__overwrite__'' else None)
      | _ \<Rightarrow> None)"

fun bo_update_loop :: "binary_operator \<Rightarrow> goval \<Rightarrow> bool \<Rightarrow> goval list \<Rightarrow> bool go_result \<times> goval" where
  "bo_update_loop f cur seenOverwrite [] = (Inr True, cur)"
| "bo_update_loop f cur seenOverwrite (value # values) =
     (case isOverwrite value of
        Some overwriteValue \<Rightarrow>
          (if seenOverwrite
           then (Inl (InvalidUpdateError ''Can receive only one Overwrite value per super-step.''), cur)
           else bo_update_loop f overwriteValue True values)
      | None \<Rightarrow> bo_update_loop f (if seenOverwrite then cur else f cur value) seenOverwrite values)"

definition bo_Update :: "binop_channel \<Rightarrow> goval list \<Rightarrow> bool go_result \<times> binop_channel" where
  "bo_Update c values =
     (if length values = 0 then (Inr False, c)
      else let (start, rest) = (if IsMissing (bo_value c) then (hd values, tl values)
                                else (bo_value c, values));
               (r, v) = bo_update_loop (bo_operator c) start False rest
           in (r, c\<lparr>bo_value := v\<rparr>))"

definition bo_Copy :: "binop_channel \<Rightarrow> binop_channel" where
  "bo_Copy c =
     (NewBinaryOperatorAggregate (Typ c) (bo_operator c))\<lparr>Key := Key c, bo_value := bo_value c\<rparr>"

definition bo_Checkpoint :: "binop_channel \<Rightarrow> goval" where
  "bo_Checkpoint c = bo_value c"

definition bo_FromCheckpoint :: "binop_channel \<Rightarrow> goval \<Rightarrow> binop_channel" where
  "bo_FromCheckpoint c cp =
     (let newCh = (NewBinaryOperatorAggregate (Typ c) (bo_operator c))\<lparr>Key := Key c\<rparr>
      in if \<not> IsMissing cp then newCh\<lparr>bo_value := cp\<rparr> else newCh)"

lemmas bo_defs [chan_defs] = NewBinaryOperatorAggregate_def bo_Get_def bo_IsAvailable_def
  bo_Copy_def bo_Checkpoint_def bo_FromCheckpoint_def

text \<open>The operators that come with the package; \<open>fs\<close> is \<^verbatim>\<open>fmt.Sprint\<close> on values that are no strings.\<close>

definition StringConcat :: "(goval \<Rightarrow> string) \<Rightarrow> binary_operator" where
  "StringConcat fs a b =
     (case (as_string a, as_string b) of
        (Some sa, Some sb) \<Rightarrow> GStr (sa @ sb)
      | _ \<Rightarrow> GStr ((case as_string a of Some s \<Rightarrow> s | None \<Rightarrow> fs a)
               @ (case as_string b of Some s \<Rightarrow> s | None \<Rightarrow> fs b)))"

definition IntAdd :: binary_operator where
  "IntAdd a b =
     (case (a, b) of
        (GInt ai, GInt bi) \<Rightarrow> GInt (ai + bi)
      | (GFloat af, GFloat bf) \<Rightarrow> GFloat (f_add af bf)
      | _ \<Rightarrow> a)"

definition ListAppend :: binary_operator where
  "ListAppend a b =
     (case a of
        GSlice al \<Rightarrow> (case b of GSlice bl \<Rightarrow> GSlice (al @ bl) | _ \<Rightarrow> GSlice (al @ [b]))
      | _ \<Rightarrow> GSlice [a, b])"

end
