(* ===== verification/Barrier_Channels.thy ===== *)
theory Barrier_Channels
  imports Channels
begin

text \<open>
  The channels of \<^verbatim>\<open>barrier.go\<close>: \<^verbatim>\<open>NamedBarrierValue\<close> becomes available when every expected
  name has been written, \<^verbatim>\<open>NamedBarrierValueAfterFinish\<close> when it has also been told that
  the run finishes, and \<^verbatim>\<open>LastValueAfterFinish\<close> holds a value back until then. The
  expected names and the names seen are \<^verbatim>\<open>map[string]bool\<close>. The two barrier types have
  the same update loop and the same matching test in the source; they share them here.
\<close>

section \<open>NamedBarrierValue\<close>

record named_barrier = base_channel +
  nb_names :: "bool gomap"
  nb_seen :: "bool gomap"

definition barrier_names :: "string list \<Rightarrow> bool gomap" where
  "barrier_names waitFor = fold (\<lambda>name m. gm_put name True m) waitFor []"

definition NewNamedBarrierValue :: "goval \<Rightarrow> string list \<Rightarrow> named_barrier" where
  "NewNamedBarrierValue typ waitFor =
     \<lparr>Key = [], Typ = typ, Version = 0, nb_names = barrier_names waitFor, nb_seen = []\<rparr>"

definition namesMatchSeen :: "bool gomap \<Rightarrow> bool gomap \<Rightarrow> bool" where
  "namesMatchSeen names seen \<longleftrightarrow>
     (if length names \<noteq> length seen then False
      else list_all (\<lambda>(name, b). gm_bool seen name) names)"

definition nb_Get :: "named_barrier \<Rightarrow> goval go_result \<times> named_barrier" where
  "nb_Get c = (if \<not> namesMatchSeen (nb_names c) (nb_seen c) then Inl emptyErr else Inr GNil, c)"

definition nb_IsAvailable :: "named_barrier \<Rightarrow> bool" where
  "nb_IsAvailable c \<longleftrightarrow> namesMatchSeen (nb_names c) (nb_seen c)"

fun barrier_update_loop ::
  "bool gomap \<Rightarrow> bool gomap \<Rightarrow> bool \<Rightarrow> goval list \<Rightarrow> bool go_result \<times> bool gomap" where
  "barrier_update_loop names seen updated [] = (Inr updated, seen)"
| "barrier_update_loop names seen updated (val # vals) =
     (case as_string val of
        None \<Rightarrow> (Inl (InvalidUpdateError (''value must be a string, got '' @ fmt_T val)), seen)
      | Some name \<Rightarrow>
          (case map_of names name of
             Some b \<Rightarrow>
               (if \<not> gm_bool seen name
                then barrier_update_loop names (gm_put name True seen) True vals
                else barrier_update_loop names seen updated vals)
           | None \<Rightarrow>
               (Inl (InvalidUpdateError (''value '' @ [CHR 0x27] @ name @ [CHR 0x27]
                  @ '' not in expected names '' @ fmt_flags names)), seen)))"

definition nb_Update :: "named_barrier \<Rightarrow> goval list \<Rightarrow> bool go_result \<times> named_barrier" where
  "nb_Update c values =
     (if length values = 0 then (Inr False, c)
      else let (r, seen) = barrier_update_loop (nb_names c) (nb_seen c) False values
           in (r, c\<lparr>nb_seen := seen\<rparr>))"

definition nb_Copy :: "named_barrier \<Rightarrow> named_barrier" where
  "nb_Copy c = (NewNamedBarrierValue (Typ c) [])
     \<lparr>Key := Key c, nb_names := gm_merge [] (nb_names c), nb_seen := gm_merge [] (nb_seen c)\<rparr>"

definition nb_Checkpoint :: "named_barrier \<Rightarrow> goval" where
  "nb_Checkpoint c = (if length (nb_seen c) = 0 then GMissing else GMapBool (gm_merge [] (nb_seen c)))"

text \<open>The loop over a decoded JSON map keeps the entries that hold a bool.\<close>

definition seen_of_map :: "goval gomap \<Rightarrow> bool gomap" where
  "seen_of_map v =
     fold (\<lambda>(k, bv) m. case as_bool bv of Some b \<Rightarrow> gm_put k b m | None \<Rightarrow> m) v []"

definition restore_seen :: "goval \<Rightarrow> bool gomap" where
  "restore_seen cp =
     (case cp of
        GMapBool v \<Rightarrow> gm_merge [] v
      | GMap v \<Rightarrow> seen_of_map v
      | _ \<Rightarrow> [])"

definition nb_FromCheckpoint :: "named_barrier \<Rightarrow> goval \<Rightarrow> named_barrier" where
  "nb_FromCheckpoint c cp =
     (let newCh = (NewNamedBarrierValue (Typ c) [])\<lparr>Key := Key c, nb_names := gm_merge [] (nb_names c)\<rparr>
      in if cp \<noteq> GNil \<and> \<not> IsMissing cp then newCh\<lparr>nb_seen := restore_seen cp\<rparr> else newCh)"

definition nb_Finish :: "named_barrier \<Rightarrow> bool \<times> named_barrier" where
  "nb_Finish c = (if 0 < length (nb_seen c) then (True, c\<lparr>nb_seen := []\<rparr>) else (False, c))"

definition nb_Consume :: "named_barrier \<Rightarrow> bool \<times> named_barrier" where
  "nb_Consume c =
     (if namesMatchSeen (nb_names c) (nb_seen c) \<and> 0 < length (nb_seen c)
      then (True, c\<lparr>nb_seen := []\<rparr>) else (False, c))"

lemmas nb_defs [chan_defs] = NewNamedBarrierValue_def nb_Get_def nb_IsAvailable_def
  nb_Copy_def nb_Checkpoint_def nb_FromCheckpoint_def nb_Finish_def nb_Consume_def

section \<open>NamedBarrierValueAfterFinish\<close>

record named_barrier_af = base_channel +
  nf_names :: "bool gomap"
  nf_seen :: "bool gomap"
  nf_finished :: bool

definition NewNamedBarrierValueAfterFinish :: "goval \<Rightarrow> string list \<Rightarrow> named_barrier_af" where
  "NewNamedBarrierValueAfterFinish typ waitFor =
     \<lparr>Key = [], Typ = typ, Version = 0, nf_names = barrier_names waitFor, nf_seen = [],
      nf_finished = False\<rparr>"

definition nf_Get :: "named_barrier_af \<Rightarrow> goval go_result \<times> named_barrier_af" where
  "nf_Get c =
     (if \<not> nf_finished c \<or> \<not> namesMatchSeen (nf_names c) (nf_seen c)
      then Inl emptyErr else Inr GNil, c)"

definition nf_IsAvailable :: "named_barrier_af \<Rightarrow> bool" where
  "nf_IsAvailable c \<longleftrightarrow> nf_finished c \<and> namesMatchSeen (nf_names c) (nf_seen c)"

definition nf_Update :: "named_barrier_af \<Rightarrow> goval list \<Rightarrow> bool go_result \<times> named_barrier_af" where
  "nf_Update c values =
     (if length values = 0 then (Inr False, c)
      else let (r, seen) = barrier_update_loop (nf_names c) (nf_seen c) False values
           in (r, c\<lparr>nf_seen := seen\<rparr>))"

definition nf_Copy :: "named_barrier_af \<Rightarrow> named_barrier_af" where
  "nf_Copy c = (NewNamedBarrierValueAfterFinish (Typ c) [])
     \<lparr>Key := Key c, nf_names := gm_merge [] (nf_names c), nf_seen := gm_merge [] (nf_seen c),
      nf_finished := nf_finished c\<rparr>"

definition nf_Checkpoint :: "named_barrier_af \<Rightarrow> goval" where
  "nf_Checkpoint c =
     (if length (nf_seen c) = 0 \<and> \<not> nf_finished c then GMissing
      else GMap [(''seen'', GMapBool (nf_seen c)), (''finished'', GBool (nf_finished c))])"

definition nf_FromCheckpoint :: "named_barrier_af \<Rightarrow> goval \<Rightarrow> named_barrier_af" where
  "nf_FromCheckpoint c cp =
     (let newCh = (NewNamedBarrierValueAfterFinish (Typ c) [])
                    \<lparr>Key := Key c, nf_names := gm_merge [] (nf_names c)\<rparr>
      in if cp \<noteq> GNil \<and> \<not> IsMissing cp
         then (case as_map cp of
                 Some m \<Rightarrow>
                   (let ch = newCh\<lparr>nf_seen := restore_seen (gm_val m ''seen'')\<rparr>
                    in case as_bool (gm_val m ''finished'') of
                         Some finished \<Rightarrow> ch\<lparr>nf_finished := finished\<rparr>
                       | None \<Rightarrow> ch)
               | None \<Rightarrow> newCh)
         else newCh)"

definition nf_Finish :: "named_barrier_af \<Rightarrow> bool \<times> named_barrier_af" where
  "nf_Finish c =
     (if \<not> nf_finished c \<and> namesMatchSeen (nf_names c) (nf_seen c)
      then (True, c\<lparr>nf_finished := True\<rparr>) else (False, c))"

definition nf_Consume :: "named_barrier_af \<Rightarrow> bool \<times> named_barrier_af" where
  "nf_Consume c =
     (if nf_finished c \<and> namesMatchSeen (nf_names c) (nf_seen c) \<and> 0 < length (nf_seen c)
      then (True, c\<lparr>nf_finished := False, nf_seen := []\<rparr>) else (False, c))"

lemmas nf_defs [chan_defs] = NewNamedBarrierValueAfterFinish_def nf_Get_def nf_IsAvailable_def
  nf_Copy_def nf_Checkpoint_def nf_FromCheckpoint_def nf_Finish_def nf_Consume_def

section \<open>LastValueAfterFinish\<close>

record last_value_af = base_channel +
  la_value :: goval
  la_finished :: bool

definition NewLastValueAfterFinish :: "goval \<Rightarrow> last_value_af" where
  "NewLastValueAfterFinish typ =
     \<lparr>Key = [], Typ = typ, Version = 0, la_value = GMissing, la_finished = False\<rparr>"

definition la_Get :: "last_value_af \<Rightarrow> goval go_result \<times> last_value_af" where
  "la_Get c =
     (if \<not> la_finished c then Inl emptyErr
      else if IsMissing (la_value c) then Inl emptyErr
      else Inr (la_value c), c)"

definition la_IsAvailable :: "last_value_af \<Rightarrow> bool" where
  "la_IsAvailable c \<longleftrightarrow> la_finished c \<and> \<not> IsMissing (la_value c)"

definition la_Update :: "last_value_af \<Rightarrow> goval list \<Rightarrow> bool go_result \<times> last_value_af" where
  "la_Update c values =
     (case values of
        [] \<Rightarrow> (Inr False, c)
      | v # rest \<Rightarrow>
          (if 1 < length values
           then (Inl (InvalidUpdateError
                   ''Can receive only one value per step. Use a reducer to handle multiple values.''), c)
           else (Inr True, c\<lparr>la_value := v\<rparr>)))"

definition la_Copy :: "last_value_af \<Rightarrow> last_value_af" where
  "la_Copy c = (NewLastValueAfterFinish (Typ c))
     \<lparr>Key := Key c, la_value := la_value c, la_finished := la_finished c\<rparr>"

definition la_Checkpoint :: "last_value_af \<Rightarrow> goval" where
  "la_Checkpoint c = la_value c"

definition la_FromCheckpoint :: "last_value_af \<Rightarrow> goval \<Rightarrow> last_value_af" where
  "la_FromCheckpoint c cp =
     (let newCh = (NewLastValueAfterFinish (Typ c))\<lparr>Key := Key c\<rparr>
      in if \<not> IsMissing cp then newCh\<lparr>la_value := cp\<rparr> else newCh)"

definition la_Finish :: "last_value_af \<Rightarrow> bool \<times> last_value_af" where
  "la_Finish c = (if \<not> la_finished c then (True, c\<lparr>la_finished := True\<rparr>) else (False, c))"

definition la_Consume :: "last_value_af \<Rightarrow> bool \<times> last_value_af" where
  "la_Consume c = (False, c)"

lemmas la_defs [chan_defs] = NewLastValueAfterFinish_def la_Get_def la_IsAvailable_def la_Copy_def
  la_Checkpoint_def la_FromCheckpoint_def la_Finish_def la_Consume_def

section \<open>The barrier as a set of names\<close>

text \<open>
  The abstract barrier is a pair of sets. A well-formed barrier has distinct keys, only
  true flags, and has seen only names it expects.
\<close>

definition barrier_ok :: "bool gomap \<Rightarrow> bool gomap \<Rightarrow> bool" where
  "barrier_ok names seen \<longleftrightarrow>
     gm_ok names \<and> gm_ok seen \<and> (\<forall>(k, b) \<in> set seen. b) \<and> gm_dom seen \<subseteq> gm_dom names"

lemma barrier_names_ok: "gm_ok (barrier_names ws)" "gm_dom (barrier_names ws) = set ws"
proof -
  have "gm_ok m \<Longrightarrow> gm_ok (fold (\<lambda>name m. gm_put name True m) ws m)
      \<and> gm_dom (fold (\<lambda>name m. gm_put name True m) ws m) = gm_dom m \<union> set ws"
    for m :: "bool gomap"
  proof (induction ws arbitrary: m)
    case (Cons w ws)
    from Cons.IH [of "gm_put w True m"] Cons.prems show ?case
      using gm_keys_put [of w True m] by auto
  qed simp
  from this [of "[]"] show "gm_ok (barrier_names ws)" "gm_dom (barrier_names ws) = set ws"
    by (simp_all add: barrier_names_def)
qed

lemma barrier_ok_new: "barrier_ok (barrier_names ws) []"
  by (simp add: barrier_ok_def barrier_names_ok)

lemma gm_bool_seen: "barrier_ok names seen \<Longrightarrow> gm_bool seen k \<longleftrightarrow> k \<in> gm_dom seen"
proof (cases "map_of seen k")
  case None
  then have "k \<notin> gm_dom seen" by (simp add: map_of_eq_None_iff)
  with None show ?thesis by (simp add: gm_bool_def)
next
  case (Some b)
  assume "barrier_ok names seen"
  with Some have b by (auto simp: barrier_ok_def dest: map_of_SomeD)
  with Some map_of_Some_key [OF Some] show ?thesis by (simp add: gm_bool_def)
qed

lemma namesMatchSeen_iff:
  assumes "barrier_ok names seen"
  shows "namesMatchSeen names seen \<longleftrightarrow> gm_dom seen = gm_dom names"
proof -
  have sub: "gm_dom seen \<subseteq> gm_dom names"
    and ok: "gm_ok names" "gm_ok seen"
    using assms by (auto simp: barrier_ok_def)
  have all: "list_all (\<lambda>(name, b). gm_bool seen name) names \<longleftrightarrow> gm_dom names \<subseteq> gm_dom seen"
    by (simp add: list_all_iff split_def gm_bool_seen [OF assms] image_subset_iff)
  have "length names = length seen" if "gm_dom seen = gm_dom names"
    using ok that by (simp add: length_gm_ok)
  with sub all show ?thesis
    by (auto simp: namesMatchSeen_def)
qed

lemma barrier_ok_put:
  "barrier_ok names seen \<Longrightarrow> k \<in> gm_dom names \<Longrightarrow> barrier_ok names (gm_put k True seen)"
  using gm_keys_put [of k True seen] by (auto simp: barrier_ok_def dest: gm_put_mem)

lemma barrier_update_loop_ok:
  "barrier_ok names seen \<Longrightarrow> barrier_update_loop names seen u vs = (r, seen') \<Longrightarrow> barrier_ok names seen'"
proof (induction names seen u vs rule: barrier_update_loop.induct)
  case (2 names seen updated val vals)
  then show ?case
    by (auto split: option.splits if_splits dest: barrier_ok_put [OF _ map_of_Some_key])
qed simp

text \<open>
  An update writes a prefix of the values: all of them when it succeeds, and the ones before
  the first value that is no expected name when it fails.
\<close>

definition expected :: "bool gomap \<Rightarrow> goval \<Rightarrow> bool" where
  "expected names v \<longleftrightarrow> (\<exists>s. v = GStr s \<and> s \<in> gm_dom names)"

lemma expected_GStr [simp]: "expected names (GStr s) \<longleftrightarrow> s \<in> gm_dom names"
  by (auto simp: expected_def)

lemma barrier_update_loop_expected:
  assumes "s \<in> gm_dom names"
  shows "barrier_update_loop names seen u (GStr s # vs) =
    (if gm_bool seen s then barrier_update_loop names seen u vs
     else barrier_update_loop names (gm_put s True seen) True vs)"
proof -
  from assms obtain b where "map_of names s = Some b"
    by (metis map_of_eq_None_keys not_None_eq)
  then show ?thesis by simp
qed

lemma barrier_update_loop_unexpected:
  assumes "\<not> expected names v"
  shows "\<exists>e. barrier_update_loop names seen u (v # vs) = (Inl e, seen)"
proof (cases "as_string v")
  case (Some s)
  with assms have "map_of names s = None"
    by (simp add: as_string_eq_Some map_of_eq_None_keys)
  with Some show ?thesis by simp
qed simp

abbreviation written :: "bool gomap \<Rightarrow> goval list \<Rightarrow> string set" where
  "written names vs \<equiv> {s. GStr s \<in> set (takeWhile (expected names) vs)}"

lemma barrier_update_loop_spec:
  assumes "barrier_ok names seen" and "barrier_update_loop names seen u vs = (r, seen')"
  shows "gm_dom seen' = written names vs \<union> gm_dom seen
    \<and> ((\<exists>b. r = Inr b) \<longleftrightarrow> (\<forall>v\<in>set vs. expected names v))
    \<and> (\<forall>b. r = Inr b \<longrightarrow> (b \<longleftrightarrow> u \<or> gm_dom seen' \<noteq> gm_dom seen))"
  using assms
proof (induction vs arbitrary: seen u)
  case Nil
  then show ?case by auto
next
  case (Cons v vs)
  show ?case
  proof (cases "expected names v")
    case False
    with Cons.prems barrier_update_loop_unexpected [OF False, of seen u vs] show ?thesis by auto
  next
    case True
    then obtain s where v: "v = GStr s" and s: "s \<in> gm_dom names"
      by (auto simp: expected_def)
    have wr: "written names (v # vs) = insert s (written names vs)"
      using True v by auto
    show ?thesis
    proof (cases "gm_bool seen s")
      case True
      with Cons.prems v s have "barrier_update_loop names seen u vs = (r, seen')"
        by (simp only: barrier_update_loop_expected if_True)
      from Cons.IH [OF Cons.prems(1) this] have IH: "gm_dom seen' = written names vs \<union> gm_dom seen
        \<and> ((\<exists>b. r = Inr b) \<longleftrightarrow> (\<forall>v\<in>set vs. expected names v))
        \<and> (\<forall>b. r = Inr b \<longrightarrow> (b \<longleftrightarrow> u \<or> gm_dom seen' \<noteq> gm_dom seen))" .
      have "s \<in> gm_dom seen"
        using True gm_bool_seen [OF Cons.prems(1)] by simp
      then have "insert s (written names vs) \<union> gm_dom seen = written names vs \<union> gm_dom seen"
        by auto
      with IH [THEN conjunct1] IH [THEN conjunct2] \<open>expected names v\<close> show ?thesis
        unfolding wr by (simp del: Un_insert_left)
    next
      case False
      with Cons.prems v s have eq: "barrier_update_loop names (gm_put s True seen) True vs = (r, seen')"
        by (simp only: barrier_update_loop_expected if_False)
      have ok: "barrier_ok names (gm_put s True seen)"
        using Cons.prems(1) s by (rule barrier_ok_put)
      have new: "s \<notin> gm_dom seen"
        using False gm_bool_seen [OF Cons.prems(1)] by simp
      have put: "gm_dom (gm_put s True seen) = insert s (gm_dom seen)"
        using gm_keys_put [of s True seen] by simp
      have neq: "written names vs \<union> insert s (gm_dom seen) \<noteq> gm_dom seen"
        using new by blast
      from Cons.IH [OF ok eq] neq show ?thesis
        unfolding wr put using \<open>expected names v\<close> by (elim conjE) simp
    qed
  qed
qed

end
