(* ===== verification/Channel_Interface.thy ===== *)
theory Channel_Interface
  imports Barrier_Channels
begin

text \<open>
  The Go interface \<^verbatim>\<open>Channel\<close> as a datatype with one constructor per implementation, its
  methods by dispatch, the wrapper \<^verbatim>\<open>ReducerChannel\<close> with the built-in reducers
  (\<^verbatim>\<open>reducer.go\<close>), and the contract that a checkpointed channel keeps, as a locale.
\<close>

section \<open>Reducers\<close>

type_synonym reducer_func = "goval \<Rightarrow> goval \<Rightarrow> goval"

definition AddReducer :: reducer_func where
  "AddReducer current update =
     (case (current, update) of
        (GNil, _) \<Rightarrow> update
      | (GInt ci, GInt ui) \<Rightarrow> GInt (ci + ui)
      | (GFloat cf, GFloat uf) \<Rightarrow> GFloat (f_add cf uf)
      | _ \<Rightarrow> update)"

definition AppendReducer :: reducer_func where
  "AppendReducer current update =
     (case current of
        GNil \<Rightarrow> GSlice [update]
      | GSlice sl \<Rightarrow> GSlice (sl @ [update])
      | _ \<Rightarrow> GSlice [current, update])"

definition MergeReducer :: reducer_func where
  "MergeReducer current update =
     (case (current, update) of
        (GNil, _) \<Rightarrow> update
      | (GMap currentMap, GMap updateMap) \<Rightarrow> GMap (gm_merge (gm_merge [] currentMap) updateMap)
      | _ \<Rightarrow> update)"

text \<open>The operator that \<^verbatim>\<open>CreateReducerChannel\<close> gives to map fields.\<close>

definition map_merge_operator :: binary_operator where
  "map_merge_operator a b =
     (case (a, b) of
        (GMap aMap, GMap bMap) \<Rightarrow> GMap (gm_merge (gm_merge [] aMap) bMap)
      | _ \<Rightarrow> b)"

section \<open>The interface and its implementations\<close>

datatype channel =
    LastValue last_value
  | AnyValue any_value
  | EphemeralValue ephemeral_value
  | UntrackedValue untracked_value
  | Topic topic
  | BinaryOperatorAggregate binop_channel
  | NamedBarrierValue named_barrier
  | NamedBarrierValueAfterFinish named_barrier_af
  | LastValueAfterFinish last_value_af
  | ReducerChannel channel reducer_func

fun ch_GetKey :: "channel \<Rightarrow> string" where
  "ch_GetKey (LastValue c) = Key c"
| "ch_GetKey (AnyValue c) = Key c"
| "ch_GetKey (EphemeralValue c) = Key c"
| "ch_GetKey (UntrackedValue c) = Key c"
| "ch_GetKey (Topic c) = Key c"
| "ch_GetKey (BinaryOperatorAggregate c) = Key c"
| "ch_GetKey (NamedBarrierValue c) = Key c"
| "ch_GetKey (NamedBarrierValueAfterFinish c) = Key c"
| "ch_GetKey (LastValueAfterFinish c) = Key c"
| "ch_GetKey (ReducerChannel ch f) = ch_GetKey ch"

fun ch_SetKey :: "string \<Rightarrow> channel \<Rightarrow> channel" where
  "ch_SetKey k (LastValue c) = LastValue (c\<lparr>Key := k\<rparr>)"
| "ch_SetKey k (AnyValue c) = AnyValue (c\<lparr>Key := k\<rparr>)"
| "ch_SetKey k (EphemeralValue c) = EphemeralValue (c\<lparr>Key := k\<rparr>)"
| "ch_SetKey k (UntrackedValue c) = UntrackedValue (c\<lparr>Key := k\<rparr>)"
| "ch_SetKey k (Topic c) = Topic (c\<lparr>Key := k\<rparr>)"
| "ch_SetKey k (BinaryOperatorAggregate c) = BinaryOperatorAggregate (c\<lparr>Key := k\<rparr>)"
| "ch_SetKey k (NamedBarrierValue c) = NamedBarrierValue (c\<lparr>Key := k\<rparr>)"
| "ch_SetKey k (NamedBarrierValueAfterFinish c) = NamedBarrierValueAfterFinish (c\<lparr>Key := k\<rparr>)"
| "ch_SetKey k (LastValueAfterFinish c) = LastValueAfterFinish (c\<lparr>Key := k\<rparr>)"
| "ch_SetKey k (ReducerChannel ch f) = ReducerChannel (ch_SetKey k ch) f"

fun ch_GetVersion :: "channel \<Rightarrow> int" where
  "ch_GetVersion (LastValue c) = Version c"
| "ch_GetVersion (AnyValue c) = Version c"
| "ch_GetVersion (EphemeralValue c) = Version c"
| "ch_GetVersion (UntrackedValue c) = Version c"
| "ch_GetVersion (Topic c) = Version c"
| "ch_GetVersion (BinaryOperatorAggregate c) = Version c"
| "ch_GetVersion (NamedBarrierValue c) = Version c"
| "ch_GetVersion (NamedBarrierValueAfterFinish c) = Version c"
| "ch_GetVersion (LastValueAfterFinish c) = Version c"
| "ch_GetVersion (ReducerChannel ch f) = ch_GetVersion ch"

text \<open>
  \<^verbatim>\<open>SetVersion\<close> is a method of \<^verbatim>\<open>BaseChannel\<close> but not of the interface, so a
  \<^verbatim>\<open>ReducerChannel\<close>, which embeds the interface, does not have it: the assertion
  \<^verbatim>\<open>ch.(interface{ SetVersion(int) })\<close> fails there and nothing is set.
\<close>

fun ch_SetVersion :: "int \<Rightarrow> channel \<Rightarrow> channel" where
  "ch_SetVersion v (LastValue c) = LastValue (c\<lparr>Version := v\<rparr>)"
| "ch_SetVersion v (AnyValue c) = AnyValue (c\<lparr>Version := v\<rparr>)"
| "ch_SetVersion v (EphemeralValue c) = EphemeralValue (c\<lparr>Version := v\<rparr>)"
| "ch_SetVersion v (UntrackedValue c) = UntrackedValue (c\<lparr>Version := v\<rparr>)"
| "ch_SetVersion v (Topic c) = Topic (c\<lparr>Version := v\<rparr>)"
| "ch_SetVersion v (BinaryOperatorAggregate c) = BinaryOperatorAggregate (c\<lparr>Version := v\<rparr>)"
| "ch_SetVersion v (NamedBarrierValue c) = NamedBarrierValue (c\<lparr>Version := v\<rparr>)"
| "ch_SetVersion v (NamedBarrierValueAfterFinish c) = NamedBarrierValueAfterFinish (c\<lparr>Version := v\<rparr>)"
| "ch_SetVersion v (LastValueAfterFinish c) = LastValueAfterFinish (c\<lparr>Version := v\<rparr>)"
| "ch_SetVersion v (ReducerChannel ch f) = ReducerChannel ch f"

fun ch_Get :: "channel \<Rightarrow> goval go_result \<times> channel" where
  "ch_Get (LastValue c) = apsnd LastValue (lv_Get c)"
| "ch_Get (AnyValue c) = apsnd AnyValue (av_Get c)"
| "ch_Get (EphemeralValue c) = apsnd EphemeralValue (ev_Get c)"
| "ch_Get (UntrackedValue c) = apsnd UntrackedValue (uv_Get c)"
| "ch_Get (Topic c) = apsnd Topic (tp_Get c)"
| "ch_Get (BinaryOperatorAggregate c) = apsnd BinaryOperatorAggregate (bo_Get c)"
| "ch_Get (NamedBarrierValue c) = apsnd NamedBarrierValue (nb_Get c)"
| "ch_Get (NamedBarrierValueAfterFinish c) = apsnd NamedBarrierValueAfterFinish (nf_Get c)"
| "ch_Get (LastValueAfterFinish c) = apsnd LastValueAfterFinish (la_Get c)"
| "ch_Get (ReducerChannel ch f) = apsnd (\<lambda>c. ReducerChannel c f) (ch_Get ch)"

fun ch_IsAvailable :: "channel \<Rightarrow> bool" where
  "ch_IsAvailable (LastValue c) = lv_IsAvailable c"
| "ch_IsAvailable (AnyValue c) = av_IsAvailable c"
| "ch_IsAvailable (EphemeralValue c) = ev_IsAvailable c"
| "ch_IsAvailable (UntrackedValue c) = uv_IsAvailable c"
| "ch_IsAvailable (Topic c) = tp_IsAvailable c"
| "ch_IsAvailable (BinaryOperatorAggregate c) = bo_IsAvailable c"
| "ch_IsAvailable (NamedBarrierValue c) = nb_IsAvailable c"
| "ch_IsAvailable (NamedBarrierValueAfterFinish c) = nf_IsAvailable c"
| "ch_IsAvailable (LastValueAfterFinish c) = la_IsAvailable c"
| "ch_IsAvailable (ReducerChannel ch f) = ch_IsAvailable ch"

text \<open>
  The wrapper reads the wrapped channel, folds the values and writes one combined value.
  Reading may change the wrapped channel, so the nesting depth is what decreases.
\<close>

fun ch_depth :: "channel \<Rightarrow> nat" where
  "ch_depth (ReducerChannel ch f) = Suc (ch_depth ch)"
| "ch_depth _ = 0"

lemma ch_depth_Get [simp]: "ch_depth (snd (ch_Get ch)) = ch_depth ch"
  by (induction ch) (simp_all add: apsnd_def)

definition reduce_values :: "reducer_func \<Rightarrow> goval go_result \<Rightarrow> goval \<Rightarrow> goval list \<Rightarrow> goval" where
  "reduce_values f cur v vs =
     foldl f (case cur of Inr current \<Rightarrow> f current v | Inl e \<Rightarrow> v) vs"

function ch_Update :: "channel \<Rightarrow> goval list \<Rightarrow> bool go_result \<times> channel" where
  "ch_Update (LastValue c) vs = apsnd LastValue (lv_Update c vs)"
| "ch_Update (AnyValue c) vs = apsnd AnyValue (av_Update c vs)"
| "ch_Update (EphemeralValue c) vs = apsnd EphemeralValue (ev_Update c vs)"
| "ch_Update (UntrackedValue c) vs = apsnd UntrackedValue (uv_Update c vs)"
| "ch_Update (Topic c) vs = apsnd Topic (tp_Update c vs)"
| "ch_Update (BinaryOperatorAggregate c) vs = apsnd BinaryOperatorAggregate (bo_Update c vs)"
| "ch_Update (NamedBarrierValue c) vs = apsnd NamedBarrierValue (nb_Update c vs)"
| "ch_Update (NamedBarrierValueAfterFinish c) vs = apsnd NamedBarrierValueAfterFinish (nf_Update c vs)"
| "ch_Update (LastValueAfterFinish c) vs = apsnd LastValueAfterFinish (la_Update c vs)"
| "ch_Update (ReducerChannel ch f) vs =
     (case vs of
        [] \<Rightarrow> (Inr False, ReducerChannel ch f)
      | v # rest \<Rightarrow>
          apsnd (\<lambda>c. ReducerChannel c f)
            (ch_Update (snd (ch_Get ch)) [reduce_values f (fst (ch_Get ch)) v rest]))"
  by pat_completeness auto
termination
  by (relation "measure (\<lambda>(ch, vs). ch_depth ch)") auto

fun ch_Copy :: "channel \<Rightarrow> channel" where
  "ch_Copy (LastValue c) = LastValue (lv_Copy c)"
| "ch_Copy (AnyValue c) = AnyValue (av_Copy c)"
| "ch_Copy (EphemeralValue c) = EphemeralValue (ev_Copy c)"
| "ch_Copy (UntrackedValue c) = UntrackedValue (uv_Copy c)"
| "ch_Copy (Topic c) = Topic (tp_Copy c)"
| "ch_Copy (BinaryOperatorAggregate c) = BinaryOperatorAggregate (bo_Copy c)"
| "ch_Copy (NamedBarrierValue c) = NamedBarrierValue (nb_Copy c)"
| "ch_Copy (NamedBarrierValueAfterFinish c) = NamedBarrierValueAfterFinish (nf_Copy c)"
| "ch_Copy (LastValueAfterFinish c) = LastValueAfterFinish (la_Copy c)"
| "ch_Copy (ReducerChannel ch f) = ReducerChannel (ch_Copy ch) f"

fun ch_Checkpoint :: "channel \<Rightarrow> goval" where
  "ch_Checkpoint (LastValue c) = lv_Checkpoint c"
| "ch_Checkpoint (AnyValue c) = av_Checkpoint c"
| "ch_Checkpoint (EphemeralValue c) = ev_Checkpoint c"
| "ch_Checkpoint (UntrackedValue c) = uv_Checkpoint c"
| "ch_Checkpoint (Topic c) = tp_Checkpoint c"
| "ch_Checkpoint (BinaryOperatorAggregate c) = bo_Checkpoint c"
| "ch_Checkpoint (NamedBarrierValue c) = nb_Checkpoint c"
| "ch_Checkpoint (NamedBarrierValueAfterFinish c) = nf_Checkpoint c"
| "ch_Checkpoint (LastValueAfterFinish c) = la_Checkpoint c"
| "ch_Checkpoint (ReducerChannel ch f) = ch_Checkpoint ch"

fun ch_FromCheckpoint :: "channel \<Rightarrow> goval \<Rightarrow> channel" where
  "ch_FromCheckpoint (LastValue c) cp = LastValue (lv_FromCheckpoint c cp)"
| "ch_FromCheckpoint (AnyValue c) cp = AnyValue (av_FromCheckpoint c cp)"
| "ch_FromCheckpoint (EphemeralValue c) cp = EphemeralValue (ev_FromCheckpoint c cp)"
| "ch_FromCheckpoint (UntrackedValue c) cp = UntrackedValue (uv_FromCheckpoint c cp)"
| "ch_FromCheckpoint (Topic c) cp = Topic (tp_FromCheckpoint c cp)"
| "ch_FromCheckpoint (BinaryOperatorAggregate c) cp = BinaryOperatorAggregate (bo_FromCheckpoint c cp)"
| "ch_FromCheckpoint (NamedBarrierValue c) cp = NamedBarrierValue (nb_FromCheckpoint c cp)"
| "ch_FromCheckpoint (NamedBarrierValueAfterFinish c) cp =
     NamedBarrierValueAfterFinish (nf_FromCheckpoint c cp)"
| "ch_FromCheckpoint (LastValueAfterFinish c) cp = LastValueAfterFinish (la_FromCheckpoint c cp)"
| "ch_FromCheckpoint (ReducerChannel ch f) cp = ReducerChannel (ch_FromCheckpoint ch cp) f"

text \<open>\<^verbatim>\<open>Consume\<close> and \<^verbatim>\<open>Finish\<close> do nothing unless an implementation overrides them.\<close>

fun ch_Consume :: "channel \<Rightarrow> bool \<times> channel" where
  "ch_Consume (NamedBarrierValue c) = apsnd NamedBarrierValue (nb_Consume c)"
| "ch_Consume (NamedBarrierValueAfterFinish c) = apsnd NamedBarrierValueAfterFinish (nf_Consume c)"
| "ch_Consume (LastValueAfterFinish c) = apsnd LastValueAfterFinish (la_Consume c)"
| "ch_Consume (ReducerChannel ch f) = apsnd (\<lambda>c. ReducerChannel c f) (ch_Consume ch)"
| "ch_Consume ch = (False, ch)"

fun ch_Finish :: "channel \<Rightarrow> bool \<times> channel" where
  "ch_Finish (NamedBarrierValue c) = apsnd NamedBarrierValue (nb_Finish c)"
| "ch_Finish (NamedBarrierValueAfterFinish c) = apsnd NamedBarrierValueAfterFinish (nf_Finish c)"
| "ch_Finish (LastValueAfterFinish c) = apsnd LastValueAfterFinish (la_Finish c)"
| "ch_Finish (ReducerChannel ch f) = apsnd (\<lambda>c. ReducerChannel c f) (ch_Finish ch)"
| "ch_Finish ch = (False, ch)"

text \<open>
  The channel for a struct field of the given kind. For slices and maps the constructor
  is given the \<^verbatim>\<open>reflect.Type\<close> itself as the type argument, for numbers a zero value.
\<close>

definition CreateReducerChannel :: "string \<Rightarrow> go_kind \<Rightarrow> reducer_func option \<Rightarrow> channel" where
  "CreateReducerChannel fieldName kind reducer =
     (let ch =
        (if kind \<in> {K_Slice, K_Array}
         then BinaryOperatorAggregate (NewBinaryOperatorAggregate (GType kind) ListAppend)
         else if kind = K_Map
         then BinaryOperatorAggregate (NewBinaryOperatorAggregate (GType kind) map_merge_operator)
         else if kind \<in> {K_Int, K_Int8, K_Int16, K_Int32, K_Int64, K_Uint, K_Uint8, K_Uint16,
                         K_Uint32, K_Uint64, K_Float32, K_Float64}
         then BinaryOperatorAggregate (NewBinaryOperatorAggregate (zero_of_kind kind) IntAdd)
         else LastValue (NewLastValue (GType kind)));
          ch = ch_SetKey fieldName ch
      in case reducer of Some r \<Rightarrow> ReducerChannel ch r | None \<Rightarrow> ch)"

end
