(* ===== verification/Channel_Contract.thy ===== *)
theory Channel_Contract
  imports Channel_Interface
begin

text \<open>
  What a channel promises to the graph engine, and the behaviour of each implementation:
  the contract of a resumable channel as a locale with its interpretation on the
  interface's dispatchers, the closed forms of the aggregating updates, and the
  refinement of the barrier to a set of names.
\<close>

section \<open>The contract of a resumable channel\<close>

text \<open>
  \<open>restore d GMissing\<close> is a fresh channel with the configuration of \<open>d\<close> (type, key, operator,
  expected names), so two channels have the same configuration if these agree.
\<close>

locale resumable_channel =
  fixes get :: "'c \<Rightarrow> goval go_result \<times> 'c"
    and avail :: "'c \<Rightarrow> bool"
    and update :: "'c \<Rightarrow> goval list \<Rightarrow> bool go_result \<times> 'c"
    and checkpoint :: "'c \<Rightarrow> goval"
    and restore :: "'c \<Rightarrow> goval \<Rightarrow> 'c"
    and copy :: "'c \<Rightarrow> 'c"
    and ok :: "'c \<Rightarrow> bool"
    and durable :: "'c \<Rightarrow> bool"
  assumes avail_get: "avail c \<Longrightarrow> \<exists>v. fst (get c) = Inr v"
    and ok_update: "ok c \<Longrightarrow> ok (snd (update c vs))"
    and ok_get: "ok c \<Longrightarrow> ok (snd (get c))"
    and config_update: "restore (snd (update c vs)) GMissing = restore c GMissing"
    and config_get: "restore (snd (get c)) GMissing = restore c GMissing"
    and restore_checkpoint:
      "ok c \<Longrightarrow> durable c \<Longrightarrow> restore d GMissing = restore c GMissing \<Longrightarrow> restore d (checkpoint c) = copy c"
    and get_copy: "ok c \<Longrightarrow> durable c \<Longrightarrow> fst (get (copy c)) = fst (get c)"
    and avail_copy: "ok c \<Longrightarrow> durable c \<Longrightarrow> avail (copy c) = avail c"
begin

text \<open>
  A channel is used by reads (\<open>None\<close>) and updates (\<open>Some vs\<close>). Whatever the engine does with
  it, restoring its checkpoint into a channel of the original configuration gives a copy
  of it, with the same value and the same availability.
\<close>

lemma use_invariant:
  assumes "ok c"
  shows "ok (foldl (\<lambda>c a. case a of None \<Rightarrow> snd (get c) | Some vs \<Rightarrow> snd (update c vs)) c as)
    \<and> restore (foldl (\<lambda>c a. case a of None \<Rightarrow> snd (get c) | Some vs \<Rightarrow> snd (update c vs)) c as) GMissing
      = restore c GMissing"
  using assms
proof (induction as arbitrary: c)
  case (Cons a as)
  then show ?case
    by (cases a) (simp_all add: ok_get ok_update config_get config_update)
qed simp

lemma resume_after_use:
  assumes "ok d"
    and "c = foldl (\<lambda>c a. case a of None \<Rightarrow> snd (get c) | Some vs \<Rightarrow> snd (update c vs)) d as"
    and "durable c"
  shows "restore d (checkpoint c) = copy c"
    and "fst (get (restore d (checkpoint c))) = fst (get c)"
    and "avail (restore d (checkpoint c)) = avail c"
proof -
  have c: "ok c" "restore c GMissing = restore d GMissing"
    using use_invariant [OF assms(1), of as] assms(2) by simp_all
  show copy: "restore d (checkpoint c) = copy c"
    using c assms(3) by (simp add: restore_checkpoint)
  show "fst (get (restore d (checkpoint c))) = fst (get c)"
    and "avail (restore d (checkpoint c)) = avail c"
    unfolding copy using c assms(3) by (simp_all add: get_copy avail_copy)
qed

end

section \<open>The interface keeps the contract\<close>

fun ch_ok :: "channel \<Rightarrow> bool" where
  "ch_ok (NamedBarrierValue c) = barrier_ok (nb_names c) (nb_seen c)"
| "ch_ok (NamedBarrierValueAfterFinish c) = barrier_ok (nf_names c) (nf_seen c)"
| "ch_ok (ReducerChannel ch f) = ch_ok ch"
| "ch_ok _ = True"

text \<open>
  The channels whose checkpoint holds their whole state. An \<^verbatim>\<open>UntrackedValue\<close> is not meant to
  be saved; an aggregate must not be empty unless a fresh one is; a
  \<^verbatim>\<open>LastValueAfterFinish\<close> must not be finished, since its checkpoint has no room for
  that flag.
\<close>

fun ch_durable :: "channel \<Rightarrow> bool" where
  "ch_durable (UntrackedValue c) = False"
| "ch_durable (BinaryOperatorAggregate c) = (bo_value c \<noteq> GMissing \<or> createZeroValue (Typ c) = GMissing)"
| "ch_durable (LastValueAfterFinish c) = (\<not> la_finished c)"
| "ch_durable (ReducerChannel ch f) = ch_durable ch"
| "ch_durable _ = True"

abbreviation ch_config :: "channel \<Rightarrow> channel" where
  "ch_config c \<equiv> ch_FromCheckpoint c GMissing"

lemma barrier_ok_gm_ok: "barrier_ok names seen \<Longrightarrow> gm_ok names \<and> gm_ok seen"
  by (simp add: barrier_ok_def)

lemma ch_avail_get: "ch_IsAvailable c \<Longrightarrow> \<exists>v. fst (ch_Get c) = Inr v"
  by (induction c) (auto simp: chan_defs apsnd_def)

lemma bo_Update_frame:
  "Key (snd (bo_Update c vs)) = Key c" "Typ (snd (bo_Update c vs)) = Typ c"
  "bo_operator (snd (bo_Update c vs)) = bo_operator c"
  by (simp_all add: bo_Update_def split: prod.split)

lemma nb_Update_frame:
  "Key (snd (nb_Update c vs)) = Key c" "Typ (snd (nb_Update c vs)) = Typ c"
  "nb_names (snd (nb_Update c vs)) = nb_names c"
  by (simp_all add: nb_Update_def split: prod.split)

lemma nf_Update_frame:
  "Key (snd (nf_Update c vs)) = Key c" "Typ (snd (nf_Update c vs)) = Typ c"
  "nf_names (snd (nf_Update c vs)) = nf_names c"
  by (simp_all add: nf_Update_def split: prod.split)

lemmas update_frames = bo_Update_frame nb_Update_frame nf_Update_frame

lemma ch_config_Get: "ch_config (snd (ch_Get c)) = ch_config c"
  by (induction c) (simp_all add: chan_defs apsnd_def)

lemma ch_config_Update: "ch_config (snd (ch_Update c vs)) = ch_config c"
proof (induction c vs rule: ch_Update.induct)
  case (10 ch f vs)
  then show ?case by (auto simp: ch_config_Get split: list.split)
qed (simp_all add: chan_defs update_frames Let_def la_Update_def split: list.split)

lemma ch_ok_Get: "ch_ok c \<Longrightarrow> ch_ok (snd (ch_Get c))"
  by (induction c) (simp_all add: chan_defs apsnd_def)

lemma nb_Update_ok:
  "barrier_ok (nb_names c) (nb_seen c) \<Longrightarrow>
   barrier_ok (nb_names (snd (nb_Update c vs))) (nb_seen (snd (nb_Update c vs)))"
  by (auto simp: nb_Update_def split: prod.split intro: barrier_update_loop_ok)

lemma nf_Update_ok:
  "barrier_ok (nf_names c) (nf_seen c) \<Longrightarrow>
   barrier_ok (nf_names (snd (nf_Update c vs))) (nf_seen (snd (nf_Update c vs)))"
  by (auto simp: nf_Update_def split: prod.split intro: barrier_update_loop_ok)

lemma ch_ok_Update: "ch_ok c \<Longrightarrow> ch_ok (snd (ch_Update c vs))"
proof (induction c vs rule: ch_Update.induct)
  case (10 ch f vs)
  then show ?case by (auto simp: ch_ok_Get split: list.split)
qed (simp_all add: nb_Update_ok nf_Update_ok)

lemma restore_seen_GMapBool [simp]: "gm_ok m \<Longrightarrow> restore_seen (GMapBool m) = m"
  by (simp add: restore_seen_def)

lemma ch_restore_checkpoint:
  "ch_ok c \<Longrightarrow> ch_durable c \<Longrightarrow> ch_config d = ch_config c \<Longrightarrow>
   ch_FromCheckpoint d (ch_Checkpoint c) = ch_Copy c"
proof (induction c arbitrary: d)
  case (ReducerChannel c f)
  then show ?case by (cases d) auto
qed (case_tac [!] d, auto simp: chan_defs Let_def gm_val_def barrier_names_def barrier_ok_gm_ok)

lemma ch_get_copy: "ch_ok c \<Longrightarrow> ch_durable c \<Longrightarrow> fst (ch_Get (ch_Copy c)) = fst (ch_Get c)"
  by (induction c) (simp_all add: chan_defs barrier_ok_gm_ok)

lemma ch_avail_copy: "ch_ok c \<Longrightarrow> ch_durable c \<Longrightarrow> ch_IsAvailable (ch_Copy c) = ch_IsAvailable c"
  by (induction c) (simp_all add: chan_defs barrier_ok_gm_ok)

interpretation chan: resumable_channel ch_Get ch_IsAvailable ch_Update ch_Checkpoint
  ch_FromCheckpoint ch_Copy ch_ok ch_durable
  by unfold_locales
    (simp_all add: ch_avail_get ch_ok_Update ch_ok_Get ch_config_Update ch_config_Get
      ch_restore_checkpoint ch_get_copy ch_avail_copy)

section \<open>Resuming a channel\<close>

text \<open>The use of a channel by the engine: \<open>None\<close> reads it, \<open>Some vs\<close> updates it.\<close>

definition ch_use :: "channel \<Rightarrow> goval list option list \<Rightarrow> channel" where
  "ch_use d as =
     foldl (\<lambda>c a. case a of None \<Rightarrow> snd (ch_Get c) | Some vs \<Rightarrow> snd (ch_Update c vs)) d as"

text \<open>
  C9: resuming a channel whose state its checkpoint can hold. Take a well-formed channel, use it by any
  sequence of reads and updates, failing ones included, and save the result. The result must be durable: not an
  \<^verbatim>\<open>UntrackedValue\<close>, not an empty aggregate whose fresh value is not empty, not a finished
  \<^verbatim>\<open>LastValueAfterFinish\<close>, also under a reducer. Then restoring the checkpoint, as it was made, with the original
  channel's \<^verbatim>\<open>FromCheckpoint\<close> gives what \<^verbatim>\<open>Copy\<close> of the used channel gives, and that channel reads the
  same value and has the same availability.
\<close>

theorem channel_resume:
  assumes "ch_ok d" and "ch_durable (ch_use d as)"
  shows "ch_FromCheckpoint d (ch_Checkpoint (ch_use d as)) = ch_Copy (ch_use d as)
    \<and> fst (ch_Get (ch_FromCheckpoint d (ch_Checkpoint (ch_use d as)))) = fst (ch_Get (ch_use d as))
    \<and> ch_IsAvailable (ch_FromCheckpoint d (ch_Checkpoint (ch_use d as))) = ch_IsAvailable (ch_use d as)"
  using chan.resume_after_use [OF assms(1) ch_use_def assms(2)] by simp

lemmas barrier_eval = NewNamedBarrierValue_def barrier_names_def nb_Update_def nb_Get_def gm_bool_def
  namesMatchSeen_def

theorem channel_resume_witness:
  "let d = NamedBarrierValue (NewNamedBarrierValue GNil [''a'', ''b'']);
       u = ch_use d [Some [GStr ''a''], None, Some [GStr ''x''], Some [GStr ''b'']]
   in ch_ok d \<and> ch_durable u \<and> fst (ch_Get (ch_FromCheckpoint d (ch_Checkpoint u))) = Inr GNil"
proof -
  define d where "d = NamedBarrierValue (NewNamedBarrierValue GNil [''a'', ''b''])"
  define as where "as = [Some [GStr ''a''], None, Some [GStr ''x''], Some [GStr ''b'']]"
  have ok: "ch_ok d"
    by (simp add: d_def NewNamedBarrierValue_def barrier_ok_new)
  have dur: "ch_durable (ch_use d as)" and get: "fst (ch_Get (ch_use d as)) = Inr GNil"
    by (simp_all add: d_def as_def ch_use_def barrier_eval)
  have "fst (ch_Get (ch_FromCheckpoint d (ch_Checkpoint (ch_use d as)))) = Inr GNil"
    using channel_resume [OF ok dur] get by (elim conjE) (simp only:)
  with ok dur show ?thesis
    unfolding d_def [symmetric] as_def [symmetric] Let_def by blast
qed

section \<open>Aggregates\<close>

lemma bo_update_loop_seen:
  "bo_update_loop f w True vs =
     (case List.map_filter isOverwrite vs of
        [] \<Rightarrow> (Inr True, w)
      | _ \<Rightarrow> (Inl (InvalidUpdateError ''Can receive only one Overwrite value per super-step.''), w))"
  by (induction vs) (auto simp: List.map_filter_simps split: option.splits)

lemma bo_update_loop_spec:
  "bo_update_loop f v False vs =
     (case List.map_filter isOverwrite vs of
        [] \<Rightarrow> (Inr True, foldl f v vs)
      | [w] \<Rightarrow> (Inr True, w)
      | w # _ \<Rightarrow> (Inl (InvalidUpdateError ''Can receive only one Overwrite value per super-step.''), w))"
  by (induction vs arbitrary: v)
    (auto simp: List.map_filter_simps bo_update_loop_seen split: option.splits list.splits)

text \<open>
  C37: closed form of an aggregate's update. With no overwrite among the values the operator is
  folded over them from the left; with exactly one, the result is the wrapped value and
  the values after it are dropped; with two or more the update fails with an
  \<^verbatim>\<open>InvalidUpdateError\<close> and the channel is left holding the first wrapped value. An empty
  channel takes the first value as it is, wrapper included, and no values change nothing.
\<close>

theorem bo_Update_closed_form:
  "bo_Update c values =
     (case values of
        [] \<Rightarrow> (Inr False, c)
      | v # vs \<Rightarrow>
          (let start = (if bo_value c = GMissing then v else bo_value c);
               rest = (if bo_value c = GMissing then vs else values)
           in case List.map_filter isOverwrite rest of
                [] \<Rightarrow> (Inr True, c\<lparr>bo_value := foldl (bo_operator c) start rest\<rparr>)
              | [w] \<Rightarrow> (Inr True, c\<lparr>bo_value := w\<rparr>)
              | w # _ \<Rightarrow>
                  (Inl (InvalidUpdateError ''Can receive only one Overwrite value per super-step.''),
                   c\<lparr>bo_value := w\<rparr>)))"
  by (simp add: bo_Update_def bo_update_loop_spec Let_def split: list.split)

section \<open>Topics\<close>

lemma flatten_append: "flatten (xs @ ys) = flatten xs @ flatten ys"
  by (induction xs) (simp_all split: option.split)

lemma tp_Update_values:
  "tp_values (snd (tp_Update c vs)) = (if tp_accumulate c then tp_values c else []) @ flatten vs"
  "tp_accumulate (snd (tp_Update c vs)) = tp_accumulate c"
  by (simp_all add: tp_Update_def Let_def)

text \<open>
  What a topic holds. After any sequence of updates, an accumulating topic holds the
  flattened values of all of them in order, and a topic that does not accumulate holds those
  of the last update only. An update always succeeds.
\<close>

theorem topic_contents:
  "tp_values (foldl (\<lambda>c vs. snd (tp_Update c vs)) (NewTopic typ acc) bss) =
     (if acc then flatten (concat bss) else if bss = [] then [] else flatten (last bss))
   \<and> (\<exists>b. fst (tp_Update c vs) = Inr b)"
proof -
  have "tp_values (foldl (\<lambda>c vs. snd (tp_Update c vs)) (NewTopic typ acc) bss) =
     (if acc then flatten (concat bss) else if bss = [] then [] else flatten (last bss))
   \<and> tp_accumulate (foldl (\<lambda>c vs. snd (tp_Update c vs)) (NewTopic typ acc) bss) = acc"
    by (induction bss rule: rev_induct) (auto simp: NewTopic_def tp_Update_values flatten_append)
  moreover have "\<exists>b. fst (tp_Update c vs) = Inr b"
    by (auto simp: tp_Update_def Let_def)
  ultimately show ?thesis by simp
qed

section \<open>Reducer channels\<close>

definition run_batches :: "channel \<Rightarrow> goval list list \<Rightarrow> channel" where
  "run_batches c bss = foldl (\<lambda>c b. snd (ch_Update c b)) c bss"

text \<open>The reducer folded over all values, from the first one.\<close>

definition reduce_all :: "reducer_func \<Rightarrow> goval list \<Rightarrow> goval" where
  "reduce_all f vs = (case vs of [] \<Rightarrow> GMissing | v # rest \<Rightarrow> foldl f v rest)"

lemma reduce_all_simps [simp]:
  "reduce_all f [] = GMissing" "reduce_all f (v # vs) = foldl f v vs"
  by (simp_all add: reduce_all_def)

lemma reduce_all_append:
  "xs \<noteq> [] \<Longrightarrow> reduce_all f (xs @ ys) = foldl f (reduce_all f xs) ys"
  by (cases xs) simp_all

lemma foldl_not_Missing:
  assumes "\<And>a b. f a b \<noteq> GMissing" and "v \<noteq> GMissing"
  shows "foldl f v vs \<noteq> GMissing"
  using assms(2) by (induction vs arbitrary: v) (auto simp: assms(1))

lemma reducer_step:
  assumes "\<And>a b. f a b \<noteq> GMissing" and "\<And>v. v \<in> set b \<Longrightarrow> v \<noteq> GMissing"
    and "xs = [] \<longleftrightarrow> reduce_all f xs = GMissing"
  shows "ch_Update (ReducerChannel (LastValue (c\<lparr>lv_value := reduce_all f xs\<rparr>)) f) b =
    (Inr (b \<noteq> []), ReducerChannel (LastValue (c\<lparr>lv_value := reduce_all f (xs @ b)\<rparr>)) f)"
  using assms(3)
  by (cases b; cases "xs = []")
    (auto simp: lv_Get_def lv_Update_def reduce_values_def reduce_all_append)

text \<open>
  A reducer over a \<^verbatim>\<open>LastValue\<close> channel does not see how writes are grouped into steps. For a
  reducer that never produces the Missing sentinel, the channel holds the left fold of all
  values written so far, started with the first one, however they were split into updates.
\<close>

theorem reducer_batching:
  assumes "\<And>a b. f a b \<noteq> GMissing" and "GMissing \<notin> set (concat bss)"
  shows "run_batches (ReducerChannel (LastValue (NewLastValue typ)) f) bss =
      ReducerChannel (LastValue ((NewLastValue typ)\<lparr>lv_value := reduce_all f (concat bss)\<rparr>)) f
    \<and> (concat bss \<noteq> [] \<longrightarrow>
       fst (ch_Get (run_batches (ReducerChannel (LastValue (NewLastValue typ)) f) bss)) =
         Inr (foldl f (hd (concat bss)) (tl (concat bss))))"
proof -
  have missing: "xs = [] \<longleftrightarrow> reduce_all f xs = GMissing" if "GMissing \<notin> set xs" for xs
    using that foldl_not_Missing [of f, OF assms(1)] by (cases xs) auto
  have run: "run_batches (ReducerChannel (LastValue (NewLastValue typ)) f) bss =
      ReducerChannel (LastValue ((NewLastValue typ)\<lparr>lv_value := reduce_all f (concat bss)\<rparr>)) f"
    using assms(2)
  proof (induction bss rule: rev_induct)
    case Nil
    then show ?case by (simp add: run_batches_def NewLastValue_def)
  next
    case (snoc b bss)
    then have "\<And>v. v \<in> set b \<Longrightarrow> v \<noteq> GMissing" and "GMissing \<notin> set (concat bss)" by auto
    with snoc.IH show ?case
      by (simp add: run_batches_def reducer_step [OF assms(1) _ missing] del: ch_Update.simps)
  qed
  moreover have "fst (ch_Get (ReducerChannel (LastValue ((NewLastValue typ)\<lparr>lv_value := reduce_all f (concat bss)\<rparr>)) f))
      = Inr (foldl f (hd (concat bss)) (tl (concat bss)))" if "concat bss \<noteq> []"
    using that missing [OF assms(2)] by (cases "concat bss") (simp_all add: lv_Get_def)
  ultimately show ?thesis by simp
qed

theorem reducer_batching_witness:
  "(\<forall>a b. AppendReducer a b \<noteq> GMissing)
   \<and> GMissing \<notin> set (concat [[GInt 1], [], [GInt 2, GInt 3]])
   \<and> fst (ch_Get (run_batches (ReducerChannel (LastValue (NewLastValue GNil)) AppendReducer)
        [[GInt 1], [], [GInt 2, GInt 3]])) = Inr (GSlice [GInt 1, GInt 2, GInt 3])"
proof -
  have f: "AppendReducer a b \<noteq> GMissing" for a b
    by (cases a) (simp_all add: AppendReducer_def)
  show ?thesis
    using reducer_batching [of AppendReducer "[[GInt 1], [], [GInt 2, GInt 3]]" GNil] f
    by (simp add: AppendReducer_def lv_Get_def)
qed

section \<open>The barrier as a set machine\<close>

datatype barrier_event = B_Update "goval list" | B_Consume | B_Finish

fun nb_step :: "named_barrier \<Rightarrow> barrier_event \<Rightarrow> named_barrier" where
  "nb_step c (B_Update vs) = snd (nb_Update c vs)"
| "nb_step c B_Consume = snd (nb_Consume c)"
| "nb_step c B_Finish = snd (nb_Finish c)"

text \<open>
  The abstract barrier: the set of names seen. An update adds the names up to the first value
  that is not an expected name.
\<close>

fun set_step :: "string set \<Rightarrow> string set \<Rightarrow> barrier_event \<Rightarrow> string set" where
  "set_step N S (B_Update vs) = S \<union> {s. GStr s \<in> set (takeWhile (\<lambda>v. \<exists>n\<in>N. v = GStr n) vs)}"
| "set_step N S B_Consume = (if S = N then {} else S)"
| "set_step N S B_Finish = {}"

lemma expected_alt: "expected names = (\<lambda>v. \<exists>n\<in>gm_dom names. v = GStr n)"
  by (auto simp: expected_def fun_eq_iff)

lemma barrier_ok_reset: "barrier_ok names seen \<Longrightarrow> barrier_ok names []"
  by (simp add: barrier_ok_def)

lemma nb_Update_refines:
  assumes "barrier_ok (nb_names c) (nb_seen c)"
  shows "gm_dom (nb_seen (snd (nb_Update c vs))) =
    set_step (gm_dom (nb_names c)) (gm_dom (nb_seen c)) (B_Update vs)"
proof -
  obtain r seen where loop: "barrier_update_loop (nb_names c) (nb_seen c) False vs = (r, seen)"
    by fastforce
  have seen: "nb_seen (snd (nb_Update c vs)) = seen"
    using loop by (cases vs) (simp_all add: nb_Update_def)
  show ?thesis
    using barrier_update_loop_spec [OF assms loop, THEN conjunct1]
    unfolding seen set_step.simps expected_alt by (rule trans) (rule Un_commute)
qed

lemma nb_step_refines:
  assumes "barrier_ok (nb_names c) (nb_seen c)"
  shows "barrier_ok (nb_names (nb_step c e)) (nb_seen (nb_step c e))
    \<and> nb_names (nb_step c e) = nb_names c
    \<and> gm_dom (nb_seen (nb_step c e)) = set_step (gm_dom (nb_names c)) (gm_dom (nb_seen c)) e"
proof (cases e)
  case (B_Update vs)
  show ?thesis
    unfolding B_Update nb_step.simps
    using nb_Update_ok [OF assms, of vs] nb_Update_frame(3) [of c vs] nb_Update_refines [OF assms, of vs]
    by blast
next
  case B_Consume
  then show ?thesis
    using assms barrier_ok_reset [OF assms] namesMatchSeen_iff [OF assms]
    by (cases "nb_seen c = []") (simp_all add: nb_Consume_def)
next
  case B_Finish
  then show ?thesis
    using assms barrier_ok_reset [OF assms] by (simp add: nb_Finish_def)
qed

text \<open>
  C38: the barrier refines the set machine. After any sequence of updates, consumptions and
  finishes of a fresh barrier that waits for \<open>ws\<close>, the names recorded as seen are those of the
  abstract machine, and the barrier is available, and its \<^verbatim>\<open>Get\<close> succeeds, exactly when that set
  is the whole of \<open>ws\<close>. In particular the order and the repetition of names do not matter.
\<close>

theorem barrier_refines_set:
  "gm_dom (nb_seen (foldl nb_step (NewNamedBarrierValue typ ws) es)) = foldl (set_step (set ws)) {} es
   \<and> (nb_IsAvailable (foldl nb_step (NewNamedBarrierValue typ ws) es)
       \<longleftrightarrow> foldl (set_step (set ws)) {} es = set ws)
   \<and> (fst (nb_Get (foldl nb_step (NewNamedBarrierValue typ ws) es)) = Inr GNil
       \<longleftrightarrow> foldl (set_step (set ws)) {} es = set ws)"
proof -
  define c where "c = foldl nb_step (NewNamedBarrierValue typ ws) es"
  have inv: "barrier_ok (nb_names c) (nb_seen c) \<and> nb_names c = barrier_names ws
    \<and> gm_dom (nb_seen c) = foldl (set_step (set ws)) {} es"
    unfolding c_def
  proof (induction es rule: rev_induct)
    case Nil
    then show ?case by (simp add: NewNamedBarrierValue_def barrier_ok_new)
  next
    case (snoc e es)
    then have "barrier_ok (nb_names (foldl nb_step (NewNamedBarrierValue typ ws) es))
        (nb_seen (foldl nb_step (NewNamedBarrierValue typ ws) es))" by blast
    from nb_step_refines [OF this, of e] snoc.IH barrier_names_ok(2) [of ws] show ?case
      by (elim conjE) (simp only: foldl_append foldl.simps simp_thms)
  qed
  then have ok: "barrier_ok (nb_names c) (nb_seen c)" by blast
  from inv barrier_names_ok(2) [of ws] have names: "gm_dom (nb_names c) = set ws"
    and seen: "gm_dom (nb_seen c) = foldl (set_step (set ws)) {} es"
    by simp_all
  show ?thesis
    unfolding c_def [symmetric] nb_IsAvailable_def nb_Get_def namesMatchSeen_iff [OF ok]
    using names seen by simp
qed

section \<open>What a checkpoint loses\<close>

text \<open>
  A checkpoint of a \<^verbatim>\<open>LastValueAfterFinish\<close> channel does not hold the finished flag. A
  channel that was available before the save is not available after the restore, and
  reading it gives \<^verbatim>\<open>EmptyChannelError\<close> until \<^verbatim>\<open>Finish\<close> is called again.
\<close>

theorem last_value_after_finish_not_resumable:
  assumes "la_IsAvailable c"
  shows "\<not> la_IsAvailable (la_FromCheckpoint c (la_Checkpoint c))
    \<and> fst (la_Get (la_FromCheckpoint c (la_Checkpoint c))) = Inl (EmptyChannelError [])
    \<and> fst (la_Get (snd (la_Finish (la_FromCheckpoint c (la_Checkpoint c))))) = fst (la_Get c)"
  using assms by (simp add: la_defs Let_def)

theorem last_value_after_finish_not_resumable_witness:
  "let c = snd (la_Finish (snd (la_Update (NewLastValueAfterFinish GNil) [GInt 7])))
   in la_IsAvailable c \<and> \<not> la_IsAvailable (la_FromCheckpoint c (la_Checkpoint c))"
proof -
  have "la_IsAvailable (snd (la_Finish (snd (la_Update (NewLastValueAfterFinish GNil) [GInt 7]))))"
    by (simp add: la_defs la_Update_def)
  with last_value_after_finish_not_resumable [OF this] show ?thesis by (simp add: Let_def)
qed

text \<open>
  The channel made for a slice or array field of a state struct does not start empty. It
  holds the zero value of the reflection descriptor, is available before anything was
  written, and the first list written ends up behind that descriptor.
\<close>

theorem slice_field_starts_with_descriptor:
  "let c = CreateReducerChannel name (if array then K_Array else K_Slice) None
   in ch_IsAvailable c
      \<and> fst (ch_Get c) = Inr (GStruct ''reflect.rtype'' [] [])
      \<and> fst (ch_Get (snd (ch_Update c [GSlice xs]))) =
          Inr (GSlice [GStruct ''reflect.rtype'' [] [], GSlice xs])"
  by (simp add: CreateReducerChannel_def bo_defs bo_Update_def isOverwrite_def ListAppend_def)

end
