(* ===== verification/Channel_Registry.thy ===== *)
theory Channel_Registry
  imports Channel_Contract
begin

text \<open>
  The registry of \<^verbatim>\<open>channels/base.go\<close>: the named channels of one run. A method that
  returns only an error returns an option here, \<open>None\<close> for nil. Loops over maps follow the
  entry order of the association list and stop at the first error with the effects of
  the earlier iterations in place, as the source does.
\<close>

record registry =
  channels :: "channel gomap"

definition NewRegistry :: registry where
  "NewRegistry = \<lparr>channels = []\<rparr>"

definition Register :: "string \<Rightarrow> channel \<Rightarrow> registry \<Rightarrow> registry" where
  "Register name ch r = r\<lparr>channels := gm_put name ch (channels r)\<rparr>"

definition reg_Get :: "registry \<Rightarrow> string \<Rightarrow> channel option" where
  "reg_Get r name = map_of (channels r) name"

definition reg_Remove :: "string \<Rightarrow> registry \<Rightarrow> registry" where
  "reg_Remove name r = r\<lparr>channels := gm_del name (channels r)\<rparr>"

definition reg_Len :: "registry \<Rightarrow> nat" where
  "reg_Len r = length (channels r)"

definition reg_Names :: "registry \<Rightarrow> string list" where
  "reg_Names r = gm_keys (channels r)"

fun checkpoint_loop :: "channel gomap \<Rightarrow> goval gomap \<Rightarrow> goval gomap" where
  "checkpoint_loop [] acc = acc"
| "checkpoint_loop ((name, ch) # chs) acc =
     (let cp = ch_Checkpoint ch
      in checkpoint_loop chs (if \<not> IsMissing cp then gm_put name cp acc else acc))"

definition CreateCheckpoint :: "registry \<Rightarrow> goval gomap" where
  "CreateCheckpoint r = checkpoint_loop (channels r) []"

fun RestoreFromCheckpoint :: "goval gomap \<Rightarrow> registry \<Rightarrow> go_error option \<times> registry" where
  "RestoreFromCheckpoint [] r = (None, r)"
| "RestoreFromCheckpoint ((name, cp) # cps) r =
     (case map_of (channels r) name of
        None \<Rightarrow> (Some (Errorf (''channel '' @ name @ '' not found in registry'')), r)
      | Some ch \<Rightarrow>
          RestoreFromCheckpoint cps (r\<lparr>channels := gm_put name (ch_FromCheckpoint ch cp) (channels r)\<rparr>))"

fun UpdateChannels :: "goval list gomap \<Rightarrow> registry \<Rightarrow> go_error option \<times> registry" where
  "UpdateChannels [] r = (None, r)"
| "UpdateChannels ((name, values) # ws) r =
     (case map_of (channels r) name of
        None \<Rightarrow> (Some (ChannelNotFoundError name), r)
      | Some ch \<Rightarrow>
          (case ch_Update ch values of
             (Inl err, ch') \<Rightarrow>
               (Some (WrapErr (''failed to update channel '' @ name @ '': '') err),
                r\<lparr>channels := gm_put name ch' (channels r)\<rparr>)
           | (Inr u, ch') \<Rightarrow> UpdateChannels ws (r\<lparr>channels := gm_put name ch' (channels r)\<rparr>)))"

text \<open>
  The loop of \<^verbatim>\<open>GetValues\<close> over the entries still to visit, with the registry as changed so far
  (reading can change a channel) and the values collected so far.
\<close>

fun values_loop :: "channel gomap \<Rightarrow> registry \<Rightarrow> goval gomap \<Rightarrow> goval gomap go_result \<times> registry" where
  "values_loop [] r acc = (Inr acc, r)"
| "values_loop ((name, ch) # chs) r acc =
     (let r' = r\<lparr>channels := gm_put name (snd (ch_Get ch)) (channels r)\<rparr>
      in case fst (ch_Get ch) of
           Inl err \<Rightarrow>
             (if IsEmptyChannelError err then values_loop chs r' acc
              else (Inl (WrapErr (''failed to get value from channel '' @ name @ '': '') err), r'))
         | Inr val \<Rightarrow> values_loop chs r' (gm_put name val acc))"

definition GetValues :: "registry \<Rightarrow> goval gomap go_result \<times> registry" where
  "GetValues r = values_loop (channels r) r []"

abbreviation reg_ok :: "registry \<Rightarrow> bool" where
  "reg_ok r \<equiv> gm_ok (channels r)"

section \<open>Checkpoints of a registry\<close>

lemma checkpoint_loop_map_of:
  "gm_ok chs \<Longrightarrow>
   map_of (checkpoint_loop chs acc) n =
     (case map_of chs n of
        Some ch \<Rightarrow> (if ch_Checkpoint ch = GMissing then map_of acc n else Some (ch_Checkpoint ch))
      | None \<Rightarrow> map_of acc n)"
proof (induction chs acc rule: checkpoint_loop.induct)
  case (2 name ch chs acc)
  then have "map_of chs name = None" by (simp add: map_of_eq_None_iff)
  with 2 show ?case
    by (auto simp: Let_def gomap_simps split: option.split)
qed simp

lemma checkpoint_loop_ok: "gm_ok acc \<Longrightarrow> gm_ok (checkpoint_loop chs acc)"
  by (induction chs acc rule: checkpoint_loop.induct) (simp_all add: Let_def)

lemma CreateCheckpoint_map_of:
  "reg_ok r \<Longrightarrow>
   map_of (CreateCheckpoint r) n =
     Option.bind (map_of (channels r) n)
       (\<lambda>ch. if ch_Checkpoint ch = GMissing then None else Some (ch_Checkpoint ch))"
  by (simp add: CreateCheckpoint_def checkpoint_loop_map_of split: option.split)

lemma CreateCheckpoint_ok: "gm_ok (CreateCheckpoint r)"
  by (simp add: CreateCheckpoint_def checkpoint_loop_ok)

lemma RestoreFromCheckpoint_spec:
  assumes "gm_ok cps" and "gm_dom cps \<subseteq> gm_dom (channels r)"
  shows "\<exists>r'. RestoreFromCheckpoint cps r = (None, r')
    \<and> (\<forall>n. map_of (channels r') n =
         (case map_of cps n of
            None \<Rightarrow> map_of (channels r) n
          | Some cp \<Rightarrow> map_option (\<lambda>ch. ch_FromCheckpoint ch cp) (map_of (channels r) n)))
    \<and> gm_dom (channels r') = gm_dom (channels r)"
  using assms
proof (induction cps r rule: RestoreFromCheckpoint.induct)
  case (2 name cp cps r)
  then obtain ch where ch: "map_of (channels r) name = Some ch"
    using map_of_eq_None_iff [of "channels r" name] by (cases "map_of (channels r) name") auto
  define r1 where "r1 = r\<lparr>channels := gm_put name (ch_FromCheckpoint ch cp) (channels r)\<rparr>"
  have dom: "gm_dom (channels r1) = gm_dom (channels r)"
    using map_of_Some_key [OF ch] by (simp add: r1_def gm_keys_put insert_absorb)
  have "map_of cps name = None"
    using 2(2) by (simp add: map_of_eq_None_iff)
  moreover obtain r' where "RestoreFromCheckpoint cps r1 = (None, r')"
    and "\<forall>n. map_of (channels r') n =
         (case map_of cps n of
            None \<Rightarrow> map_of (channels r1) n
          | Some cp \<Rightarrow> map_option (\<lambda>ch. ch_FromCheckpoint ch cp) (map_of (channels r1) n))"
    and "gm_dom (channels r') = gm_dom (channels r1)"
    using 2(1) [OF ch, folded r1_def] 2(2,3) dom by auto
  ultimately show ?case
    using ch dom by (auto simp: r1_def gomap_simps split: option.split)
qed simp

text \<open>
  C31: resuming a registry of durable channels. Let every channel of \<open>r\<close> be well-formed and durable: none is an
  \<^verbatim>\<open>UntrackedValue\<close>, a finished \<^verbatim>\<open>LastValueAfterFinish\<close>, or an empty aggregate whose fresh value is not
  empty. Let \<open>r0\<close> be a registry with the same names whose channels have the same configuration. Restoring into \<open>r0\<close> what
  \<^verbatim>\<open>CreateCheckpoint\<close> saved of \<open>r\<close> succeeds. Every channel that was saved is then a copy of the
  channel in \<open>r\<close>; every other channel, which was empty in \<open>r\<close>, is left as it is in \<open>r0\<close>.
\<close>

theorem registry_resume:
  assumes "reg_ok r" and "gm_dom (channels r0) = gm_dom (channels r)"
    and "\<And>n ch. map_of (channels r) n = Some ch \<Longrightarrow>
      ch_ok ch \<and> ch_durable ch \<and> map_option ch_config (map_of (channels r0) n) = Some (ch_config ch)"
  shows "\<exists>r'. RestoreFromCheckpoint (CreateCheckpoint r) r0 = (None, r')
    \<and> (\<forall>n ch. map_of (channels r) n = Some ch \<longrightarrow>
         map_of (channels r') n =
           (if ch_Checkpoint ch = GMissing then map_of (channels r0) n else Some (ch_Copy ch)))"
proof -
  have sub: "gm_dom (CreateCheckpoint r) \<subseteq> gm_dom (channels r0)"
  proof
    fix n
    assume "n \<in> gm_dom (CreateCheckpoint r)"
    then have "map_of (CreateCheckpoint r) n \<noteq> None" by (simp add: map_of_eq_None_iff)
    then have "map_of (channels r) n \<noteq> None"
      by (cases "map_of (channels r) n") (simp_all add: CreateCheckpoint_map_of [OF assms(1)])
    then show "n \<in> gm_dom (channels r0)"
      by (simp add: map_of_eq_None_iff assms(2))
  qed
  obtain r' where r': "RestoreFromCheckpoint (CreateCheckpoint r) r0 = (None, r')"
    and lookup: "\<And>n. map_of (channels r') n =
         (case map_of (CreateCheckpoint r) n of
            None \<Rightarrow> map_of (channels r0) n
          | Some cp \<Rightarrow> map_option (\<lambda>ch. ch_FromCheckpoint ch cp) (map_of (channels r0) n))"
    using RestoreFromCheckpoint_spec [OF CreateCheckpoint_ok sub] by blast
  have "map_of (channels r') n =
      (if ch_Checkpoint ch = GMissing then map_of (channels r0) n else Some (ch_Copy ch))"
    if "map_of (channels r) n = Some ch" for n ch
  proof -
    from assms(3) [OF that] obtain d where d: "map_of (channels r0) n = Some d"
      and "ch_ok ch" "ch_durable ch" "ch_config d = ch_config ch" by auto
    then show ?thesis
      using that by (simp add: lookup CreateCheckpoint_map_of [OF assms(1)] chan.restore_checkpoint)
  qed
  with r' show ?thesis by blast
qed

theorem registry_resume_witness:
  "let r0 = \<lparr>channels = [(''log'', Topic (NewTopic GNil True)), (''n'', LastValue (NewLastValue GNil))]\<rparr>;
       r = snd (UpdateChannels [(''log'', [GStr ''x'', GSlice [GStr ''y'']])] r0)
   in \<exists>r'. RestoreFromCheckpoint (CreateCheckpoint r) r0 = (None, r')
      \<and> map_of (channels r') ''log'' = map_option ch_Copy (map_of (channels r) ''log'')
      \<and> fst (ch_Get (the (map_of (channels r') ''log''))) = Inr (GSlice [GStr ''x'', GStr ''y''])"
proof -
  define r0 where "r0 = \<lparr>channels = [(''log'', Topic (NewTopic GNil True)), (''n'', LastValue (NewLastValue GNil))]\<rparr>"
  define r where "r = snd (UpdateChannels [(''log'', [GStr ''x'', GSlice [GStr ''y'']])] r0)"
  have r: "channels r = [(''log'', Topic ((NewTopic GNil True)\<lparr>tp_values := [GStr ''x'', GStr ''y'']\<rparr>)),
      (''n'', LastValue (NewLastValue GNil))]"
    by (simp add: r_def r0_def tp_Update_def NewTopic_def as_slice_def)
  have names: "reg_ok r" "gm_dom (channels r0) = gm_dom (channels r)"
    by (simp_all add: r r0_def)
  have durable: "ch_ok ch \<and> ch_durable ch \<and> map_option ch_config (map_of (channels r0) n) = Some (ch_config ch)"
    if "map_of (channels r) n = Some ch" for n ch
    using that by (auto simp: r r0_def tp_defs lv_defs Let_def split: if_splits)
  obtain r' where res: "RestoreFromCheckpoint (CreateCheckpoint r) r0 = (None, r')"
    and look: "\<forall>n ch. map_of (channels r) n = Some ch \<longrightarrow>
         map_of (channels r') n =
           (if ch_Checkpoint ch = GMissing then map_of (channels r0) n else Some (ch_Copy ch))"
    using registry_resume [OF names durable] by blast
  have log: "map_of (channels r') ''log'' = Some (Topic ((NewTopic GNil True)\<lparr>tp_values := [GStr ''x'', GStr ''y'']\<rparr>))"
    using look by (simp add: r tp_defs)
  show ?thesis
    unfolding Let_def r0_def [symmetric] r_def [symmetric]
    using res log by (simp add: r tp_defs)
qed

section \<open>Updating several channels\<close>

lemma UpdateChannels_spec:
  assumes "gm_ok ws"
  shows "(fst (UpdateChannels ws r) = None \<longleftrightarrow>
       (\<forall>(n, vs) \<in> set ws. \<exists>ch u. map_of (channels r) n = Some ch \<and> fst (ch_Update ch vs) = Inr u))
    \<and> (fst (UpdateChannels ws r) = None \<longrightarrow>
       (\<forall>n. map_of (channels (snd (UpdateChannels ws r))) n =
         (case map_of ws n of
            None \<Rightarrow> map_of (channels r) n
          | Some vs \<Rightarrow> map_option (\<lambda>ch. snd (ch_Update ch vs)) (map_of (channels r) n))))"
  using assms
proof (induction ws r rule: UpdateChannels.induct)
  case (2 name vs ws r)
  show ?case
  proof (cases "map_of (channels r) name")
    case None
    then show ?thesis by auto
  next
    case (Some ch)
    obtain res ch' where up: "ch_Update ch vs = (res, ch')" by force
    show ?thesis
    proof (cases res)
      case (Inl e)
      with Some up show ?thesis by auto
    next
      case (Inr u)
      define r1 where "r1 = r\<lparr>channels := gm_put name ch' (channels r)\<rparr>"
      have step: "UpdateChannels ((name, vs) # ws) r = UpdateChannels ws r1"
        using Some up Inr by (simp add: r1_def)
      have other: "map_of (channels r1) n = map_of (channels r) n" if "(n, vs') \<in> set ws" for n vs'
      proof -
        have "n \<in> gm_dom ws" using that by (rule image_eqI [rotated]) simp
        with "2.prems" have "n \<noteq> name" by auto
        then show ?thesis by (simp add: r1_def gomap_simps)
      qed
      have "name \<notin> gm_dom ws" using "2.prems" by simp
      then have new: "map_of ws name = None" by (simp add: map_of_eq_None_iff)
      have IH: "(fst (UpdateChannels ws r1) = None \<longleftrightarrow>
          (\<forall>(n, vs) \<in> set ws. \<exists>ch u. map_of (channels r1) n = Some ch \<and> fst (ch_Update ch vs) = Inr u))
        \<and> (fst (UpdateChannels ws r1) = None \<longrightarrow>
          (\<forall>n. map_of (channels (snd (UpdateChannels ws r1))) n =
            (case map_of ws n of
               None \<Rightarrow> map_of (channels r1) n
             | Some vs \<Rightarrow> map_option (\<lambda>ch. snd (ch_Update ch vs)) (map_of (channels r1) n))))"
        using "2.IH" [OF Some up [symmetric] Inr, folded r1_def] "2.prems" by simp
      have ok: "(\<forall>(n, vs) \<in> set ws. \<exists>ch u. map_of (channels r1) n = Some ch \<and> fst (ch_Update ch vs) = Inr u)
          \<longleftrightarrow> (\<forall>(n, vs) \<in> set ws. \<exists>ch u. map_of (channels r) n = Some ch \<and> fst (ch_Update ch vs) = Inr u)"
        using other by (fastforce simp: split_def)
      have res: "(case map_of ws n of
               None \<Rightarrow> map_of (channels r1) n
             | Some vs \<Rightarrow> map_option (\<lambda>ch. snd (ch_Update ch vs)) (map_of (channels r1) n)) =
          (case map_of ((name, vs) # ws) n of
               None \<Rightarrow> map_of (channels r) n
             | Some vs \<Rightarrow> map_option (\<lambda>ch. snd (ch_Update ch vs)) (map_of (channels r) n))" for n
        using new Some up by (auto simp: r1_def gomap_simps split: option.split)
      show ?thesis
        unfolding step using IH ok res Some up Inr by simp
    qed
  qed
qed simp

text \<open>
  \<^verbatim>\<open>UpdateChannels\<close> does not depend on the order of the map. Two orders of the same writes
  succeed together, and when they do every channel ends in the same state, namely the one its own
  \<^verbatim>\<open>Update\<close> gives for the values written to it. Success means that every written name is
  registered and every single update succeeds.
\<close>

theorem UpdateChannels_order_independent:
  assumes "gm_ok ws" and "gm_ok ws'" and "set ws' = set ws"
  shows "(fst (UpdateChannels ws' r) = None \<longleftrightarrow> fst (UpdateChannels ws r) = None)
    \<and> (fst (UpdateChannels ws r) = None \<longleftrightarrow>
       (\<forall>(n, vs) \<in> set ws. \<exists>ch u. map_of (channels r) n = Some ch \<and> fst (ch_Update ch vs) = Inr u))
    \<and> (fst (UpdateChannels ws r) = None \<longrightarrow>
       map_of (channels (snd (UpdateChannels ws' r))) = map_of (channels (snd (UpdateChannels ws r)))
       \<and> (\<forall>n. map_of (channels (snd (UpdateChannels ws r))) n =
         (case map_of ws n of
            None \<Rightarrow> map_of (channels r) n
          | Some vs \<Rightarrow> map_option (\<lambda>ch. snd (ch_Update ch vs)) (map_of (channels r) n))))"
  using UpdateChannels_spec [OF assms(1), of r] UpdateChannels_spec [OF assms(2), of r]
    gm_perm_map_of [OF assms(1,2)] assms(3)
  by (simp add: fun_eq_iff)

theorem UpdateChannels_order_independent_witness:
  "let r = \<lparr>channels = [(''a'', LastValue (NewLastValue GNil)), (''b'', AnyValue (NewAnyValue GNil))]\<rparr>;
       ws = [(''a'', [GInt 1]), (''b'', [GInt 2, GInt 3])];
       ws' = [(''b'', [GInt 2, GInt 3]), (''a'', [GInt 1])]
   in fst (UpdateChannels ws' r) = None
      \<and> map_of (channels (snd (UpdateChannels ws' r))) = map_of (channels (snd (UpdateChannels ws r)))"
proof -
  define r where "r = \<lparr>channels = [(''a'', LastValue (NewLastValue GNil)), (''b'', AnyValue (NewAnyValue GNil))]\<rparr>"
  have ok: "fst (UpdateChannels [(''a'', [GInt 1]), (''b'', [GInt 2, GInt 3])] r) = None"
    by (simp add: r_def lv_Update_def av_Update_def)
  show ?thesis
    using UpdateChannels_order_independent [of "[(''a'', [GInt 1]), (''b'', [GInt 2, GInt 3])]"
        "[(''b'', [GInt 2, GInt 3]), (''a'', [GInt 1])]" r] ok
    unfolding Let_def r_def [symmetric] by (simp add: insert_commute)
qed

section \<open>Reading all channels\<close>

lemma ch_Get_error: "fst (ch_Get ch) = Inl e \<Longrightarrow> IsEmptyChannelError e"
  by (induction ch) (auto simp: chan_defs split: if_splits option.splits goval.splits)

lemma values_loop_spec:
  assumes "gm_ok chs" and "\<And>n ch. map_of chs n = Some ch \<Longrightarrow> map_of (channels r) n = Some ch"
  shows "\<exists>vals r'. values_loop chs r acc = (Inr vals, r')
    \<and> (\<forall>n. map_of (channels r') n =
         (if n \<in> gm_dom chs then map_option (snd \<circ> ch_Get) (map_of (channels r) n) else map_of (channels r) n))
    \<and> (\<forall>n. map_of vals n =
         (case map_of chs n of
            None \<Rightarrow> map_of acc n
          | Some ch \<Rightarrow> (case fst (ch_Get ch) of Inr v \<Rightarrow> Some v | Inl e \<Rightarrow> map_of acc n)))"
  using assms
proof (induction chs arbitrary: r acc)
  case (Cons nc chs)
  obtain name ch where nc: "nc = (name, ch)" by force
  define r1 where "r1 = r\<lparr>channels := gm_put name (snd (ch_Get ch)) (channels r)\<rparr>"
  define acc1 where "acc1 = (case fst (ch_Get ch) of Inr v \<Rightarrow> gm_put name v acc | Inl e \<Rightarrow> acc)"
  have step: "values_loop (nc # chs) r acc = values_loop chs r1 acc1"
    by (auto simp: nc Let_def r1_def acc1_def ch_Get_error split: sum.split)
  have new: "name \<notin> gm_dom chs" and chs: "gm_ok chs" using Cons.prems(1) by (auto simp: nc)
  have look: "map_of (channels r) name = Some ch" using Cons.prems(2) [of name ch] by (simp add: nc)
  have sub: "map_of (channels r1) n = Some c" if "map_of chs n = Some c" for n c
  proof -
    have "n \<noteq> name" using that new by (auto dest: map_of_Some_key)
    then show ?thesis using that Cons.prems(2) [of n c] by (simp add: nc r1_def gomap_simps)
  qed
  have out: "map_of chs name = None" using new by (simp add: map_of_eq_None_iff)
  obtain vals r' where "values_loop chs r1 acc1 = (Inr vals, r')"
    and "\<forall>n. map_of (channels r') n =
         (if n \<in> gm_dom chs then map_option (snd \<circ> ch_Get) (map_of (channels r1) n) else map_of (channels r1) n)"
    and "\<forall>n. map_of vals n =
         (case map_of chs n of
            None \<Rightarrow> map_of acc1 n
          | Some ch \<Rightarrow> (case fst (ch_Get ch) of Inr v \<Rightarrow> Some v | Inl e \<Rightarrow> map_of acc1 n))"
    using Cons.IH [of r1 acc1, OF chs sub] by blast
  then show ?case
    unfolding step using new look out
    by (auto simp: nc r1_def acc1_def gomap_simps split: option.split sum.split)
qed simp

text \<open>
  \<^verbatim>\<open>GetValues\<close> never fails on a registry. It returns the value of exactly the channels
  whose \<^verbatim>\<open>Get\<close> succeeds, and it leaves every channel as that \<^verbatim>\<open>Get\<close> leaves it.
\<close>

theorem GetValues_total:
  assumes "reg_ok r"
  shows "\<exists>vals r'. GetValues r = (Inr vals, r')
    \<and> map_of vals = (\<lambda>n. Option.bind (map_of (channels r) n)
         (\<lambda>ch. case fst (ch_Get ch) of Inr v \<Rightarrow> Some v | Inl e \<Rightarrow> None))
    \<and> map_of (channels r') = map_option (snd \<circ> ch_Get) \<circ> map_of (channels r)"
proof -
  obtain vals r' where "GetValues r = (Inr vals, r')"
    and regs: "\<forall>n. map_of (channels r') n =
         (if n \<in> gm_dom (channels r) then map_option (snd \<circ> ch_Get) (map_of (channels r) n)
          else map_of (channels r) n)"
    and vals: "\<forall>n. map_of vals n =
         (case map_of (channels r) n of
            None \<Rightarrow> map_of [] n
          | Some ch \<Rightarrow> (case fst (ch_Get ch) of Inr v \<Rightarrow> Some v | Inl e \<Rightarrow> map_of [] n))"
    using values_loop_spec [OF assms, of r "[]"] unfolding GetValues_def by blast
  moreover have "map_of (channels r') n = map_option (snd \<circ> ch_Get) (map_of (channels r) n)" for n
    using regs map_of_eq_None_keys [of "channels r" n] by auto
  moreover have "map_of vals n = Option.bind (map_of (channels r) n)
         (\<lambda>ch. case fst (ch_Get ch) of Inr v \<Rightarrow> Some v | Inl e \<Rightarrow> None)" for n
    using vals by (cases "map_of (channels r) n") (auto split: sum.split)
  ultimately show ?thesis by (auto simp: fun_eq_iff)
qed

theorem GetValues_total_witness:
  "let r = \<lparr>channels = [(''a'', LastValue (NewLastValue GNil)),
                       (''e'', EphemeralValue ((NewEphemeralValue GNil True)\<lparr>ev_value := GInt 7\<rparr>))]\<rparr>
   in \<exists>vals r'. GetValues r = (Inr vals, r')
      \<and> map_of vals ''a'' = None \<and> map_of vals ''e'' = Some (GInt 7)
      \<and> map_of (channels r') ''e'' = Some (EphemeralValue (NewEphemeralValue GNil True))"
proof -
  define r where "r = \<lparr>channels = [(''a'', LastValue (NewLastValue GNil)),
      (''e'', EphemeralValue ((NewEphemeralValue GNil True)\<lparr>ev_value := GInt 7\<rparr>))]\<rparr>"
  have ok: "reg_ok r" by (simp add: r_def)
  from GetValues_total [OF ok] obtain vals r' where "GetValues r = (Inr vals, r')"
    and "map_of vals = (\<lambda>n. Option.bind (map_of (channels r) n)
         (\<lambda>ch. case fst (ch_Get ch) of Inr v \<Rightarrow> Some v | Inl e \<Rightarrow> None))"
    and "map_of (channels r') = map_option (snd \<circ> ch_Get) \<circ> map_of (channels r)"
    by blast
  moreover have "Option.bind (map_of (channels r) ''a'')
         (\<lambda>ch. case fst (ch_Get ch) of Inr v \<Rightarrow> Some v | Inl e \<Rightarrow> None) = None"
    and "Option.bind (map_of (channels r) ''e'')
         (\<lambda>ch. case fst (ch_Get ch) of Inr v \<Rightarrow> Some v | Inl e \<Rightarrow> None) = Some (GInt 7)"
    and "map_option (snd \<circ> ch_Get) (map_of (channels r) ''e'') =
      Some (EphemeralValue (NewEphemeralValue GNil True))"
    by (simp_all add: r_def lv_defs ev_defs)
  ultimately show ?thesis
    unfolding Let_def r_def [symmetric] by simp
qed

text \<open>
  A value written to an \<^verbatim>\<open>EphemeralValue\<close> channel is gone once all channels have been
  read: no ephemeral channel is available after \<^verbatim>\<open>GetValues\<close>. The engine reads all channels
  to emit them at the end of every step, so a node of the next step never sees the value.
\<close>

theorem GetValues_clears_ephemeral:
  assumes "reg_ok r" and "map_of (channels (snd (GetValues r))) n = Some (EphemeralValue c)"
  shows "\<not> ch_IsAvailable (EphemeralValue c)"
proof -
  have "map_of (channels (snd (GetValues r))) n = map_option (snd \<circ> ch_Get) (map_of (channels r) n)"
    using values_loop_spec [OF assms(1), of r "[]", simplified]
    by (auto simp: GetValues_def map_of_eq_None_keys [symmetric])
  with assms(2) obtain ch where "snd (ch_Get ch) = EphemeralValue c" by auto
  then show ?thesis
    by (cases ch) (auto simp: ev_defs apsnd_def split: if_splits)
qed

theorem GetValues_clears_ephemeral_witness:
  "let r = \<lparr>channels = [(''e'', EphemeralValue ((NewEphemeralValue GNil True)\<lparr>ev_value := GInt 7\<rparr>))]\<rparr>
   in ch_IsAvailable (the (map_of (channels r) ''e''))
      \<and> \<not> ch_IsAvailable (the (map_of (channels (snd (GetValues r))) ''e''))"
proof -
  define r where "r = \<lparr>channels = [(''e'', EphemeralValue ((NewEphemeralValue GNil True)\<lparr>ev_value := GInt 7\<rparr>))]\<rparr>"
  have after: "map_of (channels (snd (GetValues r))) ''e'' = Some (EphemeralValue (NewEphemeralValue GNil True))"
    by (simp add: r_def GetValues_def ev_defs Let_def)
  have ok: "reg_ok r" by (simp add: r_def)
  show ?thesis
    unfolding Let_def r_def [symmetric]
    using GetValues_clears_ephemeral [OF ok after] after by (simp add: r_def ev_defs)
qed

end
