(* ===== verification/Go_JSON.thy ===== *)
theory Go_JSON
  imports Go_Values
begin

text \<open>
  What a value becomes when \<^verbatim>\<open>encoding/json\<close> encodes it and decodes the text into an
  \<^verbatim>\<open>interface{}\<close>, and the deep copies of \<^verbatim>\<open>checkpoint.go\<close> that are built on it. Numbers become
  float64, typed slices and maps become the untyped ones, bytes become their base64 text, a
  struct becomes the map of its exported fields (the structs have no json tags), a pointer
  its target. A NaN, an infinity and the values with no encoding make the encoder fail. Text that
  is not UTF-8 has each bad byte replaced by U+FFFD.
\<close>

section \<open>UTF-8\<close>

definition byte_in :: "nat \<Rightarrow> nat \<Rightarrow> char \<Rightarrow> bool" where
  "byte_in lo hi c \<longleftrightarrow> lo \<le> of_char c \<and> of_char c \<le> hi"

text \<open>The length of the encoded character at the front, 0 when there is none.\<close>

fun utf8_len :: "string \<Rightarrow> nat" where
  "utf8_len [] = 0"
| "utf8_len (a # r) =
     (if byte_in 0 0x7F a then 1
      else if byte_in 0xC2 0xDF a
      then (case r of c1 # _ \<Rightarrow> if byte_in 0x80 0xBF c1 then 2 else 0 | [] \<Rightarrow> 0)
      else if byte_in 0xE0 0xEF a
      then (case r of
              c1 # c2 # _ \<Rightarrow>
                if byte_in (if byte_in 0xE0 0xE0 a then 0xA0 else 0x80)
                     (if byte_in 0xED 0xED a then 0x9F else 0xBF) c1 \<and> byte_in 0x80 0xBF c2
                then 3 else 0
            | _ \<Rightarrow> 0)
      else if byte_in 0xF0 0xF4 a
      then (case r of
              c1 # c2 # c3 # _ \<Rightarrow>
                if byte_in (if byte_in 0xF0 0xF0 a then 0x90 else 0x80)
                     (if byte_in 0xF4 0xF4 a then 0x8F else 0xBF) c1
                   \<and> byte_in 0x80 0xBF c2 \<and> byte_in 0x80 0xBF c3
                then 4 else 0
            | _ \<Rightarrow> 0)
      else 0)"

definition replacement_char :: string where
  "replacement_char = [CHR 0xEF, CHR 0xBF, CHR 0xBD]"

function to_utf8 :: "string \<Rightarrow> string" where
  "to_utf8 [] = []"
| "to_utf8 (c # cs) =
     (let n = utf8_len (c # cs)
      in if n = 0 then replacement_char @ to_utf8 cs else take n (c # cs) @ to_utf8 (drop n (c # cs)))"
  by pat_completeness auto
termination
  by (relation "measure length") (auto simp del: utf8_len.simps)

declare to_utf8.simps(2) [simp del]

lemma utf8_len_cases:
  assumes "utf8_len s \<noteq> 0"
  obtains (one) a r where "s = a # r" "\<And>t. utf8_len (a # t) = 1"
    | (two) a b r where "s = a # b # r" "\<And>t. utf8_len (a # b # t) = 2"
    | (three) a b c r where "s = a # b # c # r" "\<And>t. utf8_len (a # b # c # t) = 3"
    | (four) a b c d r where "s = a # b # c # d # r" "\<And>t. utf8_len (a # b # c # d # t) = 4"
proof -
  obtain a r where s: "s = a # r" using assms by (cases s) auto
  consider (A) "byte_in 0 0x7F a"
    | (B) "\<not> byte_in 0 0x7F a" "byte_in 0xC2 0xDF a"
    | (C) "\<not> byte_in 0 0x7F a" "\<not> byte_in 0xC2 0xDF a" "byte_in 0xE0 0xEF a"
    | (D) "\<not> byte_in 0 0x7F a" "\<not> byte_in 0xC2 0xDF a" "\<not> byte_in 0xE0 0xEF a" "byte_in 0xF0 0xF4 a"
    using assms unfolding s utf8_len.simps(2) by metis
  then show thesis
  proof cases
    case A
    then show ?thesis using s by (intro one) auto
  next
    case B
    then obtain b r' where "r = b # r'" "byte_in 0x80 0xBF b"
      using assms by (cases r) (auto simp: s split: if_splits)
    with B s show ?thesis by (intro two [of a b r']) auto
  next
    case C
    then obtain b c r' where r: "r = b # c # r'"
      using assms by (cases r; cases "tl r") (simp_all add: s)
    with C s show ?thesis using assms by (intro three [of a b c r']) (simp_all split: if_split_asm)
  next
    case D
    then obtain b c d r' where r: "r = b # c # d # r'"
      using assms by (cases r; cases "tl r"; cases "tl (tl r)") (simp_all add: s)
    with D s show ?thesis using assms by (intro four [of a b c d r']) (simp_all split: if_split_asm)
  qed
qed

lemma to_utf8_valid_prefix:
  assumes "utf8_len s \<noteq> 0"
  shows "to_utf8 (take (utf8_len s) s @ t) = take (utf8_len s) s @ to_utf8 t"
  using assms
  by (cases rule: utf8_len_cases) (simp_all add: to_utf8.simps(2) Let_def del: utf8_len.simps)

lemma to_utf8_idem [simp]: "to_utf8 (to_utf8 s) = to_utf8 s"
proof (induction s rule: to_utf8.induct)
  case (2 c cs)
  show ?case
  proof (cases "utf8_len (c # cs) = 0")
    case True
    have "utf8_len replacement_char = 3"
      by (simp add: replacement_char_def byte_in_def)
    then have "to_utf8 (replacement_char @ t) = replacement_char @ to_utf8 t" for t
      using to_utf8_valid_prefix [of replacement_char t] by (simp add: replacement_char_def)
    with True 2 show ?thesis by (simp add: to_utf8.simps(2) Let_def del: utf8_len.simps)
  next
    case False
    with 2 to_utf8_valid_prefix [OF False] show ?thesis
      by (simp add: to_utf8.simps(2) Let_def del: utf8_len.simps)
  qed
qed simp

section \<open>Base64\<close>

definition b64_alphabet :: string where
  "b64_alphabet = ''ABCDEFGHIJKLMNOPQRSTUVWXYZabcdefghijklmnopqrstuvwxyz0123456789+/''"

definition b64_char :: "nat \<Rightarrow> char" where
  "b64_char n = b64_alphabet ! (n mod 64)"

fun base64 :: "string \<Rightarrow> string" where
  "base64 [] = []"
| "base64 [a] =
     (let n = of_char a * 2 ^ 16
      in [b64_char (n div 2 ^ 18), b64_char (n div 2 ^ 12), CHR ''='', CHR ''=''])"
| "base64 [a, b] =
     (let n = of_char a * 2 ^ 16 + of_char b * 2 ^ 8
      in [b64_char (n div 2 ^ 18), b64_char (n div 2 ^ 12), b64_char (n div 2 ^ 6), CHR ''=''])"
| "base64 (a # b # c # cs) =
     (let n = of_char a * 2 ^ 16 + of_char b * 2 ^ 8 + of_char c
      in b64_char (n div 2 ^ 18) # b64_char (n div 2 ^ 12) # b64_char (n div 2 ^ 6) # b64_char n # base64 cs)"

lemma set_base64: "set (base64 s) \<subseteq> insert (CHR ''='') (set b64_alphabet)"
proof -
  have "b64_char n \<in> set b64_alphabet" for n
    unfolding b64_char_def by (rule nth_mem) (simp add: b64_alphabet_def)
  then show ?thesis
    by (induction s rule: base64.induct) (simp_all add: Let_def)
qed

section \<open>The round trip through JSON\<close>

text \<open>An integer becomes a float64; a 64-bit integer is never too large for one.\<close>

definition json_int :: "int \<Rightarrow> goval" where
  "json_int i = (case f_of_int i of F_Fin x \<Rightarrow> GFloat (F_Fin x) | _ \<Rightarrow> GNil)"

definition json_map :: "goval gomap \<Rightarrow> goval" where
  "json_map fs = GMap (fold (\<lambda>(k, v). gm_put (to_utf8 k) v) fs [])"

fun json_norm :: "goval \<Rightarrow> goval option"
  and json_norms :: "goval list \<Rightarrow> goval list option"
  and json_fields :: "goval gomap \<Rightarrow> goval gomap option"
  and json_rows :: "goval gomap list \<Rightarrow> goval list option" where
  "json_norm GNil = Some GNil"
| "json_norm GMissing = Some (GMap [])"
| "json_norm (GBool b) = Some (GBool b)"
| "json_norm (GInt i) = Some (json_int (sint i))"
| "json_norm (GInt64 i) = Some (json_int (sint i))"
| "json_norm (GNum k i) = Some (json_int i)"
| "json_norm (GFloat f) = (case f of F_Fin x \<Rightarrow> Some (GFloat f) | _ \<Rightarrow> None)"
| "json_norm (GStr s) = Some (GStr (to_utf8 s))"
| "json_norm (GBytes s) = Some (GStr (base64 s))"
| "json_norm (GSlice xs) = map_option GSlice (json_norms xs)"
| "json_norm (GStrs ss) = Some (GSlice (map (\<lambda>s. GStr (to_utf8 s)) ss))"
| "json_norm (GFloats fs) =
     (if list_all (\<lambda>f. case f of F_Fin x \<Rightarrow> True | _ \<Rightarrow> False) fs then Some (GSlice (map GFloat fs)) else None)"
| "json_norm (GSliceMap rows) = map_option GSlice (json_rows rows)"
| "json_norm (GMap m) = map_option json_map (json_fields m)"
| "json_norm (GMapBool m) = Some (json_map (map (\<lambda>(k, b). (k, GBool b)) m))"
| "json_norm (GMapInt m) = Some (json_map (map (\<lambda>(k, i). (k, json_int i)) m))"
| "json_norm (GMapMapInt m) =
     Some (json_map (map (\<lambda>(n, vs). (n, json_map (map (\<lambda>(k, i). (k, json_int i)) vs))) m))"
| "json_norm (GOverwrite v) = map_option (\<lambda>w. GMap [(''Value'', w)]) (json_norm v)"
| "json_norm (GOverwriter n v) = Some (GMap [])"
| "json_norm (GStruct n z fs) = map_option json_map (json_fields fs)"
| "json_norm (GPtr v) = json_norm v"
| "json_norm (GType k) = Some (GMap [])"
| "json_norm (GOther n i) = None"
| "json_norms [] = Some []"
| "json_norms (v # vs) =
     (case json_norm v of None \<Rightarrow> None | Some w \<Rightarrow> map_option ((#) w) (json_norms vs))"
| "json_fields [] = Some []"
| "json_fields ((k, v) # m) =
     (case json_norm v of None \<Rightarrow> None | Some w \<Rightarrow> map_option ((#) (k, w)) (json_fields m))"
| "json_rows [] = Some []"
| "json_rows (m # ms) =
     (case json_fields m of None \<Rightarrow> None | Some w \<Rightarrow> map_option ((#) (json_map w)) (json_rows ms))"

text \<open>\<^verbatim>\<open>deepCopy\<close>, \<^verbatim>\<open>deepCopyMap\<close> and \<^verbatim>\<open>deepCopySlice\<close>.\<close>

fun deepCopy :: "goval \<Rightarrow> goval"
  and deepCopyMap :: "goval gomap \<Rightarrow> goval gomap"
  and deepCopySlice :: "goval list \<Rightarrow> goval list" where
  "deepCopy val =
     (case val of
        GNil \<Rightarrow> GNil
      | GMap m \<Rightarrow> GMap (deepCopyMap m)
      | GSlice xs \<Rightarrow> GSlice (deepCopySlice xs)
      | _ \<Rightarrow> (case json_norm val of Some result \<Rightarrow> result | None \<Rightarrow> GNil))"
| "deepCopyMap [] = []"
| "deepCopyMap ((key, val) # src) = (key, deepCopy val) # deepCopyMap src"
| "deepCopySlice [] = []"
| "deepCopySlice (val # slc) = deepCopy val # deepCopySlice slc"

declare deepCopy.simps [simp del]

lemma map_of_deepCopyMap: "map_of (deepCopyMap m) k = map_option deepCopy (map_of m k)"
  by (induction m) (auto simp: split_paired_all)

lemma gm_keys_deepCopyMap [simp]: "gm_keys (deepCopyMap m) = gm_keys m"
  by (induction m) auto

lemma deepCopyMap_map: "deepCopyMap m = map (\<lambda>(k, v). (k, deepCopy v)) m"
  by (induction m) auto

lemma deepCopySlice_map: "deepCopySlice xs = map deepCopy xs"
  by (induction xs) auto

text \<open>
  The values that a copy leaves as they are: those that decoding JSON can give, at any depth
  of maps and slices whose keys may be any strings.
\<close>

fun json_val :: "goval \<Rightarrow> bool" where
  "json_val GNil = True"
| "json_val (GBool b) = True"
| "json_val (GFloat f) = (case f of F_Fin x \<Rightarrow> True | _ \<Rightarrow> False)"
| "json_val (GStr s) = (to_utf8 s = s)"
| "json_val (GSlice xs) = list_all json_val xs"
| "json_val (GMap m) = list_all (\<lambda>kv. json_val (snd kv)) m"
| "json_val _ = False"

lemma json_map_vals:
  "list_all (\<lambda>kv. json_val (snd kv)) fs \<Longrightarrow> json_val (json_map fs)"
proof -
  have "list_all (\<lambda>kv. json_val (snd kv)) (fold (\<lambda>(k, v). gm_put (to_utf8 k) v) fs acc)"
    if "list_all (\<lambda>kv. json_val (snd kv)) fs" "list_all (\<lambda>kv. json_val (snd kv)) acc" for acc
    using that
  proof (induction fs arbitrary: acc)
    case (Cons kv fs)
    have "list_all (\<lambda>kv. json_val (snd kv)) (gm_put (to_utf8 (fst kv)) (snd kv) acc)"
      using Cons.prems by (fastforce simp: list_all_iff dest: gm_put_mem)
    with Cons show ?case by (simp add: split_beta)
  qed simp
  then show "list_all (\<lambda>kv. json_val (snd kv)) fs \<Longrightarrow> json_val (json_map fs)"
    by (simp add: json_map_def)
qed

lemma to_utf8_ascii: "list_all (byte_in 0 0x7F) s \<Longrightarrow> to_utf8 s = s"
  by (induction s) (simp_all add: to_utf8.simps(2))

lemma to_utf8_base64 [simp]: "to_utf8 (base64 s) = base64 s"
proof (rule to_utf8_ascii)
  have "list_all (byte_in 0 0x7F) b64_alphabet" by (simp add: b64_alphabet_def byte_in_def)
  then show "list_all (byte_in 0 0x7F) (base64 s)"
    using set_base64 [of s] by (auto simp: list_all_iff byte_in_def)
qed

lemma json_val_int [simp]: "json_val (json_int i)"
  by (simp add: json_int_def split: float64.split)

lemma json_val_int_map: "json_val (json_map (map (\<lambda>(k, i). (k, json_int i)) m))"
  by (rule json_map_vals) (auto simp: list_all_iff)

lemma json_norm_val:
  "json_norm v = Some w \<Longrightarrow> json_val w"
  "json_norms vs = Some ws \<Longrightarrow> list_all json_val ws"
  "json_fields m = Some m' \<Longrightarrow> list_all (\<lambda>kv. json_val (snd kv)) m'"
  "json_rows ms = Some ws' \<Longrightarrow> list_all json_val ws'"
proof (induction v and vs and m and ms arbitrary: w and ws and m' and ws'
    rule: json_norm_json_norms_json_fields_json_rows.induct)
  case (15 m)
  have "json_val (json_map (map (\<lambda>(k, b). (k, GBool b)) m))"
    by (rule json_map_vals) (auto simp: list_all_iff)
  with 15 show ?case by auto
next
  case (17 m)
  have "json_val (json_map (map (\<lambda>(n, vs). (n, json_map (map (\<lambda>(k, i). (k, json_int i)) vs))) m))"
    by (rule json_map_vals) (auto simp: list_all_iff json_val_int_map)
  with 17 show ?case by auto
qed (auto simp: json_map_vals json_val_int_map list.pred_map list.pred_True comp_def split: option.splits if_splits float64.splits)

lemma deepCopy_val:
  "json_val (deepCopy v)"
  "list_all (\<lambda>kv. json_val (snd kv)) (deepCopyMap m)"
  "list_all json_val (deepCopySlice xs)"
  by (induction v and m and xs rule: deepCopy_deepCopyMap_deepCopySlice.induct)
    (auto simp: deepCopy.simps simp del: json_norm.simps dest: json_norm_val(1) split: goval.split option.split)

lemma deepCopy_id: "json_val v \<Longrightarrow> deepCopy v = v"
proof (induction v)
  case (GSlice xs)
  then show ?case by (auto simp: deepCopy.simps deepCopySlice_map list_all_iff intro!: map_idI)
next
  case (GMap m)
  then have "deepCopy v = v" if "(k, v) \<in> set m" for k v
    using that by (fastforce simp: list_all_iff)
  then show ?case by (auto simp: deepCopy.simps deepCopyMap_map intro!: map_idI)
qed (auto simp: deepCopy.simps split: float64.splits)

lemma deepCopyMap_idem [simp]: "deepCopyMap (deepCopyMap m) = deepCopyMap m"
  using deepCopy_val(2) [of m]
  by (subst deepCopyMap_map) (auto simp: list_all_iff deepCopy_id intro!: map_idI)

end
