(* ===== verification/Run_Config.thy ===== *)
theory Run_Config
  imports Go_Errors
begin

text \<open>
  \<^verbatim>\<open>types/config.go\<close>: the configuration of a run. A nil map is \<open>None\<close>, since reading it and writing
  it differ.
\<close>

definition DefaultConfigRecursionLimit :: int where
  "DefaultConfigRecursionLimit = 50"

type_synonym durability = string

definition DurabilitySync :: durability where "DurabilitySync = ''sync''"
definition DurabilityAsync :: durability where "DurabilityAsync = ''async''"
definition DurabilityExit :: durability where "DurabilityExit = ''exit''"

record runnable_config =
  Configurable :: "goval gomap option"
  RecursionLimit :: int
  Tags :: "string list"
  rcMetadata :: "goval gomap option"
  RunID :: string
  ThreadID :: string
  Durability :: durability

definition NewRunnableConfig :: runnable_config where
  "NewRunnableConfig =
     \<lparr>Configurable = Some [], RecursionLimit = DefaultConfigRecursionLimit, Tags = [], rcMetadata = Some [],
      RunID = [], ThreadID = [], Durability = DurabilitySync\<rparr>"

definition rc_Get :: "runnable_config \<Rightarrow> string \<Rightarrow> goval option" where
  "rc_Get c key = (case Configurable c of None \<Rightarrow> None | Some m \<Rightarrow> map_of m key)"

definition rc_Set :: "string \<Rightarrow> goval \<Rightarrow> runnable_config \<Rightarrow> runnable_config" where
  "rc_Set key value c =
     c\<lparr>Configurable := Some (gm_put key value (case Configurable c of None \<Rightarrow> [] | Some m \<Rightarrow> m))\<rparr>"

definition GetOrEmpty :: "runnable_config \<Rightarrow> string \<Rightarrow> string" where
  "GetOrEmpty c key =
     (case Configurable c of
        None \<Rightarrow> []
      | Some m \<Rightarrow>
          (case map_of m key of
             None \<Rightarrow> []
           | Some v \<Rightarrow> (case as_string v of Some s \<Rightarrow> s | None \<Rightarrow> [])))"

text \<open>The setters, which change the config in place and return it.\<close>

definition WithConfigurable :: "goval gomap option \<Rightarrow> runnable_config \<Rightarrow> runnable_config" where
  "WithConfigurable m c = c\<lparr>Configurable := m\<rparr>"

definition rc_WithRecursionLimit :: "int \<Rightarrow> runnable_config \<Rightarrow> runnable_config" where
  "rc_WithRecursionLimit limit c = c\<lparr>RecursionLimit := limit\<rparr>"

definition WithTags :: "string list \<Rightarrow> runnable_config \<Rightarrow> runnable_config" where
  "WithTags tags c = c\<lparr>Tags := tags\<rparr>"

definition WithMetadata :: "goval gomap option \<Rightarrow> runnable_config \<Rightarrow> runnable_config" where
  "WithMetadata m c = c\<lparr>rcMetadata := m\<rparr>"

definition WithRunID :: "string \<Rightarrow> runnable_config \<Rightarrow> runnable_config" where
  "WithRunID i c = c\<lparr>RunID := i\<rparr>"

definition WithThreadID :: "string \<Rightarrow> runnable_config \<Rightarrow> runnable_config" where
  "WithThreadID i c = c\<lparr>ThreadID := i\<rparr>"

definition WithDurability :: "durability \<Rightarrow> runnable_config \<Rightarrow> runnable_config" where
  "WithDurability d c = c\<lparr>Durability := d\<rparr>"

text \<open>
  Merging another config into this one. Writing to the nil map of a config that was not made
  by \<^verbatim>\<open>NewRunnableConfig\<close> panics.
\<close>

definition merge_metadata :: "goval gomap option \<Rightarrow> goval gomap option \<Rightarrow> goval gomap option go_result" where
  "merge_metadata mine other =
     (case other of
        None \<Rightarrow> Inr mine
      | Some [] \<Rightarrow> Inr mine
      | Some kvs \<Rightarrow>
          (case mine of
             None \<Rightarrow> Inl (GoPanic ''assignment to entry in nil map'')
           | Some m \<Rightarrow> Inr (Some (gm_merge m kvs))))"

definition Merge :: "runnable_config option \<Rightarrow> runnable_config \<Rightarrow> runnable_config go_result" where
  "Merge other c =
     (case other of
        None \<Rightarrow> Inr c
      | Some other \<Rightarrow>
          (let c = fold (\<lambda>(k, v). rc_Set k v) (case Configurable other of None \<Rightarrow> [] | Some m \<Rightarrow> m) c;
               c = (if RecursionLimit other > 0 then c\<lparr>RecursionLimit := RecursionLimit other\<rparr> else c);
               c = c\<lparr>Tags := Tags c @ Tags other\<rparr>
           in case merge_metadata (rcMetadata c) (rcMetadata other) of
                Inl err \<Rightarrow> Inl err
              | Inr md \<Rightarrow>
                  (let c = c\<lparr>rcMetadata := md\<rparr>;
                       c = (if RunID other \<noteq> [] then c\<lparr>RunID := RunID other\<rparr> else c);
                       c = (if ThreadID other \<noteq> [] then c\<lparr>ThreadID := ThreadID other\<rparr> else c);
                       c = (if Durability other \<noteq> [] \<and> Durability other \<noteq> DurabilitySync
                            then c\<lparr>Durability := Durability other\<rparr> else c)
                   in Inr c)))"

definition EnsureConfig :: "runnable_config option \<Rightarrow> runnable_config" where
  "EnsureConfig c = (case c of None \<Rightarrow> NewRunnableConfig | Some c \<Rightarrow> c)"

definition PatchConfig ::
  "runnable_config option \<Rightarrow> (runnable_config \<Rightarrow> runnable_config) option list \<Rightarrow> runnable_config" where
  "PatchConfig config patchers =
     fold (\<lambda>p c. case p of Some f \<Rightarrow> f c | None \<Rightarrow> c) patchers (EnsureConfig config)"

fun merge_loop :: "runnable_config option list \<Rightarrow> runnable_config \<Rightarrow> runnable_config go_result" where
  "merge_loop [] result = Inr result"
| "merge_loop (config # cs) result =
     (case Merge config result of Inl err \<Rightarrow> Inl err | Inr r \<Rightarrow> merge_loop cs r)"

definition MergeConfigs :: "runnable_config option list \<Rightarrow> runnable_config go_result" where
  "MergeConfigs configs = merge_loop configs NewRunnableConfig"

text \<open>Starting from a config with a metadata map, as \<^verbatim>\<open>MergeConfigs\<close> does, merging never panics.\<close>

lemma Merge_total: "rcMetadata c \<noteq> None \<Longrightarrow> \<exists>c'. Merge other c = Inr c' \<and> rcMetadata c' \<noteq> None"
proof -
  assume c: "rcMetadata c \<noteq> None"
  have keep: "rcMetadata (fold (\<lambda>(k, v). rc_Set k v) kvs c) = rcMetadata c" for kvs c
    by (induction kvs arbitrary: c) (auto simp: rc_Set_def)
  from c show ?thesis
    by (auto simp: Merge_def merge_metadata_def Let_def keep split: option.splits list.splits)
qed

lemma MergeConfigs_total: "\<exists>c. MergeConfigs configs = Inr c"
proof -
  have "\<exists>c'. merge_loop configs c = Inr c'" if "rcMetadata c \<noteq> None" for c
    using that
  proof (induction configs arbitrary: c)
    case (Cons a configs)
    obtain c' where "Merge a c = Inr c'" "rcMetadata c' \<noteq> None"
      using Merge_total [OF Cons.prems] by blast
    with Cons.IH show ?case by simp
  qed simp
  then show ?thesis by (simp add: MergeConfigs_def NewRunnableConfig_def)
qed

end
