(* ===== verification/Checkpoints.thy ===== *)
theory Checkpoints
  imports Go_JSON Run_Config
begin

text \<open>
  \<^verbatim>\<open>checkpoint/checkpoint.go\<close>, the checkpoint itself: the record with its version counters, cloning,
  and the conversion to and from the map that is stored. A fresh identifier, the current time
  (nanoseconds) and the formatting and parsing of times (\<open>ft\<close> and \<open>pt\<close>) are arguments.
\<close>

definition SourceNode :: string where "SourceNode = ''node''"

record checkpoint_metadata =
  md_ID :: string
  md_ParentID :: string
  md_ThreadID :: string
  md_Step :: int
  md_CreatedAt :: int
  md_Source :: string
  md_Metadata :: "goval gomap"

record pending_write =
  pw_Channel :: string
  pw_Value :: goval
  pw_Overwrite :: bool
  pw_Node :: string
  pw_Timestamp :: int
  pw_TaskID :: string

definition NewPendingWrite :: "int \<Rightarrow> string \<Rightarrow> goval \<Rightarrow> bool \<Rightarrow> string \<Rightarrow> string \<Rightarrow> pending_write" where
  "NewPendingWrite now chan value overwrite node taskID =
     \<lparr>pw_Channel = chan, pw_Value = value, pw_Overwrite = overwrite, pw_Node = node,
      pw_Timestamp = now, pw_TaskID = taskID\<rparr>"

record checkpoint =
  cp_ID :: string
  cp_Version :: int
  cp_ParentID :: string
  cp_ChannelVersions :: "int gomap"
  cp_VersionsSeen :: "int gomap gomap"
  cp_State :: "goval gomap"
  cp_PendingWrites :: "pending_write list"
  cp_Metadata :: checkpoint_metadata

definition NewCheckpoint :: "string \<Rightarrow> int \<Rightarrow> string \<Rightarrow> int \<Rightarrow> checkpoint" where
  "NewCheckpoint newID now threadID step =
     \<lparr>cp_ID = newID, cp_Version = 0, cp_ParentID = [], cp_ChannelVersions = [], cp_VersionsSeen = [],
      cp_State = [], cp_PendingWrites = [],
      cp_Metadata = \<lparr>md_ID = newID, md_ParentID = [], md_ThreadID = threadID, md_Step = step,
        md_CreatedAt = now, md_Source = SourceNode, md_Metadata = []\<rparr>\<rparr>"

definition Clone :: "string \<Rightarrow> int \<Rightarrow> checkpoint \<Rightarrow> checkpoint" where
  "Clone newID now c =
     \<lparr>cp_ID = newID, cp_Version = cp_Version c, cp_ParentID = cp_ID c,
      cp_ChannelVersions = gm_merge [] (cp_ChannelVersions c),
      cp_VersionsSeen = fold (\<lambda>(n, vs). gm_put n (gm_merge [] vs)) (cp_VersionsSeen c) [],
      cp_State = fold (\<lambda>(k, v). gm_put k (deepCopy v)) (cp_State c) [],
      cp_PendingWrites = map (\<lambda>pw. pw\<lparr>pw_Value := deepCopy (pw_Value pw)\<rparr>) (cp_PendingWrites c),
      cp_Metadata = \<lparr>md_ID = newID, md_ParentID = cp_ID c, md_ThreadID = md_ThreadID (cp_Metadata c),
        md_Step = md_Step (cp_Metadata c), md_CreatedAt = now, md_Source = md_Source (cp_Metadata c),
        md_Metadata = fold (\<lambda>(k, v). gm_put k (deepCopy v)) (md_Metadata (cp_Metadata c)) []\<rparr>\<rparr>"

definition IncrementChannel :: "string \<Rightarrow> checkpoint \<Rightarrow> checkpoint" where
  "IncrementChannel chan c =
     c\<lparr>cp_ChannelVersions := gm_put chan (gm_int (cp_ChannelVersions c) chan + 1) (cp_ChannelVersions c)\<rparr>"

definition cp_seen :: "checkpoint \<Rightarrow> string \<Rightarrow> int gomap" where
  "cp_seen c node = (case map_of (cp_VersionsSeen c) node of None \<Rightarrow> [] | Some vs \<Rightarrow> vs)"

definition cp_MarkSeen :: "string \<Rightarrow> string \<Rightarrow> checkpoint \<Rightarrow> checkpoint" where
  "cp_MarkSeen node chan c =
     c\<lparr>cp_VersionsSeen :=
         gm_put node (gm_put chan (gm_int (cp_ChannelVersions c) chan) (cp_seen c node)) (cp_VersionsSeen c)\<rparr>"

definition cp_HasSeen :: "string \<Rightarrow> string \<Rightarrow> checkpoint \<Rightarrow> bool" where
  "cp_HasSeen node chan c \<longleftrightarrow>
     (case map_of (cp_VersionsSeen c) node of
        None \<Rightarrow> False
      | Some versions \<Rightarrow>
          (case map_of versions chan of
             None \<Rightarrow> False
           | Some version \<Rightarrow> version = gm_int (cp_ChannelVersions c) chan))"

definition AddPendingWrite :: "string \<Rightarrow> goval \<Rightarrow> bool \<Rightarrow> string \<Rightarrow> checkpoint \<Rightarrow> checkpoint" where
  "AddPendingWrite chan value overwrite node c =
     c\<lparr>cp_PendingWrites := cp_PendingWrites c
        @ [\<lparr>pw_Channel = chan, pw_Value = value, pw_Overwrite = overwrite, pw_Node = node,
            pw_Timestamp = 0, pw_TaskID = []\<rparr>]\<rparr>"

definition ClearPendingWrites :: "checkpoint \<Rightarrow> checkpoint" where
  "ClearPendingWrites c = c\<lparr>cp_PendingWrites := []\<rparr>"

section \<open>The stored map\<close>

definition write_map :: "pending_write \<Rightarrow> goval gomap" where
  "write_map pw =
     [(''channel'', GStr (pw_Channel pw)), (''value'', pw_Value pw), (''overwrite'', GBool (pw_Overwrite pw)),
      (''node'', GStr (pw_Node pw))]"

definition metadata_map :: "(int \<Rightarrow> string) \<Rightarrow> checkpoint_metadata \<Rightarrow> goval gomap" where
  "metadata_map ft md =
     gm_merge
       [(''id'', GStr (md_ID md)), (''parent_id'', GStr (md_ParentID md)), (''thread_id'', GStr (md_ThreadID md)),
        (''step'', GInt (of_int (md_Step md))), (''created_at'', GStr (ft (md_CreatedAt md))),
        (''source'', GStr (md_Source md))]
       (md_Metadata md)"

definition ToMap :: "(int \<Rightarrow> string) \<Rightarrow> checkpoint \<Rightarrow> goval gomap" where
  "ToMap ft c =
     [(''id'', GStr (cp_ID c)), (''version'', GInt (of_int (cp_Version c))), (''parent_id'', GStr (cp_ParentID c)),
      (''channel_versions'', GMapInt (gm_merge [] (cp_ChannelVersions c))),
      (''versions_seen'',
        GMapMapInt (fold (\<lambda>(n, vs). gm_put n (gm_merge [] vs)) (cp_VersionsSeen c) [])),
      (''state'', GMap (fold (\<lambda>(k, v). gm_put k (deepCopy v)) (cp_State c) [])),
      (''pending_writes'', GSliceMap (map write_map (cp_PendingWrites c))),
      (''metadata'', GMap (metadata_map ft (cp_Metadata c)))]"

definition getString :: "goval gomap \<Rightarrow> string \<Rightarrow> string" where
  "getString data key = (case as_string (gm_val data key) of Some s \<Rightarrow> s | None \<Rightarrow> [])"

definition getInt :: "goval gomap \<Rightarrow> string \<Rightarrow> int \<Rightarrow> int" where
  "getInt data key defaultVal = (case as_float (gm_val data key) of Some f \<Rightarrow> int_of_f f | None \<Rightarrow> defaultVal)"

definition getBool :: "goval gomap \<Rightarrow> string \<Rightarrow> bool \<Rightarrow> bool" where
  "getBool data key defaultVal = (case as_bool (gm_val data key) of Some b \<Rightarrow> b | None \<Rightarrow> defaultVal)"

definition float_entries :: "goval gomap \<Rightarrow> int gomap" where
  "float_entries cv =
     fold (\<lambda>(k, v) m. case as_float v of Some num \<Rightarrow> gm_put k (int_of_f num) m | None \<Rightarrow> m) cv []"

definition seen_entries :: "goval gomap \<Rightarrow> int gomap gomap" where
  "seen_entries vs =
     fold (\<lambda>(n, v) m. case as_map v of Some vMap \<Rightarrow> gm_put n (float_entries vMap) m | None \<Rightarrow> m) vs []"

definition parse_write :: "goval \<Rightarrow> pending_write list" where
  "parse_write pw =
     (case as_map pw of
        None \<Rightarrow> []
      | Some m \<Rightarrow> [\<lparr>pw_Channel = getString m ''channel'', pw_Value = gm_val m ''value'',
                     pw_Overwrite = getBool m ''overwrite'' False, pw_Node = getString m ''node'',
                     pw_Timestamp = 0, pw_TaskID = []\<rparr>])"

definition reserved_metadata :: "string list" where
  "reserved_metadata = [''id'', ''parent_id'', ''thread_id'', ''step'', ''created_at'', ''source'']"

definition zero_metadata :: checkpoint_metadata where
  "zero_metadata = \<lparr>md_ID = [], md_ParentID = [], md_ThreadID = [], md_Step = 0, md_CreatedAt = 0,
     md_Source = [], md_Metadata = []\<rparr>"

definition parse_metadata :: "(string \<Rightarrow> int option) \<Rightarrow> goval \<Rightarrow> checkpoint_metadata" where
  "parse_metadata pt v =
     (case as_map v of
        None \<Rightarrow> zero_metadata
      | Some md \<Rightarrow>
          \<lparr>md_ID = getString md ''id'', md_ParentID = getString md ''parent_id'',
           md_ThreadID = getString md ''thread_id'', md_Step = getInt md ''step'' 0,
           md_CreatedAt = (if getString md ''created_at'' \<noteq> []
                           then (case pt (getString md ''created_at'') of Some t \<Rightarrow> t | None \<Rightarrow> 0) else 0),
           md_Source = getString md ''source'',
           md_Metadata = fold (\<lambda>(k, v) m. if k \<notin> set reserved_metadata then gm_put k v m else m) md []\<rparr>)"

text \<open>The function never returns an error.\<close>

definition FromMap :: "(string \<Rightarrow> int option) \<Rightarrow> goval gomap \<Rightarrow> checkpoint" where
  "FromMap pt data =
     \<lparr>cp_ID = getString data ''id'', cp_Version = getInt data ''version'' 0, cp_ParentID = getString data ''parent_id'',
      cp_ChannelVersions = (case as_map (gm_val data ''channel_versions'') of Some cv \<Rightarrow> float_entries cv | None \<Rightarrow> []),
      cp_VersionsSeen = (case as_map (gm_val data ''versions_seen'') of Some vs \<Rightarrow> seen_entries vs | None \<Rightarrow> []),
      cp_State = (case as_map (gm_val data ''state'') of
                    Some st \<Rightarrow> fold (\<lambda>(k, v). gm_put k (deepCopy v)) st [] | None \<Rightarrow> []),
      cp_PendingWrites = (case as_slice (gm_val data ''pending_writes'') of
                            Some pws \<Rightarrow> concat (map parse_write pws) | None \<Rightarrow> []),
      cp_Metadata = parse_metadata pt (gm_val data ''metadata'')\<rparr>"

section \<open>The round trip through the stored map\<close>

lemma json_map_utf8:
  assumes "gm_ok fs" and "\<forall>k \<in> gm_dom fs. to_utf8 k = k"
  shows "json_map fs = GMap fs"
proof -
  have "fold (\<lambda>(k, v). gm_put (to_utf8 k) v) fs acc = fold (\<lambda>(k, v). gm_put k v) fs acc" for acc
    using assms(2) by (induction fs arbitrary: acc) auto
  then show ?thesis
    using fold_put_distinct [of "[]" fs "\<lambda>v. v"] assms(1) by (simp add: json_map_def)
qed

lemma json_int_small: "\<bar>i\<bar> < 2 ^ 53 \<Longrightarrow> json_int i = GFloat (f_of_int i)"
  by (simp add: json_int_def f_of_int_def round64_of_int)

lemma float_entries_ints:
  assumes "gm_ok m" and "\<forall>(k, i) \<in> set m. \<bar>i\<bar> < 2 ^ 53"
  shows "float_entries (map (\<lambda>(k, i). (k, json_int i)) m) = m"
proof -
  have "fold (\<lambda>(k, v) m. case as_float v of Some num \<Rightarrow> gm_put k (int_of_f num) m | None \<Rightarrow> m)
      (map (\<lambda>(k, i). (k, json_int i)) m) acc = fold (\<lambda>(k, i). gm_put k i) m acc" for acc
    using assms(2)
    by (induction m arbitrary: acc) (auto simp: json_int_small int_of_f_of_int)
  then show ?thesis
    using fold_put_distinct [of "[]" m "\<lambda>v. v"] assms(1) by (simp add: float_entries_def)
qed

definition ints_ok :: "int gomap \<Rightarrow> bool" where
  "ints_ok m \<longleftrightarrow> gm_ok m \<and> (\<forall>(k, i) \<in> set m. \<bar>i\<bar> < 2 ^ 53) \<and> (\<forall>k \<in> gm_dom m. to_utf8 k = k)"

lemma json_ints: "ints_ok m \<Longrightarrow> json_map (map (\<lambda>(k, i). (k, json_int i)) m) = GMap (map (\<lambda>(k, i). (k, json_int i)) m)"
  by (rule json_map_utf8) (auto simp: ints_ok_def comp_def split_beta image_image)

lemma seen_entries_ints:
  assumes "gm_ok m" and "\<forall>(n, vs) \<in> set m. ints_ok vs"
  shows "seen_entries (map (\<lambda>(n, vs). (n, json_map (map (\<lambda>(k, i). (k, json_int i)) vs))) m) = m"
proof -
  have "fold (\<lambda>(n, v) m. case as_map v of Some vMap \<Rightarrow> gm_put n (float_entries vMap) m | None \<Rightarrow> m)
      (map (\<lambda>(n, vs). (n, json_map (map (\<lambda>(k, i). (k, json_int i)) vs))) m) acc
      = fold (\<lambda>(n, vs). gm_put n vs) m acc" for acc
    using assms(2)
  proof (induction m arbitrary: acc)
    case (Cons nv m)
    obtain n vs where nv: "nv = (n, vs)" by force
    have ok: "ints_ok vs" using Cons.prems by (auto simp: nv)
    then have "float_entries (map (\<lambda>(k, i). (k, json_int i)) vs) = vs"
      by (intro float_entries_ints) (auto simp: ints_ok_def)
    with Cons ok show ?case by (simp add: nv json_ints)
  qed simp
  then show ?thesis
    using fold_put_distinct [of "[]" m "\<lambda>v. v"] assms(1) by (simp add: seen_entries_def)
qed

lemma json_seen:
  assumes "gm_ok m" and "\<forall>k \<in> gm_dom m. to_utf8 k = k"
  shows "json_map (map (\<lambda>(n, vs). (n, f vs)) m) = GMap (map (\<lambda>(n, vs). (n, f vs)) m)"
  using assms by (intro json_map_utf8) (auto simp: comp_def split_beta image_image)

text \<open>
  What the stored form can hold: identifiers and keys that are UTF-8, counters that a float64 holds
  exactly, values that are their own JSON copy, and no custom metadata under a reserved key.
\<close>

definition write_storable :: "pending_write \<Rightarrow> bool" where
  "write_storable pw \<longleftrightarrow>
     to_utf8 (pw_Channel pw) = pw_Channel pw \<and> to_utf8 (pw_Node pw) = pw_Node pw
     \<and> json_norm (pw_Value pw) = Some (pw_Value pw)"

definition metadata_storable :: "checkpoint_metadata \<Rightarrow> bool" where
  "metadata_storable md \<longleftrightarrow>
     to_utf8 (md_ID md) = md_ID md \<and> to_utf8 (md_ParentID md) = md_ParentID md
     \<and> to_utf8 (md_ThreadID md) = md_ThreadID md \<and> to_utf8 (md_Source md) = md_Source md
     \<and> \<bar>md_Step md\<bar> < 2 ^ 53 \<and> distinct (reserved_metadata @ gm_keys (md_Metadata md))
     \<and> (\<forall>(k, v) \<in> set (md_Metadata md). json_val v)"

definition storable :: "checkpoint \<Rightarrow> bool" where
  "storable c \<longleftrightarrow>
     to_utf8 (cp_ID c) = cp_ID c \<and> to_utf8 (cp_ParentID c) = cp_ParentID c
     \<and> \<bar>cp_Version c\<bar> < 2 ^ 53 \<and> ints_ok (cp_ChannelVersions c)
     \<and> gm_ok (cp_VersionsSeen c) \<and> (\<forall>k \<in> gm_dom (cp_VersionsSeen c). to_utf8 k = k)
     \<and> (\<forall>(n, vs) \<in> set (cp_VersionsSeen c). ints_ok vs)
     \<and> gm_ok (cp_State c) \<and> (\<forall>(k, v) \<in> set (cp_State c). json_val v)
     \<and> list_all write_storable (cp_PendingWrites c) \<and> metadata_storable (cp_Metadata c)"

lemma sint_of_small: "\<bar>i\<bar> < 2 ^ 53 \<Longrightarrow> sint (of_int i :: 64 word) = i"
  by (simp add: signed_of_int signed_take_bit_int_eq_self)

lemma map_vals_id: "(\<And>k v. (k, v) \<in> set m \<Longrightarrow> f v = v) \<Longrightarrow> map (\<lambda>(k, v). (k, f v)) m = m"
  by (rule map_idI) auto

lemma deepCopy_state:
  assumes "gm_ok m" and "\<forall>(k, v) \<in> set m. json_val v"
  shows "fold (\<lambda>(k, v). gm_put k (deepCopy v)) m [] = m"
proof -
  have "map (\<lambda>(k, v). (k, deepCopy v)) m = m"
    using assms(2) by (intro map_vals_id) (auto simp: deepCopy_id)
  then show ?thesis using fold_put_distinct [of "[]" m deepCopy] assms(1) by simp
qed

lemma stored_writes:
  assumes "list_all write_storable pws"
  shows "deepCopy (GSliceMap (map write_map pws)) = GSlice (map (\<lambda>pw. GMap (write_map pw)) pws)
    \<and> concat (map parse_write (map (\<lambda>pw. GMap (write_map pw)) pws))
      = map (\<lambda>pw. pw\<lparr>pw_Timestamp := 0, pw_TaskID := []\<rparr>) pws"
proof -
  have fields: "json_fields (write_map pw) = Some (write_map pw)" if "write_storable pw" for pw
    using that by (simp add: write_map_def write_storable_def)
  have jmap: "json_map (write_map pw) = GMap (write_map pw)" for pw
    by (rule json_map_utf8) (simp_all add: write_map_def to_utf8_ascii byte_in_def)
  have "json_rows (map write_map pws) = Some (map (\<lambda>pw. GMap (write_map pw)) pws)"
    using assms by (induction pws) (simp_all add: fields jmap)
  moreover have "parse_write (GMap (write_map pw)) = [pw\<lparr>pw_Timestamp := 0, pw_TaskID := []\<rparr>]" for pw
    by (simp add: parse_write_def write_map_def getString_def getBool_def gm_val_def)
  then have "concat (map (parse_write \<circ> (\<lambda>pw. GMap (write_map pw))) pws)
      = map (\<lambda>pw. pw\<lparr>pw_Timestamp := 0, pw_TaskID := []\<rparr>) pws"
    by (induction pws) simp_all
  ultimately show ?thesis by (simp add: deepCopy.simps)
qed

lemma stored_metadata:
  assumes "metadata_storable md"
    and "to_utf8 (ft (md_CreatedAt md)) = ft (md_CreatedAt md)" "ft (md_CreatedAt md) \<noteq> []"
    and "pt (ft (md_CreatedAt md)) = Some (md_CreatedAt md)"
  shows "parse_metadata pt (deepCopy (GMap (metadata_map ft md))) = md"
proof -
  define base where "base = [(''id'', GStr (md_ID md)), (''parent_id'', GStr (md_ParentID md)),
    (''thread_id'', GStr (md_ThreadID md)), (''step'', GFloat (f_of_int (md_Step md))),
    (''created_at'', GStr (ft (md_CreatedAt md))), (''source'', GStr (md_Source md))]"
  have keys: "distinct (reserved_metadata @ gm_keys (md_Metadata md))" and small: "\<bar>md_Step md\<bar> < 2 ^ 53"
    and vals: "\<forall>(k, v) \<in> set (md_Metadata md). json_val v"
    using assms(1) by (simp_all add: metadata_storable_def)
  have custom: "deepCopyMap (md_Metadata md) = md_Metadata md"
    unfolding deepCopyMap_map using vals by (intro map_vals_id) (auto simp: deepCopy_id)
  have "metadata_map ft md =
      [(''id'', GStr (md_ID md)), (''parent_id'', GStr (md_ParentID md)), (''thread_id'', GStr (md_ThreadID md)),
        (''step'', GInt (of_int (md_Step md))), (''created_at'', GStr (ft (md_CreatedAt md))),
        (''source'', GStr (md_Source md))] @ md_Metadata md"
    unfolding metadata_map_def using keys by (intro gm_merge_disjoint) (simp add: reserved_metadata_def)
  then have copy: "deepCopy (GMap (metadata_map ft md)) = GMap (base @ md_Metadata md)"
    using assms(1,2) small
    by (simp add: deepCopy.simps base_def custom metadata_storable_def sint_of_small json_int_small)
  have rest: "fold (\<lambda>(k, v) m. if k \<notin> set reserved_metadata then gm_put k v m else m) (base @ md_Metadata md) []
      = md_Metadata md"
  proof -
    have "fold (\<lambda>(k, v) m. if k \<notin> set reserved_metadata then gm_put k v m else m) base [] = []"
      by (simp add: base_def reserved_metadata_def)
    moreover have "fold (\<lambda>(k, v) m. if k \<notin> set reserved_metadata then gm_put k v m else m) kvs acc
        = fold (\<lambda>(k, v). gm_put k v) kvs acc" if "gm_dom kvs \<inter> set reserved_metadata = {}" for kvs :: "goval gomap" and acc
      using that by (induction kvs arbitrary: acc) auto
    moreover have "gm_dom (md_Metadata md) \<inter> set reserved_metadata = {}" using keys by auto
    ultimately show ?thesis
      using fold_put_distinct [of "[]" "md_Metadata md" "\<lambda>v. v"] keys by simp
  qed
  show ?thesis
    unfolding parse_metadata_def copy as_map_GMap option.case rest
    using assms small
    by (simp add: base_def getString_def getInt_def gm_val_def int_of_f_of_int)
qed

text \<open>
  C21: a checkpoint survives storage. Let \<open>c\<close> be a storable checkpoint whose
  creation time is parsed back from its text. Converting \<open>c\<close> to a map, copying the map as a saver does
  and converting it back gives \<open>c\<close>, with every version counter, the state, the metadata and the
  pending writes; only the time stamp and task of a pending write are not stored.
\<close>

theorem checkpoint_roundtrip:
  assumes "storable c"
    and "pt (ft (md_CreatedAt (cp_Metadata c))) = Some (md_CreatedAt (cp_Metadata c))"
    and "to_utf8 (ft (md_CreatedAt (cp_Metadata c))) = ft (md_CreatedAt (cp_Metadata c))"
    and "ft (md_CreatedAt (cp_Metadata c)) \<noteq> []"
  shows "FromMap pt (deepCopyMap (ToMap ft c)) =
    c\<lparr>cp_PendingWrites := map (\<lambda>pw. pw\<lparr>pw_Timestamp := 0, pw_TaskID := []\<rparr>) (cp_PendingWrites c)\<rparr>"
proof -
  note ok = assms(1) [unfolded storable_def]
  have versions: "deepCopy (GMapInt (gm_merge [] (cp_ChannelVersions c)))
      = GMap (map (\<lambda>(k, i). (k, json_int i)) (cp_ChannelVersions c))"
    using ok by (simp add: deepCopy.simps json_ints ints_ok_def)
  have "fold (\<lambda>(n, vs). gm_put n (gm_merge [] vs)) (cp_VersionsSeen c) []
      = map (\<lambda>(n, vs). (n, gm_merge [] vs)) (cp_VersionsSeen c)"
    using fold_put_distinct [of "[]" "cp_VersionsSeen c" "gm_merge []"] ok by simp
  also have "\<dots> = cp_VersionsSeen c"
    using ok by (intro map_vals_id) (auto simp: ints_ok_def)
  finally have seen: "deepCopy (GMapMapInt (fold (\<lambda>(n, vs). gm_put n (gm_merge [] vs)) (cp_VersionsSeen c) []))
      = GMap (map (\<lambda>(n, vs). (n, json_map (map (\<lambda>(k, i). (k, json_int i)) vs))) (cp_VersionsSeen c))"
    using ok by (simp add: deepCopy.simps json_seen)
  have state: "deepCopy (GMap (fold (\<lambda>(k, v). gm_put k (deepCopy v)) (cp_State c) [])) = GMap (cp_State c)"
    using ok by (simp add: deepCopy_state deepCopy_id list_all_iff split_beta)
  have "list_all write_storable (cp_PendingWrites c)" using ok by simp
  note writes = stored_writes [OF this]
  have md: "parse_metadata pt (deepCopy (GMap (metadata_map ft (cp_Metadata c)))) = cp_Metadata c"
    using ok assms by (intro stored_metadata) simp_all
  have str: "deepCopy (GStr s) = GStr (to_utf8 s)" and num: "deepCopy (GInt i) = json_int (sint i)" for s i
    by (simp_all add: deepCopy.simps)
  have stored: "deepCopyMap (ToMap ft c) =
     [(''id'', GStr (cp_ID c)), (''version'', GFloat (f_of_int (cp_Version c))), (''parent_id'', GStr (cp_ParentID c)),
      (''channel_versions'', GMap (map (\<lambda>(k, i). (k, json_int i)) (cp_ChannelVersions c))),
      (''versions_seen'', GMap (map (\<lambda>(n, vs). (n, json_map (map (\<lambda>(k, i). (k, json_int i)) vs))) (cp_VersionsSeen c))),
      (''state'', GMap (cp_State c)),
      (''pending_writes'', GSlice (map (\<lambda>pw. GMap (write_map pw)) (cp_PendingWrites c))),
      (''metadata'', deepCopy (GMap (metadata_map ft (cp_Metadata c))))]"
    using ok writes by (simp add: ToMap_def versions seen state str num sint_of_small json_int_small)
  have "float_entries (map (\<lambda>(k, i). (k, json_int i)) (cp_ChannelVersions c)) = cp_ChannelVersions c"
    using ok by (intro float_entries_ints) (simp_all add: ints_ok_def)
  moreover have "seen_entries (map (\<lambda>(n, vs). (n, json_map (map (\<lambda>(k, i). (k, json_int i)) vs))) (cp_VersionsSeen c))
      = cp_VersionsSeen c"
    using ok by (intro seen_entries_ints) simp_all
  ultimately show ?thesis
    unfolding FromMap_def stored
    using ok writes md
    by (intro checkpoint.equality) (simp_all add: getString_def getInt_def gm_val_def int_of_f_of_int deepCopy_state)
qed

theorem checkpoint_roundtrip_witness:
  "let c = AddPendingWrite ''x'' (GStr ''v'') True ''n''
             (cp_MarkSeen ''n'' ''x'' (IncrementChannel ''x'' (NewCheckpoint ''c1'' 0 ''t'' 7)))
   in FromMap (\<lambda>s. Some 0) (deepCopyMap (ToMap (\<lambda>t. ''now'') (c\<lparr>cp_Version := 3\<rparr>))) = c\<lparr>cp_Version := 3\<rparr>"
proof -
  define c where "c = (AddPendingWrite ''x'' (GStr ''v'') True ''n''
    (cp_MarkSeen ''n'' ''x'' (IncrementChannel ''x'' (NewCheckpoint ''c1'' 0 ''t'' 7))))\<lparr>cp_Version := 3\<rparr>"
  have c: "c = \<lparr>cp_ID = ''c1'', cp_Version = 3, cp_ParentID = [], cp_ChannelVersions = [(''x'', 1)],
      cp_VersionsSeen = [(''n'', [(''x'', 1)])], cp_State = [],
      cp_PendingWrites = [\<lparr>pw_Channel = ''x'', pw_Value = GStr ''v'', pw_Overwrite = True, pw_Node = ''n'',
        pw_Timestamp = 0, pw_TaskID = []\<rparr>],
      cp_Metadata = \<lparr>md_ID = ''c1'', md_ParentID = [], md_ThreadID = ''t'', md_Step = 7, md_CreatedAt = 0,
        md_Source = SourceNode, md_Metadata = []\<rparr>\<rparr>"
    by (simp add: c_def AddPendingWrite_def cp_MarkSeen_def IncrementChannel_def NewCheckpoint_def cp_seen_def gm_int_def)
  have ascii: "to_utf8 ''c1'' = ''c1''" "to_utf8 ''x'' = ''x''" "to_utf8 ''n'' = ''n''" "to_utf8 ''t'' = ''t''"
    "to_utf8 ''v'' = ''v''" "to_utf8 SourceNode = SourceNode" "to_utf8 ''now'' = ''now''"
    by (simp_all add: to_utf8_ascii byte_in_def SourceNode_def)
  have ok: "storable c"
    by (simp add: c storable_def ints_ok_def write_storable_def metadata_storable_def ascii reserved_metadata_def)
  show ?thesis
    using checkpoint_roundtrip [OF ok, of "\<lambda>s. Some 0" "\<lambda>t. ''now''"]
    unfolding Let_def c_def [symmetric] by (simp add: c ascii)
qed

text \<open>
  Without the copy in between, the conversions do not fit together. \<^verbatim>\<open>ToMap\<close> writes counters as
  \<^verbatim>\<open>int\<close> and typed maps, \<^verbatim>\<open>FromMap\<close> reads float64 and untyped maps, so \<^verbatim>\<open>FromMap(c.ToMap())\<close> has
  the right identifiers but no version, no channel versions, no versions seen and no pending writes.
\<close>

theorem FromMap_ToMap_loses_versions:
  "cp_ID (FromMap pt (ToMap ft c)) = cp_ID c \<and> cp_ParentID (FromMap pt (ToMap ft c)) = cp_ParentID c
   \<and> cp_Version (FromMap pt (ToMap ft c)) = 0
   \<and> cp_ChannelVersions (FromMap pt (ToMap ft c)) = []
   \<and> cp_VersionsSeen (FromMap pt (ToMap ft c)) = []
   \<and> cp_PendingWrites (FromMap pt (ToMap ft c)) = []"
  by (simp add: FromMap_def ToMap_def getString_def getInt_def gm_val_def as_float_def as_map_def as_slice_def)

end
