(* ===== verification/Checkpoint_Manager.thy ===== *)
theory Checkpoint_Manager
  imports Checkpoints
begin

text \<open>
  \<^verbatim>\<open>CheckpointManager\<close> of \<^verbatim>\<open>checkpoint/checkpoint.go\<close>: the history of checkpoints per thread with its
  optimistic concurrency control. Every method holds the manager's lock, so a method is one step
  and a concurrent execution is a sequence of steps. \<^verbatim>\<open>Save\<close> keeps the caller's checkpoint itself; callers are taken not to change
  it afterwards.
\<close>

record checkpoint_manager =
  cm_checkpoints :: "checkpoint list gomap"
  cm_maxVersions :: int

definition DefaultCheckpointMaxVersions :: int where
  "DefaultCheckpointMaxVersions = 100"

definition NewCheckpointManager :: "int \<Rightarrow> checkpoint_manager" where
  "NewCheckpointManager maxVersions =
     \<lparr>cm_checkpoints = [], cm_maxVersions = (if maxVersions \<le> 0 then DefaultCheckpointMaxVersions else maxVersions)\<rparr>"

text \<open>Reading a thread that is not in the map gives an empty slice.\<close>

definition thread_of :: "checkpoint_manager \<Rightarrow> string \<Rightarrow> checkpoint list" where
  "thread_of cm t = (case map_of (cm_checkpoints cm) t of None \<Rightarrow> [] | Some cps \<Rightarrow> cps)"

definition set_thread :: "string \<Rightarrow> checkpoint list \<Rightarrow> checkpoint_manager \<Rightarrow> checkpoint_manager" where
  "set_thread t cps cm = cm\<lparr>cm_checkpoints := gm_put t cps (cm_checkpoints cm)\<rparr>"

definition RunnableConfigToMap :: "runnable_config option \<Rightarrow> goval gomap" where
  "RunnableConfigToMap cfg =
     (case cfg of
        None \<Rightarrow> []
      | Some c \<Rightarrow> [(''thread_id'', GStr (ThreadID c)), (''checkpoint_id'', GStr (GetOrEmpty c ''checkpoint_id'')),
                    (''checkpoint_ns'', GStr (GetOrEmpty c ''checkpoint_ns''))])"

section \<open>Writing\<close>

definition save_conflict :: "checkpoint \<Rightarrow> checkpoint \<Rightarrow> bool" where
  "save_conflict latest c \<longleftrightarrow>
     cp_ParentID c \<noteq> [] \<and> cp_ID latest \<noteq> cp_ParentID c
     \<or> cp_Version c > 0 \<and> cp_Version latest \<noteq> cp_Version c - 1"

definition cm_Save :: "checkpoint \<Rightarrow> checkpoint_manager \<Rightarrow> go_error option \<times> checkpoint_manager" where
  "cm_Save c cm =
     (let threadID = md_ThreadID (cp_Metadata c); cps = thread_of cm threadID
      in if length cps > 0 \<and> save_conflict (last cps) c
         then (Some (VersionConflictError (cp_Version c) (cp_Version (last cps) + 1) (cp_ID c) threadID), cm)
         else let cps = cps @ [c];
                  cps = (if int (length cps) > cm_maxVersions cm
                         then drop (length cps - nat (cm_maxVersions cm)) cps else cps)
              in (None, set_thread threadID cps cm))"

definition apply_write :: "pending_write \<Rightarrow> checkpoint \<Rightarrow> checkpoint" where
  "apply_write w c =
     IncrementChannel (pw_Channel w) (c\<lparr>cp_State := gm_put (pw_Channel w) (pw_Value w) (cp_State c)\<rparr>)"

definition cm_PutWrites ::
  "string \<Rightarrow> int \<Rightarrow> runnable_config \<Rightarrow> pending_write list \<Rightarrow> checkpoint_manager
   \<Rightarrow> go_error option \<times> checkpoint_manager" where
  "cm_PutWrites newID now config writes cm =
     (let threadID = ThreadID config; cps = thread_of cm threadID
      in if threadID = [] then (Some (Errorf ''thread ID is required for put_writes''), cm)
         else if length cps = 0 then (Some (Errorf (''no checkpoint found for thread '' @ threadID)), cm)
         else let current = last cps; callerID = GetOrEmpty config ''checkpoint_id''
              in if callerID = []
                 then (Some (Errorf (''checkpoint_id is required for put_writes on thread '' @ threadID)), cm)
                 else if callerID \<noteq> cp_ID current
                 then (Some (VersionConflictError (cp_Version current) (cp_Version current + 1)
                         (cp_ID current) threadID), cm)
                 else let new = (Clone newID now current)
                            \<lparr>cp_Version := cp_Version current + 1, cp_ParentID := cp_ID current\<rparr>;
                          new = fold apply_write writes new
                      in (None, set_thread threadID (cps @ [new]) cm))"

fun delete_first :: "string \<Rightarrow> checkpoint list \<Rightarrow> checkpoint list option" where
  "delete_first cid [] = None"
| "delete_first cid (c # cs) = (if cp_ID c = cid then Some cs else map_option ((#) c) (delete_first cid cs))"

fun delete_loop :: "string \<Rightarrow> checkpoint list gomap \<Rightarrow> checkpoint_manager \<Rightarrow> go_error option \<times> checkpoint_manager" where
  "delete_loop cid [] cm = (Some (Errorf (''checkpoint not found: '' @ cid)), cm)"
| "delete_loop cid ((t, cps) # ts) cm =
     (case delete_first cid cps of
        Some cps' \<Rightarrow> (None, set_thread t cps' cm)
      | None \<Rightarrow> delete_loop cid ts cm)"

definition cm_Delete :: "string \<Rightarrow> checkpoint_manager \<Rightarrow> go_error option \<times> checkpoint_manager" where
  "cm_Delete cid cm = delete_loop cid (cm_checkpoints cm) cm"

definition ClearThread :: "string \<Rightarrow> checkpoint_manager \<Rightarrow> checkpoint_manager" where
  "ClearThread t cm = cm\<lparr>cm_checkpoints := gm_del t (cm_checkpoints cm)\<rparr>"

definition ClearAll :: "checkpoint_manager \<Rightarrow> checkpoint_manager" where
  "ClearAll cm = cm\<lparr>cm_checkpoints := []\<rparr>"

section \<open>Reading\<close>

definition cm_Load :: "string \<Rightarrow> int \<Rightarrow> checkpoint_manager \<Rightarrow> string \<Rightarrow> checkpoint option" where
  "cm_Load newID now cm t =
     (let cps = thread_of cm t in if length cps = 0 then None else Some (Clone newID now (last cps)))"

definition LoadByCheckpointID :: "string \<Rightarrow> int \<Rightarrow> checkpoint_manager \<Rightarrow> string \<Rightarrow> checkpoint go_result" where
  "LoadByCheckpointID newID now cm cid =
     (case find (\<lambda>c. cp_ID c = cid) (concat (map snd (cm_checkpoints cm))) of
        Some c \<Rightarrow> Inr (Clone newID now c)
      | None \<Rightarrow> Inl (Errorf (''checkpoint not found: '' @ cid)))"

definition clamp_limit :: "int \<Rightarrow> nat \<Rightarrow> nat" where
  "clamp_limit limit n = (if limit \<le> 0 \<or> limit > int n then n else nat limit)"

text \<open>Each returned clone has an identifier of its own.\<close>

definition cm_List :: "(nat \<Rightarrow> string) \<Rightarrow> int \<Rightarrow> checkpoint_manager \<Rightarrow> string \<Rightarrow> int \<Rightarrow> checkpoint list" where
  "cm_List ids now cm t limit =
     (let cps = thread_of cm t; lim = clamp_limit limit (length cps); start = length cps - lim
      in map (\<lambda>i. Clone (ids i) now (cps ! (start + i))) [0..<lim])"

record checkpoint_tuple =
  ct_Config :: runnable_config
  ct_Checkpoint :: "checkpoint option"
  ct_ParentConfig :: "runnable_config option"
  ct_Metadata :: "goval gomap"

definition NewCheckpointTuple ::
  "runnable_config option \<Rightarrow> checkpoint option \<Rightarrow> runnable_config option \<Rightarrow> checkpoint_tuple" where
  "NewCheckpointTuple config cp parentConfig =
     \<lparr>ct_Config = (case config of None \<Rightarrow> NewRunnableConfig | Some c \<Rightarrow> c),
      ct_Checkpoint = cp, ct_ParentConfig = parentConfig,
      ct_Metadata = (case cp of
          None \<Rightarrow> []
        | Some c \<Rightarrow> [(''id'', GStr (cp_ID c)), (''version'', GInt (of_int (cp_Version c))),
                      (''thread_id'', GStr (md_ThreadID (cp_Metadata c))),
                      (''step'', GInt (of_int (md_Step (cp_Metadata c)))),
                      (''source'', GStr (md_Source (cp_Metadata c))),
                      (''created_at'', GOther ''time.Time'' (nat (md_CreatedAt (cp_Metadata c))))])\<rparr>"

definition id_config :: "string \<Rightarrow> string \<Rightarrow> runnable_config" where
  "id_config t cid = rc_Set ''checkpoint_id'' (GStr cid) (NewRunnableConfig\<lparr>ThreadID := t\<rparr>)"

definition GetTuple ::
  "(nat \<Rightarrow> string) \<Rightarrow> int \<Rightarrow> checkpoint_manager \<Rightarrow> runnable_config \<Rightarrow> checkpoint_tuple go_result" where
  "GetTuple ids now cm config =
     (let threadID = ThreadID config; cps = thread_of cm threadID
      in if threadID = [] then Inl (Errorf ''thread ID is required'')
         else if length cps = 0 then Inr (NewCheckpointTuple (Some config) None None)
         else let latest = Clone (ids 0) now (last cps);
                  parent = (if length cps > 1 then Some (Clone (ids 1) now (cps ! (length cps - 2))) else None);
                  parentConfig = map_option (\<lambda>p. id_config threadID (cp_ID p)) parent
              in Inr (NewCheckpointTuple (Some config) (Some latest) parentConfig))"

fun find_version :: "int \<Rightarrow> nat \<Rightarrow> checkpoint list \<Rightarrow> nat option" where
  "find_version version i [] = None"
| "find_version version i (c # cs) = (if cp_Version c = version then Some i else find_version version (Suc i) cs)"

definition GetTupleByVersion ::
  "(nat \<Rightarrow> string) \<Rightarrow> int \<Rightarrow> checkpoint_manager \<Rightarrow> runnable_config \<Rightarrow> int \<Rightarrow> checkpoint_tuple go_result" where
  "GetTupleByVersion ids now cm config version =
     (let threadID = ThreadID config; cps = thread_of cm threadID
      in if threadID = [] then Inl (Errorf ''thread ID is required'')
         else case find_version version 0 cps of
                None \<Rightarrow> Inl (Errorf (''version not found: '' @ fmt_d version))
              | Some i \<Rightarrow>
                  Inr (NewCheckpointTuple (Some config) (Some (Clone (ids 0) now (cps ! i)))
                    (if i > 0 then Some (id_config threadID (cp_ID (Clone (ids 1) now (cps ! (i - 1))))) else None)))"

definition GetLineage ::
  "(nat \<Rightarrow> string) \<Rightarrow> int \<Rightarrow> checkpoint_manager \<Rightarrow> string \<Rightarrow> int \<Rightarrow> checkpoint_tuple list" where
  "GetLineage ids now cm t limit =
     (let cps = thread_of cm t; lim = clamp_limit limit (length cps)
      in map (\<lambda>i. NewCheckpointTuple (Some (id_config t (ids i))) (Some (Clone (ids i) now (cps ! i)))
               (if i > 0 then Some (id_config t (cp_ID (cps ! (i - 1)))) else None))
           [length cps - lim..<length cps])"

definition cm_GetVersion :: "string \<Rightarrow> int \<Rightarrow> checkpoint_manager \<Rightarrow> string \<Rightarrow> int \<Rightarrow> checkpoint go_result" where
  "cm_GetVersion newID now cm t version =
     (case find (\<lambda>c. cp_Version c = version) (thread_of cm t) of
        Some c \<Rightarrow> Inr (Clone newID now c)
      | None \<Rightarrow> Inl (Errorf (''version not found: '' @ fmt_d version)))"

section \<open>Facts about histories\<close>

lemma thread_of_set_thread [simp]: "thread_of (set_thread t cps cm) u = (if u = t then cps else thread_of cm u)"
  by (simp add: thread_of_def set_thread_def gomap_simps)

lemma maxVersions_set_thread [simp]: "cm_maxVersions (set_thread t cps cm) = cm_maxVersions cm"
  by (simp add: set_thread_def)

text \<open>
  What \<^verbatim>\<open>Save\<close> checks of a checkpoint against the one before it: it names that one as its parent, unless it
  names none, and follows it in version, unless its version is not positive, by which a caller says that
  it takes no part in the check.
\<close>

definition linked :: "checkpoint \<Rightarrow> checkpoint \<Rightarrow> bool" where
  "linked a b \<longleftrightarrow> (cp_ParentID b = [] \<or> cp_ParentID b = cp_ID a) \<and> (cp_Version b \<le> 0 \<or> cp_Version b = cp_Version a + 1)"

text \<open>With deletions the checkpoint that was before may be gone.\<close>

definition follows :: "checkpoint set \<Rightarrow> checkpoint \<Rightarrow> checkpoint \<Rightarrow> bool" where
  "follows D a b \<longleftrightarrow> linked a b \<or> (\<exists>d \<in> D. linked d b)"

abbreviation chained :: "checkpoint list \<Rightarrow> bool" where
  "chained \<equiv> successively linked"

lemma follows_empty [simp]: "follows {} = linked"
  by (simp add: follows_def fun_eq_iff)

lemma successively_drop: "successively P xs \<Longrightarrow> successively P (drop n xs)"
  by (metis append_take_drop_id successively_append_iff)

lemma successively_snoc: "successively P (xs @ [x]) \<longleftrightarrow> successively P xs \<and> (xs \<noteq> [] \<longrightarrow> P (last xs) x)"
  by (auto simp: successively_append_iff)

lemma follows_mono: "successively (follows D) cps \<Longrightarrow> D \<subseteq> D' \<Longrightarrow> successively (follows D') cps"
  by (erule successively_mono) (auto simp: follows_def)

lemma apply_writes_spec:
  "cp_ID (fold apply_write ws c) = cp_ID c" "cp_Version (fold apply_write ws c) = cp_Version c"
  "cp_ParentID (fold apply_write ws c) = cp_ParentID c" "cp_Metadata (fold apply_write ws c) = cp_Metadata c"
  by (induction ws arbitrary: c) (simp_all add: apply_write_def IncrementChannel_def)

lemma find_append: "find P (xs @ ys) = (case find P xs of Some x \<Rightarrow> Some x | None \<Rightarrow> find P ys)"
  by (induction xs) simp_all

lemma apply_writes_state:
  "map_of (cp_State (fold apply_write ws c)) n =
     (case find (\<lambda>w. pw_Channel w = n) (rev ws) of
        Some w \<Rightarrow> Some (pw_Value w)
      | None \<Rightarrow> map_of (cp_State c) n)
   \<and> gm_int (cp_ChannelVersions (fold apply_write ws c)) n =
       gm_int (cp_ChannelVersions c) n + int (length (filter (\<lambda>w. pw_Channel w = n) ws))"
proof (induction ws arbitrary: c)
  case (Cons w ws)
  then show ?case
    by (auto simp: apply_write_def IncrementChannel_def gomap_simps find_append split: option.split)
qed simp

text \<open>
  A concurrent client performs one of these steps at a time. The checkpoints that \<^verbatim>\<open>Delete\<close> has taken out are
  collected with their threads.
\<close>

inductive mgr_step :: "checkpoint_manager \<Rightarrow> checkpoint_manager \<Rightarrow> bool" where
  save: "mgr_step cm (snd (cm_Save c cm))"
| put_writes: "mgr_step cm (snd (cm_PutWrites newID now config ws cm))"
| clear_thread: "mgr_step cm (ClearThread t cm)"
| clear_all: "mgr_step cm (ClearAll cm)"

definition deleted_by :: "string \<Rightarrow> checkpoint_manager \<Rightarrow> string \<Rightarrow> checkpoint set" where
  "deleted_by cid cm t =
     {c. find (\<lambda>c. cp_ID c = cid) (thread_of cm t) = Some c \<and> thread_of (snd (cm_Delete cid cm)) t \<noteq> thread_of cm t}"

inductive mgr_reach :: "int \<Rightarrow> (string \<Rightarrow> checkpoint set) \<Rightarrow> checkpoint_manager \<Rightarrow> bool" for m :: int where
  new: "mgr_reach m (\<lambda>t. {}) (NewCheckpointManager m)"
| step: "mgr_reach m D cm \<Longrightarrow> mgr_step cm cm' \<Longrightarrow> mgr_reach m D cm'"
| delete: "mgr_reach m D cm \<Longrightarrow> mgr_reach m (\<lambda>t. D t \<union> deleted_by cid cm t) (snd (cm_Delete cid cm))"

definition mgr_ok :: "(string \<Rightarrow> checkpoint set) \<Rightarrow> checkpoint_manager \<Rightarrow> bool" where
  "mgr_ok D cm \<longleftrightarrow> gm_ok (cm_checkpoints cm) \<and> (\<forall>t. successively (follows (D t)) (thread_of cm t))"

lemma Save_thread:
  "thread_of (snd (cm_Save c cm)) t =
     (let cps = thread_of cm t
      in if t = md_ThreadID (cp_Metadata c) \<and> (cps = [] \<or> \<not> save_conflict (last cps) c)
         then if int (Suc (length cps)) > cm_maxVersions cm
              then drop (Suc (length cps) - nat (cm_maxVersions cm)) (cps @ [c]) else cps @ [c]
         else cps)"
  by (auto simp: cm_Save_def Let_def)

lemma mgr_step_keys: "mgr_step cm cm' \<Longrightarrow> gm_ok (cm_checkpoints cm) \<Longrightarrow> gm_ok (cm_checkpoints cm')"
  by (induction rule: mgr_step.induct)
    (auto simp: cm_Save_def cm_PutWrites_def set_thread_def ClearThread_def ClearAll_def Let_def gomap_simps)

lemma mgr_step_ok:
  assumes "mgr_step cm cm'" and "mgr_ok D cm"
  shows "mgr_ok D cm'"
proof -
  have "\<forall>t. successively (follows (D t)) (thread_of cm' t)"
    using assms
  proof (induction rule: mgr_step.induct)
    case (save cm c)
    have "successively (follows (D t)) (thread_of cm t @ [c])"
      if "thread_of cm t = [] \<or> \<not> save_conflict (last (thread_of cm t)) c" for t
    proof -
      have "linked (last (thread_of cm t)) c" if "thread_of cm t \<noteq> []"
        using that \<open>_ \<or> _\<close> by (auto simp: save_conflict_def linked_def)
      with save show ?thesis by (simp add: successively_snoc mgr_ok_def follows_def)
    qed
    with save show ?case
      unfolding Save_thread Let_def by (auto intro: successively_drop simp: mgr_ok_def simp del: drop_append)
  next
    case (put_writes cm newID now config ws)
    have "linked c (fold apply_write ws ((Clone newID now c)\<lparr>cp_Version := cp_Version c + 1, cp_ParentID := cp_ID c\<rparr>))" for c
      by (simp add: linked_def apply_writes_spec)
    with put_writes show ?case
      by (auto simp: cm_PutWrites_def Let_def successively_snoc mgr_ok_def follows_def)
  next
    case (clear_thread cm t)
    then show ?case by (auto simp: ClearThread_def thread_of_def gomap_simps mgr_ok_def)
  next
    case (clear_all cm)
    then show ?case by (simp add: ClearAll_def thread_of_def)
  qed
  then show ?thesis using assms mgr_step_keys by (auto simp: mgr_ok_def)
qed

text \<open>A deletion takes one checkpoint out of one thread, or nothing.\<close>

lemma delete_first_spec:
  "delete_first cid cps =
     (case find (\<lambda>c. cp_ID c = cid) cps of None \<Rightarrow> None | Some c \<Rightarrow> Some (remove1 c cps))"
proof (induction cps)
  case (Cons c cps)
  have "cp_ID d = cid" if "find (\<lambda>c. cp_ID c = cid) cps = Some d" for d
    using that by (auto simp: find_Some_iff)
  then have "find (\<lambda>c. cp_ID c = cid) cps \<noteq> Some c" if "cp_ID c \<noteq> cid" using that by blast
  with Cons.IH show ?case by (cases "cp_ID c = cid"; cases "find (\<lambda>c. cp_ID c = cid) cps") simp_all
qed simp

lemma delete_loop_spec:
  assumes "gm_ok ts" and "\<And>t cps. (t, cps) \<in> set ts \<Longrightarrow> thread_of cm t = cps"
  shows "snd (delete_loop cid ts cm) = cm
    \<or> (\<exists>t c. find (\<lambda>c. cp_ID c = cid) (thread_of cm t) = Some c
          \<and> snd (delete_loop cid ts cm) = set_thread t (remove1 c (thread_of cm t)) cm)"
  using assms
proof (induction ts)
  case (Cons tc ts)
  obtain t cps where tc: "tc = (t, cps)" by (cases tc)
  have "thread_of cm t = cps" using Cons.prems(2) tc by simp
  moreover have "gm_ok ts" using Cons.prems(1) by simp
  ultimately show ?case
    using Cons.IH Cons.prems(2) by (auto simp: tc delete_first_spec split: option.split)
qed simp

lemma successively_follows_remove1:
  assumes "successively (follows D) cps" and "c \<in> D"
  shows "successively (follows D) (remove1 c cps)"
  using assms(1)
proof (induction cps rule: induct_list012)
  case (3 a b cps)
  then show ?case
    using assms(2) by (cases cps) (auto simp: follows_def)
qed simp_all

lemma cm_Delete_ok:
  assumes "mgr_ok D cm"
  shows "mgr_ok (\<lambda>t. D t \<union> deleted_by cid cm t) (snd (cm_Delete cid cm))"
proof -
  have thr: "thread_of cm t = cps" if "(t, cps) \<in> set (cm_checkpoints cm)" for t cps
    using assms that by (simp add: mgr_ok_def thread_of_def)
  have more: "successively (follows (D t \<union> X)) (thread_of cm t)" for t X
    using assms by (auto simp: mgr_ok_def intro: follows_mono)
  consider "snd (cm_Delete cid cm) = cm"
    | t c where "find (\<lambda>c. cp_ID c = cid) (thread_of cm t) = Some c"
        "snd (cm_Delete cid cm) = set_thread t (remove1 c (thread_of cm t)) cm"
    using delete_loop_spec [of "cm_checkpoints cm" cm cid] assms thr by (auto simp: cm_Delete_def mgr_ok_def)
  then show ?thesis
  proof cases
    case 1
    then show ?thesis using assms more by (simp add: mgr_ok_def)
  next
    case (2 t c)
    have "c \<in> set (thread_of cm t)" using 2(1) by (auto simp: find_Some_iff)
    then have "remove1 c (thread_of cm t) \<noteq> thread_of cm t" by (metis length_remove1 length_pos_if_in_set diff_less nat_neq_iff zero_less_one)
    then have "c \<in> deleted_by cid cm t" using 2 by (simp add: deleted_by_def)
    then show ?thesis
      using assms more 2(2) by (auto simp: mgr_ok_def set_thread_def [of _ _ cm] thread_of_def gomap_simps
        intro!: successively_follows_remove1 [unfolded thread_of_def])
  qed
qed

text \<open>
  C17: histories stay linear but for deletions. The clients of a manager interleave saves, writes, clears and deletions
  in any way. In the history of every thread, each checkpoint follows the one before it, or one that was deleted
  from that thread: if it names a parent, that is the parent, and if its version is positive, it is one higher. \<^verbatim>\<open>Save\<close> does not
  check a checkpoint that names no parent or has a version that is not positive, and of those nothing is claimed
  in this respect. In a thread nothing was deleted from, each checkpoint follows the one before it in this sense.
\<close>

theorem history_is_linear:
  assumes "mgr_reach m D cm"
  shows "successively (follows (D t)) (thread_of cm t) \<and> (D t = {} \<longrightarrow> chained (thread_of cm t))"
proof -
  have "mgr_ok D cm" using assms
  proof (induction rule: mgr_reach.induct)
    case new
    then show ?case by (simp add: mgr_ok_def NewCheckpointManager_def thread_of_def)
  qed (auto intro: mgr_step_ok cm_Delete_ok)
  then have "successively (follows (D t)) (thread_of cm t)" by (simp add: mgr_ok_def)
  then show ?thesis by (metis follows_empty)
qed

text \<open>A checkpoint is committed on top of \<open>c1\<close>, then \<open>c1\<close> is deleted.\<close>

theorem history_is_linear_witness:
  "let c = NewCheckpoint ''c1'' 0 ''t'' 0; cm = snd (cm_Save c (NewCheckpointManager 0));
       cm' = snd (cm_PutWrites ''c2'' 1 (id_config ''t'' ''c1'') [] cm);
       cm'' = snd (cm_Delete ''c1'' cm')
   in chained (thread_of cm' ''t'') \<and> map cp_ID (thread_of cm' ''t'') = [''c1'', ''c2'']
      \<and> (\<exists>D. mgr_reach 0 D cm'' \<and> D ''t'' \<noteq> {} \<and> successively (follows (D ''t'')) (thread_of cm'' ''t''))"
proof -
  define c where "c = NewCheckpoint ''c1'' 0 ''t'' 0"
  define cm where "cm = snd (cm_Save c (NewCheckpointManager 0))"
  define cm' where "cm' = snd (cm_PutWrites ''c2'' 1 (id_config ''t'' ''c1'') [] cm)"
  define cm'' where "cm'' = snd (cm_Delete ''c1'' cm')"
  have reach: "mgr_reach 0 (\<lambda>t. {}) cm'"
    unfolding cm'_def cm_def by (rule mgr_reach.step [OF mgr_reach.step [OF mgr_reach.new mgr_step.save] mgr_step.put_writes])
  from history_is_linear [OF this] have "chained (thread_of cm' ''t'')" by simp
  moreover have "thread_of (NewCheckpointManager 0) ''t'' = []" "cm_maxVersions (NewCheckpointManager 0) = 100"
    by (simp_all add: NewCheckpointManager_def thread_of_def DefaultCheckpointMaxVersions_def)
  then have cm: "thread_of cm ''t'' = [c]"
    by (simp add: cm_def Save_thread c_def NewCheckpoint_def)
  obtain d where d: "cm_checkpoints cm' = [(''t'', [c, d])]" "cp_ID c = ''c1''" "cp_ID d = ''c2''"
    by (simp add: cm'_def cm_def cm_PutWrites_def Let_def id_config_def rc_Set_def GetOrEmpty_def NewRunnableConfig_def
        NewCheckpoint_def Clone_def cm_Save_def c_def NewCheckpointManager_def thread_of_def set_thread_def
        DefaultCheckpointMaxVersions_def)
  then have cm': "thread_of cm' ''t'' = [c, d]" by (simp add: thread_of_def)
  moreover have "cm_checkpoints cm'' = [(''t'', [d])]" by (simp add: cm''_def cm_Delete_def d set_thread_def)
  then have "c \<in> deleted_by ''c1'' cm' ''t''"
    by (simp add: deleted_by_def cm' d cm''_def [symmetric] thread_of_def)
  moreover have reach2: "mgr_reach 0 (\<lambda>t. {} \<union> deleted_by ''c1'' cm' t) cm''"
    unfolding cm''_def using reach by (rule mgr_reach.delete)
  moreover note history_is_linear [OF reach2]
  ultimately show ?thesis
    unfolding Let_def c_def [symmetric] cm_def [symmetric] cm'_def [symmetric] cm''_def [symmetric]
    using d by (intro conjI exI [of _ "\<lambda>t. {} \<union> deleted_by ''c1'' cm' t"]) auto
qed

text \<open>
  C18: what \<^verbatim>\<open>PutWrites\<close> does. It commits exactly when the caller names the latest checkpoint of
  an existing thread; otherwise nothing changes. A commit appends one checkpoint: its parent is
  the latest one, its version is one higher, each written channel holds the last value written
  to it, every other channel a copy of its old value. A second caller with the same checkpoint then gets a version conflict.
\<close>

theorem PutWrites_commits_once:
  assumes "config = id_config t cid" and "t \<noteq> []" and "cid \<noteq> []" and "gm_ok (cp_State (last (thread_of cm t)))"
    and "newID \<noteq> cid"
  shows "(fst (cm_PutWrites newID now config ws cm) = None \<longleftrightarrow>
       thread_of cm t \<noteq> [] \<and> cp_ID (last (thread_of cm t)) = cid)
    \<and> (fst (cm_PutWrites newID now config ws cm) \<noteq> None \<longrightarrow> snd (cm_PutWrites newID now config ws cm) = cm)
    \<and> (fst (cm_PutWrites newID now config ws cm) = None \<longrightarrow>
       (\<exists>new. thread_of (snd (cm_PutWrites newID now config ws cm)) t = thread_of cm t @ [new]
          \<and> cp_ID new = newID \<and> cp_ParentID new = cid \<and> cp_Version new = cp_Version (last (thread_of cm t)) + 1
          \<and> (\<forall>n. map_of (cp_State new) n =
               (case find (\<lambda>w. pw_Channel w = n) (rev ws) of
                  Some w \<Rightarrow> Some (pw_Value w)
                | None \<Rightarrow> map_option deepCopy (map_of (cp_State (last (thread_of cm t))) n))))
       \<and> (\<exists>cur ex. fst (cm_PutWrites id2 now2 config ws2 (snd (cm_PutWrites newID now config ws cm)))
            = Some (VersionConflictError cur ex newID t)))"
proof -
  have config: "ThreadID config = t" "GetOrEmpty config ''checkpoint_id'' = cid"
    by (simp_all add: assms(1) id_config_def rc_Set_def GetOrEmpty_def NewRunnableConfig_def)
  define latest where "latest = last (thread_of cm t)"
  define new where "new = fold apply_write ws
    ((Clone newID now latest)\<lparr>cp_Version := cp_Version latest + 1, cp_ParentID := cp_ID latest\<rparr>)"
  have put: "cm_PutWrites newID now config ws cm =
      (if thread_of cm t = [] then (Some (Errorf (''no checkpoint found for thread '' @ t)), cm)
       else if cid \<noteq> cp_ID latest
       then (Some (VersionConflictError (cp_Version latest) (cp_Version latest + 1) (cp_ID latest) t), cm)
       else (None, set_thread t (thread_of cm t @ [new]) cm))"
    using assms(2,3) by (simp add: cm_PutWrites_def Let_def config new_def latest_def)
  have state: "map_of (cp_State (Clone newID now latest)) n = map_option deepCopy (map_of (cp_State latest) n)" for n
  proof -
    have "cp_State (Clone newID now latest) = map (\<lambda>(k, v). (k, deepCopy v)) (cp_State latest)"
      using fold_put_distinct [of "[]" "cp_State latest" deepCopy] assms(4) by (simp add: Clone_def latest_def)
    then show ?thesis by (simp add: map_of_map)
  qed
  have new: "cp_ID new = newID" "cp_ParentID new = cp_ID latest" "cp_Version new = cp_Version latest + 1"
    by (simp_all add: new_def apply_writes_spec Clone_def)
  have new_state: "map_of (cp_State new) n =
       (case find (\<lambda>w. pw_Channel w = n) (rev ws) of
          Some w \<Rightarrow> Some (pw_Value w) | None \<Rightarrow> map_option deepCopy (map_of (cp_State latest) n))" for n
    unfolding new_def by (simp add: apply_writes_state state split: option.split)
  have again: "fst (cm_PutWrites id2 now2 config ws2 (set_thread t (thread_of cm t @ [new]) cm))
      = Some (VersionConflictError (cp_Version new) (cp_Version new + 1) newID t)"
    using assms(2,3,5) by (simp add: cm_PutWrites_def Let_def config new)
  show ?thesis
    unfolding put latest_def [symmetric] using new new_state again by auto
qed

theorem PutWrites_commits_once_witness:
  "let cm = snd (cm_Save (NewCheckpoint ''c1'' 0 ''t'' 0) (NewCheckpointManager 0));
       config = id_config ''t'' ''c1'';
       w = \<lparr>pw_Channel = ''x'', pw_Value = GBool True, pw_Overwrite = False, pw_Node = ''n'', pw_Timestamp = 0, pw_TaskID = []\<rparr>
   in fst (cm_PutWrites ''c2'' 0 config [w] cm) = None
      \<and> fst (cm_PutWrites ''c3'' 0 config [w] (snd (cm_PutWrites ''c2'' 0 config [w] cm))) \<noteq> None"
proof -
  define cm where "cm = snd (cm_Save (NewCheckpoint ''c1'' 0 ''t'' 0) (NewCheckpointManager 0))"
  define w where "w = \<lparr>pw_Channel = ''x'', pw_Value = GBool True, pw_Overwrite = False, pw_Node = ''n'',
    pw_Timestamp = 0, pw_TaskID = []\<rparr>"
  have "thread_of (NewCheckpointManager 0) ''t'' = []" "cm_maxVersions (NewCheckpointManager 0) = 100"
    by (simp_all add: NewCheckpointManager_def thread_of_def DefaultCheckpointMaxVersions_def)
  then have cm: "thread_of cm ''t'' = [NewCheckpoint ''c1'' 0 ''t'' 0]"
    by (simp add: cm_def Save_thread NewCheckpoint_def)
  then have "gm_ok (cp_State (last (thread_of cm ''t'')))" by (simp add: NewCheckpoint_def)
  from PutWrites_commits_once [OF refl _ _ this, of "''c1''" "''c2''" 0 "[w]" "''c3''" 0 "[w]"] cm
  show ?thesis
    unfolding Let_def cm_def [symmetric] w_def [symmetric] by (auto simp: NewCheckpoint_def)
qed

text \<open>
  A client cannot write on what it loaded. \<^verbatim>\<open>Load\<close> returns a clone with a new identifier, and
  \<^verbatim>\<open>PutWrites\<close> compares the caller's identifier with the stored one, so as long as the new
  identifier is new, writing with the identifier of the loaded checkpoint is a version conflict.
\<close>

theorem Load_then_PutWrites_conflicts:
  assumes "cm_Load newID now cm t = Some c" and "newID \<notin> cp_ID ` set (thread_of cm t)" and "newID \<noteq> []" and "t \<noteq> []"
  shows "\<exists>cur ex cid. cm_PutWrites id2 now2 (id_config t (cp_ID c)) ws cm = (Some (VersionConflictError cur ex cid t), cm)"
proof -
  have "thread_of cm t \<noteq> []" and c: "cp_ID c = newID"
    using assms(1) by (auto simp: cm_Load_def Let_def Clone_def split: if_splits)
  then have "newID \<noteq> cp_ID (last (thread_of cm t))" using assms(2) by auto
  then show ?thesis
    using assms(3,4) \<open>thread_of cm t \<noteq> []\<close>
    by (simp add: cm_PutWrites_def Let_def c id_config_def rc_Set_def GetOrEmpty_def NewRunnableConfig_def)
qed

theorem Load_then_PutWrites_conflicts_witness:
  "let cm = snd (cm_Save (NewCheckpoint ''c1'' 0 ''t'' 0) (NewCheckpointManager 0))
   in \<exists>c cur ex cid. cm_Load ''c2'' 0 cm ''t'' = Some c
      \<and> cm_PutWrites ''c3'' 0 (id_config ''t'' (cp_ID c)) [] cm = (Some (VersionConflictError cur ex cid ''t''), cm)"
proof -
  define cm where "cm = snd (cm_Save (NewCheckpoint ''c1'' 0 ''t'' 0) (NewCheckpointManager 0))"
  have "thread_of (NewCheckpointManager 0) ''t'' = []" "cm_maxVersions (NewCheckpointManager 0) = 100"
    by (simp_all add: NewCheckpointManager_def thread_of_def DefaultCheckpointMaxVersions_def)
  then have cm: "thread_of cm ''t'' = [NewCheckpoint ''c1'' 0 ''t'' 0]"
    by (simp add: cm_def Save_thread NewCheckpoint_def)
  then obtain c where load: "cm_Load ''c2'' 0 cm ''t'' = Some c" by (simp add: cm_Load_def)
  from Load_then_PutWrites_conflicts [OF this] cm show ?thesis
    unfolding Let_def cm_def [symmetric] using load by (simp add: NewCheckpoint_def)
qed

end
