(* ===== verification/State_Graph.thy ===== *)
theory State_Graph
  imports Channel_Registry
begin

text \<open>
  Building a graph (\<^verbatim>\<open>graph/graph.go\<close>, \<^verbatim>\<open>graph/state.go\<close> and the graph types of
  \<^verbatim>\<open>types/types.go\<close>): the builder's state, its operations, the validation with its
  reachability search, the state schema and compilation.

  A node or edge function is code of the graph's author. It is a HOL function of a call context and
  the state it is given. The context is a list of numbers that tells the calls of a run
  apart (the step, then the attempt), so that two calls on the same state may differ.
\<close>

section \<open>Data\<close>

definition Start :: string where "Start = ''__start__''"
definition End :: string where "End = ''__end__''"
definition All :: string where "All = ''*''"
definition DefaultRecursionLimit :: int where "DefaultRecursionLimit = 50"

lemma Start_End [simp]: "Start \<noteq> End" "End \<noteq> Start" "Start \<noteq> []" "End \<noteq> []"
  by (simp_all add: Start_def End_def)

type_synonym node_trigger_mode = string

definition NodeTriggerAnyPredecessor :: node_trigger_mode where
  "NodeTriggerAnyPredecessor = ''any''"

definition NodeTriggerAllPredecessor :: node_trigger_mode where
  "NodeTriggerAllPredecessor = ''all''"

type_synonym go_ctx = "nat list"
type_synonym node_func = "go_ctx \<Rightarrow> goval \<Rightarrow> goval go_result"

record retry_policy =
  InitialInterval :: int
  BackoffFactor :: float64
  MaxInterval :: int
  MaxAttempts :: int
  Jitter :: bool
  RetryOn :: "(go_error \<Rightarrow> bool) option"

record field_mapping =
  fm_From :: string
  fm_To :: string

record node =
  nd_Name :: string
  nd_Function :: "node_func option"
  nd_Triggers :: "string list"
  nd_Writes :: "string list"
  nd_RetryPolicy :: "retry_policy option"
  nd_Tags :: "string list"
  nd_Metadata :: "goval gomap"
  nd_FieldMapping :: "field_mapping list"

record edge =
  ed_From :: string
  ed_To :: string

record data_edge =
  de_From :: string
  de_To :: string
  de_Mapping :: "field_mapping list"

record conditional_edge =
  ce_From :: string
  ce_Condition :: node_func
  ce_Mapping :: "string gomap"

record branch =
  br_From :: string
  br_Condition :: node_func
  br_Then :: "goval \<Rightarrow> string list"

record node_options =
  no_RetryPolicy :: "retry_policy option"
  no_Tags :: "string list"
  no_Metadata :: "goval gomap"
  no_Triggers :: "string list"
  no_Writes :: "string list"
  no_FieldMapping :: "field_mapping list"
  no_StatePre :: "node_func option"
  no_StatePost :: "node_func option"

text \<open>
  What reflection sees of a state schema: nothing, a nil pointer, a pointer, a struct with
  its fields (name, whether it is exported, kind, value of the tag \<^verbatim>\<open>harness\<close>), a map with the kind
  of its keys, or a value of another kind.
\<close>

record struct_field =
  sf_Name :: string
  sf_Exported :: bool
  sf_Kind :: go_kind
  sf_Tag :: string

datatype schema =
    SchemaNil
  | SchemaNilPtr
  | SchemaPtr schema
  | SchemaStruct "struct_field list"
  | SchemaMap go_kind
  | SchemaOther go_kind

record state_graph =
  sg_nodes :: "node gomap"
  sg_edges :: "edge list"
  sg_dataEdges :: "data_edge list"
  sg_conditionalEdges :: "conditional_edge list"
  sg_branches :: "branch list"
  sg_entryPoint :: string
  sg_finishPoints :: "string list"
  sg_channels :: "channel gomap"
  sg_reducers :: "reducer_func gomap"
  sg_stateSchema :: schema
  sg_inputSchema :: schema
  sg_outputSchema :: schema
  sg_NodeTriggerMode :: node_trigger_mode

definition NewStateGraph :: "schema \<Rightarrow> state_graph" where
  "NewStateGraph stateSchema =
     \<lparr>sg_nodes = [], sg_edges = [], sg_dataEdges = [], sg_conditionalEdges = [], sg_branches = [],
      sg_entryPoint = [], sg_finishPoints = [], sg_channels = [], sg_reducers = [],
      sg_stateSchema = stateSchema, sg_inputSchema = stateSchema, sg_outputSchema = stateSchema,
      sg_NodeTriggerMode = []\<rparr>"

definition WithInputSchema :: "schema \<Rightarrow> state_graph \<Rightarrow> state_graph" where
  "WithInputSchema s g = g\<lparr>sg_inputSchema := s\<rparr>"

definition WithOutputSchema :: "schema \<Rightarrow> state_graph \<Rightarrow> state_graph" where
  "WithOutputSchema s g = g\<lparr>sg_outputSchema := s\<rparr>"

definition SetNodeTriggerMode :: "node_trigger_mode \<Rightarrow> state_graph \<Rightarrow> state_graph" where
  "SetNodeTriggerMode m g = g\<lparr>sg_NodeTriggerMode := m\<rparr>"

section \<open>Nodes\<close>

definition WithStatePreHandler :: "node_func option \<Rightarrow> node_options \<Rightarrow> node_options" where
  "WithStatePreHandler fn opts = opts\<lparr>no_StatePre := fn\<rparr>"

definition WithStatePostHandler :: "node_func option \<Rightarrow> node_options \<Rightarrow> node_options" where
  "WithStatePostHandler fn opts = opts\<lparr>no_StatePost := fn\<rparr>"

definition WithFieldMapping :: "field_mapping list \<Rightarrow> node_options \<Rightarrow> node_options" where
  "WithFieldMapping mappings opts = opts\<lparr>no_FieldMapping := no_FieldMapping opts @ mappings\<rparr>"

definition MapFields :: "string \<Rightarrow> string \<Rightarrow> field_mapping" where
  "MapFields from to = \<lparr>fm_From = from, fm_To = to\<rparr>"

definition MapTo :: "string \<Rightarrow> field_mapping" where
  "MapTo to = \<lparr>fm_From = [], fm_To = to\<rparr>"

definition NewNode :: "string \<Rightarrow> node_func option \<Rightarrow> node" where
  "NewNode name fn =
     \<lparr>nd_Name = name, nd_Function = fn, nd_Triggers = [], nd_Writes = [], nd_RetryPolicy = None,
      nd_Tags = [], nd_Metadata = [], nd_FieldMapping = []\<rparr>"

definition AddNode :: "string \<Rightarrow> node_func option \<Rightarrow> state_graph \<Rightarrow> state_graph" where
  "AddNode name fn g = g\<lparr>sg_nodes := gm_put name (NewNode name fn) (sg_nodes g)\<rparr>"

text \<open>
  The handlers around a node. Calling a nil function is a run-time panic; the original
  function is only called, and so only has to be there, when the node runs.
\<close>

definition call_node :: "node_func option \<Rightarrow> node_func" where
  "call_node fn ctx state =
     (case fn of
        Some f \<Rightarrow> f ctx state
      | None \<Rightarrow> Inl (GoPanic ''invalid memory address or nil pointer dereference''))"

definition wrap_handlers ::
  "string \<Rightarrow> node_func option \<Rightarrow> node_func option \<Rightarrow> node_func option \<Rightarrow> node_func" where
  "wrap_handlers name pre orig post ctx state =
     (case (case pre of
              None \<Rightarrow> Inr state
            | Some p \<Rightarrow>
                (case p ctx state of
                   Inl err \<Rightarrow> Inl (WrapErr (''state pre-handler for '' @ [CHR 0x27] @ name @ [CHR 0x27] @ '': '') err)
                 | Inr state' \<Rightarrow> Inr state')) of
        Inl err \<Rightarrow> Inl err
      | Inr state' \<Rightarrow>
          (case call_node orig ctx state' of
             Inl err \<Rightarrow> Inl err
           | Inr out \<Rightarrow>
               (case post of
                  None \<Rightarrow> Inr out
                | Some q \<Rightarrow>
                    (case q ctx out of
                       Inl err \<Rightarrow>
                         Inl (WrapErr (''state post-handler for '' @ [CHR 0x27] @ name @ [CHR 0x27] @ '': '') err)
                     | Inr out' \<Rightarrow> Inr out'))))"

definition AddNodeWithOptions ::
  "string \<Rightarrow> node_func option \<Rightarrow> node_options \<Rightarrow> state_graph \<Rightarrow> state_graph" where
  "AddNodeWithOptions name fn opts g =
     (let fn = (if no_StatePre opts \<noteq> None \<or> no_StatePost opts \<noteq> None
                then Some (wrap_handlers name (no_StatePre opts) fn (no_StatePost opts))
                else fn);
          n = NewNode name fn;
          n = (if no_RetryPolicy opts \<noteq> None then n\<lparr>nd_RetryPolicy := no_RetryPolicy opts\<rparr> else n);
          n = n\<lparr>nd_Tags := nd_Tags n @ no_Tags opts,
                nd_Metadata := gm_merge (nd_Metadata n) (no_Metadata opts),
                nd_Triggers := nd_Triggers n @ no_Triggers opts,
                nd_Writes := nd_Writes n @ no_Writes opts,
                nd_FieldMapping := nd_FieldMapping n @ no_FieldMapping opts\<rparr>
      in g\<lparr>sg_nodes := gm_put name n (sg_nodes g)\<rparr>)"

section \<open>Edges, points and channels\<close>

text \<open>An operation that may fail returns the error, if any, and the graph.\<close>

definition AddEdge :: "string \<Rightarrow> string \<Rightarrow> state_graph \<Rightarrow> go_error option \<times> state_graph" where
  "AddEdge from to g =
     (if map_of (sg_nodes g) from = None \<and> from \<noteq> Start then (Some (NodeNotFoundError from), g)
      else if map_of (sg_nodes g) to = None \<and> to \<noteq> End then (Some (NodeNotFoundError to), g)
      else let g = g\<lparr>sg_edges := sg_edges g @ [\<lparr>ed_From = from, ed_To = to\<rparr>]\<rparr>;
               g = (if from = Start then g\<lparr>sg_entryPoint := to\<rparr> else g);
               g = (if to = End \<and> from \<notin> set (sg_finishPoints g)
                    then g\<lparr>sg_finishPoints := sg_finishPoints g @ [from]\<rparr> else g)
           in (None, g))"

definition missing_target :: "state_graph \<Rightarrow> string gomap \<Rightarrow> string option" where
  "missing_target g mapping =
     map_option snd (find (\<lambda>(k, target). map_of (sg_nodes g) target = None \<and> target \<noteq> End) mapping)"

definition AddConditionalEdges ::
  "string \<Rightarrow> node_func \<Rightarrow> string gomap \<Rightarrow> state_graph \<Rightarrow> go_error option \<times> state_graph" where
  "AddConditionalEdges from condition mapping g =
     (if map_of (sg_nodes g) from = None then (Some (NodeNotFoundError from), g)
      else case missing_target g mapping of
             Some target \<Rightarrow> (Some (NodeNotFoundError target), g)
           | None \<Rightarrow>
               (None, g\<lparr>sg_conditionalEdges := sg_conditionalEdges g
                  @ [\<lparr>ce_From = from, ce_Condition = condition, ce_Mapping = mapping\<rparr>]\<rparr>))"

definition AddBranch ::
  "string \<Rightarrow> node_func \<Rightarrow> (goval \<Rightarrow> string list) \<Rightarrow> state_graph \<Rightarrow> go_error option \<times> state_graph" where
  "AddBranch from condition thn g =
     (if map_of (sg_nodes g) from = None then (Some (NodeNotFoundError from), g)
      else (None, g\<lparr>sg_branches := sg_branches g
              @ [\<lparr>br_From = from, br_Condition = condition, br_Then = thn\<rparr>]\<rparr>))"

definition AddDataEdge ::
  "string \<Rightarrow> string \<Rightarrow> field_mapping list \<Rightarrow> state_graph \<Rightarrow> go_error option \<times> state_graph" where
  "AddDataEdge from to mappings g =
     (if map_of (sg_nodes g) from = None \<and> from \<noteq> Start then (Some (NodeNotFoundError from), g)
      else if map_of (sg_nodes g) to = None \<and> to \<noteq> End then (Some (NodeNotFoundError to), g)
      else (None, g\<lparr>sg_dataEdges := sg_dataEdges g
              @ [\<lparr>de_From = from, de_To = to, de_Mapping = mappings\<rparr>]\<rparr>))"

definition SetEntryPoint :: "string \<Rightarrow> state_graph \<Rightarrow> go_error option \<times> state_graph" where
  "SetEntryPoint n g =
     (if map_of (sg_nodes g) n = None then (Some (NodeNotFoundError n), g)
      else (None, g\<lparr>sg_entryPoint := n\<rparr>))"

definition SetFinishPoint :: "string \<Rightarrow> state_graph \<Rightarrow> go_error option \<times> state_graph" where
  "SetFinishPoint n g =
     (if map_of (sg_nodes g) n = None then (Some (NodeNotFoundError n), g)
      else (None, g\<lparr>sg_finishPoints := sg_finishPoints g @ [n]\<rparr>))"

text \<open>
  The channel argument is an \<^verbatim>\<open>interface{}\<close>; \<open>None\<close> is a value that is no channel. In Go it is a pointer; adding one channel under two
  names, where the second call also renames the first entry, is not modelled: the entries here are separate values.
\<close>

definition AddChannel :: "string \<Rightarrow> channel option \<Rightarrow> state_graph \<Rightarrow> state_graph" where
  "AddChannel name ch g =
     (case ch of
        Some c \<Rightarrow> g\<lparr>sg_channels := gm_put name (ch_SetKey name c) (sg_channels g)\<rparr>
      | None \<Rightarrow> g)"

definition SetReducer :: "string \<Rightarrow> reducer_func \<Rightarrow> state_graph \<Rightarrow> state_graph" where
  "SetReducer channelName reducer g =
     (let g = (case map_of (sg_channels g) channelName of
                 Some c \<Rightarrow> g\<lparr>sg_channels := gm_put channelName (ReducerChannel c reducer) (sg_channels g)\<rparr>
               | None \<Rightarrow> g)
      in g\<lparr>sg_reducers := gm_put channelName reducer (sg_reducers g)\<rparr>)"

definition AddChannelWithReducer ::
  "string \<Rightarrow> channel option \<Rightarrow> reducer_func option \<Rightarrow> state_graph \<Rightarrow> state_graph" where
  "AddChannelWithReducer name ch reducer g =
     (case ch of
        None \<Rightarrow> g
      | Some c \<Rightarrow>
          (case reducer of
             Some f \<Rightarrow> g\<lparr>sg_channels := gm_put name (ReducerChannel (ch_SetKey name c) f) (sg_channels g),
                         sg_reducers := gm_put name f (sg_reducers g)\<rparr>
           | None \<Rightarrow> g\<lparr>sg_channels := gm_put name (ch_SetKey name c) (sg_channels g)\<rparr>))"

section \<open>The state schema\<close>

record annotation =
  an_Reducer :: "reducer_func option"
  an_Metadata :: "goval gomap"

record field_info =
  fi_Name :: string
  fi_Kind :: go_kind
  fi_Channel :: channel
  fi_Annotation :: "annotation option"

text \<open>
  The reducers that a tag can name. Their bodies in \<^verbatim>\<open>state.go\<close> repeat the built-in
  reducers of the channel package.
\<close>

definition reducers :: "reducer_func gomap" where
  "reducers = [(''add'', AddReducer), (''append'', AppendReducer), (''merge'', MergeReducer)]"

text \<open>\<^verbatim>\<open>strings.TrimSpace\<close> on ASCII text, which struct tags are.\<close>

definition is_space :: "char \<Rightarrow> bool" where
  "is_space c \<longleftrightarrow> c \<in> {CHR 0x09, CHR 0x0A, CHR 0x0B, CHR 0x0C, CHR 0x0D, CHR '' ''}"

definition TrimSpace :: "string \<Rightarrow> string" where
  "TrimSpace s = rev (dropWhile is_space (rev (dropWhile is_space s)))"

fun parse_pairs :: "string list \<Rightarrow> annotation \<Rightarrow> annotation go_result" where
  "parse_pairs [] a = Inr a"
| "parse_pairs (pair # pairs) a =
     (if CHR ''='' \<notin> set pair
      then parse_pairs pairs (a\<lparr>an_Metadata := gm_put pair (GBool True) (an_Metadata a)\<rparr>)
      else let key = TrimSpace (takeWhile (\<lambda>c. c \<noteq> CHR ''='') pair);
               value = TrimSpace (tl (dropWhile (\<lambda>c. c \<noteq> CHR ''='') pair))
           in if key = ''reducer''
              then (case map_of reducers value of
                      None \<Rightarrow> Inl (Errorf (''unknown reducer: '' @ value))
                    | Some f \<Rightarrow> parse_pairs pairs (a\<lparr>an_Reducer := Some f\<rparr>))
              else parse_pairs pairs (a\<lparr>an_Metadata := gm_put key (GStr value) (an_Metadata a)\<rparr>))"

definition parseAnnotation :: "string \<Rightarrow> annotation go_result" where
  "parseAnnotation tag = parse_pairs (go_split (CHR '','') tag) \<lparr>an_Reducer = None, an_Metadata = []\<rparr>"

definition processField :: "struct_field \<Rightarrow> field_info go_result" where
  "processField field =
     (case (if sf_Tag field \<noteq> []
            then (case parseAnnotation (sf_Tag field) of
                    Inl err \<Rightarrow> Inl (WrapErr ''invalid annotation: '' err)
                  | Inr a \<Rightarrow> Inr (Some a))
            else Inr None) of
        Inl err \<Rightarrow> Inl err
      | Inr ann \<Rightarrow>
          Inr \<lparr>fi_Name = sf_Name field, fi_Kind = sf_Kind field,
               fi_Channel = CreateReducerChannel (sf_Name field) (sf_Kind field)
                 (Option.bind ann an_Reducer),
               fi_Annotation = ann\<rparr>)"

fun process_fields :: "struct_field list \<Rightarrow> field_info gomap \<Rightarrow> field_info gomap go_result" where
  "process_fields [] acc = Inr acc"
| "process_fields (field # fs) acc =
     (if \<not> sf_Exported field then process_fields fs acc
      else case processField field of
             Inl err \<Rightarrow> Inl (WrapErr (''field '' @ sf_Name field @ '': '') err)
           | Inr info \<Rightarrow> process_fields fs (gm_put (fi_Name info) info acc))"

definition schema_elem :: "schema \<Rightarrow> schema" where
  "schema_elem s = (case s of SchemaPtr t \<Rightarrow> t | _ \<Rightarrow> s)"

definition validateStateSchema :: "schema \<Rightarrow> field_info gomap go_result" where
  "validateStateSchema sch =
     (if sch = SchemaNil then Inl (Errorf ''state schema cannot be nil'')
      else case schema_elem sch of
             SchemaStruct fs \<Rightarrow> process_fields fs []
           | SchemaMap key \<Rightarrow>
               (if key \<noteq> K_String then Inl (Errorf ''state schema map must have string keys'') else Inr [])
           | SchemaOther k \<Rightarrow> Inl (Errorf (''state schema must be a struct or map, got '' @ kind_name k))
           | SchemaPtr t \<Rightarrow> Inl (Errorf ''state schema must be a struct or map, got ptr'')
           | _ \<Rightarrow> Inl (Errorf ''state schema must be a struct or map, got invalid''))"

definition ValidateStateSchema :: "state_graph \<Rightarrow> go_error option" where
  "ValidateStateSchema g =
     (case validateStateSchema (sg_stateSchema g) of Inl err \<Rightarrow> Some err | Inr infos \<Rightarrow> None)"

definition GetStateSchemaInfo :: "state_graph \<Rightarrow> field_info gomap go_result" where
  "GetStateSchemaInfo g = validateStateSchema (sg_stateSchema g)"

definition configure_field :: "string \<times> field_info \<Rightarrow> state_graph \<Rightarrow> state_graph" where
  "configure_field = (\<lambda>(fieldName, info) g.
     let g = (if map_of (sg_channels g) fieldName = None
              then g\<lparr>sg_channels := gm_put fieldName (fi_Channel info) (sg_channels g)\<rparr> else g)
     in case Option.bind (fi_Annotation info) an_Reducer of
          Some f \<Rightarrow> g\<lparr>sg_reducers := gm_put fieldName f (sg_reducers g)\<rparr>
        | None \<Rightarrow> g)"

definition configureChannelsFromSchema :: "state_graph \<Rightarrow> go_error option \<times> state_graph" where
  "configureChannelsFromSchema g =
     (case GetStateSchemaInfo g of
        Inl err \<Rightarrow> (Some err, g)
      | Inr infos \<Rightarrow> (None, fold configure_field infos g))"

end
