(* ===== verification/Graph_Validation.thy ===== *)
theory Graph_Validation
  imports State_Graph
begin

text \<open>
  Validation and compilation of a graph (\<^verbatim>\<open>graph/graph.go\<close>): the breadth-first search for the
  nodes that the entry point reaches, shown to compute reachability along plain and conditional
  edges, the checks of \<^verbatim>\<open>Validate\<close>, \<^verbatim>\<open>Compile\<close> with its options, and the well-formedness that
  every operation of the builder keeps.
\<close>

section \<open>The reachability search\<close>

text \<open>One round of the search visits the targets of the current node; both loops share this step.\<close>

definition visit :: "string \<Rightarrow> bool gomap \<times> string list \<Rightarrow> bool gomap \<times> string list" where
  "visit target = (\<lambda>(reachable, queue). (gm_put target True reachable, queue @ [target]))"

definition edge_round :: "string \<Rightarrow> edge \<Rightarrow> bool gomap \<times> string list \<Rightarrow> bool gomap \<times> string list" where
  "edge_round current ed st =
     (if ed_From ed = current \<and> \<not> gm_bool (fst st) (ed_To ed) \<and> ed_To ed \<noteq> End
      then visit (ed_To ed) st else st)"

definition target_round ::
  "state_graph \<Rightarrow> string \<times> string \<Rightarrow> bool gomap \<times> string list \<Rightarrow> bool gomap \<times> string list" where
  "target_round g = (\<lambda>(k, target) st.
     if map_of (sg_nodes g) target \<noteq> None \<and> \<not> gm_bool (fst st) target \<and> target \<noteq> End
     then visit target st else st)"

definition cond_round ::
  "state_graph \<Rightarrow> string \<Rightarrow> conditional_edge \<Rightarrow> bool gomap \<times> string list \<Rightarrow> bool gomap \<times> string list" where
  "cond_round g current ce st =
     (if ce_From ce = current then fold (target_round g) (ce_Mapping ce) st else st)"

definition reach_round ::
  "state_graph \<Rightarrow> string \<Rightarrow> bool gomap \<times> string list \<Rightarrow> bool gomap \<times> string list" where
  "reach_round g current st =
     fold (cond_round g current) (sg_conditionalEdges g) (fold (edge_round current) (sg_edges g) st)"

definition all_targets :: "state_graph \<Rightarrow> string set" where
  "all_targets g = ed_To ` set (sg_edges g) \<union> (\<Union>c \<in> set (sg_conditionalEdges g). snd ` set (ce_Mapping c))"

text \<open>
  The marks and the queue grow together: a round appends exactly the names that it newly
  marks, and these are targets of the graph.
\<close>

definition grows :: "string set \<Rightarrow> bool gomap \<times> string list \<Rightarrow> bool gomap \<times> string list \<Rightarrow> bool" where
  "grows T st st' \<longleftrightarrow>
     (\<exists>new. snd st' = snd st @ new \<and> set new \<subseteq> T
        \<and> (\<forall>n. gm_bool (fst st') n \<longleftrightarrow> gm_bool (fst st) n \<or> n \<in> set new)
        \<and> (\<forall>n \<in> set new. \<not> gm_bool (fst st) n))"

lemma grows_refl [simp]: "grows T st st"
  by (simp add: grows_def)

lemma grows_trans: "grows T a b \<Longrightarrow> grows T b c \<Longrightarrow> grows T a c"
  by (force simp: grows_def)

lemma grows_fold: "(\<And>x st. x \<in> set xs \<Longrightarrow> grows T st (f x st)) \<Longrightarrow> grows T st (fold f xs st)"
proof (induction xs arbitrary: st)
  case (Cons x xs)
  have "grows T st (f x st)" using Cons.prems by simp
  moreover have "grows T (f x st) (fold f xs (f x st))" by (rule Cons.IH) (simp add: Cons.prems)
  ultimately show ?case by (simp add: grows_trans)
qed simp

lemma grows_visit: "target \<in> T \<Longrightarrow> \<not> gm_bool (fst st) target \<Longrightarrow> grows T st (visit target st)"
  by (auto simp: grows_def visit_def split_beta)

lemma grows_reach_round: "grows (all_targets g) st (reach_round g current st)"
proof -
  have "grows (all_targets g) st (edge_round current ed st)" if "ed \<in> set (sg_edges g)" for ed st
    using that by (simp add: edge_round_def grows_visit all_targets_def)
  moreover have "grows (all_targets g) st (cond_round g current ce st)"
    if "ce \<in> set (sg_conditionalEdges g)" for ce st
  proof -
    have "grows (all_targets g) st (target_round g kt st)" if "kt \<in> set (ce_Mapping ce)" for kt st
    proof -
      have "snd kt \<in> all_targets g"
        unfolding all_targets_def by (intro UnI2 UN_I [OF \<open>ce \<in> _\<close>] imageI that)
      then show ?thesis by (cases kt) (simp add: target_round_def grows_visit)
    qed
    then show ?thesis by (simp add: cond_round_def grows_fold)
  qed
  ultimately show ?thesis
    unfolding reach_round_def by (intro grows_trans [OF grows_fold grows_fold])
qed

lemma finite_all_targets [simp]: "finite (all_targets g)"
  by (simp add: all_targets_def)

lemma grows_measure:
  assumes "grows (all_targets g) (reachable, queue) (reachable', queue')"
  shows "card {n \<in> all_targets g. \<not> gm_bool reachable' n} < card {n \<in> all_targets g. \<not> gm_bool reachable n}
    \<or> {n \<in> all_targets g. \<not> gm_bool reachable' n} = {n \<in> all_targets g. \<not> gm_bool reachable n}
      \<and> queue' = queue"
proof -
  from assms obtain new where new: "queue' = queue @ new" "set new \<subseteq> all_targets g"
    "\<forall>n. gm_bool reachable' n \<longleftrightarrow> gm_bool reachable n \<or> n \<in> set new"
    "\<forall>n \<in> set new. \<not> gm_bool reachable n"
    by (auto simp: grows_def)
  show ?thesis
  proof (cases new)
    case Nil
    with new show ?thesis by simp
  next
    case (Cons a as)
    then have "{n \<in> all_targets g. \<not> gm_bool reachable' n} \<subset> {n \<in> all_targets g. \<not> gm_bool reachable n}"
      using new by auto
    then show ?thesis by (simp add: psubset_card_mono)
  qed
qed

function reach_loop :: "state_graph \<Rightarrow> bool gomap \<Rightarrow> string list \<Rightarrow> bool gomap" where
  "reach_loop g reachable [] = reachable"
| "reach_loop g reachable (current # queue) =
     (let (reachable', queue') = reach_round g current (reachable, queue)
      in reach_loop g reachable' queue')"
  by pat_completeness auto
termination
proof (relation "measures [\<lambda>(g, reachable, queue). card {n \<in> all_targets g. \<not> gm_bool reachable n},
    \<lambda>(g, reachable, queue). length queue]", goal_cases)
  case (2 g reachable current queue x reachable' queue')
  then have "reach_round g current (reachable, queue) = (reachable', queue')" by simp
  then show ?case
    using grows_measure [of g reachable queue reachable' queue']
      grows_reach_round [of g "(reachable, queue)" current] by auto
qed simp

definition computeReachable :: "state_graph \<Rightarrow> bool gomap" where
  "computeReachable g =
     (if sg_entryPoint g = [] then []
      else reach_loop g (gm_put (sg_entryPoint g) True []) [sg_entryPoint g])"

section \<open>What the search computes\<close>

definition succ_rel :: "state_graph \<Rightarrow> (string \<times> string) set" where
  "succ_rel g =
     {(a, b). b \<noteq> End \<and>
        ((\<exists>ed \<in> set (sg_edges g). ed_From ed = a \<and> ed_To ed = b)
         \<or> (\<exists>ce \<in> set (sg_conditionalEdges g). ce_From ce = a \<and> b \<in> snd ` set (ce_Mapping ce)
              \<and> b \<in> gm_dom (sg_nodes g)))}"

lemma visit_marks: "gm_bool (fst (visit target st)) n \<longleftrightarrow> n = target \<or> gm_bool (fst st) n"
  by (simp add: visit_def split_beta)

lemma edge_rounds_marks:
  "gm_bool (fst (fold (edge_round current) es st)) n \<longleftrightarrow>
     gm_bool (fst st) n \<or> n \<noteq> End \<and> (\<exists>ed \<in> set es. ed_From ed = current \<and> ed_To ed = n)"
  by (induction es arbitrary: st) (auto simp: edge_round_def visit_marks)

lemma target_rounds_marks:
  "gm_bool (fst (fold (target_round g) kts st)) n \<longleftrightarrow>
     gm_bool (fst st) n \<or> n \<noteq> End \<and> n \<in> gm_dom (sg_nodes g) \<and> n \<in> snd ` set kts"
proof (induction kts arbitrary: st)
  case (Cons kt kts)
  then show ?case
    by (cases kt) (auto simp: target_round_def visit_marks map_of_eq_None_keys simp del: not_None_eq)
qed simp

lemma cond_rounds_marks:
  "gm_bool (fst (fold (cond_round g current) ces st)) n \<longleftrightarrow>
     gm_bool (fst st) n \<or> n \<noteq> End \<and> n \<in> gm_dom (sg_nodes g)
       \<and> (\<exists>ce \<in> set ces. ce_From ce = current \<and> n \<in> snd ` set (ce_Mapping ce))"
  by (induction ces arbitrary: st) (auto simp: cond_round_def target_rounds_marks)

lemma reach_round_marks:
  "gm_bool (fst (reach_round g current st)) n \<longleftrightarrow> gm_bool (fst st) n \<or> (current, n) \<in> succ_rel g"
  by (auto simp: reach_round_def cond_rounds_marks edge_rounds_marks succ_rel_def)

text \<open>
  The invariant of the loop: a marked node that is not waiting in the queue has all its
  successors marked.
\<close>

lemma reach_loop_marks:
  assumes "\<And>a b. gm_bool reachable a \<Longrightarrow> a \<notin> set queue \<Longrightarrow> (a, b) \<in> succ_rel g \<Longrightarrow> gm_bool reachable b"
    and "\<And>a. a \<in> set queue \<Longrightarrow> gm_bool reachable a"
  shows "{n. gm_bool (reach_loop g reachable queue) n} = (succ_rel g)\<^sup>* `` {n. gm_bool reachable n}"
  using assms
proof (induction g reachable queue rule: reach_loop.induct)
  case (1 g reachable)
  have "gm_bool reachable b" if "(a, b) \<in> (succ_rel g)\<^sup>*" "gm_bool reachable a" for a b
    using that by (induction) (auto intro: 1)
  then show ?case by auto
next
  case (2 g reachable current queue)
  obtain reachable' queue' where round: "reach_round g current (reachable, queue) = (reachable', queue')"
    by force
  have marks: "gm_bool reachable' n \<longleftrightarrow> gm_bool reachable n \<or> (current, n) \<in> succ_rel g" for n
    using reach_round_marks [of g current "(reachable, queue)" n] by (simp add: round)
  obtain new where new: "queue' = queue @ new" and
    fresh: "\<And>n. gm_bool reachable' n \<longleftrightarrow> gm_bool reachable n \<or> n \<in> set new"
    using grows_reach_round [of g "(reachable, queue)" current] by (auto simp: round grows_def)
  have "{n. gm_bool (reach_loop g reachable' queue') n} = (succ_rel g)\<^sup>* `` {n. gm_bool reachable' n}"
  proof (rule 2(1) [OF round [symmetric] refl])
    show "gm_bool reachable' b" if "gm_bool reachable' a" "a \<notin> set queue'" "(a, b) \<in> succ_rel g" for a b
    proof (cases "a = current")
      case True
      with that show ?thesis by (simp add: marks)
    next
      case False
      have "gm_bool reachable a" using that(1,2) new fresh by auto
      with False that(2,3) new show ?thesis using 2(2) [of a b] by (simp add: marks)
    qed
    show "gm_bool reachable' a" if "a \<in> set queue'" for a
      using that new fresh 2(3) [of a] by auto
  qed
  moreover have "(succ_rel g)\<^sup>* `` {n. gm_bool reachable' n} = (succ_rel g)\<^sup>* `` {n. gm_bool reachable n}"
  proof -
    have "gm_bool reachable current" using 2(3) by simp
    then have "{n. gm_bool reachable' n} \<subseteq> (succ_rel g)\<^sup>* `` {n. gm_bool reachable n}"
      by (auto simp: marks)
    then have "(succ_rel g)\<^sup>* `` {n. gm_bool reachable' n} \<subseteq> (succ_rel g)\<^sup>* `` {n. gm_bool reachable n}"
      using Image_mono [OF subset_refl, of _ _ "(succ_rel g)\<^sup>*"]
      by (metis relcomp_Image rtrancl_idemp_self_comp)
    then show ?thesis by (auto simp: marks)
  qed
  ultimately show ?case by (simp add: round)
qed

lemma computeReachable_marks:
  "gm_bool (computeReachable g) n \<longleftrightarrow> sg_entryPoint g \<noteq> [] \<and> (sg_entryPoint g, n) \<in> (succ_rel g)\<^sup>*"
proof (cases "sg_entryPoint g = []")
  case False
  have "{n. gm_bool (reach_loop g (gm_put (sg_entryPoint g) True []) [sg_entryPoint g]) n}
      = (succ_rel g)\<^sup>* `` {n. gm_bool (gm_put (sg_entryPoint g) True []) n}"
    by (rule reach_loop_marks) (auto simp: gm_bool_def split: if_splits)
  then show ?thesis
    using False by (auto simp: computeReachable_def gm_bool_def split: if_splits)
qed (simp add: computeReachable_def)

section \<open>Validate and Compile\<close>

definition Validate :: "state_graph \<Rightarrow> go_error option" where
  "Validate g =
     (if sg_entryPoint g = [] then Some (Errorf ''no entry point set'')
      else if sg_finishPoints g = [] then Some (Errorf ''no finish points set'')
      else let reachable = computeReachable g
           in case find (\<lambda>name. \<not> gm_bool reachable name) (gm_keys (sg_nodes g)) of
                Some name \<Rightarrow> Some (Errorf (''node '' @ name @ '' is not reachable from entry point''))
              | None \<Rightarrow>
                  (case ValidateStateSchema g of
                     Some err \<Rightarrow> Some (WrapErr ''state schema validation failed: '' err)
                   | None \<Rightarrow> None))"

record compiled_graph =
  cg_graph :: state_graph
  cg_checkpointer :: goval
  cg_interrupts :: "bool gomap"
  cg_interruptsAfter :: "bool gomap"
  cg_recursionLimit :: int
  cg_debug :: bool
  cg_nodeTriggerMode :: node_trigger_mode

type_synonym compile_option = "compiled_graph \<Rightarrow> compiled_graph"

definition WithCheckpointer :: "goval \<Rightarrow> compile_option" where
  "WithCheckpointer cp cg = cg\<lparr>cg_checkpointer := cp\<rparr>"

definition WithInterrupts :: "string list \<Rightarrow> compile_option" where
  "WithInterrupts ns cg = cg\<lparr>cg_interrupts := fold (\<lambda>n. gm_put n True) ns (cg_interrupts cg)\<rparr>"

definition WithInterruptsAfter :: "string list \<Rightarrow> compile_option" where
  "WithInterruptsAfter ns cg = cg\<lparr>cg_interruptsAfter := fold (\<lambda>n. gm_put n True) ns (cg_interruptsAfter cg)\<rparr>"

definition WithRecursionLimit :: "int \<Rightarrow> compile_option" where
  "WithRecursionLimit limit cg = cg\<lparr>cg_recursionLimit := limit\<rparr>"

definition WithDebug :: "bool \<Rightarrow> compile_option" where
  "WithDebug b cg = cg\<lparr>cg_debug := b\<rparr>"

definition WithNodeTriggerMode :: "node_trigger_mode \<Rightarrow> compile_option" where
  "WithNodeTriggerMode m cg = cg\<lparr>cg_nodeTriggerMode := m\<rparr>"

text \<open>
  An option that is not a \<^verbatim>\<open>CompileOption\<close> (here \<open>None\<close>) is skipped. The compiled graph holds a
  pointer to the builder's graph, so the trigger mode set at the end is seen through it.
\<close>

definition Compile :: "compile_option option list \<Rightarrow> state_graph \<Rightarrow> compiled_graph go_result \<times> state_graph" where
  "Compile opts g =
     (case Validate g of
        Some err \<Rightarrow> (Inl (WrapErr ''graph validation failed: '' err), g)
      | None \<Rightarrow>
          (case configureChannelsFromSchema g of
             (Some err, g') \<Rightarrow> (Inl (WrapErr ''failed to configure channels from schema: '' err), g')
           | (None, g') \<Rightarrow>
               (let cg = \<lparr>cg_graph = g', cg_checkpointer = GNil, cg_interrupts = [], cg_interruptsAfter = [],
                         cg_recursionLimit = DefaultRecursionLimit, cg_debug = False,
                         cg_nodeTriggerMode = NodeTriggerAnyPredecessor\<rparr>;
                    cg = fold (\<lambda>opt cg. case opt of Some fn \<Rightarrow> fn cg | None \<Rightarrow> cg) opts cg;
                    g'' = g'\<lparr>sg_NodeTriggerMode := cg_nodeTriggerMode cg\<rparr>
                in (Inr (cg\<lparr>cg_graph := g''\<rparr>), g''))))"

text \<open>
  C14: \<^verbatim>\<open>Validate\<close> accepts a graph exactly when it has an entry point and a finish point, every
  node can be reached from the entry point along plain edges and the targets of conditional
  edges, and the state schema is valid. The search always ends.
\<close>

theorem Validate_iff_reachable:
  "Validate g = None \<longleftrightarrow>
     sg_entryPoint g \<noteq> [] \<and> sg_finishPoints g \<noteq> []
     \<and> gm_dom (sg_nodes g) \<subseteq> (succ_rel g)\<^sup>* `` {sg_entryPoint g}
     \<and> ValidateStateSchema g = None"
proof -
  have "find (\<lambda>name. \<not> gm_bool (computeReachable g) name) (gm_keys (sg_nodes g)) = None
      \<longleftrightarrow> (\<forall>n \<in> gm_dom (sg_nodes g). gm_bool (computeReachable g) n)"
    by (auto simp: find_None_iff)
  then show ?thesis
    by (auto simp: Validate_def Let_def computeReachable_marks split: option.split)
qed

text \<open>
  Branches do not count for reachability. A graph is validated as if it had no branches, so
  a node that only a branch can route to makes the graph invalid.
\<close>

theorem Validate_ignores_branches:
  "Validate (g\<lparr>sg_branches := bs\<rparr>) = Validate g"
proof -
  have "gm_bool (computeReachable (g\<lparr>sg_branches := bs\<rparr>)) = gm_bool (computeReachable g)"
    by (simp add: fun_eq_iff computeReachable_marks succ_rel_def)
  moreover have "ValidateStateSchema (g\<lparr>sg_branches := bs\<rparr>) = ValidateStateSchema g"
    by (simp add: ValidateStateSchema_def)
  ultimately show ?thesis by (simp add: Validate_def split: option.split)
qed

section \<open>Well-formed graphs\<close>

text \<open>The names that edges, branches, the entry and the finish points use, within a set of nodes \<open>D\<close>.\<close>

definition topology_in :: "string set \<Rightarrow> state_graph \<Rightarrow> bool" where
  "topology_in D g \<longleftrightarrow>
     (\<forall>ed \<in> set (sg_edges g). ed_From ed \<in> insert Start D \<and> ed_To ed \<in> insert End D)
     \<and> (\<forall>de \<in> set (sg_dataEdges g). de_From de \<in> insert Start D \<and> de_To de \<in> insert End D)
     \<and> (\<forall>ce \<in> set (sg_conditionalEdges g). ce_From ce \<in> D \<and> snd ` set (ce_Mapping ce) \<subseteq> insert End D)
     \<and> (\<forall>br \<in> set (sg_branches g). br_From br \<in> D)
     \<and> sg_entryPoint g \<in> {[], End} \<union> D
     \<and> set (sg_finishPoints g) \<subseteq> insert Start D"

definition graph_ok :: "state_graph \<Rightarrow> bool" where
  "graph_ok g \<longleftrightarrow>
     gm_ok (sg_nodes g) \<and> (\<forall>(n, nd) \<in> set (sg_nodes g). nd_Name nd = n)
     \<and> topology_in (gm_dom (sg_nodes g)) g
     \<and> gm_ok (sg_channels g) \<and> (\<forall>(k, ch) \<in> set (sg_channels g). ch_GetKey ch = k)"

lemma topology_in_mono: "topology_in D g \<Longrightarrow> D \<subseteq> D' \<Longrightarrow> topology_in D' g"
  unfolding topology_in_def by blast

lemma topology_in_other [simp]:
  "topology_in D (g\<lparr>sg_nodes := ns\<rparr>) = topology_in D g"
  "topology_in D (g\<lparr>sg_channels := chs\<rparr>) = topology_in D g"
  "topology_in D (g\<lparr>sg_reducers := rs\<rparr>) = topology_in D g"
  "topology_in D (g\<lparr>sg_NodeTriggerMode := m\<rparr>) = topology_in D g"
  by (simp_all add: topology_in_def)

text \<open>Every way the builder changes a graph.\<close>

inductive build_step :: "state_graph \<Rightarrow> state_graph \<Rightarrow> bool" where
  add_node: "build_step g (AddNode name fn g)"
| add_node_options: "build_step g (AddNodeWithOptions name fn opts g)"
| add_edge: "build_step g (snd (AddEdge from to g))"
| add_conditional: "build_step g (snd (AddConditionalEdges from cond mapping g))"
| add_branch: "build_step g (snd (AddBranch from cond thn g))"
| add_data_edge: "build_step g (snd (AddDataEdge from to mappings g))"
| set_entry: "build_step g (snd (SetEntryPoint n g))"
| set_finish: "build_step g (snd (SetFinishPoint n g))"
| add_channel: "build_step g (AddChannel name ch g)"
| set_reducer: "build_step g (SetReducer name f g)"
| add_channel_reducer: "build_step g (AddChannelWithReducer name ch f' g)"
| set_schemas: "build_step g (WithInputSchema si (WithOutputSchema so g))"
| set_mode: "build_step g (SetNodeTriggerMode m g)"
| compile: "build_step g (snd (Compile copts g))"

lemma ch_GetKey_SetKey [simp]: "ch_GetKey (ch_SetKey k ch) = k"
  by (induction ch) simp_all

lemma CreateReducerChannel_key: "ch_GetKey (CreateReducerChannel name k r) = name"
  by (simp add: CreateReducerChannel_def Let_def split: option.split)

lemma processField_key:
  "processField f = Inr info \<Longrightarrow> fi_Name info = sf_Name f \<and> ch_GetKey (fi_Channel info) = sf_Name f"
  by (auto simp: processField_def CreateReducerChannel_key split: sum.splits if_splits)

lemma process_fields_spec:
  assumes "process_fields fs acc = Inr infos" and "gm_ok acc"
    and "\<forall>(k, info) \<in> set acc. ch_GetKey (fi_Channel info) = k"
  shows "gm_ok infos \<and> (\<forall>(k, info) \<in> set infos. ch_GetKey (fi_Channel info) = k)
    \<and> gm_dom infos = gm_dom acc \<union> sf_Name ` {f \<in> set fs. sf_Exported f}"
  using assms
proof (induction fs acc rule: process_fields.induct)
  case (2 f fs acc)
  show ?case
  proof (cases "sf_Exported f")
    case False
    with 2 show ?thesis by auto
  next
    case True
    with 2(3) obtain info where info: "processField f = Inr info"
      by (auto split: sum.splits)
    note key = processField_key [OF info]
    have "\<forall>(k, info) \<in> set (gm_put (fi_Name info) info acc). ch_GetKey (fi_Channel info) = k"
      using 2(5) key by (auto dest!: gm_put_mem)
    then show ?thesis
      using 2(2) [OF _ info] 2(3,4) True info key by (auto simp: gomap_simps)
  qed
qed simp

lemma configure_field_spec:
  "sg_channels (configure_field (n, info) g) =
     (if map_of (sg_channels g) n = None then gm_put n (fi_Channel info) (sg_channels g) else sg_channels g)
   \<and> sg_nodes (configure_field (n, info) g) = sg_nodes g
   \<and> sg_edges (configure_field (n, info) g) = sg_edges g
   \<and> sg_dataEdges (configure_field (n, info) g) = sg_dataEdges g
   \<and> sg_conditionalEdges (configure_field (n, info) g) = sg_conditionalEdges g
   \<and> sg_branches (configure_field (n, info) g) = sg_branches g
   \<and> sg_entryPoint (configure_field (n, info) g) = sg_entryPoint g
   \<and> sg_finishPoints (configure_field (n, info) g) = sg_finishPoints g"
  by (auto simp: configure_field_def Let_def split: option.split)

lemma configure_fields_ok:
  assumes "graph_ok g" and "\<forall>(k, info) \<in> set infos. ch_GetKey (fi_Channel info) = k"
  shows "graph_ok (fold configure_field infos g)"
  using assms
proof (induction infos arbitrary: g)
  case (Cons ni infos)
  obtain n info where ni: "ni = (n, info)" by force
  have "\<forall>(k, ch) \<in> set (gm_put n (fi_Channel info) (sg_channels g)). ch_GetKey ch = k"
    using Cons.prems by (auto simp: ni graph_ok_def dest!: gm_put_mem)
  then have "graph_ok (configure_field (n, info) g)"
    using Cons.prems(1) by (simp add: graph_ok_def topology_in_def configure_field_spec)
  with Cons show ?case by (simp add: ni)
qed simp

lemma graph_ok_put_node:
  assumes "graph_ok g" and "nd_Name nd = name"
  shows "graph_ok (g\<lparr>sg_nodes := gm_put name nd (sg_nodes g)\<rparr>)"
proof -
  have "\<forall>(n, nd) \<in> set (gm_put name nd (sg_nodes g)). nd_Name nd = n"
    using assms by (auto simp: graph_ok_def dest!: gm_put_mem)
  moreover have "topology_in (gm_dom (gm_put name nd (sg_nodes g))) g"
    by (rule topology_in_mono [of "gm_dom (sg_nodes g)"]) (use assms in \<open>auto simp: graph_ok_def gomap_simps\<close>)
  ultimately show ?thesis using assms(1) by (simp add: graph_ok_def)
qed

lemma graph_ok_put_channel:
  assumes "graph_ok g" and "ch_GetKey ch = name"
  shows "graph_ok (g\<lparr>sg_channels := gm_put name ch (sg_channels g)\<rparr>)"
proof -
  have "\<forall>(k, c) \<in> set (gm_put name ch (sg_channels g)). ch_GetKey c = k"
    using assms by (auto simp: graph_ok_def dest!: gm_put_mem)
  with assms(1) show ?thesis by (simp add: graph_ok_def)
qed

lemma graph_ok_reducers [simp]: "graph_ok (g\<lparr>sg_reducers := rs\<rparr>) = graph_ok g"
  and graph_ok_mode [simp]: "graph_ok (g\<lparr>sg_NodeTriggerMode := m\<rparr>) = graph_ok g"
  and graph_ok_input [simp]: "graph_ok (g\<lparr>sg_inputSchema := si\<rparr>) = graph_ok g"
  and graph_ok_output [simp]: "graph_ok (g\<lparr>sg_outputSchema := so\<rparr>) = graph_ok g"
  by (simp_all add: graph_ok_def topology_in_def)

lemma missing_target_None:
  "missing_target g mapping = None \<Longrightarrow> snd ` set mapping \<subseteq> insert End (gm_dom (sg_nodes g))"
  by (fastforce simp: missing_target_def find_None_iff map_of_eq_None_keys)

lemma configureChannels_ok: "graph_ok g \<Longrightarrow> graph_ok (snd (configureChannelsFromSchema g))"
proof -
  assume ok: "graph_ok g"
  have "\<forall>(k, info) \<in> set infos. ch_GetKey (fi_Channel info) = k"
    if "GetStateSchemaInfo g = Inr infos" for infos
    using that process_fields_spec
    by (fastforce simp: GetStateSchemaInfo_def validateStateSchema_def split: if_splits schema.splits)
  with ok show ?thesis
    by (auto simp: configureChannelsFromSchema_def configure_fields_ok split: sum.split)
qed

lemma Compile_graph: "graph_ok g \<Longrightarrow> graph_ok (snd (Compile opts g))"
  using configureChannels_ok [of g]
  by (auto simp: Compile_def Let_def split: option.split prod.split)

lemma build_step_ok: "build_step g g' \<Longrightarrow> graph_ok g \<Longrightarrow> graph_ok g'"
proof (induction rule: build_step.induct)
  case (add_node g name fn)
  then show ?case by (simp add: AddNode_def graph_ok_put_node NewNode_def)
next
  case (add_node_options g name fn opts)
  then show ?case by (simp add: AddNodeWithOptions_def Let_def graph_ok_put_node NewNode_def)
next
  case (add_edge g "from" to)
  then show ?case
    by (auto simp: AddEdge_def Let_def graph_ok_def topology_in_def map_of_eq_None_keys)
next
  case (add_conditional g "from" cond mapping)
  then show ?case
    using missing_target_None [of g mapping]
    by (auto simp: AddConditionalEdges_def graph_ok_def topology_in_def map_of_eq_None_keys split: option.split)
next
  case (add_branch g "from" cond thn)
  then show ?case by (auto simp: AddBranch_def graph_ok_def topology_in_def map_of_eq_None_keys)
next
  case (add_data_edge g "from" to mappings)
  then show ?case by (auto simp: AddDataEdge_def graph_ok_def topology_in_def map_of_eq_None_keys)
next
  case (set_entry g n)
  then show ?case by (auto simp: SetEntryPoint_def graph_ok_def topology_in_def map_of_eq_None_keys)
next
  case (set_finish g n)
  then show ?case by (auto simp: SetFinishPoint_def graph_ok_def topology_in_def map_of_eq_None_keys)
next
  case (add_channel g name ch)
  then show ?case by (simp add: AddChannel_def graph_ok_put_channel split: option.split)
next
  case (set_reducer g name f)
  have "ch_GetKey c = name" if "map_of (sg_channels g) name = Some c" for c
    using set_reducer map_of_SomeD [OF that] by (auto simp: graph_ok_def)
  with set_reducer show ?case by (auto simp: SetReducer_def Let_def graph_ok_put_channel split: option.split)
next
  case (add_channel_reducer g name ch f')
  then show ?case
    by (simp add: AddChannelWithReducer_def graph_ok_put_channel split: option.split)
next
  case (set_schemas g si so)
  then show ?case by (simp add: WithInputSchema_def WithOutputSchema_def)
next
  case (set_mode g m)
  then show ?case by (simp add: SetNodeTriggerMode_def)
next
  case (compile g copts)
  then show ?case by (rule Compile_graph)
qed

text \<open>
  C15: every graph that the builder can produce is well-formed. Each node is stored under its own
  name; plain, data and conditional edges, branches, the entry point and the finish points only
  name nodes that exist, apart from the virtual start and end; and each channel carries the name
  it is registered under.
\<close>

theorem builder_invariant:
  assumes "build_step\<^sup>*\<^sup>* (NewStateGraph s) g"
  shows "graph_ok g"
  using assms
proof (induction rule: rtranclp_induct)
  case base
  then show ?case by (simp add: graph_ok_def topology_in_def NewStateGraph_def)
next
  case (step g g')
  then show ?case by (blast intro: build_step_ok)
qed

theorem builder_invariant_witness:
  "graph_ok (snd (AddEdge Start ''a'' (AddNode ''a'' None (NewStateGraph (SchemaMap K_String)))))"
proof -
  have "build_step\<^sup>*\<^sup>* (NewStateGraph (SchemaMap K_String))
      (snd (AddEdge Start ''a'' (AddNode ''a'' None (NewStateGraph (SchemaMap K_String)))))"
    by (rule rtranclp.rtrancl_into_rtrancl [OF r_into_rtranclp]) (rule build_step.intros)+
  then show ?thesis by (rule builder_invariant)
qed

lemma configure_fields_spec:
  "map_of (sg_channels (fold configure_field infos g)) n =
     (case map_of (sg_channels g) n of
        Some ch \<Rightarrow> Some ch
      | None \<Rightarrow> map_option fi_Channel (map_of infos n))
   \<and> sg_nodes (fold configure_field infos g) = sg_nodes g
   \<and> sg_edges (fold configure_field infos g) = sg_edges g
   \<and> sg_conditionalEdges (fold configure_field infos g) = sg_conditionalEdges g
   \<and> sg_branches (fold configure_field infos g) = sg_branches g
   \<and> sg_entryPoint (fold configure_field infos g) = sg_entryPoint g"
proof (induction infos arbitrary: g)
  case (Cons ni infos)
  then show ?case
    by (cases ni) (auto simp: configure_field_spec gomap_simps split: option.split)
qed (simp split: option.split)

text \<open>
  C39: compiling. A graph compiles only if it is valid. Compilation changes neither nodes nor edges
  nor the entry point, keeps every channel that was configured by hand, and gives every exported
  field of a struct schema that has no channel yet the channel made from the field's kind and tag.
\<close>

theorem Compile_spec:
  assumes "Compile opts g = (Inr cg, g')"
  shows "Validate g = None \<and> cg_graph cg = g'
    \<and> sg_nodes g' = sg_nodes g \<and> sg_edges g' = sg_edges g
    \<and> sg_conditionalEdges g' = sg_conditionalEdges g \<and> sg_branches g' = sg_branches g
    \<and> sg_entryPoint g' = sg_entryPoint g
    \<and> (\<exists>infos. GetStateSchemaInfo g = Inr infos
        \<and> (\<forall>n. map_of (sg_channels g') n =
             (case map_of (sg_channels g) n of
                Some ch \<Rightarrow> Some ch
              | None \<Rightarrow> map_option fi_Channel (map_of infos n)))
        \<and> (\<forall>fs. schema_elem (sg_stateSchema g) = SchemaStruct fs \<longrightarrow>
             gm_dom infos = sf_Name ` {f \<in> set fs. sf_Exported f}))"
proof -
  obtain infos where infos: "GetStateSchemaInfo g = Inr infos" and "Validate g = None"
    using assms by (auto simp: Compile_def configureChannelsFromSchema_def split: option.splits sum.splits)
  moreover obtain m where "cg_graph cg = g'" "g' = (fold configure_field infos g)\<lparr>sg_NodeTriggerMode := m\<rparr>"
    using assms infos
    by (auto simp: Compile_def Let_def configureChannelsFromSchema_def split: option.splits)
  moreover have "gm_dom infos = sf_Name ` {f \<in> set fs. sf_Exported f}"
    if "schema_elem (sg_stateSchema g) = SchemaStruct fs" for fs
  proof -
    have "process_fields fs [] = Inr infos"
      using infos that by (auto simp: GetStateSchemaInfo_def validateStateSchema_def split: if_splits)
    then show ?thesis by (auto dest!: process_fields_spec)
  qed
  ultimately show ?thesis
    using configure_fields_spec [of infos g] by auto
qed

theorem Compile_spec_witness:
  "let sch = SchemaStruct [\<lparr>sf_Name = ''Count'', sf_Exported = True, sf_Kind = K_Int, sf_Tag = ''reducer=add''\<rparr>];
       g = snd (AddEdge ''a'' End (snd (AddEdge Start ''a'' (AddNode ''a'' None (NewStateGraph sch)))))
   in \<exists>cg g'. Compile [] g = (Inr cg, g') \<and> Validate g = None \<and> ''Count'' \<in> gm_dom (sg_channels g')"
proof -
  define sch where "sch = SchemaStruct [\<lparr>sf_Name = ''Count'', sf_Exported = True, sf_Kind = K_Int, sf_Tag = ''reducer=add''\<rparr>]"
  define g where "g = snd (AddEdge ''a'' End (snd (AddEdge Start ''a'' (AddNode ''a'' None (NewStateGraph sch)))))"
  obtain info where info: "validateStateSchema sch = Inr [(''Count'', info)]"
    by (simp add: sch_def validateStateSchema_def schema_elem_def processField_def parseAnnotation_def
        TrimSpace_def is_space_def reducers_def Let_def)
  have g: "sg_nodes g = [(''a'', NewNode ''a'' None)]" "sg_entryPoint g = ''a''"
    "sg_finishPoints g = [''a'']" "sg_stateSchema g = sch" "sg_channels g = []"
    by (simp_all add: g_def AddEdge_def AddNode_def NewStateGraph_def Start_def End_def)
  have "gm_bool (computeReachable g) ''a''"
    by (simp add: computeReachable_marks g)
  then have ok: "Validate g = None"
    by (simp add: Validate_def g ValidateStateSchema_def info)
  obtain cg g' where cg: "Compile [] g = (Inr cg, g')"
    by (simp add: Compile_def ok configureChannelsFromSchema_def GetStateSchemaInfo_def g info Let_def)
  have "map_of (sg_channels g') ''Count'' = Some (fi_Channel info)"
    using Compile_spec [OF cg] by (auto simp: GetStateSchemaInfo_def g info)
  then show ?thesis
    unfolding Let_def sch_def [symmetric] g_def [symmetric]
    using cg ok by (auto dest: map_of_Some_key)
qed

end
