(* ===== verification/Retry.thy ===== *)
theory Retry
  imports State_Graph
begin

text \<open>
  Retrying a node (\<^verbatim>\<open>pregel/retry.go\<close>, \<^verbatim>\<open>RetryPolicy\<close> of \<^verbatim>\<open>types/types.go\<close>): the
  exponential backoff with its jitter, the attempt loop of \<^verbatim>\<open>RetryExecutor.Execute\<close> and the
  predicates that recognise an error by its text.
\<close>

section \<open>Backoff\<close>

definition DefaultRetryOn :: "go_error \<Rightarrow> bool" where
  "DefaultRetryOn err \<longleftrightarrow> True"

text \<open>Durations are nanoseconds.\<close>

definition DefaultRetryPolicy :: retry_policy where
  "DefaultRetryPolicy =
     \<lparr>InitialInterval = 500000000, BackoffFactor = F_Fin 2, MaxInterval = 128000000000,
      MaxAttempts = 3, Jitter = True, RetryOn = Some DefaultRetryOn\<rparr>"

fun powFloat_loop :: "float64 \<Rightarrow> nat \<Rightarrow> float64 \<Rightarrow> float64" where
  "powFloat_loop base 0 result = result"
| "powFloat_loop base (Suc n) result = powFloat_loop base n (f_mul result base)"

definition powFloat :: "float64 \<Rightarrow> int \<Rightarrow> float64" where
  "powFloat base n = powFloat_loop base (nat n) (F_Fin 1)"

text \<open>The random number in [0, 1) is an argument.\<close>

definition CalculateBackoff :: "retry_policy \<Rightarrow> float64 \<Rightarrow> int \<Rightarrow> int" where
  "CalculateBackoff p rnd attempt =
     (let backoff = min (int_of_f (f_mul (f_of_int (InitialInterval p)) (powFloat (BackoffFactor p) (attempt - 1))))
                        (MaxInterval p)
      in if Jitter p
         then let jitter = int_of_f (f_mul (f_mul (f_of_int backoff) (F_Fin (1 / 2))) rnd)
              in max (backoff - jitter) 0
         else backoff)"

section \<open>The attempt loop\<close>

text \<open>
  \<open>fn k\<close> is what the \<open>k\<close>-th call returns: the output and the error. A call that panics returns
  the error \<open>GoPanic\<close>, which the deferred function of \<^verbatim>\<open>Execute\<close> turns into an ordinary
  error. \<open>cancelled k\<close> is the outcome of the wait after attempt \<open>k\<close>: the error of the context when it
  ended the wait.
\<close>

fun IsPanic :: "go_error \<Rightarrow> string option" where
  "IsPanic (GoPanic s) = Some s"
| "IsPanic _ = None"

fun retry_loop ::
  "retry_policy \<Rightarrow> string \<Rightarrow> (nat \<Rightarrow> goval \<times> go_error option) \<Rightarrow> (nat \<Rightarrow> go_error option)
   \<Rightarrow> nat \<Rightarrow> nat \<Rightarrow> go_error option \<Rightarrow> goval \<Rightarrow> goval \<times> go_error option" where
  "retry_loop p name fn cancelled 0 attempt lastErr lastOutput =
     (GNil, Some (RetryExhaustedError name (MaxAttempts p) lastErr lastOutput))"
| "retry_loop p name fn cancelled (Suc left) attempt lastErr lastOutput =
     (case fn attempt of
        (output, None) \<Rightarrow> (output, None)
      | (output, Some err) \<Rightarrow>
          (case IsPanic err of
             Some r \<Rightarrow> (GNil, Some (Errorf (''node '' @ name @ '' panicked: '' @ r)))
           | None \<Rightarrow>
               if IsGraphInterrupt err then (GNil, Some err)
               else if (case RetryOn p of None \<Rightarrow> False | Some on \<Rightarrow> \<not> on err)
               then (GNil, Some (WrapErr (''node '' @ name @ '' failed with non-retryable error: '') err))
               else if int attempt \<ge> MaxAttempts p
               then (GNil, Some (RetryExhaustedError name (MaxAttempts p) (Some err) output))
               else (case cancelled attempt of
                       Some e \<Rightarrow> (GNil, Some (WrapErr (''node '' @ name @ '' cancelled during retry: '') e))
                     | None \<Rightarrow> retry_loop p name fn cancelled left (Suc attempt) (Some err) output)))"

definition Execute ::
  "retry_policy \<Rightarrow> string \<Rightarrow> (nat \<Rightarrow> goval \<times> go_error option) \<Rightarrow> (nat \<Rightarrow> go_error option)
   \<Rightarrow> goval \<times> go_error option" where
  "Execute p name fn cancelled = retry_loop p name fn cancelled (nat (MaxAttempts p)) 1 None GNil"

fun IsRetryExhausted :: "go_error \<Rightarrow> bool" where
  "IsRetryExhausted (RetryExhaustedError n a e out) = True"
| "IsRetryExhausted _ = False"

section \<open>Predicates on the text of an error\<close>

definition toLower :: "string \<Rightarrow> string" where
  "toLower s = map (\<lambda>c. if CHR ''A'' \<le> c \<and> c \<le> CHR ''Z'' then char_of (of_char c + 32 :: nat) else c) s"

definition containsIgnoreCase :: "string \<Rightarrow> string \<Rightarrow> bool" where
  "containsIgnoreCase s substr \<longleftrightarrow>
     (let s = toLower s; substr = toLower substr
      in length s \<ge> length substr \<and> take (length substr) s = substr)"

definition contains :: "string \<Rightarrow> string \<Rightarrow> bool" where
  "contains s substr \<longleftrightarrow>
     length s \<ge> length substr
     \<and> (s = substr
        \<or> length s > length substr \<and> (take (length substr) s = substr \<or> containsIgnoreCase s substr))"

definition networkKeywords :: "string list" where
  "networkKeywords =
     [''connection refused'', ''connection reset'', ''timeout'', ''network'', ''dns'',
      ''temporary failure'', ''503'', ''502'', ''504'']"

definition tempKeywords :: "string list" where
  "tempKeywords = [''temporary'', ''transient'', ''rate limit'', ''too many requests'', ''429'']"

definition NetworkErrors :: "(goval \<Rightarrow> string) \<Rightarrow> go_error option \<Rightarrow> bool" where
  "NetworkErrors fv err =
     (case err of None \<Rightarrow> False | Some e \<Rightarrow> list_ex (contains (err_Error fv e)) networkKeywords)"

definition TemporaryErrors :: "(goval \<Rightarrow> string) \<Rightarrow> go_error option \<Rightarrow> bool" where
  "TemporaryErrors fv err =
     (case err of None \<Rightarrow> False | Some e \<Rightarrow> list_ex (contains (err_Error fv e)) tempKeywords)"

section \<open>Configuration\<close>

record retry_config =
  rc_Policy :: retry_policy
  rc_OnRetry :: "(int \<Rightarrow> go_error \<Rightarrow> unit) option"
  rc_OnSuccess :: "(int \<Rightarrow> unit) option"

definition NewRetryConfig :: retry_config where
  "NewRetryConfig = \<lparr>rc_Policy = DefaultRetryPolicy, rc_OnRetry = None, rc_OnSuccess = None\<rparr>"

definition WithOnRetry :: "(int \<Rightarrow> go_error \<Rightarrow> unit) option \<Rightarrow> retry_config \<Rightarrow> retry_config" where
  "WithOnRetry callback c = c\<lparr>rc_OnRetry := callback\<rparr>"

definition WithOnSuccess :: "(int \<Rightarrow> unit) option \<Rightarrow> retry_config \<Rightarrow> retry_config" where
  "WithOnSuccess callback c = c\<lparr>rc_OnSuccess := callback\<rparr>"

definition WithRetryOn :: "(go_error \<Rightarrow> bool) option \<Rightarrow> retry_config \<Rightarrow> retry_config" where
  "WithRetryOn predicate c = c\<lparr>rc_Policy := (rc_Policy c)\<lparr>RetryOn := predicate\<rparr>\<rparr>"

definition WithMaxAttempts :: "int \<Rightarrow> retry_config \<Rightarrow> retry_config" where
  "WithMaxAttempts maxAttempts c = c\<lparr>rc_Policy := (rc_Policy c)\<lparr>MaxAttempts := maxAttempts\<rparr>\<rparr>"

definition WithBackoff :: "int \<Rightarrow> int \<Rightarrow> float64 \<Rightarrow> retry_config \<Rightarrow> retry_config" where
  "WithBackoff initial mx factor c =
     c\<lparr>rc_Policy := (rc_Policy c)\<lparr>InitialInterval := initial, MaxInterval := mx, BackoffFactor := factor\<rparr>\<rparr>"

definition WithJitter :: "bool \<Rightarrow> retry_config \<Rightarrow> retry_config" where
  "WithJitter enabled c = c\<lparr>rc_Policy := (rc_Policy c)\<lparr>Jitter := enabled\<rparr>\<rparr>"

section \<open>What the attempt loop returns\<close>

text \<open>
  An attempt decides the call when it succeeds, panics, is an interrupt or an error that the
  policy does not retry, when it is the last one allowed, or when the context ends the wait
  after it.
\<close>

definition decisive ::
  "retry_policy \<Rightarrow> (nat \<Rightarrow> goval \<times> go_error option) \<Rightarrow> (nat \<Rightarrow> go_error option) \<Rightarrow> nat \<Rightarrow> bool" where
  "decisive p fn cancelled k \<longleftrightarrow>
     (case snd (fn k) of
        None \<Rightarrow> True
      | Some err \<Rightarrow>
          IsPanic err \<noteq> None \<or> IsGraphInterrupt err
          \<or> (\<exists>on. RetryOn p = Some on \<and> \<not> on err)
          \<or> int k \<ge> MaxAttempts p \<or> cancelled k \<noteq> None)"

definition verdict ::
  "retry_policy \<Rightarrow> string \<Rightarrow> (nat \<Rightarrow> goval \<times> go_error option) \<Rightarrow> (nat \<Rightarrow> go_error option) \<Rightarrow> nat
   \<Rightarrow> goval \<times> go_error option" where
  "verdict p name fn cancelled k = retry_loop p name fn cancelled 1 k None GNil"

lemma retry_loop_skip:
  assumes "\<not> decisive p fn cancelled k"
  shows "retry_loop p name fn cancelled (Suc left) k e out =
    retry_loop p name fn cancelled left (Suc k) (snd (fn k)) (fst (fn k))"
  using assms by (cases "fn k") (auto simp: decisive_def split: option.splits)

lemma retry_loop_decide:
  assumes "decisive p fn cancelled k"
  shows "retry_loop p name fn cancelled (Suc left) k e out = verdict p name fn cancelled k"
  using assms by (cases "fn k") (auto simp: decisive_def verdict_def split: option.splits)

lemma retry_loop_first:
  assumes "decisive p fn cancelled (k + d)" and "\<forall>i < d. \<not> decisive p fn cancelled (k + i)" and "d < left"
  shows "retry_loop p name fn cancelled left k e out = verdict p name fn cancelled (k + d)"
  using assms
proof (induction d arbitrary: left k e out)
  case 0
  then show ?case by (cases left) (simp_all add: retry_loop_decide del: retry_loop.simps)
next
  case (Suc d)
  then obtain l where left: "left = Suc l" "d < l" by (cases left) auto
  have "\<not> decisive p fn cancelled k" using Suc.prems(2) by (metis add_0_right zero_less_Suc)
  then have "retry_loop p name fn cancelled left k e out =
      retry_loop p name fn cancelled l (Suc k) (snd (fn k)) (fst (fn k))"
    unfolding left(1) by (rule retry_loop_skip)
  also have "\<dots> = verdict p name fn cancelled (Suc k + d)"
  proof (rule Suc.IH)
    show "decisive p fn cancelled (Suc k + d)" using Suc.prems(1) by simp
    show "\<forall>i<d. \<not> decisive p fn cancelled (Suc k + i)"
      using Suc.prems(2) by (metis Suc_mono add_Suc_shift)
  qed (rule left(2))
  finally show ?case by simp
qed

text \<open>
  C22: the result of \<^verbatim>\<open>Execute\<close>. With at least one attempt allowed, the result is the verdict of the
  first decisive attempt \<open>k\<close>, which exists and is at most \<open>MaxAttempts\<close>, so no later
  call is made: the output if it succeeded, the unwrapped interrupt, the panic or the
  non-retryable error, the cancellation, or \<^verbatim>\<open>RetryExhaustedError\<close> with the last error and
  output. With no attempt allowed nothing is called and the error says so.
\<close>

theorem Execute_first_decisive:
  "(MaxAttempts p \<le> 0 \<longrightarrow>
      Execute p name fn cancelled = (GNil, Some (RetryExhaustedError name (MaxAttempts p) None GNil)))
   \<and> (0 < MaxAttempts p \<longrightarrow>
      (\<exists>k \<ge> 1. int k \<le> MaxAttempts p \<and> decisive p fn cancelled k
         \<and> (\<forall>j. 1 \<le> j \<and> j < k \<longrightarrow> \<not> decisive p fn cancelled j)
         \<and> Execute p name fn cancelled =
             (case fn k of
                (out, None) \<Rightarrow> (out, None)
              | (out, Some err) \<Rightarrow>
                  (GNil, Some
                    (case IsPanic err of
                       Some r \<Rightarrow> Errorf (''node '' @ name @ '' panicked: '' @ r)
                     | None \<Rightarrow>
                         if IsGraphInterrupt err then err
                         else if \<exists>on. RetryOn p = Some on \<and> \<not> on err
                         then WrapErr (''node '' @ name @ '' failed with non-retryable error: '') err
                         else if int k = MaxAttempts p
                         then RetryExhaustedError name (MaxAttempts p) (Some err) out
                         else WrapErr (''node '' @ name @ '' cancelled during retry: '') (the (cancelled k)))))))"
proof (intro conjI impI)
  assume "MaxAttempts p \<le> 0"
  then show "Execute p name fn cancelled = (GNil, Some (RetryExhaustedError name (MaxAttempts p) None GNil))"
    by (simp add: Execute_def)
next
  assume pos: "0 < MaxAttempts p"
  define k where "k = (LEAST k. 1 \<le> k \<and> decisive p fn cancelled k)"
  have last: "1 \<le> nat (MaxAttempts p) \<and> decisive p fn cancelled (nat (MaxAttempts p))"
    using pos by (auto simp: decisive_def split: option.split)
  have k: "1 \<le> k \<and> decisive p fn cancelled k"
    unfolding k_def by (rule LeastI) (rule last)
  have le: "k \<le> nat (MaxAttempts p)"
    unfolding k_def by (rule Least_le) (rule last)
  have min: "\<not> decisive p fn cancelled j" if "1 \<le> j" "j < k" for j
    using not_less_Least [of j "\<lambda>k. 1 \<le> k \<and> decisive p fn cancelled k"] that by (simp add: k_def)
  have "\<forall>i < k - 1. \<not> decisive p fn cancelled (1 + i)"
    using min by (simp add: less_diff_conv)
  then have "Execute p name fn cancelled = verdict p name fn cancelled (1 + (k - 1))"
    unfolding Execute_def using k le pos by (intro retry_loop_first) auto
  also have "1 + (k - 1) = k" using k by simp
  finally have exec: "Execute p name fn cancelled = verdict p name fn cancelled k" .
  have "int k \<le> MaxAttempts p" using le pos by simp
  with k min exec show "\<exists>k \<ge> 1. int k \<le> MaxAttempts p \<and> decisive p fn cancelled k
         \<and> (\<forall>j. 1 \<le> j \<and> j < k \<longrightarrow> \<not> decisive p fn cancelled j)
         \<and> Execute p name fn cancelled =
             (case fn k of
                (out, None) \<Rightarrow> (out, None)
              | (out, Some err) \<Rightarrow>
                  (GNil, Some
                    (case IsPanic err of
                       Some r \<Rightarrow> Errorf (''node '' @ name @ '' panicked: '' @ r)
                     | None \<Rightarrow>
                         if IsGraphInterrupt err then err
                         else if \<exists>on. RetryOn p = Some on \<and> \<not> on err
                         then WrapErr (''node '' @ name @ '' failed with non-retryable error: '') err
                         else if int k = MaxAttempts p
                         then RetryExhaustedError name (MaxAttempts p) (Some err) out
                         else WrapErr (''node '' @ name @ '' cancelled during retry: '') (the (cancelled k)))))"
    by (intro exI [of _ k]) (auto simp: verdict_def decisive_def split: prod.split option.splits)
qed

text \<open>A node that fails once and then succeeds, and one that raises an interrupt.\<close>

theorem Execute_first_decisive_witness:
  "Execute DefaultRetryPolicy ''n''
       (\<lambda>k. if k = 1 then (GNil, Some (Errorf ''boom'')) else (GInt 5, None)) (\<lambda>k. None) = (GInt 5, None)
   \<and> Execute DefaultRetryPolicy ''n'' (\<lambda>k. (GNil, Some (GraphInterrupt []))) (\<lambda>k. None)
     = (GNil, Some (GraphInterrupt []))"
proof -
  define fn where "fn = (\<lambda>k::nat. if k = 1 then (GNil, Some (Errorf ''boom'')) else (GInt 5, None))"
  have dec: "decisive DefaultRetryPolicy fn (\<lambda>k. None) k \<longleftrightarrow> k \<noteq> 1" for k
    by (simp add: decisive_def fn_def DefaultRetryPolicy_def DefaultRetryOn_def)
  have "(0::int) < MaxAttempts DefaultRetryPolicy" by (simp add: DefaultRetryPolicy_def)
  then obtain k where "decisive DefaultRetryPolicy fn (\<lambda>k. None) k"
    and "Execute DefaultRetryPolicy ''n'' fn (\<lambda>k. None) = (case fn k of (out, None) \<Rightarrow> (out, None)
      | (out, Some err) \<Rightarrow> (GNil, Some (case IsPanic err of
            Some r \<Rightarrow> Errorf (''node '' @ ''n'' @ '' panicked: '' @ r)
          | None \<Rightarrow> if IsGraphInterrupt err then err
              else if \<exists>on. RetryOn DefaultRetryPolicy = Some on \<and> \<not> on err
              then WrapErr (''node '' @ ''n'' @ '' failed with non-retryable error: '') err
              else if int k = MaxAttempts DefaultRetryPolicy
              then RetryExhaustedError ''n'' (MaxAttempts DefaultRetryPolicy) (Some err) out
              else WrapErr (''node '' @ ''n'' @ '' cancelled during retry: '') (the None))))"
    using Execute_first_decisive [of DefaultRetryPolicy "''n''" fn "\<lambda>k. None"] by blast
  then have "Execute DefaultRetryPolicy ''n'' fn (\<lambda>k. None) = (GInt 5, None)"
    using dec [of k] by (simp add: fn_def)
  moreover have "Execute DefaultRetryPolicy ''n'' (\<lambda>k. (GNil, Some (GraphInterrupt []))) (\<lambda>k. None)
     = (GNil, Some (GraphInterrupt []))"
    by (simp add: Execute_def DefaultRetryPolicy_def eval_nat_numeral)
  ultimately show ?thesis by (simp add: fn_def)
qed

section \<open>The bounds of the backoff\<close>

lemma powFloat_not_neg: "\<not> f_neg base \<Longrightarrow> \<not> f_neg (powFloat base n)"
proof -
  assume "\<not> f_neg base"
  then have "\<not> f_neg (powFloat_loop base k res)" if "\<not> f_neg res" for k res
    using that by (induction base k res rule: powFloat_loop.induct) (simp_all add: f_mul_not_neg)
  then show ?thesis by (simp add: powFloat_def)
qed

text \<open>
  C23: a wait is between zero and the policy's maximum, with and without jitter, for every maximum an int64 holds, under
  three conditions the code does not check: the initial interval and the maximum are not negative, the
  factor is a finite number that is not negative, and the initial interval times the power of the factor is below
  \<open>2 ^ 63\<close>. The random number is in its documented range.
\<close>

theorem CalculateBackoff_bounds:
  assumes "0 \<le> InitialInterval p" and "0 \<le> MaxInterval p" and "MaxInterval p < 2 ^ 63"
    and "BackoffFactor p = F_Fin b" and "0 \<le> b"
    and "f_mul (f_of_int (InitialInterval p)) (powFloat (BackoffFactor p) (attempt - 1)) = F_Fin x" and "x < 2 ^ 63"
    and "0 \<le> r" and "r < 1"
  shows "0 \<le> CalculateBackoff p (F_Fin r) attempt \<and> CalculateBackoff p (F_Fin r) attempt \<le> MaxInterval p"
proof -
  define w where "w = min (int_of_f (F_Fin x)) (MaxInterval p)"
  have "\<not> f_neg (f_of_int (InitialInterval p))" using assms(1) by (simp add: f_of_int_def round64_not_neg)
  moreover have "\<not> f_neg (powFloat (BackoffFactor p) (attempt - 1))" using assms(4,5) by (simp add: powFloat_not_neg)
  ultimately have "0 \<le> x" using f_mul_not_neg assms(6) by (metis f_neg.simps(3) not_less)
  then have w: "w \<le> MaxInterval p" "0 \<le> w" using assms(2,7) by (simp_all add: w_def int_of_f_nonneg)
  have "(of_int w :: rat) \<le> of_int (2 ^ 63)" using w assms(3) by (simp only: of_int_le_iff)
  then obtain u where u: "f_of_int w = F_Fin u" "0 \<le> u" "u \<le> 2 ^ 63"
    using round64_le_pow2 [of "of_int w" 63] w(2) by (auto simp: f_of_int_def)
  then obtain y where y: "round64 (u * (1 / 2)) = F_Fin y" "0 \<le> y" "y \<le> 2 ^ 62"
    using round64_le_pow2 [of "u * (1 / 2)" 62] by auto
  have "0 \<le> y * r" "y * r \<le> y" using y(2) assms(8,9) by (simp_all add: mult_left_le)
  then obtain z where z: "round64 (y * r) = F_Fin z" "0 \<le> z" "z \<le> 2 ^ 62"
    using round64_le_pow2 [of "y * r" 62] y(3) by auto
  then have "0 \<le> int_of_f (f_mul (f_mul (f_of_int w) (F_Fin (1 / 2))) (F_Fin r))"
    using y(1) by (simp add: u f_mul_def int_of_f_nonneg)
  then show ?thesis
    using w by (simp add: CalculateBackoff_def assms(6) w_def [symmetric] Let_def)
qed

theorem CalculateBackoff_bounds_witness:
  "0 \<le> CalculateBackoff DefaultRetryPolicy (F_Fin (1 / 3)) 1
   \<and> CalculateBackoff DefaultRetryPolicy (F_Fin (1 / 3)) 1 \<le> 128000000000"
proof -
  have "f_mul (f_of_int (InitialInterval DefaultRetryPolicy)) (powFloat (BackoffFactor DefaultRetryPolicy) (1 - 1))
      = F_Fin (of_int 500000000)"
    using round64_of_int [of 500000000] by (simp add: DefaultRetryPolicy_def powFloat_def f_of_int_def f_mul_def)
  from CalculateBackoff_bounds [OF _ _ _ _ _ this, of 2 "1 / 3"] show ?thesis
    by (simp add: DefaultRetryPolicy_def)
qed

text \<open>
  From \<open>2 ^ 63\<close> on the maximum is not applied: the conversion to an integer, which Go leaves to the
  implementation, gives the smallest int64 on amd64, so there is no wait at all, which without jitter is a
  negative duration.
\<close>

theorem backoff_overflow:
  assumes "f_mul (f_of_int (InitialInterval p)) (powFloat (BackoffFactor p) (attempt - 1)) = F_Fin x" and "2 ^ 63 \<le> x"
    and "0 \<le> MaxInterval p"
  shows "CalculateBackoff p (F_Fin r) attempt = (if Jitter p then 0 else - (2 ^ 63))"
proof -
  have "min (int_of_f (F_Fin x)) (MaxInterval p) = - (2 ^ 63)"
    using assms(2,3) by (simp add: int_of_f_overflow)
  then show ?thesis
    using int_of_f_min [of "f_mul (f_mul (f_of_int (- (2 ^ 63))) (F_Fin (1 / 2))) (F_Fin r)"]
    by (simp add: CalculateBackoff_def assms(1) Let_def)
qed

section \<open>Recognising an error by its text\<close>

lemma take_toLower: "take n (toLower s) = toLower (take n s)"
  by (simp add: toLower_def take_map)

lemma length_toLower [simp]: "length (toLower s) = length s"
  by (simp add: toLower_def)

text \<open>
  \<^verbatim>\<open>contains\<close> looks only at the start of the text. It holds exactly when the text equals the keyword,
  or is longer and begins with it up to the case of ASCII letters. A keyword
  in the middle of a message, such as a wrapped network error, is not recognised, so
  \<^verbatim>\<open>NetworkErrors\<close> does not retry it.
\<close>

theorem contains_only_prefix:
  "(contains s substr \<longleftrightarrow>
      s = substr \<or> length substr < length s \<and> toLower (take (length substr) s) = toLower substr)
   \<and> \<not> NetworkErrors fv (Some (Errorf ''dial tcp 10.0.0.1: connection refused''))"
proof
  show "contains s substr \<longleftrightarrow>
      s = substr \<or> length substr < length s \<and> toLower (take (length substr) s) = toLower substr"
    by (auto simp: contains_def containsIgnoreCase_def Let_def take_toLower)
  show "\<not> NetworkErrors fv (Some (Errorf ''dial tcp 10.0.0.1: connection refused''))"
    by (simp add: NetworkErrors_def networkKeywords_def contains_def containsIgnoreCase_def toLower_def)
qed

end
