(* ===== verification/Pregel_Tasks.thy ===== *)
theory Pregel_Tasks
  imports Graph_Validation Retry Checkpoints
begin

text \<open>
  The engine's state and the planning half of a superstep (\<^verbatim>\<open>pregel/engine.go\<close>): which tasks the
  next step consists of, in both trigger modes, and which of them are interrupted.

  A function value that a caller supplies for formatting by \<^verbatim>\<open>%v\<close> is the argument \<open>fv\<close>; \<open>ids\<close> gives
  the fresh identifiers of the tasks, \<open>ctx\<close> the call context of the step.
\<close>

section \<open>The engine\<close>

record deferred_checkpoint =
  dc_ThreadID :: string
  dc_CheckpointID :: string
  dc_Step :: int
  dc_Checkpoint :: "goval gomap"

record engine =
  en_graph :: state_graph
  en_interrupts :: "bool gomap"
  en_interruptsAfter :: "bool gomap"
  en_recursionLimit :: int
  en_debug :: bool
  en_config :: "runnable_config option"
  en_maxConcurrency :: int
  en_retryPolicy :: "retry_policy option"
  en_currentCheckpoint :: "checkpoint option"
  en_channelVersions :: "int gomap"
  en_versionsSeen :: "int gomap gomap"
  en_deferredCheckpoints :: "deferred_checkpoint list"

type_synonym engine_option = "engine \<Rightarrow> engine"

definition NewEngine :: "state_graph \<Rightarrow> engine_option list \<Rightarrow> engine" where
  "NewEngine g opts =
     fold (\<lambda>opt eng. opt eng) opts
       \<lparr>en_graph = g, en_interrupts = [], en_interruptsAfter = [], en_recursionLimit = 25, en_debug = False,
        en_config = Some NewRunnableConfig, en_maxConcurrency = 10, en_retryPolicy = None,
        en_currentCheckpoint = None, en_channelVersions = [], en_versionsSeen = [], en_deferredCheckpoints = []\<rparr>"

definition eo_WithInterrupts :: "string list \<Rightarrow> engine_option" where
  "eo_WithInterrupts ns e = e\<lparr>en_interrupts := fold (\<lambda>n. gm_put n True) ns (en_interrupts e)\<rparr>"

definition eo_WithInterruptsAfter :: "string list \<Rightarrow> engine_option" where
  "eo_WithInterruptsAfter ns e = e\<lparr>en_interruptsAfter := fold (\<lambda>n. gm_put n True) ns (en_interruptsAfter e)\<rparr>"

definition eo_WithRecursionLimit :: "int \<Rightarrow> engine_option" where
  "eo_WithRecursionLimit limit e = e\<lparr>en_recursionLimit := limit\<rparr>"

definition eo_WithDebug :: "bool \<Rightarrow> engine_option" where
  "eo_WithDebug b e = e\<lparr>en_debug := b\<rparr>"

definition eo_WithConfig :: "runnable_config option \<Rightarrow> engine_option" where
  "eo_WithConfig cfg e = e\<lparr>en_config := cfg\<rparr>"

definition eo_WithMaxConcurrency :: "int \<Rightarrow> engine_option" where
  "eo_WithMaxConcurrency mx e = (if mx > 0 then e\<lparr>en_maxConcurrency := mx\<rparr> else e)"

definition eo_WithRetryPolicy :: "retry_policy option \<Rightarrow> engine_option" where
  "eo_WithRetryPolicy policy e = e\<lparr>en_retryPolicy := policy\<rparr>"

text \<open>The engine that \<^verbatim>\<open>CompiledGraph.Invoke\<close> builds (\<^verbatim>\<open>init_pregel.go\<close>).\<close>

definition compiled_engine :: "compiled_graph \<Rightarrow> runnable_config option \<Rightarrow> engine" where
  "compiled_engine cg config =
     NewEngine (cg_graph cg)
       [eo_WithInterrupts (gm_keys (cg_interrupts cg)), eo_WithInterruptsAfter (gm_keys (cg_interruptsAfter cg)),
        eo_WithRecursionLimit (cg_recursionLimit cg), eo_WithDebug (cg_debug cg), eo_WithConfig config]"

section \<open>Tasks\<close>

record task =
  tk_ID :: string
  tk_Name :: string
  tk_Func :: "node_func option"
  tk_Channels :: "string list"
  tk_Path :: "string list"
  tk_Triggers :: "string list"
  tk_RetryPolicy :: "retry_policy option"

record task_result =
  tr_Name :: string
  tr_Output :: goval
  tr_Err :: "go_error option"

definition TaskPathStr :: "string list \<Rightarrow> string" where
  "TaskPathStr path = (if length path = 0 then [] else go_join ''/'' path)"

definition ParseTaskPath :: "string \<Rightarrow> string list" where
  "ParseTaskPath pathStr = (if pathStr = [] then [] else go_split (CHR ''/'') pathStr)"

definition path_component :: "(goval \<Rightarrow> string) \<Rightarrow> goval \<Rightarrow> string list" where
  "path_component fv c =
     (case c of GStr val \<Rightarrow> [val] | GInt val \<Rightarrow> [fmt_d (sint val)] | GStrs val \<Rightarrow> val | val \<Rightarrow> [fv val])"

definition BuildTaskPath :: "(goval \<Rightarrow> string) \<Rightarrow> goval list \<Rightarrow> string list" where
  "BuildTaskPath fv components = concat (map (path_component fv) components)"

definition getNode :: "engine \<Rightarrow> string \<Rightarrow> node option" where
  "getNode e name = map_of (sg_nodes (en_graph e)) name"

definition getEntryPoint :: "engine \<Rightarrow> string" where
  "getEntryPoint e = sg_entryPoint (en_graph e)"

definition getTriggers :: "node option \<Rightarrow> string list" where
  "getTriggers n = (case n of None \<Rightarrow> [] | Some n \<Rightarrow> nd_Triggers n)"

text \<open>The retry policy of the node is not copied into its task.\<close>

definition createTask :: "string \<Rightarrow> node \<Rightarrow> string list \<Rightarrow> string list \<Rightarrow> task" where
  "createTask uid n chans triggers =
     \<lparr>tk_ID = uid, tk_Name = nd_Name n, tk_Func = nd_Function n, tk_Channels = chans, tk_Path = [],
      tk_Triggers = triggers, tk_RetryPolicy = None\<rparr>"

definition createTaskInfo :: "string \<Rightarrow> node \<Rightarrow> string list \<Rightarrow> string list \<Rightarrow> task" where
  "createTaskInfo uid n chans triggers =
     \<lparr>tk_ID = uid, tk_Name = nd_Name n, tk_Func = None, tk_Channels = chans, tk_Path = [],
      tk_Triggers = triggers, tk_RetryPolicy = None\<rparr>"

section \<open>Successors of the last completed node\<close>

text \<open>
  The loops of \<^verbatim>\<open>getNextNodes\<close>. A loop that returns from the function gives \<open>Inl\<close> of the
  result, otherwise \<open>Inr\<close> of the nodes collected. A condition that fails gives a nil result,
  whose text is then the key.
\<close>

fun cond_edges_loop ::
  "(goval \<Rightarrow> string) \<Rightarrow> go_ctx \<Rightarrow> string \<Rightarrow> goval \<Rightarrow> conditional_edge list \<Rightarrow> bool gomap
   \<Rightarrow> bool gomap + bool gomap" where
  "cond_edges_loop fv ctx node state [] next = Inr next"
| "cond_edges_loop fv ctx node state (ce # ces) next =
     (if ce_From ce \<noteq> node then cond_edges_loop fv ctx node state ces next
      else let conditionResult = (case ce_Condition ce ctx state of Inr v \<Rightarrow> v | Inl err \<Rightarrow> GNil)
           in case map_of (ce_Mapping ce) (fv conditionResult) of
                None \<Rightarrow> cond_edges_loop fv ctx node state ces next
              | Some target \<Rightarrow>
                  if target = End then Inl next
                  else cond_edges_loop fv ctx node state ces (gm_put target True next))"

fun plain_edges_loop :: "string \<Rightarrow> edge list \<Rightarrow> bool gomap \<Rightarrow> bool gomap + bool gomap" where
  "plain_edges_loop node [] next = Inr next"
| "plain_edges_loop node (ed # eds) next =
     (if ed_From ed = node
      then if ed_To ed = End then Inl next else plain_edges_loop node eds (gm_put (ed_To ed) True next)
      else plain_edges_loop node eds next)"

definition resume_next :: "engine \<Rightarrow> goval \<Rightarrow> bool gomap \<Rightarrow> bool gomap" where
  "resume_next e state next =
     (if length next = 0
      then (case as_map state of
              None \<Rightarrow> next
            | Some st \<Rightarrow>
                (case gm_val st ''_next'' of
                   GStr tv \<Rightarrow> if getNode e tv \<noteq> None then gm_put tv True next else next
                 | GSlice (GStr str # rest) \<Rightarrow> if getNode e str \<noteq> None then gm_put str True next else next
                 | _ \<Rightarrow> next))
      else next)"

definition branch_targets :: "go_ctx \<Rightarrow> string \<Rightarrow> goval \<Rightarrow> branch \<Rightarrow> bool gomap \<Rightarrow> bool gomap" where
  "branch_targets ctx node state br next =
     (if br_From br = node
      then (case br_Condition br ctx state of
              Inl err \<Rightarrow> next
            | Inr v \<Rightarrow> fold (\<lambda>target nx. if target = End then nx else gm_put target True nx) (br_Then br v) next)
      else next)"

definition getNextNodes :: "(goval \<Rightarrow> string) \<Rightarrow> go_ctx \<Rightarrow> engine \<Rightarrow> string \<Rightarrow> goval \<Rightarrow> bool gomap" where
  "getNextNodes fv ctx e node state =
     (case cond_edges_loop fv ctx node state (sg_conditionalEdges (en_graph e)) [] of
        Inl next \<Rightarrow> next
      | Inr next \<Rightarrow>
          (let hasConditional = list_ex (\<lambda>ce. ce_From ce = node) (sg_conditionalEdges (en_graph e))
           in case (if \<not> hasConditional \<and> length next = 0
                    then plain_edges_loop node (sg_edges (en_graph e)) next else Inr next) of
                Inl next \<Rightarrow> next
              | Inr next \<Rightarrow>
                  fold (branch_targets ctx node state) (sg_branches (en_graph e)) (resume_next e state next)))"

section \<open>Planning a step\<close>

type_synonym plan = "task list \<times> string list"

definition make_task :: "bool \<Rightarrow> string \<Rightarrow> node \<Rightarrow> string list \<Rightarrow> task" where
  "make_task forExecution uid n chans =
     (if forExecution then createTask uid n chans [] else createTaskInfo uid n chans [])"

definition add_task :: "(nat \<Rightarrow> string) \<Rightarrow> bool \<Rightarrow> string list \<Rightarrow> node \<Rightarrow> plan \<Rightarrow> plan" where
  "add_task ids forExecution names n = (\<lambda>(tasks, triggered).
     let triggers = getTriggers (Some n);
         triggers = (if length triggers = 0 then names else triggers)
     in (tasks @ [make_task forExecution (ids (length tasks)) n triggers], fold List.insert triggers triggered))"

definition buildIncomingEdges :: "engine \<Rightarrow> string list gomap" where
  "buildIncomingEdges e =
     fold (\<lambda>ed adj. gm_put (ed_To ed) ((case map_of adj (ed_To ed) of None \<Rightarrow> [] | Some fs \<Rightarrow> fs) @ [ed_From ed]) adj)
       (sg_edges (en_graph e)) []"

definition all_done :: "bool gomap \<Rightarrow> string list \<Rightarrow> bool" where
  "all_done completedTasks predecessors =
     list_all (\<lambda>pred. pred = Start \<or> pred = End \<or> gm_bool completedTasks pred) predecessors"

definition prepareNextTasksDAG :: "(nat \<Rightarrow> string) \<Rightarrow> engine \<Rightarrow> bool gomap \<Rightarrow> bool \<Rightarrow> plan" where
  "prepareNextTasksDAG ids e completedTasks forExecution =
     (let incomingEdges = buildIncomingEdges e
      in fold (\<lambda>(k, node) plan.
           case getNode e (nd_Name node) of
             None \<Rightarrow> plan
           | Some n \<Rightarrow>
               if gm_bool completedTasks (nd_Name node) then plan
               else if \<not> all_done completedTasks
                      (case map_of incomingEdges (nd_Name node) of None \<Rightarrow> [] | Some ps \<Rightarrow> ps) then plan
               else add_task ids forExecution (gm_keys (sg_channels (en_graph e))) n plan)
         (sg_nodes (en_graph e)) ([], []))"

definition prepareNextTasksWithMode ::
  "(goval \<Rightarrow> string) \<Rightarrow> (nat \<Rightarrow> string) \<Rightarrow> go_ctx \<Rightarrow> engine \<Rightarrow> registry \<Rightarrow> bool gomap \<Rightarrow> string \<Rightarrow> goval \<Rightarrow> bool
   \<Rightarrow> plan go_result" where
  "prepareNextTasksWithMode fv ids ctx e r completedTasks lastCompletedNode currentState forExecution =
     (if length completedTasks = 0
      then let entryPoint = getEntryPoint e
           in if entryPoint = [] then Inl (Errorf ''no entry point set'')
              else if entryPoint = End then Inr ([], [])
              else (case getNode e entryPoint of
                      None \<Rightarrow> Inl (NodeNotFoundError entryPoint)
                    | Some n \<Rightarrow>
                        (let triggers = getTriggers (Some n);
                             triggers = (if length triggers = 0 then reg_Names r else triggers)
                         in Inr ([createTask (ids 0) n triggers []], [Start])))
      else if sg_NodeTriggerMode (en_graph e) = NodeTriggerAllPredecessor
      then Inr (prepareNextTasksDAG ids e completedTasks forExecution)
      else Inr (fold (\<lambda>(nodeName, b) plan.
             case getNode e nodeName of
               None \<Rightarrow> plan
             | Some n \<Rightarrow> add_task ids forExecution (reg_Names r) n plan)
           (getNextNodes fv ctx e lastCompletedNode currentState) ([], [])))"

definition prepareNextTasks ::
  "(goval \<Rightarrow> string) \<Rightarrow> (nat \<Rightarrow> string) \<Rightarrow> go_ctx \<Rightarrow> engine \<Rightarrow> registry \<Rightarrow> bool gomap \<Rightarrow> string \<Rightarrow> goval
   \<Rightarrow> plan go_result" where
  "prepareNextTasks fv ids ctx e r completedTasks lastCompletedNode currentState =
     prepareNextTasksWithMode fv ids ctx e r completedTasks lastCompletedNode currentState True"

definition PrepareNextTasksForInspection ::
  "(goval \<Rightarrow> string) \<Rightarrow> (nat \<Rightarrow> string) \<Rightarrow> go_ctx \<Rightarrow> engine \<Rightarrow> registry \<Rightarrow> bool gomap \<Rightarrow> string \<Rightarrow> goval
   \<Rightarrow> plan go_result" where
  "PrepareNextTasksForInspection fv ids ctx e r completedTasks lastCompletedNode currentState =
     prepareNextTasksWithMode fv ids ctx e r completedTasks lastCompletedNode currentState False"

section \<open>Interrupts\<close>

definition shouldInterrupt :: "engine \<Rightarrow> task list \<Rightarrow> task list" where
  "shouldInterrupt e tasks =
     (if length (en_interrupts e) = 0 then []
      else let interruptAll = gm_bool (en_interrupts e) All
           in filter (\<lambda>t. interruptAll \<or> gm_bool (en_interrupts e) (tk_Name t)) tasks)"

definition shouldInterruptAfter :: "engine \<Rightarrow> task_result list \<Rightarrow> bool" where
  "shouldInterruptAfter e results =
     (if length (en_interruptsAfter e) = 0 then False
      else let interruptAll = gm_bool (en_interruptsAfter e) All
           in list_ex (\<lambda>r. tr_Err r = None \<and> (interruptAll \<or> gm_bool (en_interruptsAfter e) (tr_Name r))) results)"

section \<open>Facts about planning\<close>

lemma add_task_names: "map tk_Name (fst (add_task ids b names n plan)) = map tk_Name (fst plan) @ [nd_Name n]"
  by (simp add: add_task_def make_task_def createTask_def createTaskInfo_def Let_def split: prod.split)

lemma buildIncomingEdges_spec:
  "(case map_of (buildIncomingEdges e) n of None \<Rightarrow> [] | Some ps \<Rightarrow> ps)
     = map ed_From (filter (\<lambda>ed. ed_To ed = n) (sg_edges (en_graph e)))"
proof -
  have "(case map_of (fold (\<lambda>ed adj. gm_put (ed_To ed)
        ((case map_of adj (ed_To ed) of None \<Rightarrow> [] | Some fs \<Rightarrow> fs) @ [ed_From ed]) adj) eds adj) n of
        None \<Rightarrow> [] | Some ps \<Rightarrow> ps)
     = (case map_of adj n of None \<Rightarrow> [] | Some ps \<Rightarrow> ps) @ map ed_From (filter (\<lambda>ed. ed_To ed = n) eds)" for eds adj
    by (induction eds arbitrary: adj) (auto simp: gomap_simps)
  from this [of "sg_edges (en_graph e)" "[]"] show ?thesis by (simp add: buildIncomingEdges_def)
qed

definition ready :: "engine \<Rightarrow> bool gomap \<Rightarrow> string \<Rightarrow> bool" where
  "ready e completedTasks n \<longleftrightarrow>
     \<not> gm_bool completedTasks n
     \<and> (\<forall>ed \<in> set (sg_edges (en_graph e)). ed_To ed = n \<longrightarrow>
          ed_From ed \<in> {Start, End} \<or> gm_bool completedTasks (ed_From ed))"

lemma DAG_task_names:
  assumes "graph_ok (en_graph e)"
  shows "map tk_Name (fst (prepareNextTasksDAG ids e completedTasks b))
    = filter (ready e completedTasks) (gm_keys (sg_nodes (en_graph e)))"
proof -
  define step where "step = (\<lambda>(k :: string, node :: node) plan.
       case getNode e (nd_Name node) of
         None \<Rightarrow> plan
       | Some n \<Rightarrow>
           if gm_bool completedTasks (nd_Name node) then plan
           else if \<not> all_done completedTasks
                  (case map_of (buildIncomingEdges e) (nd_Name node) of None \<Rightarrow> [] | Some ps \<Rightarrow> ps) then plan
           else add_task ids b (gm_keys (sg_channels (en_graph e))) n plan)"
  have one: "map tk_Name (fst (step (k, n) plan)) = map tk_Name (fst plan) @ (if ready e completedTasks k then [k] else [])"
    if "(k, n) \<in> set (sg_nodes (en_graph e))" for k n plan
  proof -
    have name: "nd_Name n = k" and get: "getNode e k = Some n"
      using assms that by (auto simp: graph_ok_def getNode_def)
    have "ready e completedTasks k \<longleftrightarrow> \<not> gm_bool completedTasks k
        \<and> all_done completedTasks (case map_of (buildIncomingEdges e) k of None \<Rightarrow> [] | Some ps \<Rightarrow> ps)"
      unfolding buildIncomingEdges_spec by (auto simp: ready_def all_done_def list_all_iff)
    then show ?thesis
      by (auto simp: step_def name get add_task_names)
  qed
  have "map tk_Name (fst (fold step kns plan)) = map tk_Name (fst plan) @ filter (ready e completedTasks) (gm_keys kns)"
    if "set kns \<subseteq> set (sg_nodes (en_graph e))" for kns plan
    using that
  proof (induction kns arbitrary: plan)
    case (Cons kn kns)
    then show ?case using one [of "fst kn" "snd kn"] by simp
  qed simp
  from this [of "sg_nodes (en_graph e)" "([], [])"] show ?thesis
    unfolding prepareNextTasksDAG_def Let_def step_def [symmetric] by simp
qed

text \<open>
  C16: planning in the all-predecessors mode, of a well-formed graph. As long as no task has completed, the plan is
  the entry point alone, an error without one. In every later step the tasks are exactly the nodes, each
  once and in the order of the node map, that have not completed and all of whose predecessors along plain edges have.
  Conditional edges and branches do not count as predecessors and are not asked.
\<close>

theorem prepareNextTasksDAG_ready:
  assumes "graph_ok (en_graph e)" and "sg_NodeTriggerMode (en_graph e) = NodeTriggerAllPredecessor"
  shows "map_sum (\<lambda>err. err) (\<lambda>plan. map tk_Name (fst plan))
      (prepareNextTasksWithMode fv ids ctx e r completedTasks lastNode state b) =
    (if completedTasks \<noteq> [] then Inr (filter (ready e completedTasks) (gm_keys (sg_nodes (en_graph e))))
     else if getEntryPoint e = [] then Inl (Errorf ''no entry point set'')
     else if getEntryPoint e = End then Inr []
     else if getEntryPoint e \<in> gm_dom (sg_nodes (en_graph e)) then Inr [getEntryPoint e]
     else Inl (NodeNotFoundError (getEntryPoint e)))"
proof (cases "completedTasks = []")
  case False
  then show ?thesis using assms(2) by (simp add: prepareNextTasksWithMode_def DAG_task_names [OF assms(1)])
next
  case True
  have "nd_Name n = getEntryPoint e" if "getNode e (getEntryPoint e) = Some n" for n
    using assms(1) that by (auto simp: graph_ok_def getNode_def dest: map_of_SomeD)
  moreover have "getNode e (getEntryPoint e) = None \<longleftrightarrow> getEntryPoint e \<notin> gm_dom (sg_nodes (en_graph e))"
    by (simp add: getNode_def map_of_eq_None_iff)
  ultimately show ?thesis using True
    by (auto simp: prepareNextTasksWithMode_def createTask_def Let_def split: option.split)
qed

theorem prepareNextTasksDAG_ready_witness:
  "let g = SetNodeTriggerMode NodeTriggerAllPredecessor (snd (AddEdge ''b'' ''d'' (snd (AddEdge ''a'' ''d''
             (AddNode ''d'' None (AddNode ''b'' None (AddNode ''a'' None (NewStateGraph (SchemaMap K_String)))))))));
       e = NewEngine g [];
       plan = (\<lambda>done. map_sum (\<lambda>err. err) (\<lambda>plan. map tk_Name (fst plan))
                 (prepareNextTasksWithMode (\<lambda>v. []) (\<lambda>i. []) [] e NewRegistry done [] GNil True))
   in plan [(''a'', True)] = Inr [''b''] \<and> plan [(''a'', True), (''b'', True)] = Inr [''d'']"
proof -
  define g where "g = SetNodeTriggerMode NodeTriggerAllPredecessor (snd (AddEdge ''b'' ''d'' (snd (AddEdge ''a'' ''d''
             (AddNode ''d'' None (AddNode ''b'' None (AddNode ''a'' None (NewStateGraph (SchemaMap K_String)))))))))"
  define e where "e = NewEngine g []"
  have g: "sg_nodes g = [(''a'', NewNode ''a'' None), (''b'', NewNode ''b'' None), (''d'', NewNode ''d'' None)]"
    "sg_edges g = [\<lparr>ed_From = ''a'', ed_To = ''d''\<rparr>, \<lparr>ed_From = ''b'', ed_To = ''d''\<rparr>]"
    "sg_NodeTriggerMode g = NodeTriggerAllPredecessor"
    by (simp_all add: g_def SetNodeTriggerMode_def AddEdge_def AddNode_def NewStateGraph_def Start_def End_def)
  have eg: "en_graph e = g" by (simp add: e_def NewEngine_def)
  have "graph_ok (en_graph e)"
    unfolding eg by (simp add: graph_ok_def topology_in_def g)
      (simp add: g_def SetNodeTriggerMode_def AddEdge_def AddNode_def NewStateGraph_def Start_def End_def NewNode_def)
  note ready = prepareNextTasksDAG_ready [OF this, unfolded eg, OF g(3)]
  show ?thesis
    unfolding Let_def g_def [symmetric] e_def [symmetric] ready
    by (simp add: eg g ready_def gm_bool_def Start_def End_def)
qed

text \<open>
  A node that is reached by conditional edges only is planned in the second step, whatever the
  condition says and whether or not its source has run: also the branch that the condition does not choose.
\<close>

theorem conditional_target_always_planned:
  assumes "graph_ok (en_graph e)" and "n \<in> gm_dom (sg_nodes (en_graph e))" and "\<not> gm_bool completedTasks n"
    and "\<forall>ed \<in> set (sg_edges (en_graph e)). ed_To ed \<noteq> n"
  shows "n \<in> set (map tk_Name (fst (prepareNextTasksDAG ids e completedTasks b)))"
  using assms by (auto simp: DAG_task_names [OF assms(1)] ready_def)

theorem both_branches_planned:
  "let g0 = AddNode ''branch_b'' None (AddNode ''branch_a'' None (AddNode ''prep'' None (NewStateGraph (SchemaMap K_String))));
       g = snd (AddConditionalEdges ''prep'' (\<lambda>ctx v. Inr (GStr ''branch_a''))
                  [(''branch_a'', ''branch_a''), (''branch_b'', ''branch_b'')] g0)
   in fst (AddConditionalEdges ''prep'' (\<lambda>ctx v. Inr (GStr ''branch_a''))
             [(''branch_a'', ''branch_a''), (''branch_b'', ''branch_b'')] g0) = None
      \<and> map tk_Name (fst (prepareNextTasksDAG (\<lambda>i. []) (NewEngine g []) [(''prep'', True)] True)) = [''branch_a'', ''branch_b'']"
  by (simp add: prepareNextTasksDAG_def buildIncomingEdges_def AddConditionalEdges_def AddNode_def NewStateGraph_def
      NewEngine_def NewNode_def getNode_def gm_bool_def all_done_def add_task_def make_task_def createTask_def
      missing_target_def Let_def)

subsection \<open>Successors\<close>

lemma plain_edges_loop_spec:
  "plain_edges_loop n eds nx =
     (let outs = filter (\<lambda>ed. ed_From ed = n) eds;
          taken = takeWhile (\<lambda>ed. ed_To ed \<noteq> End) outs;
          res = fold (\<lambda>ed. gm_put (ed_To ed) True) taken nx
      in if taken = outs then Inr res else Inl res)"
  by (induction eds arbitrary: nx) (auto simp: Let_def)

lemma gm_dom_fold_put: "gm_dom (fold (\<lambda>x. gm_put (f x) v) xs m) = gm_dom m \<union> f ` set xs"
  by (induction xs arbitrary: m) (auto simp: gomap_simps)

lemma cond_edges_loop_none:
  "\<not> list_ex (\<lambda>ce. ce_From ce = n) ces \<Longrightarrow> cond_edges_loop fv ctx n state ces nx = Inr nx"
  by (induction ces) auto

text \<open>
  An edge to the end cuts a node's other edges off. For a node without conditional edges that has a
  plain edge to the end, the next nodes are the targets of the edges that were added before that
  edge; edges added after it, the \<^verbatim>\<open>_next\<close> value of the state and all branches are ignored. Without
  such an edge all targets are scheduled, together with those of the branches.
\<close>

theorem getNextNodes_plain:
  assumes "\<not> list_ex (\<lambda>ce. ce_From ce = n) (sg_conditionalEdges (en_graph e))"
    and "outs = filter (\<lambda>ed. ed_From ed = n) (sg_edges (en_graph e))"
  shows "(End \<in> ed_To ` set outs \<longrightarrow>
       gm_dom (getNextNodes fv ctx e n state) = ed_To ` set (takeWhile (\<lambda>ed. ed_To ed \<noteq> End) outs))
    \<and> (End \<notin> ed_To ` set outs \<and> outs \<noteq> [] \<longrightarrow>
       gm_dom (getNextNodes fv ctx e n state) = ed_To ` set outs \<union>
         (\<Union>br \<in> {br \<in> set (sg_branches (en_graph e)). br_From br = n}.
            case br_Condition br ctx state of Inl err \<Rightarrow> {} | Inr v \<Rightarrow> set (br_Then br v) - {End}))"
proof -
  have cond: "cond_edges_loop fv ctx n state (sg_conditionalEdges (en_graph e)) [] = Inr []"
    by (rule cond_edges_loop_none) (rule assms(1))
  define nx where "nx = fold (\<lambda>ed. gm_put (ed_To ed) True) (takeWhile (\<lambda>ed. ed_To ed \<noteq> End) outs) []"
  have dom: "gm_dom nx = ed_To ` set (takeWhile (\<lambda>ed. ed_To ed \<noteq> End) outs)"
    by (simp add: nx_def gm_dom_fold_put)
  have loop: "plain_edges_loop n (sg_edges (en_graph e)) [] = (if End \<in> ed_To ` set outs then Inl nx else Inr nx)"
    by (auto simp: plain_edges_loop_spec Let_def nx_def takeWhile_eq_all_conv intro: rev_image_eqI simp flip: assms(2))
  have branch: "gm_dom (branch_targets ctx n state br m) = gm_dom m \<union>
      (if br_From br = n then case br_Condition br ctx state of Inl err \<Rightarrow> {} | Inr v \<Rightarrow> set (br_Then br v) - {End} else {})"
    for br m
  proof -
    have "gm_dom (fold (\<lambda>target nx. if target = End then nx else gm_put target True nx) ts m) = gm_dom m \<union> (set ts - {End})"
      for ts m by (induction ts arbitrary: m) (auto simp: gomap_simps)
    then show ?thesis by (auto simp: branch_targets_def split: sum.split)
  qed
  have branches: "gm_dom (fold (branch_targets ctx n state) brs m) = gm_dom m \<union>
      (\<Union>br \<in> {br \<in> set brs. br_From br = n}.
         case br_Condition br ctx state of Inl err \<Rightarrow> {} | Inr v \<Rightarrow> set (br_Then br v) - {End})" for brs m
    by (induction brs arbitrary: m) (auto simp: branch split: sum.splits)
  show ?thesis
  proof (intro conjI impI)
    assume "End \<in> ed_To ` set outs"
    then show "gm_dom (getNextNodes fv ctx e n state) = ed_To ` set (takeWhile (\<lambda>ed. ed_To ed \<noteq> End) outs)"
      using assms(1) by (simp add: getNextNodes_def cond loop dom)
  next
    assume noend: "End \<notin> ed_To ` set outs \<and> outs \<noteq> []"
    then have all: "takeWhile (\<lambda>ed. ed_To ed \<noteq> End) outs = outs"
      by (auto simp: takeWhile_eq_all_conv intro: rev_image_eqI)
    have "gm_dom nx \<noteq> {}" unfolding dom all using noend by simp
    then have "nx \<noteq> []" by auto
    then have "resume_next e state nx = nx" by (simp add: resume_next_def)
    with noend assms(1) show "gm_dom (getNextNodes fv ctx e n state) = ed_To ` set outs \<union>
         (\<Union>br \<in> {br \<in> set (sg_branches (en_graph e)). br_From br = n}.
            case br_Condition br ctx state of Inl err \<Rightarrow> {} | Inr v \<Rightarrow> set (br_Then br v) - {End})"
      by (simp add: getNextNodes_def cond loop branches dom all)
  qed
qed

theorem getNextNodes_plain_witness:
  "let g = (NewStateGraph (SchemaMap K_String))\<lparr>sg_edges := [\<lparr>ed_From = ''a'', ed_To = ''b''\<rparr>,
             \<lparr>ed_From = ''a'', ed_To = End\<rparr>, \<lparr>ed_From = ''a'', ed_To = ''c''\<rparr>]\<rparr>
   in gm_dom (getNextNodes (\<lambda>v. []) [] (NewEngine g []) ''a'' GNil) = {''b''}"
proof -
  define e where "e = NewEngine ((NewStateGraph (SchemaMap K_String))\<lparr>sg_edges := [\<lparr>ed_From = ''a'', ed_To = ''b''\<rparr>,
             \<lparr>ed_From = ''a'', ed_To = End\<rparr>, \<lparr>ed_From = ''a'', ed_To = ''c''\<rparr>]\<rparr>) []"
  have g: "sg_edges (en_graph e) = [\<lparr>ed_From = ''a'', ed_To = ''b''\<rparr>,
             \<lparr>ed_From = ''a'', ed_To = End\<rparr>, \<lparr>ed_From = ''a'', ed_To = ''c''\<rparr>]"
    "sg_conditionalEdges (en_graph e) = []"
    by (simp_all add: e_def NewEngine_def NewStateGraph_def)
  show ?thesis
    unfolding Let_def e_def [symmetric]
    using getNextNodes_plain [of "''a''" e _ "\<lambda>v. []" "[]" GNil] by (simp add: g End_def)
qed

text \<open>
  The text of a task path can be read back. A path whose components contain no
  slash is recovered from its text, unless it is the single empty component, and every text parses to
  a path that prints as that text.
\<close>

theorem task_path_roundtrip:
  assumes "\<forall>s \<in> set path. CHR ''/'' \<notin> set s" and "path \<noteq> [[]]"
  shows "ParseTaskPath (TaskPathStr path) = path \<and> TaskPathStr (ParseTaskPath str) = str"
proof
  show "ParseTaskPath (TaskPathStr path) = path"
  proof (cases path)
    case (Cons p ps)
    have "go_join ''/'' path \<noteq> []" using assms(2) Cons by (cases ps) auto
    moreover have "go_split (CHR ''/'') (go_join ''/'' path) = path"
      using Cons assms(1) by (intro go_split_join) auto
    ultimately show ?thesis using Cons by (simp add: ParseTaskPath_def TaskPathStr_def)
  qed (simp add: ParseTaskPath_def TaskPathStr_def)
  show "TaskPathStr (ParseTaskPath str) = str"
    by (simp add: ParseTaskPath_def TaskPathStr_def go_join_split)
qed

theorem task_path_roundtrip_witness:
  "ParseTaskPath (TaskPathStr [''a'', ''b'', []]) = [''a'', ''b'', []]"
  using task_path_roundtrip [of "[''a'', ''b'', []]"] by simp

end
