(* ===== verification/Pregel_Writes.thy ===== *)
theory Pregel_Writes
  imports Pregel_Tasks "HOL-Library.Multiset"
begin

text \<open>
  The data half of a superstep (\<^verbatim>\<open>pregel/engine.go\<close>): turning inputs and outputs into channel
  writes, field mappings, applying the writes of a step with their versions, reading a task's
  input, merging states, and the encoding of the completed tasks. A run-time panic is the error
  \<open>GoPanic\<close>.
\<close>

section \<open>Maps from values\<close>

text \<open>
  The key of a typed map is a string already. A pointer to a struct or map is followed once, any
  other value is stored whole under \<^verbatim>\<open>__root__\<close>.
\<close>

fun reflect_map :: "goval \<Rightarrow> goval gomap option" where
  "reflect_map (GMap m) = Some m"
| "reflect_map (GMapBool m) = Some (map (\<lambda>(k, b). (k, GBool b)) m)"
| "reflect_map (GMapInt m) = Some (map (\<lambda>(k, i). (k, GInt (of_int i))) m)"
| "reflect_map (GMapMapInt m) = Some (map (\<lambda>(k, vs). (k, GMapInt vs)) m)"
| "reflect_map (GStruct n z fs) = Some fs"
| "reflect_map (GOverwriter n v) = Some []"
| "reflect_map _ = None"

definition toMap :: "goval \<Rightarrow> goval gomap go_result" where
  "toMap val =
     (case val of
        GNil \<Rightarrow> Inl (Errorf ''nil value'')
      | GMissing \<Rightarrow> Inr []
      | GType k \<Rightarrow> Inr []
      | GOverwrite v \<Rightarrow> Inr [(''Value'', v)]
      | GPtr v \<Rightarrow> Inr (case reflect_map v of Some m \<Rightarrow> m | None \<Rightarrow> [(''__root__'', val)])
      | _ \<Rightarrow> Inr (case reflect_map val of Some m \<Rightarrow> m | None \<Rightarrow> [(''__root__'', val)]))"

section \<open>Input\<close>

definition caseFoldKey :: "registry \<Rightarrow> string \<Rightarrow> string" where
  "caseFoldKey r key =
     (case key of
        [] \<Rightarrow> []
      | c # cs \<Rightarrow>
          (let up = char_of (of_char c - 32 :: nat) # cs; low = char_of (of_char c + 32 :: nat) # cs
           in if CHR ''a'' \<le> c \<and> c \<le> CHR ''z'' \<and> reg_Get r up \<noteq> None then up
              else if CHR ''A'' \<le> c \<and> c \<le> CHR ''Z'' \<and> reg_Get r low \<noteq> None then low
              else []))"

text \<open>
  The first loop changes the input map while it ranges over it. An entry it adds is registered, so
  whether the loop meets it makes no difference.
\<close>

fun input_loop :: "goval gomap \<Rightarrow> registry \<Rightarrow> goval gomap \<Rightarrow> registry \<times> goval gomap" where
  "input_loop [] r inputMap = (r, inputMap)"
| "input_loop ((key, value) # kvs) r inputMap =
     (if reg_Get r key \<noteq> None then input_loop kvs r inputMap
      else let guessed = caseFoldKey r key
           in if guessed \<noteq> [] then input_loop kvs r (gm_put guessed value (gm_del key inputMap))
              else input_loop kvs (Register key (LastValue (NewLastValue value)) r) inputMap)"

text \<open>
  The result is the error, the registry and the input. The map that the caller passed is
  changed in place; a struct is converted to a new map and keeps its value.
\<close>

definition applyInput :: "goval \<Rightarrow> registry \<Rightarrow> go_error option \<times> registry \<times> goval" where
  "applyInput input r =
     (case toMap input of
        Inl err \<Rightarrow> (Some err, r, input)
      | Inr inputMap \<Rightarrow>
          (let (r, inputMap) = input_loop inputMap r inputMap;
               input = (case input of GMap m \<Rightarrow> GMap inputMap | _ \<Rightarrow> input);
               writes = map (\<lambda>(key, value). (key, [value])) inputMap
           in if length writes > 0
              then (let (err, r) = UpdateChannels writes r in (err, r, input))
              else (None, r, input)))"

section \<open>Field mappings\<close>

definition getNestedField :: "goval gomap \<Rightarrow> string \<Rightarrow> goval" where
  "getNestedField m path =
     (if path = [] then GMap m
      else fold (\<lambda>part cur. case as_map cur of None \<Rightarrow> GNil | Some cm \<Rightarrow> gm_val cm part)
             (go_split (CHR ''.'') path) (GMap m))"

fun set_path :: "string list \<Rightarrow> goval \<Rightarrow> goval gomap \<Rightarrow> goval gomap go_result" where
  "set_path [] val m = Inr m"
| "set_path [p] val m = Inr (gm_put p val m)"
| "set_path (p # q # ps) val m =
     (case (case map_of m p of None \<Rightarrow> Some [] | Some sub \<Rightarrow> as_map sub) of
        None \<Rightarrow> Inl (GoPanic ''assignment to entry in nil map'')
      | Some sub \<Rightarrow>
          (case set_path (q # ps) val sub of
             Inl err \<Rightarrow> Inl err
           | Inr sub' \<Rightarrow> Inr (gm_put p (GMap sub') m)))"

definition setNestedField :: "string \<Rightarrow> goval \<Rightarrow> goval gomap \<Rightarrow> goval gomap go_result" where
  "setNestedField path val m =
     (if path = []
      then (case as_map val of
              None \<Rightarrow> Inl (GoPanic ''interface conversion'')
            | Some vm \<Rightarrow> Inr (gm_merge m vm))
      else set_path (go_split (CHR ''.'') path) val m)"

fun mapping_loop :: "goval gomap \<Rightarrow> field_mapping list \<Rightarrow> goval gomap \<Rightarrow> goval gomap go_result" where
  "mapping_loop output [] result = Inr result"
| "mapping_loop output (fm # fms) result =
     (let val = getNestedField output (fm_From fm)
      in if val = GNil then mapping_loop output fms result
         else case setNestedField (fm_To fm) val result of
                Inl err \<Rightarrow> Inl err
              | Inr result' \<Rightarrow> mapping_loop output fms result')"

definition applyFieldMapping :: "goval gomap \<Rightarrow> field_mapping list \<Rightarrow> goval gomap go_result" where
  "applyFieldMapping output mappings =
     (if length mappings = 0 then Inr output else mapping_loop output mappings [])"

section \<open>Writes\<close>

text \<open>The writes of a step, grouped by channel, with the last pending write of each channel.\<close>

type_synonym step_writes = "goval list gomap \<times> pending_write gomap"

definition unwrap_overwrite :: "goval \<Rightarrow> goval \<times> bool" where
  "unwrap_overwrite v = (case v of GOverwrite w \<Rightarrow> (w, True) | _ \<Rightarrow> (v, False))"

definition add_write :: "string \<Rightarrow> string \<times> goval \<Rightarrow> step_writes \<Rightarrow> step_writes" where
  "add_write node = (\<lambda>(key, value) (writes, pending).
     if value = GNil then (writes, pending)
     else let (value, overwrite) = unwrap_overwrite value
          in (gm_put key ((case map_of writes key of None \<Rightarrow> [] | Some vs \<Rightarrow> vs) @ [value]) writes,
              gm_put key \<lparr>pw_Channel = key, pw_Value = value, pw_Overwrite = overwrite, pw_Node = node,
                          pw_Timestamp = 0, pw_TaskID = []\<rparr> pending))"

definition output_map :: "engine \<Rightarrow> task_result \<Rightarrow> goval gomap go_result" where
  "output_map e result =
     (case toMap (tr_Output result) of
        Inl err \<Rightarrow> Inl (WrapErr ''failed to convert output to map: '' err)
      | Inr m \<Rightarrow>
          (case getNode e (tr_Name result) of
             None \<Rightarrow> Inr m
           | Some n \<Rightarrow> if length (nd_FieldMapping n) > 0 then applyFieldMapping m (nd_FieldMapping n) else Inr m))"

fun collect_writes :: "engine \<Rightarrow> task_result list \<Rightarrow> step_writes \<Rightarrow> step_writes go_result" where
  "collect_writes e [] acc = Inr acc"
| "collect_writes e (result # results) acc =
     (if tr_Err result \<noteq> None \<or> tr_Output result = GNil then collect_writes e results acc
      else case output_map e result of
             Inl err \<Rightarrow> Inl err
           | Inr m \<Rightarrow> collect_writes e results (fold (add_write (tr_Name result)) m acc))"

text \<open>
  What a channel is given: nil values are dropped, and unless it is an aggregate or a reducer
  channel only the last of several values remains.
\<close>

definition effective_values :: "channel \<Rightarrow> goval list \<Rightarrow> goval list" where
  "effective_values ch values =
     (let filtered = filter (\<lambda>v. v \<noteq> GNil) values
      in if length filtered > 1
           \<and> (case ch of BinaryOperatorAggregate c \<Rightarrow> False | ReducerChannel c f \<Rightarrow> False | _ \<Rightarrow> True)
         then [last filtered] else filtered)"

definition bump_version :: "string \<Rightarrow> engine \<Rightarrow> engine" where
  "bump_version n e =
     e\<lparr>en_channelVersions := gm_put n (gm_int (en_channelVersions e) n + 1) (en_channelVersions e),
       en_currentCheckpoint := map_option (IncrementChannel n) (en_currentCheckpoint e)\<rparr>"

text \<open>The channel a name stands for, created on first use.\<close>

definition channel_for :: "registry \<Rightarrow> string \<Rightarrow> channel" where
  "channel_for r n = (case reg_Get r n of Some ch \<Rightarrow> ch | None \<Rightarrow> LastValue (NewLastValue GNil))"

fun update_loop ::
  "goval list gomap \<Rightarrow> engine \<Rightarrow> registry \<Rightarrow> string list \<Rightarrow> string list go_result \<times> engine \<times> registry" where
  "update_loop [] e r updated = (Inr updated, e, r)"
| "update_loop ((n, values) # ws) e r updated =
     (let ch = channel_for r n
      in case ch_Update ch (effective_values ch values) of
           (Inl err, ch') \<Rightarrow>
             (Inl (WrapErr (''failed to update channel '' @ n @ '': '') err), e, Register n ch' r)
         | (Inr changed, ch') \<Rightarrow>
             (if changed \<and> ch_IsAvailable ch'
              then let e' = bump_version n e;
                       ch'' = ch_SetVersion (gm_int (en_channelVersions e') n) ch'
                   in update_loop ws e' (Register n ch'' r) (List.insert n updated)
              else update_loop ws e (Register n ch' r) updated))"

definition markSeen :: "string \<Rightarrow> string \<Rightarrow> engine \<Rightarrow> engine" where
  "markSeen node chan e =
     e\<lparr>en_versionsSeen := gm_put node
          (gm_put chan (gm_int (en_channelVersions e) chan)
             (case map_of (en_versionsSeen e) node of None \<Rightarrow> [] | Some vs \<Rightarrow> vs)) (en_versionsSeen e),
       en_currentCheckpoint := map_option (cp_MarkSeen node chan) (en_currentCheckpoint e)\<rparr>"

definition hasSeen :: "string \<Rightarrow> string \<Rightarrow> engine \<Rightarrow> bool" where
  "hasSeen node chan e \<longleftrightarrow>
     (case map_of (en_versionsSeen e) node of
        None \<Rightarrow> False
      | Some versions \<Rightarrow>
          (case map_of versions chan of None \<Rightarrow> False | Some v \<Rightarrow> v = gm_int (en_channelVersions e) chan))"

definition store_pending :: "pending_write gomap \<Rightarrow> engine \<Rightarrow> engine" where
  "store_pending pending e =
     e\<lparr>en_currentCheckpoint := map_option
         (fold (\<lambda>(k, pw). AddPendingWrite (pw_Channel pw) (pw_Value pw) (pw_Overwrite pw) (pw_Node pw)) pending)
         (en_currentCheckpoint e)\<rparr>"

text \<open>The marks are set under the name of a written channel that is also a trigger.\<close>

definition mark_updates :: "string list \<Rightarrow> string list \<Rightarrow> goval list gomap \<Rightarrow> engine \<Rightarrow> engine" where
  "mark_updates triggered updated writes e =
     fold (\<lambda>(n, vs) e. if n \<in> set triggered then fold (markSeen n) updated e else e) writes e"

definition applyWrites ::
  "engine \<Rightarrow> registry \<Rightarrow> task_result list \<Rightarrow> string list \<Rightarrow> string list go_result \<times> engine \<times> registry" where
  "applyWrites e r results triggered =
     (case collect_writes e (sort_key tr_Name results) ([], []) of
        Inl err \<Rightarrow> (Inl err, e, r)
      | Inr (writes, pending) \<Rightarrow>
          (case update_loop writes e r [] of
             (Inl err, e', r') \<Rightarrow> (Inl err, e', r')
           | (Inr updated, e', r') \<Rightarrow>
               (Inr updated, mark_updates triggered updated writes (store_pending pending e'), r')))"

section \<open>Reading and merging\<close>

fun read_loop :: "string list \<Rightarrow> registry \<Rightarrow> goval gomap \<Rightarrow> goval go_result \<times> registry" where
  "read_loop [] r values = (Inr (GMap values), r)"
| "read_loop (n # ns) r values =
     (case reg_Get r n of
        None \<Rightarrow> read_loop ns r values
      | Some ch \<Rightarrow>
          (let r' = Register n (snd (ch_Get ch)) r
           in case fst (ch_Get ch) of
                Inl err \<Rightarrow> if IsEmptyChannelError err then read_loop ns r' values else (Inl err, r')
              | Inr v \<Rightarrow> read_loop ns r' (gm_put n v values)))"

definition readTaskInput :: "registry \<Rightarrow> task \<Rightarrow> goval go_result \<times> registry" where
  "readTaskInput r t = (if length (tk_Channels t) = 0 then (Inr (GMap []), r) else read_loop (tk_Channels t) r [])"

definition mergeStates :: "goval \<Rightarrow> goval \<Rightarrow> goval" where
  "mergeStates existing nxt =
     (if existing = GNil then nxt
      else if nxt = GNil then existing
      else case (existing, nxt) of
             (GMap em, GMap nm) \<Rightarrow> GMap (gm_merge (gm_merge [] em) nm)
           | _ \<Rightarrow> nxt)"

definition buildOutput :: "registry \<Rightarrow> goval \<Rightarrow> goval \<times> registry" where
  "buildOutput r lastState =
     (case GetValues r of
        (Inl err, r') \<Rightarrow> (lastState, r')
      | (Inr values, r') \<Rightarrow> (if length values > 0 then GMap values else lastState, r'))"

text \<open>
  A struct schema turns the map that a task reads into a struct. \<open>conv\<close> is what reflection stores in a
  field of a kind, \<open>None\<close> when the value can neither be assigned nor converted; a nil value has
  no type and panics.
\<close>

fun schema_struct :: "schema \<Rightarrow> struct_field list option" where
  "schema_struct (SchemaPtr s) = schema_struct s"
| "schema_struct (SchemaStruct fs) = Some fs"
| "schema_struct _ = None"

definition field_zero :: "go_kind \<Rightarrow> goval" where
  "field_zero k =
     (case k of
        K_Slice \<Rightarrow> GSlice []
      | K_Array \<Rightarrow> GSlice []
      | K_Map \<Rightarrow> GMap []
      | K_Struct \<Rightarrow> GStruct ''struct'' [] []
      | K_Ptr \<Rightarrow> GNil
      | K_Interface \<Rightarrow> GNil
      | K_Func \<Rightarrow> GNil
      | _ \<Rightarrow> zero_of_kind k)"

fun fill_fields ::
  "(go_kind \<Rightarrow> goval \<Rightarrow> goval option) \<Rightarrow> struct_field list \<Rightarrow> goval gomap \<Rightarrow> goval gomap \<Rightarrow> goval gomap go_result" where
  "fill_fields conv [] inputMap acc = Inr acc"
| "fill_fields conv (f # fs) inputMap acc =
     (if \<not> sf_Exported f then fill_fields conv fs inputMap acc
      else case map_of inputMap (sf_Name f) of
             None \<Rightarrow> fill_fields conv fs inputMap (acc @ [(sf_Name f, field_zero (sf_Kind f))])
           | Some val \<Rightarrow>
               if val = GNil then Inl (GoPanic ''invalid memory address or nil pointer dereference'')
               else fill_fields conv fs inputMap
                      (acc @ [(sf_Name f, case conv (sf_Kind f) val of Some w \<Rightarrow> w | None \<Rightarrow> field_zero (sf_Kind f))]))"

definition mapToStateSchema ::
  "(go_kind \<Rightarrow> goval \<Rightarrow> goval option) \<Rightarrow> schema \<Rightarrow> goval \<Rightarrow> goval go_result" where
  "mapToStateSchema conv sch input =
     (case input of
        GMap inputMap \<Rightarrow>
          (case schema_struct sch of
             None \<Rightarrow> Inr input
           | Some fs \<Rightarrow>
               (case fill_fields conv fs inputMap [] of
                  Inl err \<Rightarrow> Inl err
                | Inr vals \<Rightarrow>
                    (let st = GStruct ''state''
                        (map (\<lambda>f. (sf_Name f, field_zero (sf_Kind f))) (filter sf_Exported fs)) vals
                     in Inr (case sch of SchemaPtr s \<Rightarrow> GPtr st | _ \<Rightarrow> st))))
      | _ \<Rightarrow> Inr input)"

section \<open>The encoding of completed tasks\<close>

definition serializeStringSet :: "bool gomap \<Rightarrow> string" where
  "serializeStringSet st = (if length st = 0 then [] else go_join [CHR 0x00] (sort (gm_keys st)))"

definition deserializeStringSet :: "string \<Rightarrow> bool gomap" where
  "deserializeStringSet encoded =
     (if encoded = [] then [] else fold (\<lambda>part. gm_put part True) (go_split (CHR 0x00) encoded) [])"

section \<open>Round trips\<close>

lemma gm_bool_fold_put_True: "gm_bool (fold (\<lambda>p. gm_put p True) ps m) n \<longleftrightarrow> gm_bool m n \<or> n \<in> set ps"
  by (induction ps arbitrary: m) auto

lemma string_set_roundtrip:
  assumes "\<forall>n \<in> gm_dom st. CHR 0x00 \<notin> set n" and "gm_dom st \<noteq> {[]}" and "gm_ok st"
  shows "gm_bool (deserializeStringSet (serializeStringSet st)) n \<longleftrightarrow> n \<in> gm_dom st"
proof (cases st)
  case (Cons kv st')
  define ks where "ks = sort (gm_keys st)"
  have "length ks = length st" "set ks = gm_dom st" by (simp_all add: ks_def)
  with Cons have ks: "set ks = gm_dom st" "ks \<noteq> []" by auto
  have "go_join [CHR 0x00] ks \<noteq> []"
  proof (cases ks)
    case (Cons k ks')
    show ?thesis
    proof (cases ks')
      case Nil
      then show ?thesis using ks(1) assms(2) Cons by auto
    next
      case (Cons k2 ks2)
      then show ?thesis using \<open>ks = k # ks'\<close> by simp
    qed
  qed (use ks in simp)
  moreover have "go_split (CHR 0x00) (go_join [CHR 0x00] ks) = ks"
    using ks assms(1) by (intro go_split_join) auto
  ultimately have "deserializeStringSet (serializeStringSet st) = fold (\<lambda>part. gm_put part True) ks []"
    using Cons by (simp add: deserializeStringSet_def serializeStringSet_def ks_def)
  then show ?thesis using ks(1) by (simp add: gm_bool_fold_put_True)
qed (simp add: deserializeStringSet_def serializeStringSet_def)

text \<open>
  The set of completed tasks survives its encoding. For a set of names without NUL bytes, other
  than the set that holds only the empty name, decoding the encoding gives the same set.
\<close>

theorem completed_tasks_roundtrip:
  assumes "\<forall>n \<in> gm_dom st. CHR 0x00 \<notin> set n" and "gm_dom st \<noteq> {[]}" and "gm_ok st"
  shows "gm_bool (deserializeStringSet (serializeStringSet st)) n \<longleftrightarrow> n \<in> gm_dom st"
  using assms by (rule string_set_roundtrip)

theorem completed_tasks_roundtrip_witness:
  "gm_bool (deserializeStringSet (serializeStringSet [(''b'', True), (''a'', True)])) ''a''
   \<and> \<not> gm_bool (deserializeStringSet (serializeStringSet [(''b'', True), (''a'', True)])) ''c''"
  using completed_tasks_roundtrip [of "[(''b'', True), (''a'', True)]" "''a''"]
    completed_tasks_roundtrip [of "[(''b'', True), (''a'', True)]" "''c''"] by simp

definition get_path :: "string list \<Rightarrow> goval \<Rightarrow> goval" where
  "get_path parts v = fold (\<lambda>part cur. case as_map cur of None \<Rightarrow> GNil | Some cm \<Rightarrow> gm_val cm part) parts v"

lemma get_set_path:
  "set_path parts val m = Inr m' \<Longrightarrow> parts \<noteq> [] \<Longrightarrow> get_path parts (GMap m') = val"
proof (induction parts val m arbitrary: m' rule: set_path.induct)
  case (3 p q ps val m)
  then obtain sub sub' where "(case map_of m p of None \<Rightarrow> Some [] | Some sub \<Rightarrow> as_map sub) = Some sub"
    and sub': "set_path (q # ps) val sub = Inr sub'" and m': "m' = gm_put p (GMap sub') m"
    by (auto split: option.splits sum.splits)
  then have "get_path (q # ps) (GMap sub') = val" using 3 by auto
  then show ?case by (simp add: get_path_def m')
qed (simp_all add: get_path_def)

lemma set_path_other:
  "set_path parts val m = Inr m' \<Longrightarrow> k \<noteq> hd parts \<Longrightarrow> map_of m' k = map_of m k"
  by (induction parts val m arbitrary: m' rule: set_path.induct)
    (auto simp: gomap_simps split: option.splits sum.splits)

text \<open>
  Writing a nested field. When \<^verbatim>\<open>setNestedField\<close> returns, reading the same dotted path gives the value
  written, and no other top-level field has changed. It panics when the first component holds a value
  that is not a map and more components follow.
\<close>

theorem nested_field_roundtrip:
  assumes "path \<noteq> []" and "parts = go_split (CHR ''.'') path"
  shows "(setNestedField path val m = Inr m' \<longrightarrow>
       getNestedField m' path = val \<and> (\<forall>k. k \<noteq> hd parts \<longrightarrow> map_of m' k = map_of m k))
    \<and> (length parts > 1 \<and> map_of m (hd parts) = Some v \<and> as_map v = None \<longrightarrow>
       setNestedField path val m = Inl (GoPanic ''assignment to entry in nil map''))"
proof -
  have parts: "parts \<noteq> []" by (simp add: assms(2))
  have set: "setNestedField path val m = set_path parts val m"
    using assms by (simp add: setNestedField_def)
  have get: "getNestedField m' path = get_path parts (GMap m')"
    using assms by (simp add: getNestedField_def get_path_def)
  have "set_path parts val m = Inl (GoPanic ''assignment to entry in nil map'')"
    if "length parts > 1" "map_of m (hd parts) = Some v" "as_map v = None"
  proof -
    from that(1) obtain p q ps where "parts = p # q # ps" by (cases parts; cases "tl parts") auto
    with that show ?thesis by simp
  qed
  then show ?thesis
    unfolding set get using parts by (auto intro: get_set_path set_path_other)
qed

theorem nested_field_roundtrip_witness:
  "\<exists>m'. setNestedField ''a.b'' (GInt 1) [(''c'', GNil)] = Inr m' \<and> getNestedField m' ''a.b'' = GInt 1
     \<and> map_of m' ''c'' = Some GNil
     \<and> setNestedField ''a.b'' (GInt 1) [(''a'', GInt 0)] = Inl (GoPanic ''assignment to entry in nil map'')"
proof -
  have set: "setNestedField ''a.b'' (GInt 1) [(''c'', GNil)] = Inr [(''c'', GNil), (''a'', GMap [(''b'', GInt 1)])]"
    by (simp add: setNestedField_def)
  show ?thesis
    using nested_field_roundtrip [of "''a.b''" _ "GInt 1" "[(''c'', GNil)]" "[(''c'', GNil), (''a'', GMap [(''b'', GInt 1)])]"]
      nested_field_roundtrip [of "''a.b''" _ "GInt 1" "[(''a'', GInt 0)]" _ "GInt 0"] set
    by (auto simp: as_map_def)
qed

section \<open>What a step writes\<close>

definition values_for :: "string \<Rightarrow> goval gomap \<Rightarrow> goval list" where
  "values_for n m = map (\<lambda>(k, v). fst (unwrap_overwrite v)) (filter (\<lambda>(k, v). k = n \<and> v \<noteq> GNil) m)"

text \<open>The values that the successful results of a step write to a channel, in the order of the results.\<close>

definition step_values :: "engine \<Rightarrow> task_result list \<Rightarrow> string \<Rightarrow> goval list" where
  "step_values e results n =
     concat (map (\<lambda>r. if tr_Err r \<noteq> None \<or> tr_Output r = GNil then []
                      else case output_map e r of Inl err \<Rightarrow> [] | Inr m \<Rightarrow> values_for n m) results)"

definition written_values :: "goval list gomap \<Rightarrow> string \<Rightarrow> goval list" where
  "written_values ws n = (case map_of ws n of None \<Rightarrow> [] | Some vs \<Rightarrow> vs)"

definition writes_ok :: "goval list gomap \<Rightarrow> bool" where
  "writes_ok ws \<longleftrightarrow> gm_ok ws \<and> (\<forall>(n, vs) \<in> set ws. vs \<noteq> [])"

lemma values_for_simps [simp]:
  "values_for n [] = []"
  "values_for n ((k, v) # m) = (if k = n \<and> v \<noteq> GNil then [fst (unwrap_overwrite v)] else []) @ values_for n m"
  by (simp_all add: values_for_def)

lemma add_write_values:
  "written_values (fst (add_write node (k, v) acc)) n = written_values (fst acc) n @ values_for n [(k, v)]"
  by (cases acc; cases "unwrap_overwrite v")
    (simp add: add_write_def written_values_def gomap_simps split: option.split)

lemma add_write_ok: "writes_ok (fst acc) \<Longrightarrow> writes_ok (fst (add_write node (k, v) acc))"
  by (cases acc; cases "unwrap_overwrite v")
    (auto simp: add_write_def writes_ok_def dest!: gm_put_mem)

lemma add_writes_spec:
  "written_values (fst (fold (add_write node) m acc)) n = written_values (fst acc) n @ values_for n m"
  "writes_ok (fst acc) \<Longrightarrow> writes_ok (fst (fold (add_write node) m acc))"
proof (induction m arbitrary: acc)
  case (Cons kv m)
  {
    case 1
    show ?case using Cons.IH(1) [of "add_write node kv acc"] add_write_values by (cases kv) simp
  next
    case 2
    show ?case using Cons.IH(2) [of "add_write node kv acc"] add_write_ok 2 by (cases kv) simp
  }
qed simp_all

lemma collect_writes_spec:
  assumes "collect_writes e results acc = Inr acc'"
  shows "written_values (fst acc') n = written_values (fst acc) n @ step_values e results n"
    and "writes_ok (fst acc) \<Longrightarrow> writes_ok (fst acc')"
  using assms
proof (induction results arbitrary: acc)
  case (Cons result results)
  define skip where "skip \<longleftrightarrow> tr_Err result \<noteq> None \<or> tr_Output result = GNil"
  {
    case 1
    show ?case
    proof (cases skip)
      case True
      with 1 Cons.IH(1) [of acc] show ?thesis by (simp add: skip_def step_values_def)
    next
      case False
      with 1 obtain m where "output_map e result = Inr m"
        and "collect_writes e results (fold (add_write (tr_Name result)) m acc) = Inr acc'"
        by (auto simp: skip_def split: sum.splits)
      with False Cons.IH(1) show ?thesis by (simp add: skip_def step_values_def add_writes_spec(1))
    qed
  next
    case 2
    show ?case
    proof (cases skip)
      case True
      with 2 Cons.IH(2) [of acc] show ?thesis by (simp add: skip_def)
    next
      case False
      with 2 obtain m where "collect_writes e results (fold (add_write (tr_Name result)) m acc) = Inr acc'"
        by (auto simp: skip_def split: sum.splits)
      then show ?thesis by (rule Cons.IH(2) [OF add_writes_spec(2) [OF 2(1)]])
    qed
  }
qed (simp_all add: step_values_def)

text \<open>What one channel is after a step, and whether its version advances.\<close>

definition advances :: "registry \<Rightarrow> string \<Rightarrow> goval list \<Rightarrow> bool" where
  "advances r n vs \<longleftrightarrow>
     (let ch = channel_for r n; res = ch_Update ch (effective_values ch vs)
      in fst res = Inr True \<and> ch_IsAvailable (snd res))"

definition stepped :: "engine \<Rightarrow> registry \<Rightarrow> string \<Rightarrow> goval list \<Rightarrow> channel" where
  "stepped e r n vs =
     (let ch = channel_for r n; ch' = snd (ch_Update ch (effective_values ch vs))
      in if advances r n vs then ch_SetVersion (gm_int (en_channelVersions e) n + 1) ch' else ch')"

lemma channel_for_other: "k \<noteq> n \<Longrightarrow> channel_for (Register n ch r) k = channel_for r k"
  by (simp add: channel_for_def Register_def reg_Get_def gomap_simps)

lemma advances_other: "k \<noteq> n \<Longrightarrow> advances (Register n ch r) k vs = advances r k vs"
  by (simp add: advances_def channel_for_other)

lemma stepped_other:
  "k \<noteq> n \<Longrightarrow> gm_int (en_channelVersions e') k = gm_int (en_channelVersions e) k \<Longrightarrow>
   stepped e' (Register n ch r) k vs = stepped e r k vs"
  by (simp add: stepped_def channel_for_other advances_other Let_def)

lemma update_loop_step:
  assumes "update_loop ((n, vs) # ws) e r updated = (Inr updated', e', r')"
  shows "update_loop ws (if advances r n vs then bump_version n e else e) (Register n (stepped e r n vs) r)
    (if advances r n vs then List.insert n updated else updated) = (Inr updated', e', r')"
  using assms
  by (auto simp: advances_def stepped_def bump_version_def Let_def split: prod.splits sum.splits if_splits)

lemma update_loop_spec:
  assumes "update_loop ws e r updated = (Inr updated', e', r')" and "gm_ok ws"
  shows "map_of (channels r') n =
      (case map_of ws n of None \<Rightarrow> map_of (channels r) n | Some vs \<Rightarrow> Some (stepped e r n vs))
    \<and> gm_int (en_channelVersions e') n =
      gm_int (en_channelVersions e) n + (case map_of ws n of None \<Rightarrow> 0 | Some vs \<Rightarrow> if advances r n vs then 1 else 0)
    \<and> (n \<in> set updated' \<longleftrightarrow> n \<in> set updated \<or> (\<exists>vs. map_of ws n = Some vs \<and> advances r n vs))"
  using assms
proof (induction ws arbitrary: e r updated)
  case (Cons nv ws)
  obtain k vs where nv: "nv = (k, vs)" by force
  define e1 where "e1 = (if advances r k vs then bump_version k e else e)"
  define r1 where "r1 = Register k (stepped e r k vs) r"
  define up1 where "up1 = (if advances r k vs then List.insert k updated else updated)"
  have rest: "update_loop ws e1 r1 up1 = (Inr updated', e', r')"
    unfolding e1_def r1_def up1_def using Cons.prems(1) unfolding nv by (rule update_loop_step)
  have new: "map_of ws k = None" and ok: "gm_ok ws" using Cons.prems(2) by (auto simp: nv map_of_eq_None_iff)
  have e1: "gm_int (en_channelVersions e1) x = gm_int (en_channelVersions e) x + (if x = k \<and> advances r k vs then 1 else 0)" for x
    by (simp add: e1_def bump_version_def)
  show ?case
  proof (cases "n = k")
    case True
    with Cons.IH [OF rest ok] new show ?thesis
      by (simp add: nv e1 r1_def up1_def Register_def gomap_simps)
  next
    case False
    then have "stepped e1 r1 n w = stepped e r n w" "advances r1 n w = advances r n w" for w
      by (simp_all add: r1_def advances_other stepped_other e1)
    with False Cons.IH [OF rest ok] show ?thesis
      by (auto simp: nv e1 r1_def up1_def Register_def gomap_simps split: option.splits)
  qed
qed simp

lemma mark_updates_versions: "en_channelVersions (mark_updates triggered updated ws e) = en_channelVersions e"
proof -
  have one: "en_channelVersions (fold (markSeen n) us e) = en_channelVersions e" for n us e
    by (induction us arbitrary: e) (simp_all add: markSeen_def)
  show ?thesis
    unfolding mark_updates_def by (induction ws arbitrary: e) (auto simp: one)
qed

lemma applyWrites_effect:
  assumes "applyWrites e r results triggered = (Inr updated, e', r')"
    and "vs = step_values e (sort_key tr_Name results)"
  shows "map_of (channels r') n = (if vs n = [] then map_of (channels r) n else Some (stepped e r n (vs n)))
    \<and> (n \<in> set updated \<longleftrightarrow> vs n \<noteq> [] \<and> advances r n (vs n))
    \<and> gm_int (en_channelVersions e') n = gm_int (en_channelVersions e) n + (if n \<in> set updated then 1 else 0)"
proof -
  obtain writes pending e1 where collect: "collect_writes e (sort_key tr_Name results) ([], []) = Inr (writes, pending)"
    and loop: "update_loop writes e r [] = (Inr updated, e1, r')"
    and e': "e' = mark_updates triggered updated writes (store_pending pending e1)"
    using assms(1) by (auto simp: applyWrites_def split: sum.splits prod.splits)
  have ok: "writes_ok writes"
    using collect_writes_spec(2) [OF collect] by (simp add: writes_ok_def)
  have "written_values writes n = vs n"
    using collect_writes_spec(1) [OF collect, of n] by (simp add: assms(2) written_values_def)
  moreover have "map_of writes n = Some ws \<Longrightarrow> ws \<noteq> []" for ws
    using ok by (auto simp: writes_ok_def dest: map_of_SomeD)
  ultimately have look: "map_of writes n = (if vs n = [] then None else Some (vs n))"
    by (cases "map_of writes n") (auto simp: written_values_def)
  have versions: "en_channelVersions e' = en_channelVersions e1"
    by (simp add: e' mark_updates_versions store_pending_def)
  have "gm_ok writes" using ok by (simp add: writes_ok_def)
  from update_loop_spec [OF loop this, of n] show ?thesis
    by (simp add: look versions)
qed

text \<open>
  C8: applying the writes of a step. When it succeeds, every channel that some successful
  result wrote holds the outcome of one update with the values written to it, taken in the order of the
  node names (all of them for an aggregate or a reducer, otherwise the last one), on the
  channel registered before or a new \<^verbatim>\<open>LastValue\<close>; every other channel is untouched.
  Exactly the channels that changed and are readable are reported, and their versions, on the
  engine and on the channel, go up by one.
\<close>

theorem applyWrites_spec:
  assumes "applyWrites e r results triggered = (Inr updated, e', r')"
    and "vs = step_values e (sort_key tr_Name results)"
  shows "map_of (channels r') n = (if vs n = [] then map_of (channels r) n else Some (stepped e r n (vs n)))
    \<and> (n \<in> set updated \<longleftrightarrow> vs n \<noteq> [] \<and> advances r n (vs n))
    \<and> gm_int (en_channelVersions e') n = gm_int (en_channelVersions e) n + (if n \<in> set updated then 1 else 0)"
  using assms by (rule applyWrites_effect)

lemma applyWrites_ok_witness_engine:
  "applyWrites (NewEngine (NewStateGraph (SchemaMap K_String)) []) NewRegistry
     [\<lparr>tr_Name = ''b'', tr_Output = GMap [(''x'', GInt 2)], tr_Err = None\<rparr>,
      \<lparr>tr_Name = ''a'', tr_Output = GMap [(''x'', GInt 1)], tr_Err = None\<rparr>] [] =
   (Inr [''x''], store_pending [(''x'', \<lparr>pw_Channel = ''x'', pw_Value = GInt 2, pw_Overwrite = False, pw_Node = ''b'',
        pw_Timestamp = 0, pw_TaskID = []\<rparr>)] (bump_version ''x'' (NewEngine (NewStateGraph (SchemaMap K_String)) [])),
    \<lparr>channels = [(''x'', LastValue ((NewLastValue GNil)\<lparr>Version := 1, lv_value := GInt 2\<rparr>))]\<rparr>)"
  by (simp add: applyWrites_def output_map_def toMap_def getNode_def NewEngine_def NewStateGraph_def add_write_def
      unwrap_overwrite_def channel_for_def reg_Get_def NewRegistry_def effective_values_def lv_defs bump_version_def
      Register_def mark_updates_def gm_int_def Let_def)

theorem applyWrites_spec_witness:
  "let e = NewEngine (NewStateGraph (SchemaMap K_String)) [];
       rs = [\<lparr>tr_Name = ''b'', tr_Output = GMap [(''x'', GInt 2)], tr_Err = None\<rparr>,
             \<lparr>tr_Name = ''a'', tr_Output = GMap [(''x'', GInt 1)], tr_Err = None\<rparr>]
   in \<exists>u e' r'. applyWrites e NewRegistry rs [] = (Inr u, e', r')
      \<and> map_of (channels r') ''x'' = Some (stepped e NewRegistry ''x'' [GInt 1, GInt 2])
      \<and> gm_int (en_channelVersions e') ''x'' = 1"
  using applyWrites_spec [OF applyWrites_ok_witness_engine refl, of "''x''"]
  unfolding Let_def applyWrites_ok_witness_engine
  by (simp add: step_values_def output_map_def toMap_def getNode_def unwrap_overwrite_def
      NewEngine_def NewStateGraph_def gm_int_def)

text \<open>
  C7: the order in which the tasks of a step finish does not matter. The writes of any permutation of the
  results of distinct nodes have the same outcome: the same error or the same registry,
  versions, checkpoint and updated channels.
\<close>

theorem applyWrites_permutation:
  assumes "mset results' = mset results" and "distinct (map tr_Name results)"
  shows "applyWrites e r results' triggered = applyWrites e r results triggered"
proof -
  have "set results' = set results" using assms(1) by (metis set_mset_mset)
  have inj: "inj_on tr_Name (set results)" using assms(2) by (simp add: distinct_map)
  have "sort_key tr_Name results' = sort_key tr_Name results"
  proof (rule sort_key_inj_key_eq)
    show "mset results' = mset (sort_key tr_Name results)" using assms(1) by simp
    show "inj_on tr_Name (set results')" using inj \<open>set results' = set results\<close> by simp
    show "sorted (map tr_Name (sort_key tr_Name results))" by simp
  qed
  then show ?thesis by (simp add: applyWrites_def)
qed

theorem applyWrites_permutation_witness:
  "let e = NewEngine (NewStateGraph (SchemaMap K_String)) [];
       a = \<lparr>tr_Name = ''a'', tr_Output = GMap [(''x'', GInt 1)], tr_Err = None\<rparr>;
       b = \<lparr>tr_Name = ''b'', tr_Output = GMap [(''x'', GInt 2)], tr_Err = None\<rparr>
   in applyWrites e NewRegistry [a, b] [] = applyWrites e NewRegistry [b, a] []"
  unfolding Let_def by (rule applyWrites_permutation) simp_all

text \<open>
  Of several values written to one channel in a step, only aggregates and reducers see all. Any
  other channel, a barrier or a topic too, behaves as if only the last one in the order of the
  node names had been written. So a barrier for \<open>a\<close> and \<open>b\<close> that both nodes reach in the same step
  does not open.
\<close>

theorem only_last_write_counts:
  assumes "\<And>c. channel_for r n \<noteq> BinaryOperatorAggregate c" and "\<And>c f. channel_for r n \<noteq> ReducerChannel c f"
    and "v \<noteq> GNil"
  shows "stepped e r n (vs @ [v]) = stepped e r n [v] \<and> advances r n (vs @ [v]) = advances r n [v]"
proof -
  have "effective_values (channel_for r n) (vs @ [v]) = effective_values (channel_for r n) [v]"
    using assms by (auto simp: effective_values_def Let_def split: channel.splits)
  then show ?thesis by (simp add: stepped_def advances_def Let_def)
qed

theorem only_last_write_counts_witness:
  "let r = Register ''gate'' (NamedBarrierValue (NewNamedBarrierValue GNil [''a'', ''b''])) NewRegistry;
       e = NewEngine (NewStateGraph (SchemaMap K_String)) []
   in stepped e r ''gate'' [GStr ''a'', GStr ''b''] = stepped e r ''gate'' [GStr ''b'']
      \<and> \<not> ch_IsAvailable (stepped e r ''gate'' [GStr ''a'', GStr ''b''])"
proof -
  define r where "r = Register ''gate'' (NamedBarrierValue (NewNamedBarrierValue GNil [''a'', ''b''])) NewRegistry"
  define e where "e = NewEngine (NewStateGraph (SchemaMap K_String)) []"
  have gate: "channel_for r ''gate'' = NamedBarrierValue (NewNamedBarrierValue GNil [''a'', ''b''])"
    by (simp add: r_def channel_for_def Register_def reg_Get_def NewRegistry_def)
  have eq: "stepped e r ''gate'' ([GStr ''a''] @ [GStr ''b'']) = stepped e r ''gate'' [GStr ''b'']"
    using only_last_write_counts [of r "''gate''" "GStr ''b''" e "[GStr ''a'']"] by (simp add: gate)
  have "\<not> ch_IsAvailable (stepped e r ''gate'' [GStr ''b''])"
    by (simp add: stepped_def advances_def gate effective_values_def nb_Update_def nb_IsAvailable_def
        NewNamedBarrierValue_def barrier_names_def namesMatchSeen_def Let_def)
  with eq show ?thesis
    unfolding Let_def r_def [symmetric] e_def [symmetric] by simp
qed

section \<open>Input keys\<close>

text \<open>
  Two input keys that differ in the case of their first letter are applied in the order in which the
  map is ranged over. With no channel registered, the first key met gets a channel and
  takes the value of the other; the other gets none. Go leaves that order open, so the
  channel that exists afterwards does too.
\<close>

theorem applyInput_order_dependent:
  "let r1 = fst (snd (applyInput (GMap [(''x'', GInt 1), (''X'', GInt 2)]) NewRegistry));
       r2 = fst (snd (applyInput (GMap [(''X'', GInt 2), (''x'', GInt 1)]) NewRegistry))
   in gm_keys (channels r1) = [''x''] \<and> fst (ch_Get (channel_for r1 ''x'')) = Inr (GInt 2)
      \<and> gm_keys (channels r2) = [''X''] \<and> fst (ch_Get (channel_for r2 ''X'')) = Inr (GInt 1)"
proof -
  have c: "char_of (88::nat) = CHR ''X''" "char_of (120::nat) = CHR ''x''" by code_simp+
  show ?thesis
    by (simp add: applyInput_def toMap_def reg_Get_def NewRegistry_def caseFoldKey_def Register_def Let_def
        channel_for_def lv_defs less_eq_char_def c)
qed

end
