(* ===== verification/Stream_Events.thy ===== *)
theory Stream_Events
  imports Go_Errors "HOL-Library.Sublist"
begin

text \<open>
  The events a run streams (\<^verbatim>\<open>pregel/stream.go\<close>): their construction, the filter of each
  stream mode, and the buffered channel between the engine and its consumer. The time of an event is not
  modelled; the duration of a task is an argument, as text.
\<close>

section \<open>Events\<close>

definition EventTypeCheckpoint :: string where "EventTypeCheckpoint = ''checkpoint''"
definition EventTypeTaskStart :: string where "EventTypeTaskStart = ''task_start''"
definition EventTypeTaskEnd :: string where "EventTypeTaskEnd = ''task_end''"
definition EventTypeUpdate :: string where "EventTypeUpdate = ''update''"
definition EventTypeValues :: string where "EventTypeValues = ''values''"
definition EventTypeInterrupt :: string where "EventTypeInterrupt = ''interrupt''"
definition EventTypeError :: string where "EventTypeError = ''error''"
definition EventTypeFinal :: string where "EventTypeFinal = ''final''"
definition EventTypeDebug :: string where "EventTypeDebug = ''debug''"

lemmas event_types = EventTypeCheckpoint_def EventTypeTaskStart_def EventTypeTaskEnd_def EventTypeUpdate_def
  EventTypeValues_def EventTypeInterrupt_def EventTypeError_def EventTypeFinal_def EventTypeDebug_def

record stream_event =
  se_Type :: string
  se_Step :: int
  se_Node :: string
  se_TaskID :: string
  se_Data :: "goval gomap"
  se_Error :: "go_error option"

definition NewStreamEvent :: "string \<Rightarrow> int \<Rightarrow> stream_event" where
  "NewStreamEvent eventType step =
     \<lparr>se_Type = eventType, se_Step = step, se_Node = [], se_TaskID = [], se_Data = [], se_Error = None\<rparr>"

definition checkpoint_event :: "int \<Rightarrow> goval gomap \<Rightarrow> stream_event" where
  "checkpoint_event step cp = (NewStreamEvent EventTypeCheckpoint step)\<lparr>se_Data := [(''checkpoint'', GMap cp)]\<rparr>"

definition task_start_event :: "int \<Rightarrow> string \<Rightarrow> string \<Rightarrow> stream_event" where
  "task_start_event step node taskID =
     (NewStreamEvent EventTypeTaskStart step)
       \<lparr>se_Node := node, se_TaskID := taskID, se_Data := [(''node'', GStr node), (''task_id'', GStr taskID)]\<rparr>"

definition task_end_event ::
  "int \<Rightarrow> string \<Rightarrow> string \<Rightarrow> goval \<Rightarrow> string \<Rightarrow> go_error option \<Rightarrow> stream_event" where
  "task_end_event step node taskID output duration err =
     (NewStreamEvent EventTypeTaskEnd step)
       \<lparr>se_Node := node, se_TaskID := taskID, se_Error := err,
        se_Data := [(''node'', GStr node), (''task_id'', GStr taskID), (''output'', output),
                    (''duration'', GStr duration)]\<rparr>"

definition update_event :: "int \<Rightarrow> string \<Rightarrow> goval \<Rightarrow> stream_event" where
  "update_event step node output =
     (NewStreamEvent EventTypeUpdate step)\<lparr>se_Node := node, se_Data := [(''node'', GStr node), (''output'', output)]\<rparr>"

definition values_event :: "int \<Rightarrow> goval gomap \<Rightarrow> stream_event" where
  "values_event step values = (NewStreamEvent EventTypeValues step)\<lparr>se_Data := [(''values'', GMap values)]\<rparr>"

definition interrupt_event :: "int \<Rightarrow> string list \<Rightarrow> stream_event" where
  "interrupt_event step interrupts =
     (NewStreamEvent EventTypeInterrupt step)\<lparr>se_Data := [(''interrupts'', GStrs interrupts)]\<rparr>"

definition error_event :: "(goval \<Rightarrow> string) \<Rightarrow> int \<Rightarrow> go_error \<Rightarrow> string \<Rightarrow> stream_event" where
  "error_event fv step err node =
     (NewStreamEvent EventTypeError step)
       \<lparr>se_Node := node, se_Error := Some err, se_Data := [(''node'', GStr node), (''error'', GStr (err_Error fv err))]\<rparr>"

definition debug_event :: "int \<Rightarrow> string \<Rightarrow> goval \<Rightarrow> stream_event" where
  "debug_event step message data =
     (NewStreamEvent EventTypeDebug step)\<lparr>se_Data := [(''message'', GStr message), (''data'', data)]\<rparr>"

definition final_event :: "int \<Rightarrow> goval \<Rightarrow> stream_event" where
  "final_event step state = (NewStreamEvent EventTypeFinal step)\<lparr>se_Data := [(''state'', state)]\<rparr>"

lemmas event_defs = NewStreamEvent_def checkpoint_event_def task_start_event_def task_end_event_def update_event_def
  values_event_def interrupt_event_def error_event_def debug_event_def final_event_def

section \<open>Stream modes\<close>

definition StreamModeValues :: string where "StreamModeValues = ''values''"
definition StreamModeUpdates :: string where "StreamModeUpdates = ''updates''"
definition StreamModeCheckpoints :: string where "StreamModeCheckpoints = ''checkpoints''"
definition StreamModeTasks :: string where "StreamModeTasks = ''tasks''"
definition StreamModeDebug :: string where "StreamModeDebug = ''debug''"

definition setupIncludeFilter :: "string \<Rightarrow> bool gomap" where
  "setupIncludeFilter mode =
     map (\<lambda>t. (t, True))
       (if mode = StreamModeValues then [EventTypeValues, EventTypeFinal]
        else if mode = StreamModeUpdates then [EventTypeUpdate, EventTypeFinal]
        else if mode = StreamModeTasks then [EventTypeTaskStart, EventTypeTaskEnd, EventTypeError, EventTypeFinal]
        else if mode = StreamModeCheckpoints then [EventTypeCheckpoint, EventTypeFinal]
        else if mode = StreamModeDebug
        then [EventTypeCheckpoint, EventTypeTaskStart, EventTypeTaskEnd, EventTypeUpdate, EventTypeValues,
              EventTypeInterrupt, EventTypeError, EventTypeDebug, EventTypeFinal]
        else [EventTypeValues, EventTypeFinal])"

section \<open>The stream manager\<close>

record stream_manager =
  sm_mode :: string
  sm_eventCh :: "stream_event list"
  sm_bufferSize :: nat
  sm_includeFilter :: "bool gomap"
  sm_closed :: bool

definition NewStreamManager :: "string \<Rightarrow> int \<Rightarrow> stream_manager" where
  "NewStreamManager mode bufferSize =
     \<lparr>sm_mode = mode, sm_eventCh = [], sm_bufferSize = nat (if bufferSize \<le> 0 then 100 else bufferSize),
      sm_includeFilter = setupIncludeFilter mode, sm_closed = False\<rparr>"

definition shouldEmit :: "stream_manager \<Rightarrow> string \<Rightarrow> bool" where
  "shouldEmit sm eventType = gm_bool (sm_includeFilter sm) eventType"

definition emit :: "stream_event \<Rightarrow> stream_manager \<Rightarrow> stream_manager" where
  "emit event sm =
     (if sm_closed sm then sm
      else if length (sm_eventCh sm) < sm_bufferSize sm then sm\<lparr>sm_eventCh := sm_eventCh sm @ [event]\<rparr>
      else sm)"

text \<open>
  What every \<^verbatim>\<open>Emit\<close> method but \<^verbatim>\<open>EmitFinal\<close> does with its event. \<^verbatim>\<open>EmitFinal\<close> sends with a blocking
  send: with a full buffer it waits, which is the value \<open>None\<close>.
\<close>

definition offer :: "stream_event \<Rightarrow> stream_manager \<Rightarrow> stream_manager" where
  "offer event sm = (if \<not> shouldEmit sm (se_Type event) then sm else emit event sm)"

definition EmitFinal :: "stream_event \<Rightarrow> stream_manager \<Rightarrow> stream_manager option" where
  "EmitFinal event sm =
     (if \<not> shouldEmit sm (se_Type event) then Some sm
      else if length (sm_eventCh sm) < sm_bufferSize sm then Some (sm\<lparr>sm_eventCh := sm_eventCh sm @ [event]\<rparr>)
      else None)"

definition sm_Close :: "stream_manager \<Rightarrow> stream_manager" where
  "sm_Close sm = (if \<not> sm_closed sm then sm\<lparr>sm_closed := True\<rparr> else sm)"

text \<open>
  The engine, the goroutine that forwards the events to the output channel of the run, and the consumer of
  that channel run side by side. The forwarder takes an event from the manager; holding it, it waits until the
  output channel has room or the context is done, in which case it returns and the event is lost. It also
  returns when the manager is closed and empty. A step that is not possible now is \<open>None\<close>: so a final event waits while
  the buffer is full. The engine closes the manager when it has ended and emits nothing after that.
\<close>

record forwarding =
  fw_manager :: stream_manager
  fw_hand :: "stream_event option"
  fw_returned :: bool
  fw_outputCh :: "stream_event list"
  fw_cancelled :: bool
  fw_received :: "stream_event list"

datatype stream_action = FwEmit stream_event | FwClose | FwTake | FwSend | FwQuit | FwReceive | FwCancel

definition outputCap :: nat where "outputCap = 100"

definition start_forwarding :: "string \<Rightarrow> int \<Rightarrow> forwarding" where
  "start_forwarding mode n =
     \<lparr>fw_manager = NewStreamManager mode n, fw_hand = None, fw_returned = False, fw_outputCh = [],
      fw_cancelled = False, fw_received = []\<rparr>"

definition emit_step :: "stream_event \<Rightarrow> forwarding \<Rightarrow> forwarding option" where
  "emit_step ev s =
     (if sm_closed (fw_manager s) then None
      else if se_Type ev = EventTypeFinal then map_option (\<lambda>sm. s\<lparr>fw_manager := sm\<rparr>) (EmitFinal ev (fw_manager s))
      else Some (s\<lparr>fw_manager := offer ev (fw_manager s)\<rparr>))"

definition take_event :: "forwarding \<Rightarrow> forwarding option" where
  "take_event s =
     (if fw_returned s \<or> fw_hand s \<noteq> None then None
      else case sm_eventCh (fw_manager s) of
             [] \<Rightarrow> if sm_closed (fw_manager s) then Some (s\<lparr>fw_returned := True\<rparr>) else None
           | ev # evs \<Rightarrow> Some (s\<lparr>fw_hand := Some ev, fw_manager := (fw_manager s)\<lparr>sm_eventCh := evs\<rparr>\<rparr>))"

definition send_event :: "forwarding \<Rightarrow> forwarding option" where
  "send_event s =
     (case fw_hand s of
        None \<Rightarrow> None
      | Some ev \<Rightarrow>
          if length (fw_outputCh s) < outputCap then Some (s\<lparr>fw_hand := None, fw_outputCh := fw_outputCh s @ [ev]\<rparr>)
          else None)"

definition quit_forwarding :: "forwarding \<Rightarrow> forwarding option" where
  "quit_forwarding s =
     (if fw_hand s \<noteq> None \<and> fw_cancelled s then Some (s\<lparr>fw_hand := None, fw_returned := True\<rparr>) else None)"

definition receive_event :: "forwarding \<Rightarrow> forwarding option" where
  "receive_event s =
     (case fw_outputCh s of
        [] \<Rightarrow> None | ev # evs \<Rightarrow> Some (s\<lparr>fw_outputCh := evs, fw_received := fw_received s @ [ev]\<rparr>))"

fun stream_step :: "stream_action \<Rightarrow> forwarding \<Rightarrow> forwarding option" where
  "stream_step (FwEmit ev) s = emit_step ev s"
| "stream_step FwClose s = Some (s\<lparr>fw_manager := sm_Close (fw_manager s)\<rparr>)"
| "stream_step FwTake s = take_event s"
| "stream_step FwSend s = send_event s"
| "stream_step FwQuit s = quit_forwarding s"
| "stream_step FwReceive s = receive_event s"
| "stream_step FwCancel s = Some (s\<lparr>fw_cancelled := True\<rparr>)"

fun stream_run :: "stream_action list \<Rightarrow> forwarding \<Rightarrow> forwarding option" where
  "stream_run [] s = Some s"
| "stream_run (a # acts) s = Option.bind (stream_step a s) (stream_run acts)"

definition emitted :: "stream_action list \<Rightarrow> stream_event list" where
  "emitted acts = concat (map (\<lambda>a. case a of FwEmit ev \<Rightarrow> [ev] | _ \<Rightarrow> []) acts)"

section \<open>Delivery\<close>

text \<open>Every event on its way, the oldest first: received, in the output channel, in the hand of the forwarder, in the manager.\<close>

definition on_the_way :: "forwarding \<Rightarrow> stream_event list" where
  "on_the_way s = fw_received s @ fw_outputCh s @ (case fw_hand s of None \<Rightarrow> [] | Some ev \<Rightarrow> [ev]) @ sm_eventCh (fw_manager s)"

definition forwarding_ok :: "stream_manager \<Rightarrow> forwarding \<Rightarrow> bool" where
  "forwarding_ok sm0 s \<longleftrightarrow>
     sm_bufferSize (fw_manager s) = sm_bufferSize sm0 \<and> 0 < sm_bufferSize sm0
     \<and> sm_includeFilter (fw_manager s) = sm_includeFilter sm0
     \<and> (fw_returned s \<longrightarrow> fw_hand s = None \<and> (fw_cancelled s \<or> sm_closed (fw_manager s) \<and> sm_eventCh (fw_manager s) = []))"

lemma final_shouldEmit [simp]: "shouldEmit (NewStreamManager mode n) EventTypeFinal"
  by (simp add: shouldEmit_def NewStreamManager_def setupIncludeFilter_def gm_bool_def event_types)

lemma forwarding_ok_filter: "forwarding_ok sm0 s \<Longrightarrow> shouldEmit (fw_manager s) = shouldEmit sm0"
  by (simp add: forwarding_ok_def shouldEmit_def fun_eq_iff)

lemma start_forwarding_ok: "forwarding_ok (NewStreamManager mode n) (start_forwarding mode n)"
  by (simp add: forwarding_ok_def start_forwarding_def NewStreamManager_def)

lemmas stream_step_defs = emit_step_def take_event_def send_event_def quit_forwarding_def receive_event_def sm_Close_def

text \<open>Emitting adds the event at the end or, when the filter or a full buffer says so, nothing.\<close>

lemma emit_step_adds:
  assumes ok: "forwarding_ok sm0 s" and st: "emit_step ev s = Some s'"
  shows "forwarding_ok sm0 s' \<and> fw_cancelled s' = fw_cancelled s
    \<and> on_the_way s' = on_the_way s @
        (if shouldEmit sm0 (se_Type ev)
            \<and> (se_Type ev = EventTypeFinal \<or> length (sm_eventCh (fw_manager s)) < sm_bufferSize sm0) then [ev] else [])"
  using ok st forwarding_ok_filter [OF ok]
  by (auto simp: emit_step_def EmitFinal_def offer_def emit_def forwarding_ok_def on_the_way_def split: if_splits)

text \<open>The other steps move events along; only a cancelled forwarder loses one.\<close>

lemma other_step_moves:
  assumes ok: "forwarding_ok sm0 s" and st: "stream_step a s = Some s'" and a: "\<forall>ev. a \<noteq> FwEmit ev"
  shows "forwarding_ok sm0 s' \<and> (fw_cancelled s \<longrightarrow> fw_cancelled s') \<and> subseq (on_the_way s') (on_the_way s)
    \<and> (\<not> fw_cancelled s' \<longrightarrow> on_the_way s' = on_the_way s)"
proof (cases a)
  case FwQuit
  then obtain ev where q: "fw_hand s = Some ev" "fw_cancelled s" "s' = s\<lparr>fw_hand := None, fw_returned := True\<rparr>"
    using st by (auto simp: quit_forwarding_def split: if_splits)
  have "subseq (xs @ ys) (xs @ ev # ys)" for xs ys by (induction xs) auto
  from this [of "fw_received s @ fw_outputCh s"] have "subseq (on_the_way s') (on_the_way s)"
    using q by (simp add: on_the_way_def)
  then show ?thesis using ok q by (auto simp: forwarding_ok_def)
qed (use ok st a in \<open>auto simp: stream_step_defs forwarding_ok_def on_the_way_def split: if_splits option.splits list.splits\<close>)

lemma stream_run_delivers:
  assumes "forwarding_ok sm0 s" and "stream_run acts s = Some s'"
  shows "forwarding_ok sm0 s' \<and> (fw_cancelled s \<longrightarrow> fw_cancelled s')
    \<and> (\<exists>new. subseq (on_the_way s') (on_the_way s @ new)
         \<and> subseq new (filter (\<lambda>ev. shouldEmit sm0 (se_Type ev)) (emitted acts))
         \<and> (\<not> fw_cancelled s' \<longrightarrow> on_the_way s' = on_the_way s @ new)
         \<and> filter (\<lambda>ev. se_Type ev = EventTypeFinal) new =
             filter (\<lambda>ev. shouldEmit sm0 (se_Type ev) \<and> se_Type ev = EventTypeFinal) (emitted acts)
         \<and> (length (on_the_way s) + length (emitted acts) \<le> sm_bufferSize sm0 \<longrightarrow>
              new = filter (\<lambda>ev. shouldEmit sm0 (se_Type ev)) (emitted acts)))"
  using assms
proof (induction acts arbitrary: s)
  case Nil
  then show ?case by (auto simp: emitted_def)
next
  case (Cons a acts)
  then obtain s1 where s1: "stream_step a s = Some s1" and run: "stream_run acts s1 = Some s'"
    by (cases "stream_step a s") auto
  show ?case
  proof (cases "\<exists>ev. a = FwEmit ev")
    case False
    then have em: "emitted (a # acts) = emitted acts" by (cases a) (auto simp: emitted_def)
    note mv = other_step_moves [OF Cons.prems(1) s1]
    have ok1: "forwarding_ok sm0 s1" and sub1: "subseq (on_the_way s1) (on_the_way s)" using mv False by auto
    from Cons.IH [OF ok1 run] obtain new where new: "subseq (on_the_way s') (on_the_way s1 @ new)"
      "subseq new (filter (\<lambda>ev. shouldEmit sm0 (se_Type ev)) (emitted acts))"
      "\<not> fw_cancelled s' \<longrightarrow> on_the_way s' = on_the_way s1 @ new"
      "filter (\<lambda>ev. se_Type ev = EventTypeFinal) new =
         filter (\<lambda>ev. shouldEmit sm0 (se_Type ev) \<and> se_Type ev = EventTypeFinal) (emitted acts)"
      "length (on_the_way s1) + length (emitted acts) \<le> sm_bufferSize sm0 \<longrightarrow>
         new = filter (\<lambda>ev. shouldEmit sm0 (se_Type ev)) (emitted acts)"
      and rest: "forwarding_ok sm0 s'" "fw_cancelled s1 \<longrightarrow> fw_cancelled s'" by blast
    have "subseq (on_the_way s') (on_the_way s @ new)"
      using subseq_order.trans [OF new(1)] list_emb_append_mono [OF sub1] by (metis subseq_order.refl)
    moreover have "length (on_the_way s1) \<le> length (on_the_way s)" using sub1 by (rule list_emb_length)
    ultimately show ?thesis using new(2-5) rest mv False by (intro conjI exI [of _ new]) (auto simp: em)
  next
    case True
    then obtain ev where a: "a = FwEmit ev" by blast
    define add where "add = (if shouldEmit sm0 (se_Type ev)
            \<and> (se_Type ev = EventTypeFinal \<or> length (sm_eventCh (fw_manager s)) < sm_bufferSize sm0) then [ev] else [])"
    have ok1: "forwarding_ok sm0 s1" and c1: "fw_cancelled s1 = fw_cancelled s" and all: "on_the_way s1 = on_the_way s @ add"
      using emit_step_adds [OF Cons.prems(1)] s1 by (simp_all add: a add_def)
    from Cons.IH [OF ok1 run] obtain new where new: "subseq (on_the_way s') (on_the_way s1 @ new)"
      "subseq new (filter (\<lambda>ev. shouldEmit sm0 (se_Type ev)) (emitted acts))"
      "\<not> fw_cancelled s' \<longrightarrow> on_the_way s' = on_the_way s1 @ new"
      "filter (\<lambda>ev. se_Type ev = EventTypeFinal) new =
         filter (\<lambda>ev. shouldEmit sm0 (se_Type ev) \<and> se_Type ev = EventTypeFinal) (emitted acts)"
      "length (on_the_way s1) + length (emitted acts) \<le> sm_bufferSize sm0 \<longrightarrow>
         new = filter (\<lambda>ev. shouldEmit sm0 (se_Type ev)) (emitted acts)"
      and rest: "forwarding_ok sm0 s'" "fw_cancelled s1 \<longrightarrow> fw_cancelled s'" by blast
    have em: "emitted (a # acts) = ev # emitted acts" by (simp add: emitted_def a)
    have len: "length (sm_eventCh (fw_manager s)) \<le> length (on_the_way s)" by (simp add: on_the_way_def)
    have "subseq (add @ new) (filter (\<lambda>ev. shouldEmit sm0 (se_Type ev)) (emitted (a # acts)))"
      using new(2) by (auto simp: em add_def)
    moreover have "filter (\<lambda>ev. se_Type ev = EventTypeFinal) (add @ new) =
        filter (\<lambda>ev. shouldEmit sm0 (se_Type ev) \<and> se_Type ev = EventTypeFinal) (emitted (a # acts))"
      using new(4) by (auto simp: em add_def)
    moreover have "add @ new = filter (\<lambda>ev. shouldEmit sm0 (se_Type ev)) (emitted (a # acts))"
      if "length (on_the_way s) + length (emitted (a # acts)) \<le> sm_bufferSize sm0"
      using that new(5) len by (auto simp: em all add_def split: if_splits)
    ultimately show ?thesis
      using new(1,3) rest c1 by (intro conjI exI [of _ "add @ new"]) (auto simp: all)
  qed
qed

text \<open>Nothing gets stuck before a cancellation: forwarder and consumer alone bring everything to the consumer.\<close>

lemma drains:
  assumes "forwarding_ok sm0 s" and "\<not> fw_cancelled s"
  shows "\<exists>acts s'. set acts \<subseteq> {FwTake, FwSend, FwReceive} \<and> stream_run acts s = Some s' \<and> fw_received s' = on_the_way s
    \<and> sm_eventCh (fw_manager s') = [] \<and> sm_closed (fw_manager s') = sm_closed (fw_manager s) \<and> forwarding_ok sm0 s'"
  using assms
proof (induction "3 * length (sm_eventCh (fw_manager s)) + 2 * (if fw_hand s = None then 0 else 1) + length (fw_outputCh s)"
    arbitrary: s rule: less_induct)
  case less
  have more: ?case if "stream_step a s = Some s1" "a \<in> {FwTake, FwSend, FwReceive}" "on_the_way s1 = on_the_way s"
    "3 * length (sm_eventCh (fw_manager s1)) + 2 * (if fw_hand s1 = None then 0 else 1) + length (fw_outputCh s1)
     < 3 * length (sm_eventCh (fw_manager s)) + 2 * (if fw_hand s = None then 0 else 1) + length (fw_outputCh s)"
    "\<not> fw_cancelled s1" "sm_closed (fw_manager s1) = sm_closed (fw_manager s)" for a s1
  proof -
    have "forwarding_ok sm0 s1" using other_step_moves [OF less.prems(1) that(1)] that(2) by auto
    from less.hyps [OF that(4) this that(5)] obtain acts s' where "set acts \<subseteq> {FwTake, FwSend, FwReceive}"
      "stream_run acts s1 = Some s'" "fw_received s' = on_the_way s1" "sm_eventCh (fw_manager s') = []"
      "sm_closed (fw_manager s') = sm_closed (fw_manager s1)" "forwarding_ok sm0 s'" by blast
    then show ?thesis using that by (intro exI [of _ "a # acts"] exI [of _ s']) auto
  qed
  show ?case
  proof (cases "fw_outputCh s")
    case (Cons ev evs)
    then show ?thesis using less.prems(2)
      by (intro more [of FwReceive "s\<lparr>fw_outputCh := evs, fw_received := fw_received s @ [ev]\<rparr>"])
        (simp_all add: receive_event_def on_the_way_def)
  next
    case out: Nil
    show ?thesis
    proof (cases "fw_hand s")
      case (Some ev)
      then show ?thesis using out less.prems(2)
        by (intro more [of FwSend "s\<lparr>fw_hand := None, fw_outputCh := [ev]\<rparr>"])
          (simp_all add: send_event_def outputCap_def on_the_way_def)
    next
      case hand: None
      show ?thesis
      proof (cases "sm_eventCh (fw_manager s)")
        case Nil
        then show ?thesis using out hand less.prems by (intro exI [of _ "[]"] exI [of _ s]) (simp add: on_the_way_def)
      next
        case (Cons ev evs)
        moreover have "\<not> fw_returned s" using less.prems Cons by (auto simp: forwarding_ok_def)
        ultimately show ?thesis using out hand less.prems(2)
          by (intro more [of FwTake "s\<lparr>fw_hand := Some ev, fw_manager := (fw_manager s)\<lparr>sm_eventCh := evs\<rparr>\<rparr>"])
            (simp_all add: take_event_def on_the_way_def)
      qed
    qed
  qed
qed

text \<open>
  C24: delivery of a run's events, for every interleaving of the engine, the forwarder, the consumer and a
  cancellation. What the consumer has got is a subsequence, in order and without repetition, of the
  events emitted that the mode admits. As long as the context is not cancelled, no final event is lost: each has arrived or is on
  its way, also when the consumer is slow and the buffer was full; nothing admitted is lost when no more events
  are emitted than the buffer holds; and the forwarder and the consumer alone can bring everything on its way to the
  consumer, after which an event the engine has to wait for can be emitted.
\<close>

theorem stream_delivery:
  assumes "stream_run acts (start_forwarding mode n) = Some s"
  shows "let sm = NewStreamManager mode n; evs = emitted acts; admitted = filter (\<lambda>ev. shouldEmit sm (se_Type ev)) evs
   in subseq (fw_received s) admitted
      \<and> (\<not> fw_cancelled s \<longrightarrow>
           filter (\<lambda>ev. se_Type ev = EventTypeFinal) (on_the_way s) = filter (\<lambda>ev. se_Type ev = EventTypeFinal) evs
           \<and> (length evs \<le> sm_bufferSize sm \<longrightarrow> on_the_way s = admitted)
           \<and> (\<exists>more s'. set more \<subseteq> {FwTake, FwSend, FwReceive} \<and> stream_run more s = Some s' \<and> fw_received s' = on_the_way s
                \<and> (\<not> sm_closed (fw_manager s) \<longrightarrow> (\<forall>ev. stream_step (FwEmit ev) s' \<noteq> None))))"
proof -
  define sm where "sm = NewStreamManager mode n"
  let ?adm = "filter (\<lambda>ev. shouldEmit sm (se_Type ev)) (emitted acts)"
  have start: "on_the_way (start_forwarding mode n) = []" "\<not> fw_cancelled (start_forwarding mode n)"
    by (simp_all add: on_the_way_def start_forwarding_def NewStreamManager_def)
  note d = stream_run_delivers [OF start_forwarding_ok assms, folded sm_def]
  then have ok: "forwarding_ok sm s" by blast
  from d obtain new where new: "subseq (on_the_way s) new" "subseq new ?adm" "\<not> fw_cancelled s \<longrightarrow> on_the_way s = new"
    "filter (\<lambda>ev. se_Type ev = EventTypeFinal) new =
       filter (\<lambda>ev. shouldEmit sm (se_Type ev) \<and> se_Type ev = EventTypeFinal) (emitted acts)"
    "length (emitted acts) \<le> sm_bufferSize sm \<longrightarrow> new = ?adm"
    using start(1) by auto
  have fin: "filter (\<lambda>ev. shouldEmit sm (se_Type ev) \<and> se_Type ev = EventTypeFinal) (emitted acts)
      = filter (\<lambda>ev. se_Type ev = EventTypeFinal) (emitted acts)"
    by (rule filter_cong) (auto simp: sm_def)
  have "subseq (fw_received s) (on_the_way s)" by (simp add: on_the_way_def prefix_imp_subseq)
  then have recv: "subseq (fw_received s) ?adm" using new(1,2) by (meson subseq_order.trans)
  have prog: "\<exists>more s'. set more \<subseteq> {FwTake, FwSend, FwReceive} \<and> stream_run more s = Some s' \<and> fw_received s' = on_the_way s
      \<and> (\<not> sm_closed (fw_manager s) \<longrightarrow> (\<forall>ev. stream_step (FwEmit ev) s' \<noteq> None))" if nc: "\<not> fw_cancelled s"
  proof -
    obtain more s' where m: "set more \<subseteq> {FwTake, FwSend, FwReceive}" "stream_run more s = Some s'" "fw_received s' = on_the_way s"
      "sm_eventCh (fw_manager s') = []" "sm_closed (fw_manager s') = sm_closed (fw_manager s)" "forwarding_ok sm s'"
      using drains [OF ok nc] by blast
    then have "stream_step (FwEmit ev) s' \<noteq> None" if "\<not> sm_closed (fw_manager s)" for ev
      using that by (simp add: emit_step_def EmitFinal_def forwarding_ok_def)
    then show ?thesis using m by blast
  qed
  show ?thesis
    unfolding Let_def sm_def [symmetric] using recv prog new(3-5) fin by auto
qed

text \<open>A value event, an update the mode keeps out and a final event, with a buffer of one.\<close>

theorem stream_delivery_witness:
  "\<exists>s. stream_run [FwEmit (values_event 0 []), FwEmit (update_event 1 ''a'' GNil), FwTake, FwEmit (final_event 1 GNil), FwSend, FwReceive, FwTake]
         (start_forwarding StreamModeValues 1) = Some s
     \<and> \<not> fw_cancelled s \<and> fw_received s = [values_event 0 []]
     \<and> filter (\<lambda>ev. se_Type ev = EventTypeFinal) (on_the_way s) = [final_event 1 GNil]"
proof -
  let ?acts = "[FwEmit (values_event 0 []), FwEmit (update_event 1 ''a'' GNil), FwTake, FwEmit (final_event 1 GNil), FwSend, FwReceive, FwTake]"
  obtain s where s: "stream_run ?acts (start_forwarding StreamModeValues 1) = Some s" "\<not> fw_cancelled s"
    "fw_received s = [values_event 0 []]"
    by (simp add: start_forwarding_def NewStreamManager_def stream_step_defs EmitFinal_def offer_def emit_def shouldEmit_def
        setupIncludeFilter_def gm_bool_def event_defs event_types StreamModeValues_def outputCap_def)
  have "filter (\<lambda>ev. se_Type ev = EventTypeFinal) (emitted ?acts) = [final_event 1 GNil]"
    by (simp add: emitted_def event_defs event_types)
  then show ?thesis using s stream_delivery [OF s(1)] by (auto simp: Let_def)
qed

text \<open>
  After a cancellation there may be no way out: with the forwarder gone and the buffer full, the final event waits
  whatever forwarder, consumer and context still do, and the engine with it.
\<close>

lemma final_event_blocked:
  assumes "fw_returned s" "fw_hand s = None" "shouldEmit (fw_manager s) EventTypeFinal"
    and "sm_bufferSize (fw_manager s) \<le> length (sm_eventCh (fw_manager s))"
    and "set acts \<subseteq> {FwTake, FwSend, FwQuit, FwReceive, FwCancel}" and "stream_run acts s = Some s'"
  shows "stream_step (FwEmit (final_event step state)) s' = None"
  using assms
proof (induction acts arbitrary: s)
  case Nil
  then show ?case by (simp add: emit_step_def EmitFinal_def event_defs)
next
  case (Cons a acts)
  then obtain s1 where s1: "stream_step a s = Some s1" "stream_run acts s1 = Some s'"
    by (cases "stream_step a s") auto
  have "fw_returned s1 \<and> fw_hand s1 = None \<and> fw_manager s1 = fw_manager s"
    using s1(1) Cons.prems(1,2,5) by (auto simp: stream_step_defs split: list.splits if_splits)
  then show ?case using Cons.IH [of s1] Cons.prems s1(2) by simp
qed

end
