(* ===== verification/Memory_Saver.thy ===== *)
theory Memory_Saver
  imports Go_JSON Go_Errors
begin

text \<open>
  The interface \<^verbatim>\<open>BaseCheckpointer\<close> that the engine saves to and resumes from, as a locale with the laws
  a client relies on, and \<^verbatim>\<open>MemorySaver\<close> (\<^verbatim>\<open>checkpoint/memory.go\<close>), which is shown to satisfy
  them. A method holds the saver's lock, so it is one step.
\<close>

section \<open>The interface\<close>

text \<open>
  \<open>put uid now config cp s\<close> gives the error, if any, and the new state; \<open>uid\<close> is the identifier used when
  the configuration has none. \<open>get s config\<close> gives \<open>Inr None\<close> when there is no checkpoint.
  \<open>copy\<close> is what storing does to a payload. \<open>thread\<close> and \<open>cid\<close> read the thread and the
  checkpoint identifier of a configuration.
\<close>

locale checkpointer =
  fixes get :: "'s \<Rightarrow> goval gomap \<Rightarrow> goval gomap option go_result"
    and put :: "string \<Rightarrow> int \<Rightarrow> goval gomap \<Rightarrow> goval gomap \<Rightarrow> 's \<Rightarrow> go_error option \<times> 's"
    and copy :: "goval gomap \<Rightarrow> goval gomap"
    and thread :: "goval gomap \<Rightarrow> string option"
    and cid :: "goval gomap \<Rightarrow> string option"
    and empty :: "'s"
  assumes get_empty: "thread c = Some t \<Longrightarrow> cid c = None \<Longrightarrow> get empty c = Inr None"
    and put_ok: "thread c = Some t \<Longrightarrow> fst (put u n c cp s) = None"
    and get_put_latest:
      "thread c = Some t \<Longrightarrow> thread c' = Some t \<Longrightarrow> cid c' = None \<Longrightarrow>
       get (snd (put u n c cp s)) c' = Inr (Some (copy cp))"
    and get_put_other:
      "thread c = Some t \<Longrightarrow> thread c' = Some t' \<Longrightarrow> t' \<noteq> t \<Longrightarrow> get (snd (put u n c cp s)) c' = get s c'"
    and get_put_id:
      "thread c = Some t \<Longrightarrow> thread c' = Some t \<Longrightarrow> cid c' = Some i \<Longrightarrow> get s c' = Inr (Some old) \<Longrightarrow>
       get (snd (put u n c cp s)) c' = Inr (Some old)"
    and get_put_new_id:
      "thread c = Some t \<Longrightarrow> thread c' = Some t \<Longrightarrow> cid c = Some i \<Longrightarrow> cid c' = Some i \<Longrightarrow> get s c' = Inl e \<Longrightarrow>
       get (snd (put u n c cp s)) c' = Inr (Some (copy cp))"
begin

text \<open>A batch of saves, each with its own configuration, payload, identifier and time.\<close>

definition put_all :: "(string \<times> int \<times> goval gomap \<times> goval gomap) list \<Rightarrow> 's \<Rightarrow> 's" where
  "put_all ps s = fold (\<lambda>(u, n, c, cp) s. snd (put u n c cp s)) ps s"

lemma get_put_all_other:
  assumes "\<forall>(u, n, c, cp) \<in> set ps. \<exists>t. thread c = Some t \<and> t \<noteq> t'" and "thread c' = Some t'"
  shows "get (put_all ps s) c' = get s c'"
  using assms
proof (induction ps arbitrary: s)
  case (Cons p ps)
  obtain u n c cp where p: "p = (u, n, c, cp)" by (cases p) auto
  with Cons show ?case by (auto simp: put_all_def get_put_other)
qed (simp add: put_all_def)

text \<open>Resuming sees the last save of its thread, whatever other threads saved afterwards.\<close>

lemma resume_last_save:
  assumes "thread c = Some t" and "thread c' = Some t" and "cid c' = None"
    and "\<forall>(u, n, c, cp) \<in> set later. \<exists>t'. thread c = Some t' \<and> t' \<noteq> t"
  shows "get (put_all later (snd (put u n c cp s))) c' = Inr (Some (copy cp))"
  using assms get_put_all_other [OF assms(4,2)] by (simp add: get_put_latest)

text \<open>A saved checkpoint stays available under its identifier.\<close>

lemma replay_by_id:
  assumes "thread c = Some t" and "cid c = Some i" and "get s c = Inl e"
    and "\<forall>(u, n, c', cp') \<in> set later. thread c' = Some t"
  shows "get (put_all later (snd (put u n c cp s))) c = Inr (Some (copy cp))"
proof -
  have "get (put_all ps s') c = Inr (Some (copy cp))"
    if "get s' c = Inr (Some (copy cp))" "\<forall>(u, n, c', cp') \<in> set ps. thread c' = Some t" for ps s'
    using that
  proof (induction ps arbitrary: s')
    case (Cons p ps)
    obtain u n c' cp' where p: "p = (u, n, c', cp')" by (cases p) auto
    with Cons assms(1,2) show ?case by (auto simp: put_all_def get_put_id)
  qed (simp add: put_all_def)
  moreover have "get (snd (put u n c cp s)) c = Inr (Some (copy cp))"
    using assms by (simp add: get_put_new_id)
  ultimately show ?thesis using assms(4) by blast
qed

end

section \<open>The in-memory saver\<close>

definition ConfigKeyThreadID :: string where "ConfigKeyThreadID = ''thread_id''"
definition ConfigKeyCheckpointID :: string where "ConfigKeyCheckpointID = ''checkpoint_id''"

lemma config_keys [simp]: "ConfigKeyThreadID \<noteq> ConfigKeyCheckpointID" "ConfigKeyCheckpointID \<noteq> ConfigKeyThreadID"
  by (simp_all add: ConfigKeyThreadID_def ConfigKeyCheckpointID_def)

record checkpoint_entry =
  ce_ID :: string
  ce_ThreadID :: string
  ce_Checkpoint :: "goval gomap"
  ce_Metadata :: "goval gomap"
  ce_CreatedAt :: int
  ce_ParentID :: string

record memory_saver =
  ms_checkpoints :: "goval gomap gomap"
  ms_versions :: "checkpoint_entry list gomap"

definition NewMemorySaver :: memory_saver where
  "NewMemorySaver = \<lparr>ms_checkpoints = [], ms_versions = []\<rparr>"

definition versions_of :: "memory_saver \<Rightarrow> string \<Rightarrow> checkpoint_entry list" where
  "versions_of s t = (case map_of (ms_versions s) t of None \<Rightarrow> [] | Some es \<Rightarrow> es)"

definition config_string :: "string \<Rightarrow> goval gomap \<Rightarrow> string option" where
  "config_string key config = as_string (gm_val config key)"

definition ms_Get :: "memory_saver \<Rightarrow> goval gomap \<Rightarrow> goval gomap option go_result" where
  "ms_Get s config =
     (case config_string ConfigKeyThreadID config of
        None \<Rightarrow> Inl (Errorf ''thread_id is required'')
      | Some threadID \<Rightarrow>
          (case config_string ConfigKeyCheckpointID config of
             Some checkpointID \<Rightarrow>
               (case find (\<lambda>entry. ce_ID entry = checkpointID) (versions_of s threadID) of
                  Some entry \<Rightarrow> Inr (Some (deepCopyMap (ce_Checkpoint entry)))
                | None \<Rightarrow> Inl (Errorf (''checkpoint not found: '' @ checkpointID)))
           | None \<Rightarrow>
               (if length (versions_of s threadID) = 0 then Inr None
                else Inr (Some (deepCopyMap (ce_Checkpoint (last (versions_of s threadID))))))))"

definition ms_Put ::
  "string \<Rightarrow> int \<Rightarrow> goval gomap \<Rightarrow> goval gomap \<Rightarrow> memory_saver \<Rightarrow> go_error option \<times> memory_saver" where
  "ms_Put uuid now config cp s =
     (case config_string ConfigKeyThreadID config of
        None \<Rightarrow> (Some (Errorf ''thread_id is required''), s)
      | Some threadID \<Rightarrow>
          (let checkpointID = (case config_string ConfigKeyCheckpointID config of Some i \<Rightarrow> i | None \<Rightarrow> uuid);
               entry = \<lparr>ce_ID = checkpointID, ce_ThreadID = threadID, ce_Checkpoint = deepCopyMap cp,
                        ce_Metadata = deepCopyMap config, ce_CreatedAt = now,
                        ce_ParentID = (case config_string ''parent_checkpoint_id'' config of Some p \<Rightarrow> p | None \<Rightarrow> [])\<rparr>
           in (None, s\<lparr>ms_versions := gm_put threadID (versions_of s threadID @ [entry]) (ms_versions s),
                      ms_checkpoints := gm_put threadID (deepCopyMap cp) (ms_checkpoints s)\<rparr>)))"

definition ms_List :: "memory_saver \<Rightarrow> goval gomap \<Rightarrow> int \<Rightarrow> goval gomap list go_result" where
  "ms_List s config limit =
     (case config_string ConfigKeyThreadID config of
        None \<Rightarrow> Inl (Errorf ''thread_id is required'')
      | Some threadID \<Rightarrow>
          (let versions = versions_of s threadID;
               lim = (if limit \<le> 0 \<or> limit > int (length versions) then length versions else nat limit)
           in Inr (map (\<lambda>entry.
                 [(ConfigKeyCheckpointID, GStr (ce_ID entry)), (ConfigKeyThreadID, GStr (ce_ThreadID entry)),
                  (''metadata'', GMap (deepCopyMap (ce_Metadata entry))),
                  (''created_at'', GOther ''time.Time'' (nat (ce_CreatedAt entry))),
                  (''parent_id'', GStr (ce_ParentID entry))]) (take lim (rev versions)))))"

record checkpoint_state =
  cs_Checkpoint :: "goval gomap"
  cs_Metadata :: "goval gomap"

definition entry_state :: "checkpoint_entry \<Rightarrow> checkpoint_state" where
  "entry_state e = \<lparr>cs_Checkpoint = deepCopyMap (ce_Checkpoint e), cs_Metadata = deepCopyMap (ce_Metadata e)\<rparr>"

definition ms_GetState :: "memory_saver \<Rightarrow> goval gomap \<Rightarrow> checkpoint_state option go_result" where
  "ms_GetState s config =
     (case config_string ConfigKeyThreadID config of
        None \<Rightarrow> Inl (Errorf ''thread_id is required'')
      | Some threadID \<Rightarrow>
          (case config_string ConfigKeyCheckpointID config of
             None \<Rightarrow>
               (if length (versions_of s threadID) = 0 then Inr None
                else Inr (Some (entry_state (last (versions_of s threadID)))))
           | Some checkpointID \<Rightarrow>
               (case find (\<lambda>entry. ce_ID entry = checkpointID) (versions_of s threadID) of
                  Some entry \<Rightarrow> Inr (Some (entry_state entry))
                | None \<Rightarrow> Inl (Errorf (''checkpoint not found: '' @ checkpointID)))))"

section \<open>The saver satisfies the interface\<close>

lemma versions_of_Put:
  assumes "config_string ConfigKeyThreadID c = Some t"
  shows "\<exists>e. ce_ID e = (case config_string ConfigKeyCheckpointID c of Some i \<Rightarrow> i | None \<Rightarrow> u)
    \<and> ce_Checkpoint e = deepCopyMap cp
    \<and> (\<forall>t'. versions_of (snd (ms_Put u n c cp s)) t' = (if t' = t then versions_of s t @ [e] else versions_of s t'))"
  using assms
  by (auto simp: ms_Put_def Let_def versions_of_def gomap_simps split: option.split)

lemma find_snoc: "find P (xs @ [x]) = (case find P xs of Some y \<Rightarrow> Some y | None \<Rightarrow> if P x then Some x else None)"
  by (induction xs) simp_all

lemma ms_Get_alt:
  "config_string ConfigKeyThreadID c = Some t \<Longrightarrow>
   ms_Get s c =
     (case config_string ConfigKeyCheckpointID c of
        Some i \<Rightarrow>
          (case find (\<lambda>e. ce_ID e = i) (versions_of s t) of
             Some e \<Rightarrow> Inr (Some (deepCopyMap (ce_Checkpoint e)))
           | None \<Rightarrow> Inl (Errorf (''checkpoint not found: '' @ i)))
      | None \<Rightarrow>
          if versions_of s t = [] then Inr None
          else Inr (Some (deepCopyMap (ce_Checkpoint (last (versions_of s t))))))"
  by (simp add: ms_Get_def)

interpretation saver: checkpointer ms_Get ms_Put deepCopyMap
  "config_string ConfigKeyThreadID" "config_string ConfigKeyCheckpointID" NewMemorySaver
proof
  fix c t
  assume "config_string ConfigKeyThreadID c = Some t" "config_string ConfigKeyCheckpointID c = None"
  then show "ms_Get NewMemorySaver c = Inr None"
    by (simp add: ms_Get_alt versions_of_def NewMemorySaver_def)
next
  fix c t u n cp s
  assume "config_string ConfigKeyThreadID c = Some t"
  then show "fst (ms_Put u n c cp s) = None" by (simp add: ms_Put_def Let_def)
next
  fix c t c' u n cp s
  assume "config_string ConfigKeyThreadID c = Some t" "config_string ConfigKeyThreadID c' = Some t"
    "config_string ConfigKeyCheckpointID c' = None"
  then show "ms_Get (snd (ms_Put u n c cp s)) c' = Inr (Some (deepCopyMap cp))"
    using versions_of_Put [of c t u cp n s] by (auto simp: ms_Get_alt)
next
  fix c t c' t' u n cp s
  assume "config_string ConfigKeyThreadID c = Some t" "config_string ConfigKeyThreadID c' = Some t'" "t' \<noteq> t"
  then show "ms_Get (snd (ms_Put u n c cp s)) c' = ms_Get s c'"
    using versions_of_Put [of c t u cp n s] by (auto simp: ms_Get_alt split: option.split)
next
  fix c t c' i s old u n cp
  assume "config_string ConfigKeyThreadID c = Some t" "config_string ConfigKeyThreadID c' = Some t"
    "config_string ConfigKeyCheckpointID c' = Some i" "ms_Get s c' = Inr (Some old)"
  then show "ms_Get (snd (ms_Put u n c cp s)) c' = Inr (Some old)"
    using versions_of_Put [of c t u cp n s] by (auto simp: ms_Get_alt find_snoc split: option.splits)
next
  fix c t c' i s e u n cp
  assume "config_string ConfigKeyThreadID c = Some t" "config_string ConfigKeyThreadID c' = Some t"
    "config_string ConfigKeyCheckpointID c = Some i" "config_string ConfigKeyCheckpointID c' = Some i"
    "ms_Get s c' = Inl e"
  then show "ms_Get (snd (ms_Put u n c cp s)) c' = Inr (Some (deepCopyMap cp))"
    using versions_of_Put [of c t u cp n s] by (auto simp: ms_Get_alt find_snoc split: option.splits)
qed

text \<open>
  C19: a thread resumes from its own last checkpoint. After any further saves of other threads, reading
  a thread without an identifier gives the JSON copy of the payload it saved last, and a second
  copy of that payload is the same, so nothing is lost by saving again what was loaded.
\<close>

theorem saver_resume:
  assumes "config_string ConfigKeyThreadID c = Some t"
    and "config_string ConfigKeyThreadID c' = Some t" and "config_string ConfigKeyCheckpointID c' = None"
    and "\<forall>(u, n, c, cp) \<in> set later. \<exists>t'. config_string ConfigKeyThreadID c = Some t' \<and> t' \<noteq> t"
  shows "ms_Get (fold (\<lambda>(u, n, c, cp) s. snd (ms_Put u n c cp s)) later (snd (ms_Put u n c cp s))) c'
      = Inr (Some (deepCopyMap cp))
    \<and> deepCopyMap (deepCopyMap cp) = deepCopyMap cp"
  using saver.resume_last_save [OF assms] by (simp add: saver.put_all_def)

theorem saver_resume_witness:
  "let c = [(''thread_id'', GStr ''a'')]; d = [(''thread_id'', GStr ''b'')];
       s = snd (ms_Put ''1'' 0 c [(''n'', GInt 3)] NewMemorySaver)
   in ms_Get (snd (ms_Put ''2'' 0 d [(''n'', GInt 4)] s)) c = Inr (Some (deepCopyMap [(''n'', GInt 3)]))"
  using saver_resume [of "[(''thread_id'', GStr ''a'')]" "''a''" "[(''thread_id'', GStr ''a'')]"
      "[(''2'', 0, [(''thread_id'', GStr ''b'')], [(''n'', GInt 4)])]" "''1''" 0 "[(''n'', GInt 3)]" NewMemorySaver]
  by (simp add: config_string_def gm_val_def as_string_def ConfigKeyThreadID_def ConfigKeyCheckpointID_def)

text \<open>
  A checkpoint stays available for replay. Once saved under a new identifier, it is returned for
  that identifier after any further saves of its thread.
\<close>

theorem saver_replay:
  assumes "config_string ConfigKeyThreadID c = Some t" and "config_string ConfigKeyCheckpointID c = Some i"
    and "ms_Get s c = Inl e" and "\<forall>(u, n, c', cp') \<in> set later. config_string ConfigKeyThreadID c' = Some t"
  shows "ms_Get (fold (\<lambda>(u, n, c, cp) s. snd (ms_Put u n c cp s)) later (snd (ms_Put u n c cp s))) c
    = Inr (Some (deepCopyMap cp))"
  using saver.replay_by_id [OF assms] by (simp add: saver.put_all_def)

theorem saver_replay_witness:
  "let c = [(''thread_id'', GStr ''a''), (''checkpoint_id'', GStr ''k'')];
       s = snd (ms_Put ''1'' 0 c [(''n'', GInt 3)] NewMemorySaver)
   in ms_Get (snd (ms_Put ''2'' 0 [(''thread_id'', GStr ''a'')] [(''n'', GInt 4)] s)) c
      = Inr (Some (deepCopyMap [(''n'', GInt 3)]))"
proof -
  define c where "c = [(''thread_id'', GStr ''a''), (''checkpoint_id'', GStr ''k'')]"
  have c: "config_string ConfigKeyThreadID c = Some ''a''" "config_string ConfigKeyCheckpointID c = Some ''k''"
    by (simp_all add: c_def config_string_def gm_val_def ConfigKeyThreadID_def ConfigKeyCheckpointID_def)
  have "ms_Get NewMemorySaver c = Inl (Errorf ''checkpoint not found: k'')"
    by (simp add: ms_Get_alt [OF c(1)] c(2) versions_of_def NewMemorySaver_def)
  from saver_replay [OF c this, of "[(''2'', 0, [(''thread_id'', GStr ''a'')], [(''n'', GInt 4)])]" "''1''" 0 "[(''n'', GInt 3)]"]
  show ?thesis
    unfolding Let_def c_def [symmetric]
    by (simp add: config_string_def gm_val_def ConfigKeyThreadID_def)
qed

end
