(* ===== verification/Pregel_Engine.thy ===== *)
theory Pregel_Engine
  imports Pregel_Writes Stream_Events Memory_Saver
begin

text \<open>
  The run of a graph (\<^verbatim>\<open>Engine.Run\<close>, \<^verbatim>\<open>RunSync\<close>, the execution of tasks and the saving of checkpoints in
  \<^verbatim>\<open>pregel/engine.go\<close>).

  A run is one loop of supersteps over an explicit state: the engine, the channel registry, the completed
  tasks, the last completed node, the last state, the checkpointer's state and the events emitted. What the run
  takes from its surroundings is the argument \<open>env\<close>: fresh identifiers and times, the
  cancellation of the context, the order in which the goroutines of a step read the channels, the
  text of a value, the text form of JSON, and the checkpointer. An error sent to the error channel is the
  first component of the result; \<open>GoPanic\<close> there is a panic of the run's goroutine, which nothing recovers.
\<close>

section \<open>The surroundings of a run\<close>

record 's checkpointer_ops =
  co_Get :: "'s \<Rightarrow> goval gomap \<Rightarrow> goval gomap option go_result"
  co_Put :: "string \<Rightarrow> int \<Rightarrow> goval gomap \<Rightarrow> goval gomap \<Rightarrow> 's \<Rightarrow> go_error option \<times> 's"

record 's run_env =
  env_checkpointer :: "'s checkpointer_ops option"
  env_fv :: "goval \<Rightarrow> string"
  env_conv :: "go_kind \<Rightarrow> goval \<Rightarrow> goval option"
  env_marshal :: "goval \<Rightarrow> string option"
  env_unmarshal :: "string \<Rightarrow> goval gomap option"
  env_parseTime :: "string \<Rightarrow> int option"
  env_threadUUID :: string
  env_taskUUID :: "int \<Rightarrow> nat \<Rightarrow> string"
  env_checkpointUUID :: "int \<Rightarrow> string"
  env_now :: "int \<Rightarrow> int"
  env_duration :: "int \<Rightarrow> nat \<Rightarrow> string"
  env_done :: "int \<Rightarrow> go_error option"
  env_taskDone :: "int \<Rightarrow> nat \<Rightarrow> go_error option"
  env_retryDone :: "int \<Rightarrow> nat \<Rightarrow> nat \<Rightarrow> go_error option"
  env_interleaving :: "int \<Rightarrow> nat list"

record 's run_state =
  rs_engine :: engine
  rs_registry :: registry
  rs_completed :: "bool gomap"
  rs_lastNode :: string
  rs_lastState :: goval
  rs_store :: 's
  rs_async :: "deferred_checkpoint list"
  rs_events :: "stream_event list"

definition getThreadID :: "'s run_env \<Rightarrow> engine \<Rightarrow> string" where
  "getThreadID env e =
     (case en_config e of
        None \<Rightarrow> env_threadUUID env
      | Some cfg \<Rightarrow>
          (case Configurable cfg of
             None \<Rightarrow> env_threadUUID env
           | Some m \<Rightarrow> (case as_string (gm_val m ''thread_id'') of Some tid \<Rightarrow> tid | None \<Rightarrow> env_threadUUID env)))"

text \<open>A panic is not wrapped, it ends the goroutine.\<close>

definition wrap_err :: "string \<Rightarrow> go_error \<Rightarrow> go_error" where
  "wrap_err msg err = (case IsPanic err of Some s \<Rightarrow> err | None \<Rightarrow> WrapErr msg err)"

definition emit_event :: "stream_event \<Rightarrow> 's run_state \<Rightarrow> 's run_state" where
  "emit_event ev rs = rs\<lparr>rs_events := rs_events rs @ [ev]\<rparr>"

section \<open>Reading the inputs of a step\<close>

text \<open>
  The goroutines of a step read the channels of their tasks one after another, interleaved with each other.
  The progress of a goroutine is the channels it still has to read, the values so far and the
  error that stopped it. The interleaving names the goroutine that takes the next turn; after it the goroutines
  finish in order.
\<close>

type_synonym progress = "string list \<times> goval gomap \<times> go_error option"

fun read_one :: "registry \<Rightarrow> progress \<Rightarrow> registry \<times> progress" where
  "read_one r ([], values, err) = (r, ([], values, err))"
| "read_one r (n # ns, values, err) =
     (case reg_Get r n of
        None \<Rightarrow> (r, (ns, values, err))
      | Some ch \<Rightarrow>
          (let r' = Register n (snd (ch_Get ch)) r
           in case fst (ch_Get ch) of
                Inl er \<Rightarrow> if IsEmptyChannelError er then (r', (ns, values, err)) else (r', ([], values, Some er))
              | Inr v \<Rightarrow> (r', (ns, gm_put n v values, err))))"

fun interleave :: "nat list \<Rightarrow> registry \<Rightarrow> progress list \<Rightarrow> registry \<times> progress list" where
  "interleave [] r ps = (r, ps)"
| "interleave (i # turns) r ps =
     (if i < length ps
      then let (r', p) = read_one r (ps ! i) in interleave turns r' (ps[i := p])
      else interleave turns r ps)"

definition remaining_turns :: "task list \<Rightarrow> nat list" where
  "remaining_turns tasks = concat (map (\<lambda>i. replicate (length (tk_Channels (tasks ! i))) i) [0..<length tasks])"

definition progress_input :: "progress \<Rightarrow> goval go_result" where
  "progress_input = (\<lambda>(todo, values, err). case err of None \<Rightarrow> Inr (GMap values) | Some er \<Rightarrow> Inl er)"

definition read_inputs :: "nat list \<Rightarrow> registry \<Rightarrow> task list \<Rightarrow> goval go_result list \<times> registry" where
  "read_inputs turns r tasks =
     (let (r', ps) = interleave (turns @ remaining_turns tasks) r (map (\<lambda>t. (tk_Channels t, [], None)) tasks)
      in (map progress_input ps, r'))"

section \<open>Executing tasks\<close>

text \<open>The call context of a node: the step, the attempt, and the bytes of the sub-state of a resumed run.\<close>

definition node_call :: "node_func option \<Rightarrow> go_ctx \<Rightarrow> goval \<Rightarrow> goval \<times> go_error option" where
  "node_call fn ctx input = (case call_node fn ctx input of Inr v \<Rightarrow> (v, None) | Inl err \<Rightarrow> (GNil, Some err))"

definition task_policy :: "task \<Rightarrow> retry_policy" where
  "task_policy t = (case tk_RetryPolicy t of None \<Rightarrow> DefaultRetryPolicy | Some p \<Rightarrow> p)"

definition run_task ::
  "'s run_env \<Rightarrow> engine \<Rightarrow> int \<Rightarrow> string \<Rightarrow> nat \<Rightarrow> task \<Rightarrow> goval go_result
   \<Rightarrow> (task_result \<times> stream_event list) go_result" where
  "run_task env e step sub idx t input =
     (case input of
        Inl err \<Rightarrow>
          Inr (\<lparr>tr_Name = tk_Name t, tr_Output = GNil, tr_Err = Some (WrapErr ''failed to read task input: '' err)\<rparr>, [])
      | Inr input \<Rightarrow>
          (case mapToStateSchema (env_conv env) (sg_stateSchema (en_graph e)) input of
             Inl panic \<Rightarrow> Inl panic
           | Inr convertedInput \<Rightarrow>
               (let (output, err) = Execute (task_policy t) (tk_Name t)
                      (\<lambda>attempt. node_call (tk_Func t) ([nat step, attempt] @ map of_char sub) convertedInput)
                      (env_retryDone env step idx)
                in case env_taskDone env step idx of
                     Some ctxErr \<Rightarrow> Inr (\<lparr>tr_Name = tk_Name t, tr_Output = GNil, tr_Err = Some ctxErr\<rparr>, [])
                   | None \<Rightarrow>
                       Inr (\<lparr>tr_Name = tk_Name t, tr_Output = output, tr_Err = err\<rparr>,
                            [task_end_event step (tk_Name t) (tk_ID t) output (env_duration env step idx) err,
                             case err of None \<Rightarrow> update_event step (tk_Name t) output
                                       | Some er \<Rightarrow> error_event (env_fv env) step er (tk_Name t)]))))"

fun gather :: "'a go_result list \<Rightarrow> 'a list go_result" where
  "gather [] = Inr []"
| "gather (Inl err # xs) = Inl err"
| "gather (Inr x # xs) = (case gather xs of Inl err \<Rightarrow> Inl err | Inr ys \<Rightarrow> Inr (x # ys))"

definition executeTasksAsync ::
  "'s run_env \<Rightarrow> engine \<Rightarrow> int \<Rightarrow> string \<Rightarrow> task list \<Rightarrow> registry
   \<Rightarrow> (task_result list \<times> stream_event list) go_result \<times> registry" where
  "executeTasksAsync env e step sub tasks r =
     (let (inputs, r') = read_inputs (env_interleaving env step) r tasks;
          outs = gather (map (\<lambda>i. run_task env e step sub i (tasks ! i) (inputs ! i)) [0..<length tasks])
      in ((case outs of Inl panic \<Rightarrow> Inl panic | Inr rs \<Rightarrow> Inr (map fst rs, concat (map snd rs))), r'))"

text \<open>The synchronous variant of one task.\<close>

definition executeTask ::
  "'s run_env \<Rightarrow> engine \<Rightarrow> go_ctx \<Rightarrow> (nat \<Rightarrow> go_error option) \<Rightarrow> task \<Rightarrow> registry \<Rightarrow> task_result go_result \<times> registry" where
  "executeTask env e ctx cancelled t r =
     (case readTaskInput r t of
        (Inl err, r') \<Rightarrow>
          (Inr \<lparr>tr_Name = tk_Name t, tr_Output = GNil, tr_Err = Some (WrapErr ''failed to read task input: '' err)\<rparr>, r')
      | (Inr input, r') \<Rightarrow>
          (case mapToStateSchema (env_conv env) (sg_stateSchema (en_graph e)) input of
             Inl panic \<Rightarrow> (Inl panic, r')
           | Inr input \<Rightarrow>
               (case Execute (task_policy t) (tk_Name t) (\<lambda>attempt. node_call (tk_Func t) (attempt # ctx) input) cancelled of
                  (output, None) \<Rightarrow> (Inr \<lparr>tr_Name = tk_Name t, tr_Output = output, tr_Err = None\<rparr>, r')
                | (output, Some err) \<Rightarrow>
                    (if IsRetryExhausted err
                     then (Inr \<lparr>tr_Name = tk_Name t, tr_Output = GNil, tr_Err = Some (WrapErr ''max retries exceeded: '' err)\<rparr>, r')
                     else (Inr \<lparr>tr_Name = tk_Name t, tr_Output = GNil, tr_Err = Some err\<rparr>, r')))))"

section \<open>Saving checkpoints\<close>

definition saveCheckpoint ::
  "'s run_env \<Rightarrow> string \<Rightarrow> string \<Rightarrow> int \<Rightarrow> goval gomap \<Rightarrow> 's \<Rightarrow> go_error option \<times> 's" where
  "saveCheckpoint env threadID checkpointID step cp store =
     (case env_checkpointer env of
        None \<Rightarrow> (None, store)
      | Some co \<Rightarrow>
          co_Put co (env_checkpointUUID env step) (env_now env step)
            [(ConfigKeyThreadID, GStr threadID), (ConfigKeyCheckpointID, GStr checkpointID), (''step'', GInt (of_int step))]
            cp store)"

definition deferCheckpoint :: "string \<Rightarrow> string \<Rightarrow> int \<Rightarrow> goval gomap \<Rightarrow> engine \<Rightarrow> engine" where
  "deferCheckpoint threadID checkpointID step cp e =
     e\<lparr>en_deferredCheckpoints := en_deferredCheckpoints e @
         [\<lparr>dc_ThreadID = threadID, dc_CheckpointID = checkpointID, dc_Step = step, dc_Checkpoint = cp\<rparr>]\<rparr>"

fun save_deferred_loop ::
  "'s run_env \<Rightarrow> deferred_checkpoint list \<Rightarrow> go_error option \<Rightarrow> 's \<Rightarrow> go_error option \<times> 's" where
  "save_deferred_loop env [] lastErr store = (lastErr, store)"
| "save_deferred_loop env (dc # dcs) lastErr store =
     (let (err, store') = saveCheckpoint env (dc_ThreadID dc) (dc_CheckpointID dc) (dc_Step dc) (dc_Checkpoint dc) store
      in save_deferred_loop env dcs (if err \<noteq> None then err else lastErr) store')"

definition saveDeferredCheckpoints :: "'s run_env \<Rightarrow> engine \<Rightarrow> 's \<Rightarrow> go_error option \<times> engine \<times> 's" where
  "saveDeferredCheckpoints env e store =
     (if env_checkpointer env = None \<or> length (en_deferredCheckpoints e) = 0 then (None, e, store)
      else let (lastErr, store') = save_deferred_loop env (en_deferredCheckpoints e) None store
           in (lastErr, e\<lparr>en_deferredCheckpoints := []\<rparr>, store'))"

definition put_thread ::
  "'s run_env \<Rightarrow> string \<Rightarrow> int \<Rightarrow> goval gomap \<Rightarrow> 's \<Rightarrow> go_error option \<times> 's" where
  "put_thread env threadID step cp store =
     (case env_checkpointer env of
        None \<Rightarrow> (None, store)
      | Some co \<Rightarrow> co_Put co (env_checkpointUUID env step) (env_now env step) [(ConfigKeyThreadID, GStr threadID)] cp store)"

section \<open>After the tasks of a step\<close>

definition is_interrupt :: "task_result \<Rightarrow> bool" where
  "is_interrupt result \<longleftrightarrow> (case tr_Err result of None \<Rightarrow> False | Some err \<Rightarrow> IsGraphInterrupt err)"

fun mark_results :: "task_result list \<Rightarrow> bool gomap \<Rightarrow> string \<Rightarrow> goval \<Rightarrow> bool gomap \<times> string \<times> goval" where
  "mark_results [] completed lastNode lastState = (completed, lastNode, lastState)"
| "mark_results (result # results) completed lastNode lastState =
     (if is_interrupt result then mark_results results completed lastNode lastState
      else if tr_Err result = None
      then mark_results results (gm_put (tr_Name result) True completed) (tr_Name result)
             (mergeStates lastState (tr_Output result))
      else mark_results results completed lastNode lastState)"

definition all_failed :: "task_result list \<Rightarrow> bool" where
  "all_failed results \<longleftrightarrow> length results > 0 \<and> list_all (\<lambda>result. tr_Err result \<noteq> None) results"

text \<open>The first result whose error is itself an interrupt with a value.\<close>

definition first_interrupt :: "task_result list \<Rightarrow> goval list option" where
  "first_interrupt results =
     (case find (\<lambda>r. case tr_Err r of Some (GraphInterrupt (i # is)) \<Rightarrow> True | _ \<Rightarrow> False) results of
        Some r \<Rightarrow> (case tr_Err r of Some (GraphInterrupt is) \<Rightarrow> Some is | _ \<Rightarrow> None)
      | None \<Rightarrow> None)"

definition interrupt_value :: "goval \<Rightarrow> goval" where
  "interrupt_value i =
     (case i of GPtr (GStruct n z fs) \<Rightarrow> (if n = ''types.Interrupt'' then gm_val fs ''Value'' else GNil) | _ \<Rightarrow> GNil)"

definition sub_state :: "'s run_env \<Rightarrow> task_result list \<Rightarrow> string option" where
  "sub_state env results =
     (case first_interrupt results of
        Some (i # is) \<Rightarrow> (if interrupt_value i = GNil then None else env_marshal env (interrupt_value i))
      | _ \<Rightarrow> None)"

definition put_opt :: "string \<Rightarrow> goval option \<Rightarrow> goval gomap \<Rightarrow> goval gomap" where
  "put_opt k v m = (case v of None \<Rightarrow> m | Some v \<Rightarrow> gm_put k v m)"

definition interrupt_payload ::
  "'s run_env \<Rightarrow> int \<Rightarrow> registry \<Rightarrow> bool gomap \<Rightarrow> string \<Rightarrow> goval \<Rightarrow> task_result list \<Rightarrow> goval gomap" where
  "interrupt_payload env step r completed lastNode lastState results =
     (let cpPayload = gm_merge [] (CreateCheckpoint r);
          cpPayload = gm_put ''__completed_tasks__'' (GStr (serializeStringSet completed)) cpPayload;
          cpPayload = gm_put ''__last_completed_node__'' (GStr lastNode) cpPayload;
          cpPayload = gm_put ''__step__'' (GFloat (f_of_int step)) cpPayload;
          cpPayload = put_opt ''__last_state__''
            (if lastState \<noteq> GNil then map_option GStr (env_marshal env lastState) else None) cpPayload
      in put_opt ''__sub_state__'' (map_option GBytes (sub_state env results)) cpPayload)"

text \<open>The verb \<^verbatim>\<open>%T\<close> on an error.\<close>

fun err_type :: "go_error \<Rightarrow> string" where
  "err_type (EmptyChannelError m) = ''*errors.EmptyChannelError''"
| "err_type (GraphRecursionError l) = ''*errors.GraphRecursionError''"
| "err_type (InvalidUpdateError m) = ''*errors.InvalidUpdateError''"
| "err_type (GraphBubbleUp m e) = ''*errors.GraphBubbleUp''"
| "err_type (GraphInterrupt is) = ''*errors.GraphInterrupt''"
| "err_type (ParentCommand c) = ''*errors.ParentCommand''"
| "err_type (EmptyInputError m) = ''*errors.EmptyInputError''"
| "err_type (TaskNotFound t) = ''*errors.TaskNotFound''"
| "err_type (InvalidNodeError n m) = ''*errors.InvalidNodeError''"
| "err_type (InvalidEdgeError a b m) = ''*errors.InvalidEdgeError''"
| "err_type (ChannelNotFoundError c) = ''*errors.ChannelNotFoundError''"
| "err_type (NodeNotFoundError n) = ''*errors.NodeNotFoundError''"
| "err_type (ErrorContext c m st e md) = ''*errors.ErrorContext''"
| "err_type (VersionConflictError a b c d) = ''*checkpoint.VersionConflictError''"
| "err_type (RetryExhaustedError n a e out) = ''*pregel.RetryExhaustedError''"
| "err_type (StoreError a b) = ''*store.StoreError''"
| "err_type (Errorf s) = ''*errors.errorString''"
| "err_type (WrapErr s e) = ''*fmt.wrapError''"
| "err_type (ContextErr s) = (if s = ''context canceled'' then ''*errors.errorString'' else ''context.deadlineExceededError'')"
| "err_type (GoPanic s) = ''runtime.Error''"

definition failure_text :: "(goval \<Rightarrow> string) \<Rightarrow> task_result list \<Rightarrow> string" where
  "failure_text fv results =
     concat (map (\<lambda>r. case tr_Err r of
                        Some err \<Rightarrow> '' '' @ tr_Name r @ ''='' @ err_type err @ ''('' @ err_Error fv err @ '')''
                      | None \<Rightarrow> '' '' @ tr_Name r @ ''=<nil>(<nil>)'') results)"

section \<open>One superstep\<close>

datatype step_result = Continue | Finished | Failed go_error

definition interrupt_before ::
  "'s run_env \<Rightarrow> string \<Rightarrow> int \<Rightarrow> task list \<Rightarrow> 's run_state \<Rightarrow> step_result \<times> 's run_state" where
  "interrupt_before env threadID step interrupted rs =
     (case put_thread env threadID step (CreateCheckpoint (rs_registry rs)) (rs_store rs) of
        (Some err, store) \<Rightarrow> (Failed (WrapErr ''failed to save checkpoint: '' err), rs\<lparr>rs_store := store\<rparr>)
      | (None, store) \<Rightarrow>
          (Failed (GraphInterrupt []), emit_event (interrupt_event step (map tk_Name interrupted)) (rs\<lparr>rs_store := store\<rparr>)))"

definition interrupt_during ::
  "'s run_env \<Rightarrow> string \<Rightarrow> int \<Rightarrow> task_result list \<Rightarrow> 's run_state \<Rightarrow> step_result \<times> 's run_state" where
  "interrupt_during env threadID step results rs =
     (case put_thread env threadID step
             (interrupt_payload env step (rs_registry rs) (rs_completed rs) (rs_lastNode rs) (rs_lastState rs) results)
             (rs_store rs) of
        (Some err, store) \<Rightarrow> (Failed (WrapErr ''failed to save checkpoint on interrupt: '' err), rs\<lparr>rs_store := store\<rparr>)
      | (None, store) \<Rightarrow>
          (Failed (case first_interrupt results of Some is \<Rightarrow> GraphInterrupt is | None \<Rightarrow> GraphInterrupt []),
           emit_event (interrupt_event step (map tr_Name (filter is_interrupt results))) (rs\<lparr>rs_store := store\<rparr>)))"

text \<open>
  The asynchronous mode starts a goroutine that saves; when it runs is open, so its save is only recorded.
\<close>

definition save_step ::
  "'s run_env \<Rightarrow> string \<Rightarrow> int \<Rightarrow> 's run_state \<Rightarrow> go_error option \<times> 's run_state" where
  "save_step env threadID step rs =
     (if env_checkpointer env = None then (None, rs)
      else let cp = CreateCheckpoint (rs_registry rs);
               checkpointID = env_checkpointUUID env step
           in case en_config (rs_engine rs) of
                None \<Rightarrow> (Some (GoPanic ''invalid memory address or nil pointer dereference''), rs)
              | Some cfg \<Rightarrow>
                  if Durability cfg = DurabilityAsync
                  then (None, rs\<lparr>rs_async := rs_async rs @
                          [\<lparr>dc_ThreadID = threadID, dc_CheckpointID = checkpointID, dc_Step = step, dc_Checkpoint = cp\<rparr>]\<rparr>)
                  else if Durability cfg = DurabilityExit
                  then (None, rs\<lparr>rs_engine := deferCheckpoint threadID checkpointID step cp (rs_engine rs)\<rparr>)
                  else (let (err, store) = saveCheckpoint env threadID checkpointID step cp (rs_store rs)
                        in (map_option (WrapErr ''failed to save checkpoint: '') err, rs\<lparr>rs_store := store\<rparr>)))"

definition emit_values :: "int \<Rightarrow> 's run_state \<Rightarrow> 's run_state" where
  "emit_values step rs =
     (case GetValues (rs_registry rs) of
        (Inl err, r) \<Rightarrow> rs\<lparr>rs_registry := r\<rparr>
      | (Inr values, r) \<Rightarrow> emit_event (values_event step values) (rs\<lparr>rs_registry := r\<rparr>))"

definition commit_step ::
  "'s run_env \<Rightarrow> string \<Rightarrow> int \<Rightarrow> task_result list \<Rightarrow> string list \<Rightarrow> 's run_state \<Rightarrow> step_result \<times> 's run_state" where
  "commit_step env threadID step results triggers rs =
     (case applyWrites (rs_engine rs) (rs_registry rs) results triggers of
        (Inl err, e, r) \<Rightarrow>
          (Failed (wrap_err ''failed to apply writes: '' err), rs\<lparr>rs_engine := e, rs_registry := r\<rparr>)
      | (Inr updated, e, r) \<Rightarrow>
          (let rs = emit_values step (rs\<lparr>rs_engine := e, rs_registry := r\<rparr>)
           in case save_step env threadID step rs of
                (Some err, rs) \<Rightarrow> (Failed err, rs)
              | (None, rs) \<Rightarrow>
                  if shouldInterruptAfter (rs_engine rs) results then (Failed (GraphInterrupt []), rs)
                  else (Continue, rs)))"

definition finish_tasks ::
  "'s run_env \<Rightarrow> string \<Rightarrow> int \<Rightarrow> task_result list \<Rightarrow> string list \<Rightarrow> 's run_state \<Rightarrow> step_result \<times> 's run_state" where
  "finish_tasks env threadID step results triggers rs =
     (let (completed, lastNode, lastState) = mark_results results (rs_completed rs) (rs_lastNode rs) (rs_lastState rs);
          rs = rs\<lparr>rs_completed := completed, rs_lastNode := lastNode, rs_lastState := lastState\<rparr>
      in if list_ex is_interrupt results then interrupt_during env threadID step results rs
         else if all_failed results
         then (Failed (Errorf (''all '' @ fmt_d (int (length results)) @ '' tasks failed in step '' @ fmt_d step @ '': ''
                 @ failure_text (env_fv env) results)), rs)
         else commit_step env threadID step results triggers rs)"

definition superstep ::
  "'s run_env \<Rightarrow> string \<Rightarrow> string \<Rightarrow> int \<Rightarrow> 's run_state \<Rightarrow> step_result \<times> 's run_state" where
  "superstep env threadID sub step rs =
     (let rs = emit_event (checkpoint_event step (CreateCheckpoint (rs_registry rs))) rs
      in case prepareNextTasks (env_fv env) (env_taskUUID env step) [nat step] (rs_engine rs) (rs_registry rs)
                (rs_completed rs) (rs_lastNode rs) (rs_lastState rs) of
           Inl err \<Rightarrow> (Failed (WrapErr ''failed to prepare next tasks: '' err), rs)
         | Inr (tasks, triggers) \<Rightarrow>
             (let rs = fold (\<lambda>t. emit_event (task_start_event step (tk_Name t) (tk_ID t))) tasks rs;
                  interrupted = shouldInterrupt (rs_engine rs) tasks
              in if length tasks = 0 then (Finished, rs)
                 else if length interrupted > 0 then interrupt_before env threadID step interrupted rs
                 else case executeTasksAsync env (rs_engine rs) step sub tasks (rs_registry rs) of
                        (Inl panic, r) \<Rightarrow> (Failed panic, rs\<lparr>rs_registry := r\<rparr>)
                      | (Inr (results, evs), r) \<Rightarrow>
                          finish_tasks env threadID step results triggers
                            (rs\<lparr>rs_registry := r, rs_events := rs_events rs @ evs\<rparr>)))"

section \<open>What a superstep leaves alone\<close>

text \<open>The settings of an engine, which no operation of a run changes.\<close>

definition setup_of :: "engine \<Rightarrow> engine" where
  "setup_of e = e\<lparr>en_currentCheckpoint := None, en_channelVersions := [], en_versionsSeen := [], en_deferredCheckpoints := []\<rparr>"

lemma setup_of_updates [simp]:
  "setup_of (e\<lparr>en_currentCheckpoint := c\<rparr>) = setup_of e" "setup_of (e\<lparr>en_channelVersions := v\<rparr>) = setup_of e"
  "setup_of (e\<lparr>en_versionsSeen := s\<rparr>) = setup_of e" "setup_of (e\<lparr>en_deferredCheckpoints := d\<rparr>) = setup_of e"
  by (simp_all add: setup_of_def)

lemma setup_of_eqD:
  assumes "setup_of e' = setup_of e"
  shows "en_graph e' = en_graph e" "en_interrupts e' = en_interrupts e" "en_interruptsAfter e' = en_interruptsAfter e"
    "en_recursionLimit e' = en_recursionLimit e" "en_config e' = en_config e" "en_retryPolicy e' = en_retryPolicy e"
  using assms unfolding setup_of_def by (cases e; cases e'; simp)+

lemma setup_of_ops [simp]:
  "setup_of (bump_version n e) = setup_of e" "setup_of (markSeen n c e) = setup_of e"
  "setup_of (store_pending p e) = setup_of e" "setup_of (deferCheckpoint t i s cp e) = setup_of e"
  by (simp_all add: bump_version_def markSeen_def store_pending_def deferCheckpoint_def)

lemma setup_of_fold: "(\<And>x e. setup_of (f x e) = setup_of e) \<Longrightarrow> setup_of (fold f xs e) = setup_of e"
  by (induction xs arbitrary: e) simp_all

lemma setup_of_mark_updates [simp]: "setup_of (mark_updates triggered updated ws e) = setup_of e"
  unfolding mark_updates_def by (rule setup_of_fold) (auto intro!: setup_of_fold [where f = "markSeen n" for n])

lemma setup_of_update_loop: "setup_of (fst (snd (update_loop ws e r u))) = setup_of e"
  by (induction ws e r u rule: update_loop.induct) (auto simp: Let_def split: prod.split sum.split)

lemma setup_of_applyWrites [simp]: "setup_of (fst (snd (applyWrites e r results triggered))) = setup_of e"
proof (cases "collect_writes e (sort_key tr_Name results) ([], [])")
  case (Inr wp)
  obtain writes pending where "wp = (writes, pending)" by (cases wp)
  with Inr show ?thesis
    using setup_of_update_loop [of writes e r "[]"]
    by (auto simp: applyWrites_def split: prod.split sum.split)
qed (simp add: applyWrites_def)

lemma emit_event_sel [simp]:
  "rs_engine (emit_event ev rs) = rs_engine rs" "rs_registry (emit_event ev rs) = rs_registry rs"
  "rs_completed (emit_event ev rs) = rs_completed rs" "rs_lastNode (emit_event ev rs) = rs_lastNode rs"
  "rs_lastState (emit_event ev rs) = rs_lastState rs" "rs_store (emit_event ev rs) = rs_store rs"
  "rs_async (emit_event ev rs) = rs_async rs" "rs_events (emit_event ev rs) = rs_events rs @ [ev]"
  by (simp_all add: emit_event_def)

lemma fold_emit_sel [simp]:
  "rs_engine (fold (\<lambda>t. emit_event (f t)) ts rs) = rs_engine rs"
    "rs_registry (fold (\<lambda>t. emit_event (f t)) ts rs) = rs_registry rs"
    "rs_completed (fold (\<lambda>t. emit_event (f t)) ts rs) = rs_completed rs"
    "rs_lastNode (fold (\<lambda>t. emit_event (f t)) ts rs) = rs_lastNode rs"
    "rs_lastState (fold (\<lambda>t. emit_event (f t)) ts rs) = rs_lastState rs"
    "rs_store (fold (\<lambda>t. emit_event (f t)) ts rs) = rs_store rs"
    "rs_events (fold (\<lambda>t. emit_event (f t)) ts rs) = rs_events rs @ map f ts"
  by (induction ts arbitrary: rs) simp_all

lemma emit_values_sel [simp]:
  "rs_engine (emit_values step rs) = rs_engine rs" "rs_completed (emit_values step rs) = rs_completed rs"
  "rs_lastNode (emit_values step rs) = rs_lastNode rs" "rs_lastState (emit_values step rs) = rs_lastState rs"
  "rs_store (emit_values step rs) = rs_store rs"
  by (auto simp: emit_values_def split: prod.split sum.split)

lemma save_step_sel [simp]:
  "setup_of (rs_engine (snd (save_step env threadID step rs))) = setup_of (rs_engine rs)"
  "rs_registry (snd (save_step env threadID step rs)) = rs_registry rs"
  "rs_completed (snd (save_step env threadID step rs)) = rs_completed rs"
  "rs_lastNode (snd (save_step env threadID step rs)) = rs_lastNode rs"
  "rs_lastState (snd (save_step env threadID step rs)) = rs_lastState rs"
  "rs_events (snd (save_step env threadID step rs)) = rs_events rs"
  by (auto simp: save_step_def Let_def split: option.split prod.split)

lemma setup_of_commit: "setup_of (rs_engine (snd (commit_step env threadID step results triggers rs))) = setup_of (rs_engine rs)"
proof -
  obtain res e r where w: "applyWrites (rs_engine rs) (rs_registry rs) results triggers = (res, e, r)"
    by (metis prod_cases3)
  have e: "setup_of e = setup_of (rs_engine rs)" using setup_of_applyWrites [of "rs_engine rs"] w by (metis fst_conv snd_conv)
  obtain err rs' where s: "save_step env threadID step (emit_values step (rs\<lparr>rs_engine := e, rs_registry := r\<rparr>)) = (err, rs')"
    by (metis surj_pair)
  have "setup_of (rs_engine rs') = setup_of e"
    using save_step_sel(1) [of env threadID step "emit_values step (rs\<lparr>rs_engine := e, rs_registry := r\<rparr>)"] s by simp
  then show ?thesis using e by (auto simp: commit_step_def w s Let_def split: sum.split option.split)
qed

lemma setup_of_finish: "setup_of (rs_engine (snd (finish_tasks env threadID step results triggers rs))) = setup_of (rs_engine rs)"
  by (auto simp: finish_tasks_def interrupt_during_def setup_of_commit Let_def split: prod.split option.split)

lemma setup_of_superstep [simp]: "setup_of (rs_engine (snd (superstep env threadID sub step rs))) = setup_of (rs_engine rs)"
  by (auto simp: superstep_def interrupt_before_def setup_of_finish Let_def split: prod.split option.split sum.split)

lemma superstep_limit [simp]:
  "superstep env threadID sub step rs = (res, rs') \<Longrightarrow> en_recursionLimit (rs_engine rs') = en_recursionLimit (rs_engine rs)"
  by (rule setup_of_eqD) (metis setup_of_superstep snd_conv)

section \<open>The run\<close>

function run_loop ::
  "'s run_env \<Rightarrow> string \<Rightarrow> string \<Rightarrow> int \<Rightarrow> 's run_state \<Rightarrow> go_error option \<times> int \<times> 's run_state" where
  "run_loop env threadID sub step rs =
     (case env_done env step of
        Some err \<Rightarrow> (Some err, step, rs)
      | None \<Rightarrow>
          if step \<ge> en_recursionLimit (rs_engine rs)
          then (Some (GraphRecursionError (en_recursionLimit (rs_engine rs))), step, rs)
          else (case superstep env threadID sub step rs of
                  (Continue, rs') \<Rightarrow> run_loop env threadID sub (step + 1) rs'
                | (Finished, rs') \<Rightarrow> (None, step, rs')
                | (Failed err, rs') \<Rightarrow> (Some err, step, rs')))"
  by pat_completeness auto
termination
  by (relation "measure (\<lambda>(env, threadID, sub, step, rs). nat (en_recursionLimit (rs_engine rs) - step))")
    (auto dest!: sym [of "(Continue, _)"])

declare run_loop.simps [simp del]

definition start_registry :: "engine \<Rightarrow> registry" where
  "start_registry e = fold (\<lambda>(name, ch). Register name (ch_Copy ch)) (sg_channels (en_graph e)) NewRegistry"

definition requested_id :: "engine \<Rightarrow> string" where
  "requested_id e =
     (case en_config e of
        None \<Rightarrow> []
      | Some cfg \<Rightarrow>
          (case Configurable cfg of
             None \<Rightarrow> []
           | Some m \<Rightarrow> (case as_string (gm_val m ConfigKeyCheckpointID) of Some i \<Rightarrow> i | None \<Rightarrow> [])))"

text \<open>What the checkpointer has for the run: an error that ends it, nothing, or the data.\<close>

definition load_checkpoint :: "'s run_env \<Rightarrow> engine \<Rightarrow> string \<Rightarrow> 's \<Rightarrow> goval gomap option go_result" where
  "load_checkpoint env e threadID store =
     (case env_checkpointer env of
        None \<Rightarrow> Inr None
      | Some co \<Rightarrow>
          (let requestedCPID = requested_id e;
               cpConfig = [(ConfigKeyThreadID, GStr threadID)]
                 @ (if requestedCPID \<noteq> [] then [(ConfigKeyCheckpointID, GStr requestedCPID)] else [])
           in case co_Get co store cpConfig of
                Inl err \<Rightarrow>
                  if requestedCPID \<noteq> []
                  then Inl (Errorf (''requested checkpoint_id '' @ requestedCPID @ '': '' @ err_Error (env_fv env) err))
                  else Inr None
              | Inr None \<Rightarrow>
                  if requestedCPID \<noteq> []
                  then Inl (Errorf (''requested checkpoint_id '' @ requestedCPID @ '': checkpoint not found''))
                  else Inr None
              | Inr (Some cpData) \<Rightarrow> Inr (Some cpData)))"

definition resumed_sub_state :: "goval gomap \<Rightarrow> string" where
  "resumed_sub_state cpData = (case gm_val cpData ''__sub_state__'' of GBytes v \<Rightarrow> v | GStr v \<Rightarrow> v | _ \<Rightarrow> [])"

definition resumed_tasks :: "goval gomap \<Rightarrow> bool gomap" where
  "resumed_tasks cpData = (case gm_val cpData ''__completed_tasks__'' of GStr str \<Rightarrow> deserializeStringSet str | _ \<Rightarrow> [])"

definition resumed_node :: "goval gomap \<Rightarrow> string" where
  "resumed_node cpData = (case gm_val cpData ''__last_completed_node__'' of GStr str \<Rightarrow> str | _ \<Rightarrow> [])"

definition resumed_state :: "'s run_env \<Rightarrow> goval gomap \<Rightarrow> goval" where
  "resumed_state env cpData =
     (case (case gm_val cpData ''__last_state__'' of GStr val \<Rightarrow> Some val | GBytes val \<Rightarrow> Some val | _ \<Rightarrow> None) of
        None \<Rightarrow> GNil
      | Some jsonBytes \<Rightarrow> (case env_unmarshal env jsonBytes of Some decoded \<Rightarrow> GMap decoded | None \<Rightarrow> GNil))"

definition restore_channels :: "goval gomap \<Rightarrow> registry \<Rightarrow> go_error option \<times> registry" where
  "restore_channels cpData r =
     (let filtered = filter (\<lambda>(key, val). reg_Get r key \<noteq> None) cpData
      in if length filtered > 0 then RestoreFromCheckpoint filtered r else (None, r))"

text \<open>Everything before the loop: the error that ends the run, the sub-state and the state of the loop.\<close>

definition start_run ::
  "'s run_env \<Rightarrow> engine \<Rightarrow> goval \<Rightarrow> 's \<Rightarrow> go_error option \<times> string \<times> 's run_state" where
  "start_run env e input store =
     (let threadID = getThreadID env e;
          e = e\<lparr>en_currentCheckpoint := None, en_channelVersions := [], en_versionsSeen := [], en_deferredCheckpoints := []\<rparr>;
          (inputErr, r, input) = applyInput input (start_registry e);
          fresh = Some (NewCheckpoint (env_checkpointUUID env (-1)) (env_now env (-1)) threadID 0);
          rs = \<lparr>rs_engine = e, rs_registry = r, rs_completed = [], rs_lastNode = [], rs_lastState = GNil,
                rs_store = store, rs_async = [], rs_events = []\<rparr>
      in case inputErr of
           Some err \<Rightarrow> (Some (WrapErr ''failed to apply input: '' err), [], rs)
         | None \<Rightarrow>
             (case load_checkpoint env e threadID store of
                Inl err \<Rightarrow> (Some err, [], rs)
              | Inr (Some cpData) \<Rightarrow>
                  (case restore_channels cpData r of
                     (Some err, r') \<Rightarrow>
                       (Some (WrapErr ''failed to restore from checkpoint: '' err), [], rs\<lparr>rs_registry := r'\<rparr>)
                   | (None, r') \<Rightarrow>
                       (None, resumed_sub_state cpData,
                        rs\<lparr>rs_registry := r', rs_engine := e\<lparr>en_currentCheckpoint := Some (FromMap (env_parseTime env) cpData)\<rparr>,
                           rs_completed := resumed_tasks cpData, rs_lastNode := resumed_node cpData,
                           rs_lastState := resumed_state env cpData\<rparr>))
              | Inr None \<Rightarrow>
                  (case applyInput input r of
                     (Some err, r', input') \<Rightarrow>
                       (Some (WrapErr ''failed to apply input: '' err), [], rs\<lparr>rs_registry := r'\<rparr>)
                   | (None, r', input') \<Rightarrow>
                       (None, [], rs\<lparr>rs_registry := r', rs_engine := e\<lparr>en_currentCheckpoint := fresh\<rparr>,
                                     rs_lastState := input'\<rparr>))))"

definition finish_run :: "'s run_env \<Rightarrow> int \<Rightarrow> 's run_state \<Rightarrow> go_error option \<times> 's run_state" where
  "finish_run env step rs =
     (let (finalState, r) = buildOutput (rs_registry rs) (rs_lastState rs);
          rs = rs\<lparr>rs_registry := r\<rparr>
      in case en_config (rs_engine rs) of
           None \<Rightarrow> (Some (GoPanic ''invalid memory address or nil pointer dereference''), rs)
         | Some cfg \<Rightarrow>
             if Durability cfg = DurabilityExit
             then (case saveDeferredCheckpoints env (rs_engine rs) (rs_store rs) of
                     (Some err, e, store) \<Rightarrow>
                       (Some (WrapErr ''failed to save deferred checkpoints: '' err), rs\<lparr>rs_engine := e, rs_store := store\<rparr>)
                   | (None, e, store) \<Rightarrow>
                       (None, emit_event (final_event step finalState) (rs\<lparr>rs_engine := e, rs_store := store\<rparr>)))
             else (None, emit_event (final_event step finalState) rs))"

definition Run :: "'s run_env \<Rightarrow> engine \<Rightarrow> goval \<Rightarrow> 's \<Rightarrow> go_error option \<times> 's run_state" where
  "Run env e input store =
     (case start_run env e input store of
        (Some err, sub, rs) \<Rightarrow> (Some err, rs)
      | (None, sub, rs) \<Rightarrow>
          (case run_loop env (getThreadID env e) sub 0 rs of
             (Some err, step, rs') \<Rightarrow> (Some err, rs')
           | (None, step, rs') \<Rightarrow> finish_run env step rs'))"

text \<open>
  The synchronous call drains the stream of values and keeps the state of the last final event. No final event is
  lost in the stream, whatever its reader's pace.
\<close>

definition final_state :: "stream_event list \<Rightarrow> goval" where
  "final_state evs =
     fold (\<lambda>ev st. if se_Type ev = EventTypeFinal
                   then (case map_of (se_Data ev) ''state'' of Some s \<Rightarrow> s | None \<Rightarrow> st) else st) evs GNil"

definition RunSync :: "'s run_env \<Rightarrow> engine \<Rightarrow> goval \<Rightarrow> 's \<Rightarrow> goval go_result \<times> 's run_state" where
  "RunSync env e input store =
     (case Run env e input store of
        (Some err, rs) \<Rightarrow> (Inl err, rs)
      | (None, rs) \<Rightarrow> (Inr (final_state (rs_events rs)), rs))"

end
