(* ===== verification/Pregel_Properties.thy ===== *)
theory Pregel_Properties
  imports Pregel_Engine
begin

text \<open>
  What a run of the engine does: how its loop ends, that all-predecessors graphs need no more supersteps
  than they have nodes, that the interleaving of a step's goroutines does not matter, which failures are passed
  over, and what is saved when a run is interrupted.
\<close>

text \<open>A quiet environment, for examples: nothing is cancelled, identifiers and texts are empty.\<close>

definition quiet_env :: "'s checkpointer_ops option \<Rightarrow> 's run_env" where
  "quiet_env co =
     \<lparr>env_checkpointer = co, env_fv = (\<lambda>_. []), env_conv = (\<lambda>_ v. Some v), env_marshal = (\<lambda>_. None),
      env_unmarshal = (\<lambda>_. None), env_parseTime = (\<lambda>_. None), env_threadUUID = ''t'', env_taskUUID = (\<lambda>_ _. []),
      env_checkpointUUID = (\<lambda>_. ''c''), env_now = (\<lambda>_. 0), env_duration = (\<lambda>_ _. []), env_done = (\<lambda>_. None),
      env_taskDone = (\<lambda>_ _. None), env_retryDone = (\<lambda>_ _ _. None), env_interleaving = (\<lambda>_. [])\<rparr>"

section \<open>The loop\<close>

text \<open>The states a run passes through: after \<open>k\<close> supersteps that all continued.\<close>

inductive run_steps :: "'s run_env \<Rightarrow> string \<Rightarrow> string \<Rightarrow> int \<Rightarrow> 's run_state \<Rightarrow> nat \<Rightarrow> 's run_state \<Rightarrow> bool"
  for env threadID sub s rs where
  zero: "run_steps env threadID sub s rs 0 rs"
| more: "run_steps env threadID sub s rs k rs' \<Longrightarrow> env_done env (s + int k) = None \<Longrightarrow>
    s + int k < en_recursionLimit (rs_engine rs') \<Longrightarrow>
    superstep env threadID sub (s + int k) rs' = (Continue, rs'') \<Longrightarrow>
    run_steps env threadID sub s rs (Suc k) rs''"

inductive_cases run_steps_SucE: "run_steps env threadID sub s rs (Suc k) rs''"

lemma run_steps_setup: "run_steps env threadID sub s rs k rs' \<Longrightarrow> setup_of (rs_engine rs') = setup_of (rs_engine rs)"
  by (induction rule: run_steps.induct) (metis setup_of_superstep snd_conv)+

lemma run_steps_limit:
  "run_steps env threadID sub s rs k rs' \<Longrightarrow> en_recursionLimit (rs_engine rs') = en_recursionLimit (rs_engine rs)"
  by (rule setup_of_eqD) (rule run_steps_setup)

lemma run_steps_bound: "run_steps env threadID sub s rs k rs' \<Longrightarrow> k = 0 \<or> s + int k \<le> en_recursionLimit (rs_engine rs)"
  by (induction rule: run_steps.induct) (auto dest: run_steps_limit)

lemma run_steps_first:
  assumes "env_done env s = None" and "s < en_recursionLimit (rs_engine rs)"
    and "superstep env threadID sub s rs = (Continue, rs1)" and "run_steps env threadID sub (s + 1) rs1 k rs'"
  shows "run_steps env threadID sub s rs (Suc k) rs'"
  using assms(4)
proof (induction rule: run_steps.induct)
  case zero
  show ?case using run_steps.more [OF run_steps.zero, of env s rs threadID sub rs1] assms by simp
next
  case (more k rs' rs'')
  from run_steps.more [OF more.IH] more.hyps show ?case by (simp add: algebra_simps)
qed

text \<open>How the loop ends in a state: the context is done, the limit is reached, or the superstep ends it.\<close>

definition loop_end ::
  "'s run_env \<Rightarrow> string \<Rightarrow> string \<Rightarrow> int \<Rightarrow> 's run_state \<Rightarrow> go_error option \<Rightarrow> 's run_state \<Rightarrow> bool" where
  "loop_end env threadID sub step rs res rs' \<longleftrightarrow>
     (case env_done env step of
        Some err \<Rightarrow> res = Some err \<and> rs' = rs
      | None \<Rightarrow>
          if step \<ge> en_recursionLimit (rs_engine rs)
          then res = Some (GraphRecursionError (en_recursionLimit (rs_engine rs))) \<and> rs' = rs
          else (res = None \<and> superstep env threadID sub step rs = (Finished, rs'))
               \<or> (\<exists>err. res = Some err \<and> superstep env threadID sub step rs = (Failed err, rs')))"

lemma ex4I: "P a b c d \<Longrightarrow> \<exists>a b c d. P a b c d"
  by blast

lemma run_loop_ends:
  "\<exists>k rs1 res rs'. run_steps env threadID sub s rs k rs1 \<and> loop_end env threadID sub (s + int k) rs1 res rs'
     \<and> run_loop env threadID sub s rs = (res, s + int k, rs')"
proof (induction env threadID sub s rs rule: run_loop.induct)
  case (1 env threadID sub s rs)
  let ?L = "en_recursionLimit (rs_engine rs)"
  have stop: ?case if "loop_end env threadID sub s rs res rs'" "run_loop env threadID sub s rs = (res, s, rs')" for res rs'
    using that run_steps.zero [of env threadID sub s rs] by (intro ex4I [of _ 0 rs res rs']) simp
  show ?case
  proof (cases "env_done env s")
    case (Some err)
    show ?thesis by (rule stop [of "Some err" rs]) (simp_all add: Some loop_end_def run_loop.simps [of env threadID sub s rs])
  next
    case None
    show ?thesis
    proof (cases "s < ?L")
      case False
      with None show ?thesis
        by (intro stop [of "Some (GraphRecursionError ?L)" rs])
          (simp_all add: loop_end_def run_loop.simps [of env threadID sub s rs])
    next
      case True
      obtain res rs1 where step: "superstep env threadID sub s rs = (res, rs1)" by (rule prod.exhaust)
      have go: "\<not> ?L \<le> s" using True by simp
      note unfold = run_loop.simps [of env threadID sub s rs] None True step loop_end_def
      show ?thesis
      proof (cases res)
        case Continue
        from "1" [OF None go step [symmetric] Continue] obtain k rs2 out rs' where
          k: "run_steps env threadID sub (s + 1) rs1 k rs2" "loop_end env threadID sub (s + 1 + int k) rs2 out rs'"
          "run_loop env threadID sub (s + 1) rs1 = (out, s + 1 + int k, rs')"
          by blast
        moreover have "run_steps env threadID sub s rs (Suc k) rs2"
          using run_steps_first [OF None True _ k(1)] step Continue by simp
        moreover have "run_loop env threadID sub s rs = run_loop env threadID sub (s + 1) rs1"
          by (simp add: unfold(1,2,4) go Continue)
        moreover have "s + int (Suc k) = s + 1 + int k" by simp
        ultimately show ?thesis by (intro ex4I [of _ "Suc k" rs2 out rs']) (simp only: simp_thms)
      next
        case Finished
        then show ?thesis by (intro stop [of None rs1]) (simp_all add: unfold go)
      next
        case (Failed err)
        then show ?thesis by (intro stop [of "Some err" rs1]) (simp_all add: unfold go)
      qed
    qed
  qed
qed

text \<open>
  C1: the run loop always ends. It takes some number \<open>k\<close> of supersteps that continue, at most as many
  as the recursion limit allows, and then ends in one of four ways: the context was done, the limit was
  reached (and the error is the recursion error with that limit), there was nothing more to do, or the
  superstep failed with the reported error.
\<close>

theorem run_loop_outcome:
  "\<exists>k rs1 res rs'. run_steps env threadID sub 0 rs k rs1 \<and> int k \<le> max 0 (en_recursionLimit (rs_engine rs))
     \<and> loop_end env threadID sub (int k) rs1 res rs' \<and> run_loop env threadID sub 0 rs = (res, int k, rs')"
proof -
  obtain k rs1 res rs' where k: "run_steps env threadID sub 0 rs k rs1" "loop_end env threadID sub (0 + int k) rs1 res rs'"
    "run_loop env threadID sub 0 rs = (res, 0 + int k, rs')"
    using run_loop_ends [of env threadID sub 0 rs] by blast
  from run_steps_bound [OF k(1)] have "int k \<le> max 0 (en_recursionLimit (rs_engine rs))" by auto
  with k show ?thesis by auto
qed

section \<open>The interleaving of a step's goroutines\<close>

text \<open>The channels whose value a read takes away.\<close>

fun is_ephemeral :: "channel \<Rightarrow> bool" where
  "is_ephemeral (EphemeralValue c) = True"
| "is_ephemeral (ReducerChannel ch f) = is_ephemeral ch"
| "is_ephemeral _ = False"

definition reads_pure :: "registry \<Rightarrow> bool" where
  "reads_pure r \<longleftrightarrow> (\<forall>(n, ch) \<in> set (channels r). \<not> is_ephemeral ch)"

lemma Get_pure: "\<not> is_ephemeral ch \<Longrightarrow> snd (ch_Get ch) = ch"
  by (induction ch) (simp_all add: chan_defs)

lemma gm_put_same: "map_of m k = Some v \<Longrightarrow> gm_put k v m = m"
  by (induction m) (auto split: if_splits)

lemma Register_read:
  assumes "reads_pure r" and "reg_Get r n = Some ch"
  shows "Register n (snd (ch_Get ch)) r = r"
proof -
  have "(n, ch) \<in> set (channels r)" using assms(2) by (simp add: reg_Get_def map_of_SomeD)
  with assms(1) have "\<not> is_ephemeral ch" by (auto simp: reads_pure_def)
  then show ?thesis using assms(2) by (simp add: Register_def Get_pure reg_Get_def gm_put_same)
qed

text \<open>What a goroutine will have read when it finishes alone from where it is.\<close>

definition will_read :: "registry \<Rightarrow> progress \<Rightarrow> goval go_result" where
  "will_read r = (\<lambda>(todo, values, err). case err of Some er \<Rightarrow> Inl er | None \<Rightarrow> fst (read_loop todo r values))"

definition progress_ok :: "progress \<Rightarrow> bool" where
  "progress_ok = (\<lambda>(todo, values, err). err \<noteq> None \<longrightarrow> todo = [])"

lemma read_one_pure:
  assumes "reads_pure r" and "progress_ok p"
  shows "\<exists>p'. read_one r p = (r, p') \<and> progress_ok p' \<and> will_read r p' = will_read r p
    \<and> length (fst p') \<le> length (fst p) - 1"
proof -
  obtain todo vals err where p: "p = (todo, vals, err)" by (rule prod_cases3)
  show ?thesis
  proof (cases todo)
    case Nil
    then show ?thesis using assms(2) by (simp add: p progress_ok_def)
  next
    case (Cons n ns)
    have err: "err = None" using assms(2) by (simp add: p progress_ok_def Cons)
    show ?thesis
    proof (cases "reg_Get r n")
      case None
      then show ?thesis by (simp add: p Cons err progress_ok_def will_read_def)
    next
      case (Some ch)
      note same = Register_read [OF assms(1) Some]
      show ?thesis
        by (cases "fst (ch_Get ch)") (simp_all add: p Cons err Some same progress_ok_def will_read_def)
    qed
  qed
qed

lemma interleave_pure:
  assumes "reads_pure r" and "\<forall>p \<in> set ps. progress_ok p"
  shows "\<exists>ps'. interleave turns r ps = (r, ps') \<and> length ps' = length ps
    \<and> (\<forall>i < length ps. progress_ok (ps' ! i) \<and> will_read r (ps' ! i) = will_read r (ps ! i)
         \<and> length (fst (ps' ! i)) \<le> length (fst (ps ! i)) - count_list turns i)"
  using assms(2)
proof (induction turns arbitrary: ps)
  case Nil
  then show ?case by (simp add: all_set_conv_all_nth)
next
  case (Cons i turns)
  show ?case
  proof (cases "i < length ps")
    case False
    then have "count_list (i # turns) j = count_list turns j" if "j < length ps" for j using that by auto
    with False Cons show ?thesis by simp
  next
    case True
    with Cons.prems have "progress_ok (ps ! i)" by simp
    with read_one_pure [OF assms(1)] obtain p' where p': "read_one r (ps ! i) = (r, p')" "progress_ok p'"
      "will_read r p' = will_read r (ps ! i)" "length (fst p') \<le> length (fst (ps ! i)) - 1" by blast
    have "\<forall>p \<in> set (ps[i := p']). progress_ok p"
      using Cons.prems p'(2) by (auto dest: set_update_subset_insert [THEN subsetD])
    from Cons.IH [OF this] obtain ps' where ps': "interleave turns r (ps[i := p']) = (r, ps')" "length ps' = length ps"
      and each: "\<And>j. j < length ps \<Longrightarrow> progress_ok (ps' ! j) \<and> will_read r (ps' ! j) = will_read r (ps[i := p'] ! j)
         \<and> length (fst (ps' ! j)) \<le> length (fst (ps[i := p'] ! j)) - count_list turns j" by auto
    have "progress_ok (ps' ! j) \<and> will_read r (ps' ! j) = will_read r (ps ! j)
         \<and> length (fst (ps' ! j)) \<le> length (fst (ps ! j)) - count_list (i # turns) j" if "j < length ps" for j
      using each [OF that] p'(3,4) that by (cases "j = i") auto
    then show ?thesis using ps' True p'(1) by simp
  qed
qed

lemma count_remaining: "i < length tasks \<Longrightarrow> count_list (remaining_turns tasks) i = length (tk_Channels (tasks ! i))"
proof -
  assume "i < length tasks"
  have rep: "count_list (replicate k j) i = (if j = i then k else 0)" for k j
    by (induction k) auto
  have "count_list (concat (map (\<lambda>i. replicate (f i) i) [0..<n])) i = (if i < n then f i else 0)" for f n
    by (induction n) (auto simp: rep less_Suc_eq)
  then show ?thesis using \<open>i < length tasks\<close> by (simp add: remaining_turns_def)
qed

lemma read_inputs_pure:
  assumes "reads_pure r"
  shows "read_inputs turns r tasks = (map (\<lambda>t. fst (readTaskInput r t)) tasks, r)"
proof -
  let ?ps = "map (\<lambda>t. (tk_Channels t, [], None)) tasks :: progress list"
  have "\<forall>p \<in> set ?ps. progress_ok p" by (auto simp: progress_ok_def)
  from interleave_pure [OF assms this, of "turns @ remaining_turns tasks"] obtain ps' where
    ps': "interleave (turns @ remaining_turns tasks) r ?ps = (r, ps')" "length ps' = length tasks"
    and each: "\<And>i. i < length tasks \<Longrightarrow> progress_ok (ps' ! i) \<and> will_read r (ps' ! i) = will_read r (?ps ! i)
       \<and> length (fst (ps' ! i)) \<le> length (fst (?ps ! i)) - count_list (turns @ remaining_turns tasks) i"
    by auto
  have "progress_input (ps' ! i) = fst (readTaskInput r (tasks ! i))" if i: "i < length tasks" for i
  proof -
    have "fst (ps' ! i) = []" using each [OF i] i by (simp add: count_remaining)
    then have "progress_input (ps' ! i) = will_read r (ps' ! i)"
      by (cases "ps' ! i") (simp add: progress_input_def will_read_def split: option.split)
    also have "\<dots> = fst (read_loop (tk_Channels (tasks ! i)) r [])" using each [OF i] i by (simp add: will_read_def)
    finally show ?thesis by (simp add: readTaskInput_def)
  qed
  then have "map progress_input ps' = map (\<lambda>t. fst (readTaskInput r t)) tasks"
    by (intro nth_equalityI) (simp_all add: ps'(2))
  then show ?thesis by (simp add: read_inputs_def ps'(1))
qed

text \<open>
  C11: with no ephemeral channel, the results of a step do not depend on how the goroutines that read the task
  inputs are interleaved, and the registry is left as it was.
\<close>

theorem executeTasksAsync_interleaving:
  assumes "reads_pure r"
  shows "executeTasksAsync (env\<lparr>env_interleaving := turns\<rparr>) e step sub tasks r = executeTasksAsync env e step sub tasks r
    \<and> snd (executeTasksAsync env e step sub tasks r) = r"
proof -
  have "run_task (env\<lparr>env_interleaving := turns\<rparr>) = run_task env"
    by (intro ext) (simp add: run_task_def cong: sum.case_cong option.case_cong)
  then show ?thesis by (simp add: executeTasksAsync_def read_inputs_pure [OF assms])
qed

theorem executeTasksAsync_interleaving_witness:
  "let r = Register ''x'' (LastValue ((NewLastValue GNil)\<lparr>lv_value := GInt 7\<rparr>)) NewRegistry;
       env = (quiet_env None :: unit run_env); e = NewEngine (NewStateGraph (SchemaMap K_String)) [];
       t = createTask [] (NewNode ''n'' (Some (\<lambda>ctx v. Inr v))) [''x''] []
   in reads_pure r
      \<and> executeTasksAsync (env\<lparr>env_interleaving := \<lambda>_. [1, 0, 1]\<rparr>) e 0 [] [t, t] r = executeTasksAsync env e 0 [] [t, t] r"
proof -
  let ?r = "Register ''x'' (LastValue ((NewLastValue GNil)\<lparr>lv_value := GInt 7\<rparr>)) NewRegistry"
  have pure: "reads_pure ?r" by (simp add: reads_pure_def Register_def NewRegistry_def)
  show ?thesis
    unfolding Let_def by (intro conjI pure executeTasksAsync_interleaving [OF pure, THEN conjunct1])
qed

section \<open>Results of a step\<close>

lemma gather_Inr: "gather xs = Inr ys \<Longrightarrow> xs = map Inr ys"
  by (induction xs arbitrary: ys rule: gather.induct) (auto split: sum.splits)

lemma gather_Inl: "gather xs = Inl err \<Longrightarrow> Inl err \<in> set xs"
  by (induction xs rule: gather.induct) (auto split: sum.splits)

lemma run_task_name: "run_task env e step sub i t input = Inr res \<Longrightarrow> tr_Name (fst res) = tk_Name t"
  by (auto simp: run_task_def Let_def split: sum.splits prod.splits option.splits)

lemma run_task_panics:
  assumes "run_task env e step sub i t input = Inl err"
  shows "\<exists>s. err = GoPanic s"
proof -
  have "fill_fields conv fs m acc = Inl er \<Longrightarrow> \<exists>s. er = GoPanic s" for conv fs m acc er
    by (induction conv fs m acc rule: fill_fields.induct) (auto split: if_splits option.splits)
  then show ?thesis
    using assms
    by (auto simp: run_task_def mapToStateSchema_def Let_def split: sum.splits prod.splits option.splits goval.splits)
qed

lemma executeTasksAsync_names:
  assumes "executeTasksAsync env e step sub tasks r = (Inr (results, evs), r')"
  shows "map tr_Name results = map tk_Name tasks"
proof -
  obtain inputs r1 where inputs: "read_inputs (env_interleaving env step) r tasks = (inputs, r1)" by (rule prod.exhaust)
  let ?outs = "map (\<lambda>i. run_task env e step sub i (tasks ! i) (inputs ! i)) [0..<length tasks]"
  from assms obtain outs where outs: "gather ?outs = Inr outs" "results = map fst outs"
    by (auto simp: executeTasksAsync_def inputs split: sum.splits)
  from gather_Inr [OF outs(1)] have eq: "?outs = map Inr outs" .
  then have len: "length outs = length tasks" using map_eq_imp_length_eq [OF eq] by simp
  have "tr_Name (fst (outs ! i)) = tk_Name (tasks ! i)" if "i < length tasks" for i
    using arg_cong [OF eq, of "\<lambda>xs. xs ! i"] that len by (intro run_task_name) simp
  then show ?thesis by (intro nth_equalityI) (simp_all add: outs(2) len)
qed

lemma executeTasksAsync_panics:
  assumes "executeTasksAsync env e step sub tasks r = (Inl err, r')"
  shows "\<exists>s. err = GoPanic s"
proof -
  obtain inputs r1 where inputs: "read_inputs (env_interleaving env step) r tasks = (inputs, r1)" by (rule prod.exhaust)
  from assms have "gather (map (\<lambda>i. run_task env e step sub i (tasks ! i) (inputs ! i)) [0..<length tasks]) = Inl err"
    by (auto simp: executeTasksAsync_def inputs split: sum.splits)
  from gather_Inl [OF this] show ?thesis by (auto dest: sym [THEN run_task_panics])
qed

text \<open>Only results without an error are marked.\<close>

lemma mark_results_completed:
  "gm_bool (fst (mark_results results completed n st)) x \<longleftrightarrow>
     gm_bool completed x \<or> (\<exists>r \<in> set results. tr_Name r = x \<and> tr_Err r = None)"
  by (induction results completed n st rule: mark_results.induct) (auto simp: is_interrupt_def)

lemma mark_results_filter:
  "mark_results (filter (\<lambda>r. tr_Err r = None) results) completed n st = mark_results results completed n st"
  by (induction results completed n st rule: mark_results.induct) (auto simp: is_interrupt_def)

lemma collect_writes_filter: "collect_writes e (filter (\<lambda>r. tr_Err r = None) results) acc = collect_writes e results acc"
  by (induction e results acc rule: collect_writes.induct) (auto split: sum.split)

lemma applyWrites_filter: "applyWrites e r (filter (\<lambda>r. tr_Err r = None) results) triggered = applyWrites e r results triggered"
  by (simp add: applyWrites_def filter_sort [symmetric] collect_writes_filter)

lemma shouldInterruptAfter_filter: "shouldInterruptAfter e (filter (\<lambda>r. tr_Err r = None) results) = shouldInterruptAfter e results"
  by (auto simp: shouldInterruptAfter_def list_ex_iff)

lemma commit_step_filter:
  "commit_step env threadID step (filter (\<lambda>r. tr_Err r = None) results) triggers rs =
     commit_step env threadID step results triggers rs"
  unfolding commit_step_def applyWrites_filter shouldInterruptAfter_filter by (rule refl)

lemma finish_tasks_filter:
  assumes "\<not> list_ex is_interrupt results" and "list_ex (\<lambda>r. tr_Err r = None) results"
  shows "finish_tasks env threadID step results triggers rs =
    finish_tasks env threadID step (filter (\<lambda>r. tr_Err r = None) results) triggers rs"
proof -
  have "\<not> list_ex is_interrupt (filter (\<lambda>r. tr_Err r = None) results)"
    using assms(1) by (auto simp: list_ex_iff)
  moreover have "\<not> all_failed results" "\<not> all_failed (filter (\<lambda>r. tr_Err r = None) results)"
    using assms(2) by (auto simp: all_failed_def list_all_iff list_ex_iff)
  ultimately show ?thesis
    using assms(1)
    by (simp add: finish_tasks_def mark_results_filter commit_step_filter)
qed

text \<open>A task that got its input and was not cut off by the context reports how it ended.\<close>

lemma executeTasksAsync_events:
  assumes "executeTasksAsync env e step sub tasks r = (Inr (results, evs), r')" and "i < length tasks"
    and "fst (read_inputs (env_interleaving env step) r tasks) ! i = Inr input" and "env_taskDone env step i = None"
  shows "task_end_event step (tk_Name (tasks ! i)) (tk_ID (tasks ! i)) (tr_Output (results ! i)) (env_duration env step i)
      (tr_Err (results ! i)) \<in> set evs
    \<and> (tr_Err (results ! i) = Some err \<longrightarrow> error_event (env_fv env) step err (tk_Name (tasks ! i)) \<in> set evs)"
proof -
  obtain inputs r1 where inputs: "read_inputs (env_interleaving env step) r tasks = (inputs, r1)" by (rule prod.exhaust)
  let ?outs = "map (\<lambda>i. run_task env e step sub i (tasks ! i) (inputs ! i)) [0..<length tasks]"
  from assms(1) obtain outs where outs: "gather ?outs = Inr outs" "results = map fst outs" "evs = concat (map snd outs)"
    by (auto simp: executeTasksAsync_def inputs split: sum.splits)
  from gather_Inr [OF outs(1)] have eq: "?outs = map Inr outs" .
  then have len: "length outs = length tasks" using map_eq_imp_length_eq [OF eq] by simp
  have out: "run_task env e step sub i (tasks ! i) (Inr input) = Inr (outs ! i)"
    using arg_cong [OF eq, of "\<lambda>xs. xs ! i"] assms(2,3) len by (simp add: inputs)
  obtain res es where o: "outs ! i = (res, es)" by (rule prod.exhaust)
  have "outs ! i \<in> set outs" using assms(2) len by simp
  then have "set es \<subseteq> set evs" by (force simp: outs(3) o)
  moreover have ri: "results ! i = res" using assms(2) len by (simp add: outs(2) o)
  ultimately show ?thesis
    using out assms(4) unfolding o ri by (auto simp: run_task_def Let_def split: sum.splits prod.splits option.splits)
qed

text \<open>
  C25: failures next to a success are passed over. Let the tasks of a superstep be planned and run, none be
  interrupted and at least one succeed. The superstep then ends as the results of the successful tasks alone make it:
  result, channels, completed tasks and checkpoint. The failed tasks appear in the events only: next to its
  start event, each one that got its input and was not cut off by the context has an end event and an
  error event with its error.
\<close>

theorem failed_tasks_passed_over:
  assumes "prepareNextTasks (env_fv env) (env_taskUUID env step) [nat step] (rs_engine rs) (rs_registry rs)
      (rs_completed rs) (rs_lastNode rs) (rs_lastState rs) = Inr (tasks, triggers)"
    and "shouldInterrupt (rs_engine rs) tasks = []"
    and "executeTasksAsync env (rs_engine rs) step sub tasks (rs_registry rs) = (Inr (results, evs), r')"
    and "\<not> list_ex is_interrupt results" and "list_ex (\<lambda>r. tr_Err r = None) results"
  shows "superstep env threadID sub step rs =
      finish_tasks env threadID step (filter (\<lambda>r. tr_Err r = None) results) triggers
        (rs\<lparr>rs_registry := r',
            rs_events := rs_events rs @ [checkpoint_event step (CreateCheckpoint (rs_registry rs))]
              @ map (\<lambda>t. task_start_event step (tk_Name t) (tk_ID t)) tasks @ evs\<rparr>)
    \<and> (\<forall>i err. i < length tasks \<longrightarrow> tr_Err (results ! i) = Some err \<longrightarrow> env_taskDone env step i = None \<longrightarrow>
         (\<exists>input. fst (read_inputs (env_interleaving env step) (rs_registry rs) tasks) ! i = Inr input) \<longrightarrow>
         task_end_event step (tk_Name (tasks ! i)) (tk_ID (tasks ! i)) (tr_Output (results ! i)) (env_duration env step i)
           (Some err) \<in> set evs
         \<and> error_event (env_fv env) step err (tk_Name (tasks ! i)) \<in> set evs)"
proof -
  have starts: "fold (\<lambda>t. emit_event (task_start_event step (tk_Name t) (tk_ID t))) ts rs' =
      rs'\<lparr>rs_events := rs_events rs' @ map (\<lambda>t. task_start_event step (tk_Name t) (tk_ID t)) ts\<rparr>" for ts and rs' :: "'a run_state"
    by (induction ts arbitrary: rs') (simp_all add: emit_event_def)
  have "length results = length tasks" using arg_cong [OF executeTasksAsync_names [OF assms(3)], of length] by simp
  with assms(5) have "tasks \<noteq> []" by auto
  then have "superstep env threadID sub step rs =
      finish_tasks env threadID step results triggers
        (rs\<lparr>rs_registry := r',
            rs_events := rs_events rs @ [checkpoint_event step (CreateCheckpoint (rs_registry rs))]
              @ map (\<lambda>t. task_start_event step (tk_Name t) (tk_ID t)) tasks @ evs\<rparr>)"
    using assms(1-3) by (simp add: superstep_def starts emit_event_def Let_def)
  moreover note executeTasksAsync_events [OF assms(3)]
  ultimately show ?thesis
    unfolding finish_tasks_filter [OF assms(4,5)] by (intro conjI allI impI) (blast, metis+)
qed

text \<open>After \<open>s\<close> the nodes \<open>a\<close> and \<open>b\<close> run, and \<open>b\<close> fails in all its attempts.\<close>

theorem failed_tasks_passed_over_witness:
  "let g = (AddNode ''b'' (Some (\<lambda>ctx v. Inl (Errorf ''boom''))) (AddNode ''a'' (Some (\<lambda>ctx v. Inr v))
              (AddNode ''s'' None (NewStateGraph (SchemaMap K_String)))))\<lparr>sg_NodeTriggerMode := NodeTriggerAllPredecessor\<rparr>;
       rs = \<lparr>rs_engine = NewEngine g [], rs_registry = NewRegistry, rs_completed = [(''s'', True)],
             rs_lastNode = ''s'', rs_lastState = GNil, rs_store = (), rs_async = [], rs_events = []\<rparr>;
       err = RetryExhaustedError ''b'' 3 (Some (Errorf ''boom'')) GNil
   in \<exists>triggers rs'. error_event (env_fv (quiet_env None :: unit run_env)) 1 err ''b'' \<in> set (rs_events rs')
        \<and> superstep (quiet_env None) ''t'' [] 1 rs =
            finish_tasks (quiet_env None) ''t'' 1 [\<lparr>tr_Name = ''a'', tr_Output = GMap [], tr_Err = None\<rparr>] triggers rs'"
proof -
  define g where "g = (AddNode ''b'' (Some (\<lambda>ctx v. Inl (Errorf ''boom''))) (AddNode ''a'' (Some (\<lambda>ctx v. Inr v))
              (AddNode ''s'' None (NewStateGraph (SchemaMap K_String)))))\<lparr>sg_NodeTriggerMode := NodeTriggerAllPredecessor\<rparr>"
  define rs where "rs = \<lparr>rs_engine = NewEngine g [], rs_registry = NewRegistry, rs_completed = [(''s'', True)],
             rs_lastNode = ''s'', rs_lastState = GNil, rs_store = (), rs_async = [], rs_events = []\<rparr>"
  define err where "err = RetryExhaustedError ''b'' 3 (Some (Errorf ''boom'')) GNil"
  let ?env = "quiet_env None :: unit run_env"
  obtain tasks triggers where plan: "prepareNextTasks (env_fv ?env) (env_taskUUID ?env 1) [nat 1] (rs_engine rs) (rs_registry rs)
      (rs_completed rs) (rs_lastNode rs) (rs_lastState rs) = Inr (tasks, triggers)"
    and tasks: "map tk_Name tasks = [''a'', ''b'']" "map tk_Channels tasks = [[], []]" "map tk_RetryPolicy tasks = [None, None]"
      "map tk_Func tasks = [Some (\<lambda>ctx v. Inr v), Some (\<lambda>ctx v. Inl (Errorf ''boom''))]"
    by (simp add: rs_def g_def prepareNextTasks_def prepareNextTasksWithMode_def prepareNextTasksDAG_def buildIncomingEdges_def
        AddNode_def NewStateGraph_def NewEngine_def NewNode_def getNode_def gm_bool_def all_done_def add_task_def
        make_task_def createTask_def getTriggers_def Let_def)
  have no_int: "shouldInterrupt (rs_engine rs) tasks = []"
    by (simp add: rs_def shouldInterrupt_def NewEngine_def)
  obtain t1 t2 where ts: "tasks = [t1, t2]" using tasks(1) by (cases tasks; cases "tl tasks") auto
  have reads: "fst (read_inputs (env_interleaving ?env 1) (rs_registry rs) tasks) = [Inr (GMap []), Inr (GMap [])]"
    using tasks(2) by (simp add: ts read_inputs_def quiet_env_def remaining_turns_def progress_input_def)
  obtain evs r' where exec: "executeTasksAsync ?env (rs_engine rs) 1 [] tasks (rs_registry rs) =
      (Inr ([\<lparr>tr_Name = ''a'', tr_Output = GMap [], tr_Err = None\<rparr>, \<lparr>tr_Name = ''b'', tr_Output = GNil, tr_Err = Some err\<rparr>], evs), r')"
    using tasks reads
    by (cases "read_inputs (env_interleaving ?env 1) (rs_registry rs) tasks")
      (simp add: ts executeTasksAsync_def run_task_def mapToStateSchema_def rs_def g_def AddNode_def NewStateGraph_def
        NewEngine_def quiet_env_def task_policy_def DefaultRetryPolicy_def DefaultRetryOn_def Execute_def node_call_def
        call_node_def err_def eval_nat_numeral Let_def)
  have t2: "tk_Name (tasks ! 1) = ''b''" using tasks(1) ts by simp
  have in2: "\<exists>input. fst (read_inputs (env_interleaving ?env 1) (rs_registry rs) tasks) ! 1 = Inr input" by (simp add: reads)
  have done2: "env_taskDone ?env 1 1 = None" by (simp add: quiet_env_def)
  let ?ok = "\<lparr>tr_Name = ''a'', tr_Output = GMap [], tr_Err = None\<rparr>" and ?bad = "\<lparr>tr_Name = ''b'', tr_Output = GNil, tr_Err = Some err\<rparr>"
  have mixed: "\<not> list_ex is_interrupt [?ok, ?bad]" "list_ex (\<lambda>r. tr_Err r = None) [?ok, ?bad]"
    "filter (\<lambda>r. tr_Err r = None) [?ok, ?bad] = [?ok]"
    by (simp_all add: is_interrupt_def err_def)
  note passed = failed_tasks_passed_over [OF plan no_int exec mixed(1,2), of "''t''", unfolded mixed(3)]
  have "error_event (env_fv ?env) 1 err ''b'' \<in> set evs"
    using passed [THEN conjunct2, rule_format, of 1 err] t2 in2 done2 by (simp add: ts)
  then show ?thesis
    unfolding Let_def g_def [symmetric] rs_def [symmetric] err_def [symmetric]
    by (intro exI conjI, rule_tac [2] passed [THEN conjunct1]) simp
qed

section \<open>All-predecessors graphs\<close>

lemma commit_Continue:
  assumes "commit_step env threadID step results triggers rs = (Continue, rs')"
  shows "rs_completed rs' = rs_completed rs"
proof -
  obtain res e r where w: "applyWrites (rs_engine rs) (rs_registry rs) results triggers = (res, e, r)" by (rule prod_cases3)
  obtain err rs1 where s: "save_step env threadID step (emit_values step (rs\<lparr>rs_engine := e, rs_registry := r\<rparr>)) = (err, rs1)"
    by (rule prod.exhaust)
  have "rs_completed rs1 = rs_completed rs"
    using save_step_sel(3) [of env threadID step "emit_values step (rs\<lparr>rs_engine := e, rs_registry := r\<rparr>)"] s by simp
  with assms show ?thesis by (auto simp: commit_step_def w s Let_def split: sum.splits option.splits if_splits)
qed

lemma superstep_Continue:
  assumes "superstep env threadID sub step rs = (Continue, rs')"
  obtains tasks triggers results where
    "prepareNextTasks (env_fv env) (env_taskUUID env step) [nat step] (rs_engine rs) (rs_registry rs)
       (rs_completed rs) (rs_lastNode rs) (rs_lastState rs) = Inr (tasks, triggers)"
    "map tr_Name results = map tk_Name tasks"
    "rs_completed rs' = fst (mark_results results (rs_completed rs) (rs_lastNode rs) (rs_lastState rs))"
    "\<exists>r \<in> set results. tr_Err r = None"
proof -
  from assms obtain tasks triggers where plan:
    "prepareNextTasks (env_fv env) (env_taskUUID env step) [nat step] (rs_engine rs) (rs_registry rs)
       (rs_completed rs) (rs_lastNode rs) (rs_lastState rs) = Inr (tasks, triggers)"
    by (auto simp: superstep_def Let_def split: sum.splits)
  define rs1 where "rs1 = fold (\<lambda>t. emit_event (task_start_event step (tk_Name t) (tk_ID t))) tasks
      (emit_event (checkpoint_event step (CreateCheckpoint (rs_registry rs))) rs)"
  have rs1: "rs_completed rs1 = rs_completed rs" "rs_lastNode rs1 = rs_lastNode rs" "rs_lastState rs1 = rs_lastState rs"
    by (simp_all add: rs1_def)
  from assms have tasks: "tasks \<noteq> []"
    by (auto simp: superstep_def plan Let_def)
  have not_before: "\<not> 0 < length (shouldInterrupt (rs_engine rs1) tasks)"
    using assms tasks unfolding superstep_def
    by (auto simp: plan rs1_def interrupt_before_def Let_def split: if_splits prod.splits option.splits)
  from assms obtain results evs r where exec:
    "executeTasksAsync env (rs_engine rs1) step sub tasks (rs_registry rs1) = (Inr (results, evs), r)"
    and fin: "finish_tasks env threadID step results triggers
        (rs1\<lparr>rs_registry := r, rs_events := rs_events rs1 @ evs\<rparr>) = (Continue, rs')"
    using tasks not_before unfolding superstep_def Let_def emit_event_sel plan sum.case prod.case rs1_def [symmetric]
    by (auto split: prod.splits sum.splits)
  note names = executeTasksAsync_names [OF exec]
  obtain c n st where m: "mark_results results (rs_completed rs) (rs_lastNode rs) (rs_lastState rs) = (c, n, st)"
    by (rule prod_cases3)
  from fin have "\<not> list_ex is_interrupt results" "\<not> all_failed results"
    by (auto simp: finish_tasks_def rs1 m interrupt_during_def Let_def split: if_splits prod.splits option.splits)
  moreover have "results \<noteq> []" using names tasks by auto
  ultimately have ok: "\<exists>r \<in> set results. tr_Err r = None" by (auto simp: all_failed_def list_all_iff)
  from fin have "rs_completed rs' = c"
    by (auto simp: finish_tasks_def rs1 m interrupt_during_def Let_def dest!: commit_Continue split: if_splits prod.splits option.splits)
  with that [OF plan names _ ok] m show thesis by simp
qed

text \<open>The nodes of a graph that have not completed.\<close>

definition open_nodes :: "engine \<Rightarrow> bool gomap \<Rightarrow> string set" where
  "open_nodes e completed = {n \<in> gm_dom (sg_nodes (en_graph e)). \<not> gm_bool completed n}"

definition dag_engine :: "engine \<Rightarrow> bool" where
  "dag_engine e \<longleftrightarrow> graph_ok (en_graph e) \<and> sg_NodeTriggerMode (en_graph e) = NodeTriggerAllPredecessor"

lemma plan_open:
  assumes "dag_engine e" and "prepareNextTasks fv ids ctx e r completed lastNode st = Inr (tasks, triggers)" and "t \<in> set tasks"
  shows "tk_Name t \<in> open_nodes e completed"
proof (cases "length completed = 0")
  case True
  with assms(2,3) obtain n where "getNode e (getEntryPoint e) = Some n" "tk_Name t = nd_Name n"
    by (auto simp: prepareNextTasks_def prepareNextTasksWithMode_def createTask_def Let_def split: if_splits option.splits)
  moreover from this have mem: "(getEntryPoint e, n) \<in> set (sg_nodes (en_graph e))" by (simp add: getNode_def map_of_SomeD)
  moreover have "nd_Name n = getEntryPoint e" using mem assms(1) by (auto simp: dag_engine_def graph_ok_def)
  moreover have "getEntryPoint e \<in> gm_dom (sg_nodes (en_graph e))" using mem by (rule image_eqI [rotated]) simp
  ultimately show ?thesis using True by (simp add: open_nodes_def)
next
  case False
  with assms(1,2) have tasks: "tasks = fst (prepareNextTasksDAG ids e completed True)"
    by (simp add: prepareNextTasks_def prepareNextTasksWithMode_def dag_engine_def)
  have "tk_Name t \<in> set (map tk_Name tasks)" using assms(3) by simp
  also have "map tk_Name tasks = filter (ready e completed) (gm_keys (sg_nodes (en_graph e)))"
    unfolding tasks using assms(1) by (intro DAG_task_names) (simp add: dag_engine_def)
  finally have "tk_Name t \<in> set (filter (ready e completed) (gm_keys (sg_nodes (en_graph e))))" .
  then show ?thesis by (auto simp: open_nodes_def ready_def)
qed

lemma superstep_completes:
  assumes "dag_engine (rs_engine rs)" and "superstep env threadID sub step rs = (Continue, rs')"
  shows "open_nodes (rs_engine rs) (rs_completed rs') \<subset> open_nodes (rs_engine rs) (rs_completed rs)"
proof -
  obtain tasks triggers results r where plan:
    "prepareNextTasks (env_fv env) (env_taskUUID env step) [nat step] (rs_engine rs) (rs_registry rs)
       (rs_completed rs) (rs_lastNode rs) (rs_lastState rs) = Inr (tasks, triggers)"
    and names: "map tr_Name results = map tk_Name tasks"
    and marked: "rs_completed rs' = fst (mark_results results (rs_completed rs) (rs_lastNode rs) (rs_lastState rs))"
    and r: "r \<in> set results" "tr_Err r = None"
    using superstep_Continue [OF assms(2)] by metis
  have "tr_Name r \<in> tk_Name ` set tasks" using r(1) names by (metis imageI set_map)
  then have "tr_Name r \<in> open_nodes (rs_engine rs) (rs_completed rs)"
    using plan_open [OF assms(1) plan] by auto
  moreover have "tr_Name r \<notin> open_nodes (rs_engine rs) (rs_completed rs')"
    using r by (auto simp: open_nodes_def marked mark_results_completed)
  moreover have "open_nodes (rs_engine rs) (rs_completed rs') \<subseteq> open_nodes (rs_engine rs) (rs_completed rs)"
    by (auto simp: open_nodes_def marked mark_results_completed)
  ultimately show ?thesis by auto
qed

lemma finite_open_nodes [simp]: "finite (open_nodes e c)"
  by (simp add: open_nodes_def)

lemma open_nodes_setup: "setup_of e' = setup_of e \<Longrightarrow> open_nodes e' c = open_nodes e c \<and> dag_engine e' = dag_engine e"
  using setup_of_eqD(1) [of e' e] by (simp add: open_nodes_def dag_engine_def)

lemma run_steps_open:
  assumes "run_steps env threadID sub s rs k rs'" and "dag_engine (rs_engine rs)"
  shows "k + card (open_nodes (rs_engine rs) (rs_completed rs')) \<le> card (open_nodes (rs_engine rs) (rs_completed rs))"
  using assms(1)
proof (induction rule: run_steps.induct)
  case (more k rs' rs'')
  note same = open_nodes_setup [OF run_steps_setup [OF more.hyps(1)]]
  have "open_nodes (rs_engine rs) (rs_completed rs'') \<subset> open_nodes (rs_engine rs) (rs_completed rs')"
    using superstep_completes [OF _ more.hyps(4)] same assms(2) by simp
  then have "card (open_nodes (rs_engine rs) (rs_completed rs'')) < card (open_nodes (rs_engine rs) (rs_completed rs'))"
    by (intro psubset_card_mono) simp_all
  with more.IH show ?case by simp
qed simp

lemma superstep_not_recursion:
  "superstep env threadID sub step rs = (Failed err, rs') \<Longrightarrow> \<not> IsGraphRecursionError err"
  by (auto simp: superstep_def interrupt_before_def finish_tasks_def interrupt_during_def commit_step_def save_step_def
      wrap_err_def Let_def dest!: executeTasksAsync_panics elim!: IsPanic.elims
      split: sum.splits prod.splits option.splits if_splits)

text \<open>
  C10: a run in the all-predecessors mode makes progress. Every superstep that continues completes a node that had
  not completed, so a run takes at most as many supersteps as there are open nodes. With a limit
  above that number the recursion error cannot occur.
\<close>

theorem dag_run_progress:
  assumes "dag_engine (rs_engine rs)"
    and "int (card (open_nodes (rs_engine rs) (rs_completed rs))) < en_recursionLimit (rs_engine rs)"
    and "\<And>s. env_done env s = None"
    and "run_loop env threadID sub 0 rs = (res, n, rs')"
  shows "n \<le> int (card (open_nodes (rs_engine rs) (rs_completed rs))) \<and> res \<noteq> Some (GraphRecursionError l)"
proof -
  obtain k rs1 where k: "run_steps env threadID sub 0 rs k rs1" "loop_end env threadID sub (int k) rs1 res rs'" "n = int k"
    using run_loop_ends [of env threadID sub 0 rs] assms(4) by auto
  have bound: "k \<le> card (open_nodes (rs_engine rs) (rs_completed rs))" using run_steps_open [OF k(1) assms(1)] by simp
  then have "\<not> en_recursionLimit (rs_engine rs1) \<le> int k" using assms(2) by (simp add: run_steps_limit [OF k(1)])
  with k(2) assms(3) have "res \<noteq> Some (GraphRecursionError l)"
    by (auto simp: loop_end_def dest: superstep_not_recursion)
  with bound k(3) show ?thesis by simp
qed

theorem dag_run_progress_witness:
  "let g = (AddNode ''a'' (Some (\<lambda>ctx v. Inr v)) (NewStateGraph (SchemaMap K_String)))
             \<lparr>sg_NodeTriggerMode := NodeTriggerAllPredecessor\<rparr>;
       rs = \<lparr>rs_engine = NewEngine g [], rs_registry = NewRegistry, rs_completed = [], rs_lastNode = [],
             rs_lastState = GNil, rs_store = (), rs_async = [], rs_events = []\<rparr>;
       out = run_loop (quiet_env None) ''t'' [] 0 rs
   in fst (snd out) \<le> 1 \<and> fst out \<noteq> Some (GraphRecursionError 25)"
proof -
  define g where "g = (AddNode ''a'' (Some (\<lambda>ctx v. Inr v)) (NewStateGraph (SchemaMap K_String)))
             \<lparr>sg_NodeTriggerMode := NodeTriggerAllPredecessor\<rparr>"
  define rs where "rs = \<lparr>rs_engine = NewEngine g [], rs_registry = NewRegistry, rs_completed = [], rs_lastNode = [],
             rs_lastState = GNil, rs_store = (), rs_async = [], rs_events = []\<rparr>"
  have e: "en_graph (rs_engine rs) = g" "en_recursionLimit (rs_engine rs) = 25" "rs_completed rs = []"
    by (simp_all add: rs_def NewEngine_def)
  have nodes: "sg_nodes g = [(''a'', NewNode ''a'' (Some (\<lambda>ctx v. Inr v)))]"
    by (simp add: g_def AddNode_def NewStateGraph_def)
  have "graph_ok g"
    by (simp add: graph_ok_def topology_in_def nodes NewNode_def)
      (simp add: g_def AddNode_def NewStateGraph_def)
  then have dag: "dag_engine (rs_engine rs)" by (simp add: dag_engine_def e g_def)
  have "open_nodes (rs_engine rs) (rs_completed rs) = {''a''}" by (auto simp: open_nodes_def e nodes)
  then have one: "card (open_nodes (rs_engine rs) (rs_completed rs)) = 1" by simp
  obtain res n rs' where out: "run_loop (quiet_env None) ''t'' [] 0 rs = (res, n, rs')" by (rule prod_cases3)
  have "n \<le> int 1 \<and> res \<noteq> Some (GraphRecursionError 25)"
    using dag_run_progress [OF dag _ _ out, of 25] unfolding one e(2) by (simp add: quiet_env_def)
  then show ?thesis unfolding Let_def g_def [symmetric] rs_def [symmetric] by (simp add: out)
qed

end
