(* ===== verification/Pregel_Resume.thy ===== *)
theory Pregel_Resume
  imports Pregel_Properties
begin

text \<open>
  Interrupting a run and resuming it. The engine is a client of the checkpointer interface; what it relies
  on beyond the interface's laws is stated as an extension of it. The lemmas are proved for every checkpointer and
  used for the in-memory saver.
\<close>

section \<open>The engine's view of a checkpointer\<close>

definition stops_at_entry :: "'s run_env \<Rightarrow> engine \<Rightarrow> bool" where
  "stops_at_entry env e \<longleftrightarrow>
     env_done env 0 = None \<and> 0 < en_recursionLimit e
     \<and> getEntryPoint e \<noteq> [] \<and> getEntryPoint e \<noteq> End
     \<and> (\<exists>n. getNode e (getEntryPoint e) = Some n \<and> nd_Name n = getEntryPoint e)
     \<and> (gm_bool (en_interrupts e) (getEntryPoint e) \<or> gm_bool (en_interrupts e) All)"

locale engine_checkpointer = checkpointer +
  assumes thread_config: "thread [(ConfigKeyThreadID, GStr t)] = Some t"
    and cid_config: "cid [(ConfigKeyThreadID, GStr t)] = None"
    and copy_keys: "gm_keys (copy cp) = gm_keys cp"
begin

text \<open>An environment whose checkpointer is this one.\<close>

definition saves_here :: "'a run_env \<Rightarrow> bool" where
  "saves_here env \<longleftrightarrow> env_checkpointer env = Some \<lparr>co_Get = get, co_Put = put\<rparr>"

lemma put_thread_ok:
  assumes "saves_here env"
  shows "fst (put_thread env t step cp s) = None"
    and "get (snd (put_thread env t step cp s)) [(ConfigKeyThreadID, GStr t)] = Inr (Some (copy cp))"
  using assms thread_config [of t] cid_config [of t]
  by (auto simp: saves_here_def put_thread_def put_ok get_put_latest)

lemma load_latest:
  assumes "saves_here env" and "requested_id e = []"
  shows "load_checkpoint env e t s =
    (case get s [(ConfigKeyThreadID, GStr t)] of Inr (Some cp) \<Rightarrow> Inr (Some cp) | _ \<Rightarrow> Inr None)"
  using assms by (auto simp: saves_here_def load_checkpoint_def Let_def split: sum.split option.split)

text \<open>An interrupt inside a step saves the payload, and the next run loads its copy.\<close>

lemma interrupt_during_saves:
  assumes "saves_here env" and "requested_id e = []" and "list_ex is_interrupt results"
    and "mark_results results (rs_completed rs) (rs_lastNode rs) (rs_lastState rs) = (c, n, st)"
    and "finish_tasks env t step results triggers rs = (res, rs')"
  shows "(\<exists>is. res = Failed (GraphInterrupt is)) \<and> rs_completed rs' = c
    \<and> load_checkpoint env e t (rs_store rs') =
        Inr (Some (copy (interrupt_payload env step (rs_registry rs) c n st results)))"
proof -
  let ?cp = "interrupt_payload env step (rs_registry rs) c n st results"
  obtain s' where s': "put_thread env t step ?cp (rs_store rs) = (None, s')"
    using put_thread_ok(1) [OF assms(1), of t step ?cp "rs_store rs"] by (metis prod.collapse)
  then have "get s' [(ConfigKeyThreadID, GStr t)] = Inr (Some (copy ?cp))"
    using put_thread_ok(2) [OF assms(1), of t step ?cp "rs_store rs"] by simp
  moreover from assms(3-5) s' have "rs_store rs' = s'" "rs_completed rs' = c" "\<exists>is. res = Failed (GraphInterrupt is)"
    by (auto simp: finish_tasks_def interrupt_during_def Let_def split: option.splits)
  ultimately show ?thesis by (simp add: load_latest [OF assms(1,2)])
qed

text \<open>
  An engine that stops before its entry point: nothing is executed, and what is saved is the checkpoint
  of the channels alone.
\<close>

lemma interrupt_at_entry:
  assumes "saves_here env" and "stops_at_entry env e"
    and "start_run env e input s = (None, sub, rs)" and "rs_completed rs = []" and "setup_of (rs_engine rs) = setup_of e"
  shows "\<exists>rs'. Run env e input s = (Some (GraphInterrupt []), rs')
    \<and> get (rs_store rs') [(ConfigKeyThreadID, GStr (getThreadID env e))] = Inr (Some (copy (CreateCheckpoint (rs_registry rs))))"
proof -
  let ?t = "getThreadID env e" and ?cp = "CreateCheckpoint (rs_registry rs)"
  note same = setup_of_eqD [OF assms(5)]
  from assms(2) obtain n where n: "getNode (rs_engine rs) (getEntryPoint e) = Some n" "nd_Name n = getEntryPoint e"
    by (auto simp: stops_at_entry_def getNode_def same)
  have entry: "getEntryPoint (rs_engine rs) = getEntryPoint e" by (simp add: getEntryPoint_def same)
  define uid where "uid = env_taskUUID env 0"
  obtain trig where plan: "prepareNextTasks (env_fv env) uid [0] (rs_engine rs) (rs_registry rs) [] (rs_lastNode rs) (rs_lastState rs)
      = Inr ([createTask (uid 0) n trig []], [Start])"
    using assms(2) n(1) entry
    by (auto simp: prepareNextTasks_def prepareNextTasksWithMode_def stops_at_entry_def Let_def)
  have stop: "shouldInterrupt (rs_engine rs) [createTask (uid 0) n trig []] = [createTask (uid 0) n trig []]"
    using assms(2) n(2) by (auto simp: shouldInterrupt_def stops_at_entry_def same createTask_def Let_def)
  obtain s' where s': "put_thread env ?t 0 ?cp (rs_store rs) = (None, s')"
    using put_thread_ok(1) [OF assms(1), of ?t 0 ?cp "rs_store rs"] by (metis prod.collapse)
  have "get s' [(ConfigKeyThreadID, GStr ?t)] = Inr (Some (copy ?cp))"
    using put_thread_ok(2) [OF assms(1), of ?t 0 ?cp "rs_store rs"] s' by simp
  moreover have "\<exists>rs'. superstep env ?t sub 0 rs = (Failed (GraphInterrupt []), rs') \<and> rs_store rs' = s'"
    by (simp add: superstep_def assms(4) plan [unfolded uid_def] stop [unfolded uid_def] interrupt_before_def s' Let_def)
  moreover have "env_done env 0 = None" "0 < en_recursionLimit (rs_engine rs)"
    using assms(2) by (simp_all add: stops_at_entry_def same)
  ultimately show ?thesis
    by (auto simp: Run_def assms(3) run_loop.simps [of env _ sub 0 rs])
qed

end

definition saver_ops :: "memory_saver checkpointer_ops" where
  "saver_ops = \<lparr>co_Get = ms_Get, co_Put = ms_Put\<rparr>"

interpretation engine_saver: engine_checkpointer ms_Get ms_Put deepCopyMap
  "config_string ConfigKeyThreadID" "config_string ConfigKeyCheckpointID" NewMemorySaver
  by unfold_locales (simp_all add: config_string_def gm_val_def as_string_def)

lemma saver_here: "engine_saver.saves_here env \<longleftrightarrow> env_checkpointer env = Some saver_ops"
  by (simp add: engine_saver.saves_here_def saver_ops_def)

section \<open>The payload of an interrupt\<close>

definition reserved_keys :: "string list" where
  "reserved_keys = [''__completed_tasks__'', ''__last_completed_node__'', ''__step__'', ''__last_state__'', ''__sub_state__'']"

lemma map_of_put_opt: "map_of (put_opt k v m) x = (if x = k \<and> v \<noteq> None then v else map_of m x)"
  by (simp add: put_opt_def gomap_simps split: option.split)

lemma payload_lookup:
  "map_of (interrupt_payload env step r c n st results) ''__completed_tasks__'' = Some (GStr (serializeStringSet c))"
  "k \<notin> set reserved_keys \<Longrightarrow>
     map_of (interrupt_payload env step r c n st results) k = map_of (CreateCheckpoint r) k"
  "sub_state env results = Some b \<Longrightarrow>
     map_of (interrupt_payload env step r c n st results) ''__sub_state__'' = Some (GBytes b)"
  by (simp_all add: interrupt_payload_def map_of_put_opt gomap_simps reserved_keys_def CreateCheckpoint_ok Let_def)






section \<open>The start of a run\<close>

lemma start_run_setup:
  assumes "start_run env e input s = (None, sub, rs)"
  shows "setup_of (rs_engine rs) = setup_of e"
  using assms
  by (auto simp: start_run_def Let_def split: prod.splits option.splits sum.splits)

lemma requested_id_resets [simp]:
  "requested_id (e\<lparr>en_currentCheckpoint := c\<rparr>) = requested_id e" "requested_id (e\<lparr>en_channelVersions := v\<rparr>) = requested_id e"
  "requested_id (e\<lparr>en_versionsSeen := vs\<rparr>) = requested_id e" "requested_id (e\<lparr>en_deferredCheckpoints := d\<rparr>) = requested_id e"
  by (simp_all add: requested_id_def)

lemma start_run_completed:
  assumes "start_run env e input s = (None, sub, rs)"
  shows "rs_completed rs =
    (case load_checkpoint env e (getThreadID env e) s of Inr (Some cp) \<Rightarrow> resumed_tasks cp | _ \<Rightarrow> [])"
proof -
  let ?e = "e\<lparr>en_currentCheckpoint := None, en_channelVersions := [], en_versionsSeen := [], en_deferredCheckpoints := []\<rparr>"
  have "load_checkpoint env ?e t s = load_checkpoint env e t s" for t
    unfolding load_checkpoint_def by (simp only: requested_id_resets)
  then show ?thesis
    using assms
    by (auto simp: start_run_def Let_def split: prod.splits option.splits sum.splits)
qed






text \<open>
  The sub-state of an interrupted node does not survive the in-memory saver. The engine saves its JSON text as
  bytes, which the saver's JSON copy turns into base64 text, and the resumed run hands that text to the node. Every
  text with an opening brace, which every JSON object has, differs from what the node saved.
\<close>

theorem sub_state_comes_back_as_base64:
  assumes "env_checkpointer env = Some saver_ops" and "requested_id e = []" and "list_ex is_interrupt results"
    and "sub_state env results = Some b" and "CHR ''{'' \<in> set b"
  shows "\<exists>is rs' cp. finish_tasks env t step results triggers rs = (Failed (GraphInterrupt is), rs')
    \<and> load_checkpoint env e t (rs_store rs') = Inr (Some cp)
    \<and> resumed_sub_state cp = base64 b \<and> base64 b \<noteq> b"
proof -
  obtain c n st where m: "mark_results results (rs_completed rs) (rs_lastNode rs) (rs_lastState rs) = (c, n, st)"
    by (rule prod_cases3)
  obtain res rs' where fin: "finish_tasks env t step results triggers rs = (res, rs')" by (rule prod.exhaust)
  let ?cp = "deepCopyMap (interrupt_payload env step (rs_registry rs) c n st results)"
  from engine_saver.interrupt_during_saves [OF _ assms(2,3) m fin] assms(1) obtain "is" where
    res: "res = Failed (GraphInterrupt is)" "load_checkpoint env e t (rs_store rs') = Inr (Some ?cp)"
    by (auto simp: saver_here)
  have "resumed_sub_state ?cp = base64 b"
    by (simp add: resumed_sub_state_def gm_val_def map_of_deepCopyMap payload_lookup(3) [OF assms(4)] deepCopy.simps)
  moreover have "CHR ''{'' \<notin> set (base64 b)"
    using set_base64 [of b] by (auto simp: b64_alphabet_def)
  ultimately show ?thesis using fin res assms(5) by metis
qed

theorem sub_state_comes_back_as_base64_witness:
  "let r = \<lparr>tr_Name = ''b'', tr_Output = GNil,
            tr_Err = Some (GraphInterrupt [GPtr (GStruct ''types.Interrupt'' [] [(''Value'', GMap [])])])\<rparr>;
       env = (quiet_env (Some saver_ops))\<lparr>env_marshal := \<lambda>v. if v = GMap [] then Some ''{}'' else None\<rparr>;
       e = NewEngine (NewStateGraph (SchemaMap K_String)) [];
       rs = \<lparr>rs_engine = e, rs_registry = NewRegistry, rs_completed = [], rs_lastNode = [],
             rs_lastState = GNil, rs_store = NewMemorySaver, rs_async = [], rs_events = []\<rparr>
   in \<exists>is rs' cp. finish_tasks env ''t'' 0 [r] [] rs = (Failed (GraphInterrupt is), rs')
      \<and> load_checkpoint env e ''t'' (rs_store rs') = Inr (Some cp) \<and> resumed_sub_state cp = ''e30=''"
proof -
  define r where "r = \<lparr>tr_Name = ''b'', tr_Output = GNil,
            tr_Err = Some (GraphInterrupt [GPtr (GStruct ''types.Interrupt'' [] [(''Value'', GMap [])])])\<rparr>"
  define env where "env = (quiet_env (Some saver_ops))\<lparr>env_marshal := \<lambda>v. if v = GMap [] then Some ''{}'' else None\<rparr>"
  define e where "e = NewEngine (NewStateGraph (SchemaMap K_String)) []"
  have "requested_id e = []"
    by (simp add: e_def NewEngine_def requested_id_def NewRunnableConfig_def gm_val_def as_string_def)
  moreover have "sub_state env [r] = Some ''{}''"
    by (simp add: sub_state_def first_interrupt_def interrupt_value_def r_def env_def gm_val_def)
  moreover have "base64 ''{}'' = ''e30=''" by (simp add: b64_char_def b64_alphabet_def Let_def)
  moreover have "env_checkpointer env = Some saver_ops" by (simp add: env_def quiet_env_def)
  moreover have "list_ex is_interrupt [r]" by (simp add: is_interrupt_def r_def)
  ultimately have "\<exists>is rs' cp. finish_tasks env ''t'' 0 [r] [] rs = (Failed (GraphInterrupt is), rs')
      \<and> load_checkpoint env e ''t'' (rs_store rs') = Inr (Some cp) \<and> resumed_sub_state cp = ''e30=''" for rs
    using sub_state_comes_back_as_base64 [of env e "[r]" "''{}''" "''t''" 0 "[]" rs] by simp
  then show ?thesis unfolding Let_def r_def [symmetric] env_def [symmetric] e_def [symmetric] by blast
qed

section \<open>Interrupts before a node\<close>

text \<open>The store after a number of runs of a thread, each with the same input.\<close>

definition store_after :: "memory_saver run_env \<Rightarrow> engine \<Rightarrow> goval \<Rightarrow> nat \<Rightarrow> memory_saver" where
  "store_after env e input k = ((\<lambda>s. rs_store (snd (Run env e input s))) ^^ k) NewMemorySaver"

text \<open>
  An interrupt before the entry point is permanent. The checkpoint saved there does not say that the interrupt was
  taken, so every further run of the thread starts at the entry point again and is interrupted
  before it: no number of resumptions executes the node.
\<close>

theorem interrupt_before_entry_is_permanent:
  assumes "env_checkpointer env = Some saver_ops" and "requested_id e = []" and "stops_at_entry env e"
    and "\<And>s. \<exists>sub rs. start_run env e input s = (None, sub, rs)
           \<and> ''__completed_tasks__'' \<notin> gm_dom (CreateCheckpoint (rs_registry rs))"
  shows "fst (Run env e input (store_after env e input k)) = Some (GraphInterrupt [])"
proof -
  let ?c = "[(ConfigKeyThreadID, GStr (getThreadID env e))]"
  have here: "engine_saver.saves_here env" by (simp add: saver_here assms(1))
  define fresh where "fresh s \<longleftrightarrow> (\<forall>cp. ms_Get s ?c = Inr (Some cp) \<longrightarrow> gm_val cp ''__completed_tasks__'' = GNil)" for s
  have step: "fst (Run env e input s) = Some (GraphInterrupt []) \<and> fresh (rs_store (snd (Run env e input s)))"
    if "fresh s" for s
  proof -
    from assms(4) obtain sub rs where start: "start_run env e input s = (None, sub, rs)"
      and key: "''__completed_tasks__'' \<notin> gm_dom (CreateCheckpoint (rs_registry rs))" by blast
    have "rs_completed rs = []"
      using that unfolding fresh_def start_run_completed [OF start] engine_saver.load_latest [OF here assms(2)]
      by (auto simp: resumed_tasks_def split: sum.split option.split)
    from engine_saver.interrupt_at_entry [OF here assms(3) start this start_run_setup [OF start]]
    obtain rs' where "Run env e input s = (Some (GraphInterrupt []), rs')"
      "ms_Get (rs_store rs') ?c = Inr (Some (deepCopyMap (CreateCheckpoint (rs_registry rs))))" by blast
    moreover have "gm_val (deepCopyMap (CreateCheckpoint (rs_registry rs))) ''__completed_tasks__'' = GNil"
      using key by (simp add: gm_val_def map_of_deepCopyMap map_of_eq_None_keys [THEN iffD2])
    ultimately show ?thesis by (simp add: fresh_def)
  qed
  have "fresh (store_after env e input k)"
  proof (induction k)
    case 0
    show ?case
      using saver.get_empty [OF engine_saver.thread_config engine_saver.cid_config]
      by (simp add: fresh_def store_after_def)
  next
    case (Suc k)
    then show ?case using step by (simp add: store_after_def)
  qed
  with step show ?thesis by blast
qed

theorem interrupt_before_entry_is_permanent_witness:
  "let e = NewEngine (snd (SetEntryPoint ''a'' (AddNode ''a'' (Some (\<lambda>ctx v. Inr v)) (NewStateGraph (SchemaMap K_String)))))
             [eo_WithInterrupts [''a'']];
       env = quiet_env (Some saver_ops)
   in fst (Run env e (GMap []) (store_after env e (GMap []) 7)) = Some (GraphInterrupt [])"
proof -
  define g where "g = snd (SetEntryPoint ''a'' (AddNode ''a'' (Some (\<lambda>ctx v. Inr v)) (NewStateGraph (SchemaMap K_String))))"
  define e where "e = NewEngine g [eo_WithInterrupts [''a'']]"
  define env where "env = quiet_env (Some saver_ops)"
  have g: "sg_nodes g = [(''a'', NewNode ''a'' (Some (\<lambda>ctx v. Inr v)))]" "sg_entryPoint g = ''a''" "sg_channels g = []"
    by (simp_all add: g_def SetEntryPoint_def AddNode_def NewStateGraph_def)
  have e: "en_graph e = g" "en_interrupts e = [(''a'', True)]" "en_recursionLimit e = 25" "requested_id e = []"
    by (simp_all add: e_def NewEngine_def eo_WithInterrupts_def requested_id_def NewRunnableConfig_def gm_val_def as_string_def)
  have env: "env_checkpointer env = Some saver_ops" "env_done env 0 = None" by (simp_all add: env_def quiet_env_def)
  have "stops_at_entry env e"
    by (simp add: stops_at_entry_def env e g getEntryPoint_def getNode_def End_def NewNode_def gm_bool_def)
  moreover have "\<exists>sub rs. start_run env e (GMap []) s = (None, sub, rs)
      \<and> ''__completed_tasks__'' \<notin> gm_dom (CreateCheckpoint (rs_registry rs))" for s
  proof -
    have load: "load_checkpoint env e' t s \<noteq> Inl err" if "requested_id e' = []" for e' t err
      using engine_saver.load_latest [of env e' t s] that by (auto simp: saver_here env split: sum.split option.split)
    show ?thesis
      by (auto simp: start_run_def start_registry_def e g applyInput_def toMap_def NewRegistry_def restore_channels_def
          reg_Get_def CreateCheckpoint_def load Let_def
          split: sum.split option.split)
  qed
  ultimately show ?thesis
    using interrupt_before_entry_is_permanent [OF env(1) e(4), of "GMap []" 7]
    unfolding Let_def g_def [symmetric] e_def [symmetric] env_def [symmetric] by blast
qed

section \<open>The input of a fresh run\<close>

text \<open>
  The input is applied twice. A run that resumes nothing applies its input before and after it looks for
  a checkpoint, so an aggregate starts with its input counted twice.
\<close>

theorem input_applied_twice:
  "let g = AddChannel ''n'' (Some (BinaryOperatorAggregate (NewBinaryOperatorAggregate (GInt 0) IntAdd)))
             (NewStateGraph (SchemaMap K_String));
       (err, sub, rs) = start_run (quiet_env None) (NewEngine g []) (GMap [(''n'', GInt x)]) ()
   in err = None \<and> fst (ch_Get (channel_for (rs_registry rs) ''n'')) = Inr (GInt (x + x))"
  by (simp add: start_run_def start_registry_def AddChannel_def NewStateGraph_def NewEngine_def applyInput_def toMap_def
      NewRegistry_def Register_def reg_Get_def load_checkpoint_def quiet_env_def bo_defs bo_Update_def isOverwrite_def
      IntAdd_def channel_for_def IsMissing_def Let_def)

end
