(* ===== verification/Memory_Store.thy ===== *)
theory Memory_Store
  imports Go_Errors "HOL-Library.Sublist" "HOL-Library.Word"
begin

text \<open>
  The in-memory key-value store (\<^verbatim>\<open>store/memory.go\<close>): values in namespaces, with expiry times, filters and the
  periodic sweep of what has expired. Every method holds the store's lock, so it is one step; \<open>now\<close> is the time
  of the step, in nanoseconds. A value is a map that the store copies one level deep; sharing of what
  lies below is not modelled.

  What the store takes from the standard library and the platform is an argument of the matching functions, collected in
  the record \<open>text_ops\<close>: lower-casing by the Unicode tables, regular expressions (\<open>None\<close> for a pattern that does not
  compile), the equality of pointers and structs, and the sorting by score, which may order equal scores as it likes.
\<close>

section \<open>The store\<close>

record index_config =
  ic_Dims :: int
  ic_HasEmbed :: bool
  ic_Fields :: "string list"

record in_memory_store =
  st_data :: "goval gomap gomap gomap"
  st_ttl :: "int gomap"
  st_indexes :: "float64 list gomap gomap"
  st_indexConfigs :: "index_config gomap"
  st_closed :: bool

definition NewInMemoryStore :: in_memory_store where
  "NewInMemoryStore = \<lparr>st_data = [], st_ttl = [], st_indexes = [], st_indexConfigs = [], st_closed = False\<rparr>"

definition closedErr :: go_error where
  "closedErr = StoreError ''store is closed'' []"

definition nsKey :: "string list \<Rightarrow> string" where
  "nsKey namespace = go_join ''|'' namespace"

definition fullKey :: "string \<Rightarrow> string \<Rightarrow> string" where
  "fullKey nk key = nk @ '':'' @ key"

definition checkTTL :: "int \<Rightarrow> in_memory_store \<Rightarrow> string \<Rightarrow> bool" where
  "checkTTL now s fk = (case map_of (st_ttl s) fk of Some expiry \<Rightarrow> now < expiry | None \<Rightarrow> True)"

definition copyValue :: "goval gomap \<Rightarrow> goval gomap" where
  "copyValue value = fold (\<lambda>(k, v). gm_put k v) value []"

definition im_Get :: "int \<Rightarrow> in_memory_store \<Rightarrow> string list \<Rightarrow> string \<Rightarrow> goval gomap option go_result" where
  "im_Get now s namespace key =
     (if st_closed s then Inl closedErr
      else let nk = nsKey namespace
           in case map_of (st_data s) nk of
                None \<Rightarrow> Inr None
              | Some nsData \<Rightarrow>
                  if \<not> checkTTL now s (fullKey nk key) then Inr None
                  else Inr (map_option copyValue (map_of nsData key)))"

text \<open>The lines every writing operation shares.\<close>

definition put_value :: "string list \<Rightarrow> string \<Rightarrow> goval gomap \<Rightarrow> in_memory_store \<Rightarrow> in_memory_store" where
  "put_value namespace key value s =
     (let nk = nsKey namespace; nsData = (case map_of (st_data s) nk of None \<Rightarrow> [] | Some m \<Rightarrow> m)
      in s\<lparr>st_data := gm_put nk (gm_put key (copyValue value) nsData) (st_data s)\<rparr>)"

definition set_expiry :: "int \<Rightarrow> string list \<Rightarrow> string \<Rightarrow> in_memory_store \<Rightarrow> in_memory_store" where
  "set_expiry expiry namespace key s = s\<lparr>st_ttl := gm_put (fullKey (nsKey namespace) key) expiry (st_ttl s)\<rparr>"

definition im_Put ::
  "string list \<Rightarrow> string \<Rightarrow> goval gomap \<Rightarrow> in_memory_store \<Rightarrow> go_error option \<times> in_memory_store" where
  "im_Put namespace key value s =
     (if st_closed s then (Some closedErr, s) else (None, put_value namespace key value s))"

definition im_Delete :: "string list \<Rightarrow> string \<Rightarrow> in_memory_store \<Rightarrow> go_error option \<times> in_memory_store" where
  "im_Delete namespace key s =
     (if st_closed s then (Some closedErr, s)
      else let nk = nsKey namespace
           in case map_of (st_data s) nk of
                None \<Rightarrow> (None, s)
              | Some nsData \<Rightarrow>
                  (None, s\<lparr>st_data := gm_put nk (gm_del key nsData) (st_data s),
                           st_ttl := gm_del (fullKey nk key) (st_ttl s)\<rparr>))"

definition SetTTL :: "int \<Rightarrow> string list \<Rightarrow> string \<Rightarrow> int \<Rightarrow> in_memory_store \<Rightarrow> go_error option \<times> in_memory_store" where
  "SetTTL now namespace key ttl s =
     (if st_closed s then (Some closedErr, s)
      else if ttl \<le> 0 then (None, s)
      else (None, set_expiry (now + ttl) namespace key s))"

definition im_Clear :: "in_memory_store \<Rightarrow> in_memory_store" where
  "im_Clear s = s\<lparr>st_data := [], st_ttl := []\<rparr>"

definition im_Close :: "in_memory_store \<Rightarrow> in_memory_store" where
  "im_Close s = (if st_closed s then s else s\<lparr>st_closed := True\<rparr>)"

section \<open>Matching\<close>

record item =
  it_Value :: "goval gomap"
  it_Key :: string
  it_Namespace :: "string list"
  it_CreatedAt :: int
  it_UpdatedAt :: int
  it_ExpiresAt :: "int option"

record search_item =
  si_Item :: item
  si_Score :: "float64 option"

record text_ops =
  tx_lower :: "string \<Rightarrow> string"
  tx_regex :: "string \<Rightarrow> (string \<Rightarrow> bool) option"
  tx_same :: "goval \<Rightarrow> goval \<Rightarrow> bool"
  tx_sort :: "(search_item \<times> float64) list \<Rightarrow> (search_item \<times> float64) list"

definition go_contains :: "string \<Rightarrow> string \<Rightarrow> bool" where
  "go_contains s t \<longleftrightarrow> list_ex (\<lambda>k. take (length t) (drop k s) = t) [0..<Suc (length s)]"

definition matchQuery :: "text_ops \<Rightarrow> goval gomap \<Rightarrow> string \<Rightarrow> bool" where
  "matchQuery tx value query \<longleftrightarrow>
     list_ex (\<lambda>(k, v). case v of GStr str \<Rightarrow> go_contains (tx_lower tx str) (tx_lower tx query) | _ \<Rightarrow> False) value"

text \<open>
  \<^verbatim>\<open>==\<close> on two interface values: false for different dynamic types, a panic for types that cannot be compared.
\<close>

definition uncomparable :: "goval \<Rightarrow> bool" where
  "uncomparable v =
     (case v of
        GBytes b \<Rightarrow> True | GSlice xs \<Rightarrow> True | GStrs xs \<Rightarrow> True | GFloats xs \<Rightarrow> True | GSliceMap xs \<Rightarrow> True
      | GMap m \<Rightarrow> True | GMapBool m \<Rightarrow> True | GMapInt m \<Rightarrow> True | GMapMapInt m \<Rightarrow> True | _ \<Rightarrow> False)"

definition go_equal :: "text_ops \<Rightarrow> goval \<Rightarrow> goval \<Rightarrow> bool go_result" where
  "go_equal tx a b =
     (if fmt_T a \<noteq> fmt_T b then Inr False
      else if uncomparable a then Inl (GoPanic (''runtime error: comparing uncomparable type '' @ fmt_T a))
      else Inr (case (a, b) of
             (GNil, GNil) \<Rightarrow> True
           | (GBool x, GBool y) \<Rightarrow> x = y
           | (GInt x, GInt y) \<Rightarrow> x = y
           | (GInt64 x, GInt64 y) \<Rightarrow> x = y
           | (GNum j x, GNum k y) \<Rightarrow> x = y
           | (GFloat x, GFloat y) \<Rightarrow> f_eq x y
           | (GStr x, GStr y) \<Rightarrow> x = y
           | _ \<Rightarrow> tx_same tx a b))"

definition greaterThan :: "goval \<Rightarrow> goval \<Rightarrow> bool" where
  "greaterThan a b =
     (case (a, b) of
        (GInt av, GInt bv) \<Rightarrow> bv <s av
      | (GInt64 av, GInt64 bv) \<Rightarrow> bv <s av
      | (GFloat av, GFloat bv) \<Rightarrow> f_less bv av
      | (GStr av, GStr bv) \<Rightarrow> bv < av
      | _ \<Rightarrow> False)"

definition lessThan :: "goval \<Rightarrow> goval \<Rightarrow> bool" where
  "lessThan a b =
     (case (a, b) of
        (GInt av, GInt bv) \<Rightarrow> av <s bv
      | (GInt64 av, GInt64 bv) \<Rightarrow> av <s bv
      | (GFloat av, GFloat bv) \<Rightarrow> f_less av bv
      | (GStr av, GStr bv) \<Rightarrow> av < bv
      | _ \<Rightarrow> False)"

fun in_loop :: "text_ops \<Rightarrow> goval \<Rightarrow> goval list \<Rightarrow> bool go_result" where
  "in_loop tx value [] = Inr False"
| "in_loop tx value (v # vs) =
     (case go_equal tx value v of Inl p \<Rightarrow> Inl p | Inr True \<Rightarrow> Inr True | Inr False \<Rightarrow> in_loop tx value vs)"

definition inArray :: "text_ops \<Rightarrow> goval \<Rightarrow> goval \<Rightarrow> bool go_result" where
  "inArray tx value array = (case as_slice array of None \<Rightarrow> Inr False | Some arr \<Rightarrow> in_loop tx value arr)"

definition regexMatch :: "text_ops \<Rightarrow> goval \<Rightarrow> goval \<Rightarrow> bool" where
  "regexMatch tx value pattern =
     (case (value, pattern) of
        (GStr str, GStr patternStr) \<Rightarrow> (case tx_regex tx patternStr of None \<Rightarrow> False | Some re \<Rightarrow> re str)
      | _ \<Rightarrow> False)"

definition go_not :: "bool go_result \<Rightarrow> bool go_result" where
  "go_not r = (case r of Inl p \<Rightarrow> Inl p | Inr b \<Rightarrow> Inr (\<not> b))"

definition compare_op :: "text_ops \<Rightarrow> goval \<Rightarrow> string \<Rightarrow> goval \<Rightarrow> bool go_result" where
  "compare_op tx fieldValue operator opValue =
     (if operator = ''$eq'' then go_equal tx fieldValue opValue
      else if operator = ''$ne'' then go_not (go_equal tx fieldValue opValue)
      else if operator = ''$gt'' then Inr (greaterThan fieldValue opValue)
      else if operator = ''$gte''
      then (if greaterThan fieldValue opValue then Inr True else go_equal tx fieldValue opValue)
      else if operator = ''$lt'' then Inr (lessThan fieldValue opValue)
      else if operator = ''$lte''
      then (if lessThan fieldValue opValue then Inr True else go_equal tx fieldValue opValue)
      else if operator = ''$in'' then inArray tx fieldValue opValue
      else if operator = ''$nin'' then go_not (inArray tx fieldValue opValue)
      else if operator = ''$regex'' then Inr (regexMatch tx fieldValue opValue)
      else Inr False)"

fun all_ops :: "text_ops \<Rightarrow> goval \<Rightarrow> goval gomap \<Rightarrow> bool go_result" where
  "all_ops tx fieldValue [] = Inr True"
| "all_ops tx fieldValue ((operator, opValue) # ops) =
     (case compare_op tx fieldValue operator opValue of
        Inl p \<Rightarrow> Inl p | Inr False \<Rightarrow> Inr False | Inr True \<Rightarrow> all_ops tx fieldValue ops)"

fun matchFilter :: "text_ops \<Rightarrow> goval gomap \<Rightarrow> goval gomap \<Rightarrow> bool go_result" where
  "matchFilter tx value [] = Inr True"
| "matchFilter tx value ((field, condition) # filters) =
     (case map_of value field of
        None \<Rightarrow> Inr False
      | Some fieldValue \<Rightarrow>
          (case (case condition of
                   GMap condMap \<Rightarrow> all_ops tx fieldValue condMap
                 | _ \<Rightarrow> compare_op tx fieldValue ''$eq'' condition) of
             Inl p \<Rightarrow> Inl p
           | Inr False \<Rightarrow> Inr False
           | Inr True \<Rightarrow> matchFilter tx value filters))"

section \<open>Searching\<close>

text \<open>
  A loop over a namespace that keeps the entries that are alive and match, up to a limit. A panic in the
  comparison ends it.
\<close>

fun search_loop ::
  "(string \<Rightarrow> bool) \<Rightarrow> (goval gomap \<Rightarrow> bool go_result) \<Rightarrow> int \<Rightarrow> goval gomap gomap \<Rightarrow> (string \<times> goval gomap) list
   \<Rightarrow> (string \<times> goval gomap) list go_result" where
  "search_loop alive matches limit [] results = Inr results"
| "search_loop alive matches limit ((key, value) # kvs) results =
     (if \<not> alive key then search_loop alive matches limit kvs results
      else case matches value of
             Inl p \<Rightarrow> Inl p
           | Inr False \<Rightarrow> search_loop alive matches limit kvs results
           | Inr True \<Rightarrow>
               (let results = results @ [(key, copyValue value)]
                in if limit > 0 \<and> int (length results) \<ge> limit then Inr results
                   else search_loop alive matches limit kvs results))"

definition im_Search ::
  "text_ops \<Rightarrow> int \<Rightarrow> in_memory_store \<Rightarrow> string list \<Rightarrow> string \<Rightarrow> int \<Rightarrow> goval gomap list go_result" where
  "im_Search tx now s namespace query limit =
     (if st_closed s then Inl closedErr
      else let nk = nsKey namespace
           in case map_of (st_data s) nk of
                None \<Rightarrow> Inr []
              | Some nsData \<Rightarrow>
                  map_sum id (map snd)
                    (search_loop (\<lambda>key. checkTTL now s (fullKey nk key))
                       (\<lambda>value. Inr (query = [] \<or> matchQuery tx value query)) limit nsData []))"

definition im_List :: "int \<Rightarrow> in_memory_store \<Rightarrow> string list \<Rightarrow> int \<Rightarrow> string list go_result" where
  "im_List now s namespace limit =
     (if st_closed s then Inl closedErr
      else let nk = nsKey namespace
           in case map_of (st_data s) nk of
                None \<Rightarrow> Inr []
              | Some nsData \<Rightarrow>
                  map_sum id (map fst)
                    (search_loop (\<lambda>key. checkTTL now s (fullKey nk key)) (\<lambda>value. Inr True) limit nsData []))"

text \<open>The offset is applied to what the limit has left, and only when it lies inside.\<close>

definition apply_offset :: "int \<Rightarrow> 'a list \<Rightarrow> 'a list" where
  "apply_offset offset results = (if offset > 0 \<and> offset < int (length results) then drop (nat offset) results else results)"

definition query_matches :: "text_ops \<Rightarrow> string option \<Rightarrow> goval gomap option \<Rightarrow> goval gomap \<Rightarrow> bool go_result" where
  "query_matches tx query flt value =
     (if (case query of None \<Rightarrow> False | Some q \<Rightarrow> q \<noteq> [] \<and> \<not> matchQuery tx value q) then Inr False
      else case flt of None \<Rightarrow> Inr True | Some f \<Rightarrow> matchFilter tx value f)"

definition make_item :: "int \<Rightarrow> in_memory_store \<Rightarrow> string list \<Rightarrow> string \<times> goval gomap \<Rightarrow> item" where
  "make_item now s namespace = (\<lambda>(key, value).
     \<lparr>it_Value = value, it_Key = key, it_Namespace = namespace, it_CreatedAt = now, it_UpdatedAt = now,
      it_ExpiresAt = map_of (st_ttl s) (fullKey (nsKey namespace) key)\<rparr>)"

definition plain_hit :: "item \<Rightarrow> search_item" where
  "plain_hit it = \<lparr>si_Item = it, si_Score = None\<rparr>"

definition GetItem :: "int \<Rightarrow> in_memory_store \<Rightarrow> string list \<Rightarrow> string \<Rightarrow> item option go_result" where
  "GetItem now s namespace key =
     (if st_closed s then Inl closedErr
      else let nk = nsKey namespace
           in case map_of (st_data s) nk of
                None \<Rightarrow> Inr None
              | Some nsData \<Rightarrow>
                  if \<not> checkTTL now s (fullKey nk key) then Inr None
                  else Inr (map_option (\<lambda>value. make_item now s namespace (key, copyValue value)) (map_of nsData key)))"

text \<open>
  The search by vectors. The loop over an index skips the vectors whose entry is gone or has expired. Sorting by
  descending score is the platform's, as it leaves the order of equal scores open.
\<close>

fun vector_sums :: "float64 list \<Rightarrow> float64 list \<Rightarrow> float64 \<Rightarrow> float64 \<Rightarrow> float64 \<Rightarrow> float64 \<times> float64 \<times> float64" where
  "vector_sums (x # xs) (y # ys) dot normA normB =
     vector_sums xs ys (f_add dot (f_mul x y)) (f_add normA (f_mul x x)) (f_add normB (f_mul y y))"
| "vector_sums xs ys dot normA normB = (dot, normA, normB)"

definition cosineSimilarity :: "float64 list \<Rightarrow> float64 list \<Rightarrow> float64" where
  "cosineSimilarity a b =
     (if length a \<noteq> length b \<or> length a = 0 then F_Fin 0
      else case vector_sums a b (F_Fin 0) (F_Fin 0) (F_Fin 0) of
             (dot, normA, normB) \<Rightarrow>
               if f_eq normA (F_Fin 0) \<or> f_eq normB (F_Fin 0) then F_Fin 0
               else f_div dot (f_mul (f_sqrt normA) (f_sqrt normB)))"

definition scored_item ::
  "int \<Rightarrow> in_memory_store \<Rightarrow> string \<Rightarrow> float64 list \<Rightarrow> string \<times> float64 list \<Rightarrow> (search_item \<times> float64) option" where
  "scored_item now s nk queryEmbedding = (\<lambda>(key, embedding).
     let score = cosineSimilarity queryEmbedding embedding
     in case map_of (st_data s) nk of
          None \<Rightarrow> None
        | Some nsData \<Rightarrow>
            (case map_of nsData key of
               None \<Rightarrow> None
             | Some value \<Rightarrow>
                 if \<not> checkTTL now s (fullKey nk key) then None
                 else Some (\<lparr>si_Item =
                               \<lparr>it_Value = copyValue value, it_Key = key, it_Namespace = go_split (CHR ''|'') nk,
                                it_CreatedAt = now, it_UpdatedAt = now,
                                it_ExpiresAt = map_of (st_ttl s) (fullKey nk key)\<rparr>,
                             si_Score = Some score\<rparr>, score)))"

definition searchByEmbedding ::
  "text_ops \<Rightarrow> int \<Rightarrow> in_memory_store \<Rightarrow> string \<Rightarrow> float64 list \<Rightarrow> int \<Rightarrow> search_item list" where
  "searchByEmbedding tx now s nk queryEmbedding limit =
     (case map_of (st_indexes s) nk of
        None \<Rightarrow> []
      | Some idxMap \<Rightarrow>
          (let scored = tx_sort tx (List.map_filter (scored_item now s nk queryEmbedding) idxMap);
               scored = (if limit > 0 \<and> limit < int (length scored) then take (nat limit) scored else scored)
           in map fst scored))"

definition SearchItems ::
  "text_ops \<Rightarrow> int \<Rightarrow> in_memory_store \<Rightarrow> string list \<Rightarrow> string option \<Rightarrow> goval gomap option \<Rightarrow> int \<Rightarrow> int
   \<Rightarrow> search_item list go_result" where
  "SearchItems tx now s namespace query flt limit offset =
     (if st_closed s then Inl closedErr
      else let nk = nsKey namespace
           in case (case flt of None \<Rightarrow> GNil | Some f \<Rightarrow> gm_val f ''$embedding'') of
                GFloats emb \<Rightarrow> Inr (apply_offset offset (searchByEmbedding tx now s nk emb limit))
              | _ \<Rightarrow>
                  (case map_of (st_data s) nk of
                     None \<Rightarrow> Inr []
                   | Some nsData \<Rightarrow>
                       map_sum id (\<lambda>results. apply_offset offset (map (plain_hit \<circ> make_item now s namespace) results))
                         (search_loop (\<lambda>key. checkTTL now s (fullKey nk key)) (query_matches tx query flt) limit nsData [])))"

section \<open>Items and indexes\<close>

datatype index_arg = NoIndex | IndexConfig index_config | IndexFields "string list" | IndexBool bool | IndexOther

text \<open>The first listed field that holds a vector is indexed.\<close>

fun first_vector :: "goval gomap \<Rightarrow> string list \<Rightarrow> float64 list option" where
  "first_vector value [] = None"
| "first_vector value (field # flds) =
     (case gm_val value field of GFloats emb \<Rightarrow> Some emb | _ \<Rightarrow> first_vector value flds)"

definition add_vector :: "string \<Rightarrow> string \<Rightarrow> float64 list \<Rightarrow> in_memory_store \<Rightarrow> in_memory_store" where
  "add_vector nk key emb s =
     s\<lparr>st_indexes := gm_put nk (gm_put key emb (case map_of (st_indexes s) nk of None \<Rightarrow> [] | Some m \<Rightarrow> m)) (st_indexes s)\<rparr>"

definition put_index :: "string \<Rightarrow> string \<Rightarrow> goval gomap \<Rightarrow> index_arg \<Rightarrow> in_memory_store \<Rightarrow> in_memory_store" where
  "put_index nk key value index s =
     (case index of
        IndexConfig idx \<Rightarrow>
          (let s = s\<lparr>st_indexConfigs := gm_put nk idx (st_indexConfigs s)\<rparr>
           in if ic_HasEmbed idx \<and> length (ic_Fields idx) > 0
              then (case first_vector value (ic_Fields idx) of Some emb \<Rightarrow> add_vector nk key emb s | None \<Rightarrow> s)
              else s)
      | IndexFields flds \<Rightarrow>
          (if length flds > 0
           then s\<lparr>st_indexConfigs := gm_put nk \<lparr>ic_Dims = 0, ic_HasEmbed = False, ic_Fields = flds\<rparr> (st_indexConfigs s)\<rparr>
           else s)
      | IndexBool b \<Rightarrow>
          (if b
           then s\<lparr>st_indexConfigs := gm_put nk \<lparr>ic_Dims = 0, ic_HasEmbed = False, ic_Fields = [''embedding'']\<rparr>
                   (st_indexConfigs s)\<rparr>
           else s)
      | _ \<Rightarrow> s)"

definition set_ttl_opt :: "int \<Rightarrow> string list \<Rightarrow> string \<Rightarrow> int option \<Rightarrow> in_memory_store \<Rightarrow> in_memory_store" where
  "set_ttl_opt now namespace key ttl s = (case ttl of None \<Rightarrow> s | Some d \<Rightarrow> set_expiry (now + d) namespace key s)"

definition PutItem ::
  "int \<Rightarrow> string list \<Rightarrow> string \<Rightarrow> goval gomap \<Rightarrow> index_arg \<Rightarrow> int option \<Rightarrow> in_memory_store
   \<Rightarrow> go_error option \<times> in_memory_store" where
  "PutItem now namespace key value index ttl s =
     (if st_closed s then (Some closedErr, s)
      else (None, put_index (nsKey namespace) key value index
                    (set_ttl_opt now namespace key ttl (put_value namespace key value s))))"

section \<open>Namespaces\<close>

datatype match_condition = MatchCondition (mc_MatchType: string) (mc_Path: "string list")

fun matchNamespaceConditions_loop :: "string list \<Rightarrow> match_condition list \<Rightarrow> bool" where
  "matchNamespaceConditions_loop namespace [] = False"
| "matchNamespaceConditions_loop namespace (cond # conds) =
     (let path = mc_Path cond
      in if mc_MatchType cond = ''prefix''
         then length namespace \<ge> length path \<and> take (length path) namespace = path
         else if mc_MatchType cond = ''suffix''
         then length namespace \<ge> length path \<and> drop (length namespace - length path) namespace = path
         else matchNamespaceConditions_loop namespace conds)"

definition matchNamespaceConditions :: "string list \<Rightarrow> match_condition list \<Rightarrow> bool" where
  "matchNamespaceConditions namespace conds =
     (if length conds = 0 then True else matchNamespaceConditions_loop namespace conds)"

definition add_prefixes :: "string \<Rightarrow> string list gomap \<Rightarrow> string list gomap" where
  "add_prefixes nk st =
     (let parts = go_split (CHR ''|'') nk
      in fold (\<lambda>i st. let pre = go_join ''|'' (take i parts)
                      in if map_of st pre = None then gm_put pre (take i parts) st else st)
           [1..<Suc (length parts)] st)"

definition ListNamespaces ::
  "in_memory_store \<Rightarrow> match_condition list \<Rightarrow> int option \<Rightarrow> int \<Rightarrow> int \<Rightarrow> string list list go_result" where
  "ListNamespaces s conds maxDepth limit offset =
     (if st_closed s then Inl closedErr
      else let namespaceSet = fold add_prefixes (gm_keys (st_data s)) [];
               filtered = filter (\<lambda>ns. matchNamespaceConditions ns conds) (map snd namespaceSet);
               filtered = (case maxDepth of None \<Rightarrow> filtered | Some d \<Rightarrow> filter (\<lambda>ns. int (length ns) \<le> d) filtered)
           in if offset > int (length filtered)
              then Inl (GoPanic ''runtime error: slice bounds out of range'')
              else let filtered = (if offset > 0 then drop (nat offset) filtered else filtered)
                   in Inr (if limit > 0 \<and> limit < int (length filtered) then take (nat limit) filtered else filtered))"

section \<open>Batches\<close>

datatype store_op =
    GetOp "string list" string bool
  | PutOp "string list" string "goval gomap" index_arg "int option"
  | SearchOp "string list" "goval gomap option" int int "string option" bool
  | ListNamespacesOp "match_condition list" "int option" int int
  | UnknownOp

datatype op_value = NoValue | OneValue "goval gomap" | ManyValues "goval gomap list"

type_synonym op_result = "op_value \<times> go_error option"

text \<open>
  One operation of a batch. A batch holds the store's lock; listing the namespaces takes the lock again and so waits for
  ever, which is the value \<open>None\<close>. \<open>Some (Inl p)\<close> is a panic.
\<close>

definition batch_op ::
  "text_ops \<Rightarrow> int \<Rightarrow> store_op \<Rightarrow> in_memory_store \<Rightarrow> (op_result go_result \<times> in_memory_store) option" where
  "batch_op tx now op s =
     (case op of
        GetOp namespace key refresh \<Rightarrow>
          (let nk = nsKey namespace
           in Some (Inr (case map_of (st_data s) nk of
                           None \<Rightarrow> NoValue
                         | Some nsData \<Rightarrow>
                             if \<not> checkTTL now s (fullKey nk key) then NoValue
                             else (case map_of nsData key of Some value \<Rightarrow> OneValue (copyValue value) | None \<Rightarrow> NoValue),
                         None), s))
      | PutOp namespace key value index ttl \<Rightarrow>
          Some (Inr (NoValue, None), set_ttl_opt now namespace key ttl (put_value namespace key value s))
      | SearchOp namespace flt limit offset query refresh \<Rightarrow>
          (let nk = nsKey namespace
           in case map_of (st_data s) nk of
                None \<Rightarrow> Some (Inr (NoValue, None), s)
              | Some nsData \<Rightarrow>
                  Some (map_sum id (\<lambda>results. (ManyValues (apply_offset offset (map snd results)), None))
                     (search_loop (\<lambda>key. checkTTL now s (fullKey nk key)) (query_matches tx query flt) limit nsData []), s))
      | ListNamespacesOp conds maxDepth limit offset \<Rightarrow> None
      | UnknownOp \<Rightarrow> Some (Inr (NoValue, Some (StoreError ''unknown operation type'' [])), s))"

fun batch_loop ::
  "text_ops \<Rightarrow> int \<Rightarrow> store_op list \<Rightarrow> op_result list \<Rightarrow> in_memory_store
   \<Rightarrow> (op_result list go_result \<times> in_memory_store) option" where
  "batch_loop tx now [] results s = Some (Inr results, s)"
| "batch_loop tx now (op # ops) results s =
     (case batch_op tx now op s of
        None \<Rightarrow> None
      | Some (Inl p, s') \<Rightarrow> Some (Inl p, s')
      | Some (Inr r, s') \<Rightarrow> batch_loop tx now ops (results @ [r]) s')"

definition Batch ::
  "text_ops \<Rightarrow> int \<Rightarrow> store_op list \<Rightarrow> in_memory_store \<Rightarrow> (op_result list go_result \<times> in_memory_store) option" where
  "Batch tx now ops s = (if st_closed s then Some (Inl closedErr, s) else batch_loop tx now ops [] s)"

definition BatchPut ::
  "(string list \<times> string \<times> goval gomap) list \<Rightarrow> in_memory_store \<Rightarrow> go_error option \<times> in_memory_store" where
  "BatchPut ops s =
     (if st_closed s then (Some closedErr, s)
      else (None, fold (\<lambda>(namespace, key, value). put_value namespace key value) ops s))"

section \<open>The sweep\<close>

text \<open>
  The body of the periodic sweep for one expired entry. The full key is taken apart at its colons and used
  only when that gives exactly two parts; the indexes are searched for the full key.
\<close>

definition drop_value :: "string \<Rightarrow> string \<Rightarrow> in_memory_store \<Rightarrow> in_memory_store" where
  "drop_value nk key s =
     (case map_of (st_data s) nk of
        None \<Rightarrow> s
      | Some nsData \<Rightarrow>
          (let nsData = gm_del key nsData
           in s\<lparr>st_data := (if length nsData = 0 then gm_del nk (st_data s) else gm_put nk nsData (st_data s))\<rparr>))"

definition drop_index :: "string \<Rightarrow> float64 list gomap gomap \<Rightarrow> float64 list gomap gomap" where
  "drop_index fk idx = filter (\<lambda>(nk, m). length m > 0) (map (\<lambda>(nk, m). (nk, gm_del fk m)) idx)"

definition sweep_entry :: "string \<Rightarrow> in_memory_store \<Rightarrow> in_memory_store" where
  "sweep_entry fk s =
     (let s = (case go_split (CHR '':'') fk of [nk, key] \<Rightarrow> drop_value nk key s | _ \<Rightarrow> s)
      in s\<lparr>st_ttl := gm_del fk (st_ttl s), st_indexes := drop_index fk (st_indexes s)\<rparr>)"

definition cleanupExpired :: "int \<Rightarrow> in_memory_store \<Rightarrow> in_memory_store" where
  "cleanupExpired now s = fold (\<lambda>(fk, expiry) s. if expiry < now then sweep_entry fk s else s) (st_ttl s) s"

end
