(* ===== verification/Store_Contract.thy ===== *)
theory Store_Contract
  imports Memory_Store "HOL-Library.Multiset"
begin

text \<open>
  What the store promises: an interface of expiring stores with its laws, the lifetime of a value proved from
  them, and the in-memory store as an instance for names that avoid the separators. The remaining theorems show what
  happens when names or arguments do not.
\<close>

section \<open>Expiring stores\<close>

text \<open>
  \<open>val\<close> is what is stored under a key and \<open>deadline\<close> its expiry time, if any; both are observable only through
  \<open>get\<close>. A sweep at a time removes what expired before it.
\<close>

datatype ('k, 'v) kv_op = KPut 'k 'v | KExpire 'k int | KDel 'k | KSweep int

fun op_key :: "('k, 'v) kv_op \<Rightarrow> 'k option" where
  "op_key (KPut k v) = Some k"
| "op_key (KExpire k d) = Some k"
| "op_key (KDel k) = Some k"
| "op_key (KSweep t) = None"

definition expired :: "int option \<Rightarrow> int \<Rightarrow> bool" where
  "expired d now \<longleftrightarrow> (case d of None \<Rightarrow> False | Some d \<Rightarrow> d < now)"

locale expiring_store =
  fixes get :: "int \<Rightarrow> 's \<Rightarrow> 'k \<Rightarrow> 'v option"
    and put :: "'k \<Rightarrow> 'v \<Rightarrow> 's \<Rightarrow> 's"
    and expire :: "'k \<Rightarrow> int \<Rightarrow> 's \<Rightarrow> 's"
    and del :: "'k \<Rightarrow> 's \<Rightarrow> 's"
    and sweep :: "int \<Rightarrow> 's \<Rightarrow> 's"
    and val :: "'s \<Rightarrow> 'k \<Rightarrow> 'v option"
    and deadline :: "'s \<Rightarrow> 'k \<Rightarrow> int option"
    and ok :: "'k \<Rightarrow> bool"
    and stored :: "'v \<Rightarrow> 'v"
    and invar :: "'s \<Rightarrow> bool"
  assumes get: "invar s \<Longrightarrow> ok k \<Longrightarrow>
      get t s k = (case deadline s k of Some d \<Rightarrow> if t < d then val s k else None | None \<Rightarrow> val s k)"
    and val_put: "ok k \<Longrightarrow> ok k' \<Longrightarrow> val (put k v s) k' = (if k' = k then Some (stored v) else val s k')"
    and deadline_put: "deadline (put k v s) k' = deadline s k'"
    and val_expire: "val (expire k d s) k' = val s k'"
    and deadline_expire: "ok k \<Longrightarrow> ok k' \<Longrightarrow> deadline (expire k d s) k' = (if k' = k then Some d else deadline s k')"
    and val_del: "invar s \<Longrightarrow> ok k \<Longrightarrow> ok k' \<Longrightarrow> val (del k s) k' = (if k' = k then None else val s k')"
    and deadline_del: "ok k \<Longrightarrow> ok k' \<Longrightarrow> k' \<noteq> k \<Longrightarrow> deadline (del k s) k' = deadline s k'"
    and val_sweep: "invar s \<Longrightarrow> ok k \<Longrightarrow> val (sweep t s) k = (if expired (deadline s k) t then None else val s k)"
    and deadline_sweep: "invar s \<Longrightarrow> ok k \<Longrightarrow>
      deadline (sweep t s) k = (if expired (deadline s k) t then None else deadline s k)"
    and invar_put: "invar s \<Longrightarrow> ok k \<Longrightarrow> invar (put k v s)"
    and invar_expire: "invar s \<Longrightarrow> ok k \<Longrightarrow> invar (expire k d s)"
    and invar_del: "invar s \<Longrightarrow> ok k \<Longrightarrow> invar (del k s)"
    and invar_sweep: "invar s \<Longrightarrow> invar (sweep t s)"
begin

fun step :: "('k, 'v) kv_op \<Rightarrow> 's \<Rightarrow> 's" where
  "step (KPut k v) s = put k v s"
| "step (KExpire k d) s = expire k d s"
| "step (KDel k) s = del k s"
| "step (KSweep t) s = sweep t s"

definition op_ok :: "('k, 'v) kv_op \<Rightarrow> bool" where
  "op_ok a \<longleftrightarrow> (case op_key a of None \<Rightarrow> True | Some k \<Rightarrow> ok k)"

lemma invar_step: "invar s \<Longrightarrow> op_ok a \<Longrightarrow> invar (step a s)"
  by (cases a) (simp_all add: op_ok_def invar_put invar_expire invar_del invar_sweep)

lemma invar_steps: "invar s \<Longrightarrow> \<forall>a \<in> set as. op_ok a \<Longrightarrow> invar (fold step as s)"
  by (induction as arbitrary: s) (simp_all add: invar_step)

text \<open>A sweep cannot be observed by a later read.\<close>

lemma get_sweep: "invar s \<Longrightarrow> ok k \<Longrightarrow> now \<le> t \<Longrightarrow> get t (sweep now s) k = get t s k"
  by (auto simp: get invar_sweep val_sweep deadline_sweep expired_def split: option.split)

text \<open>Operations on other keys and sweeps up to the time of the read leave what is read alone.\<close>

lemma get_steps_other:
  assumes "invar s" and "ok k"
    and "\<forall>a \<in> set as. op_ok a \<and> op_key a \<noteq> Some k \<and> (\<forall>now. a = KSweep now \<longrightarrow> now \<le> t)"
  shows "get t (fold step as s) k = get t s k"
  using assms
proof (induction as arbitrary: s)
  case (Cons a as)
  then have a: "op_ok a" "op_key a \<noteq> Some k" "invar (step a s)" by (simp_all add: invar_step)
  have "get t (step a s) k = get t s k"
  proof (cases a)
    case (KSweep now)
    then show ?thesis using Cons.prems by (simp add: get_sweep)
  qed (use a Cons.prems in \<open>auto simp: op_ok_def get invar_put invar_expire invar_del val_put deadline_put val_expire
      deadline_expire val_del deadline_del split: option.split\<close>)
  with Cons a(3) show ?case by simp
qed simp

text \<open>The lifetime of a value that is stored with a deadline.\<close>

lemma lifetime:
  assumes "invar s" and "ok k"
    and "\<forall>a \<in> set as. op_ok a \<and> op_key a \<noteq> Some k \<and> (\<forall>now. a = KSweep now \<longrightarrow> now \<le> t)"
  shows "get t (fold step as (expire k d (put k v s))) k = (if t < d then Some (stored v) else None)"
proof -
  have "invar (expire k d (put k v s))" using assms by (simp add: invar_put invar_expire)
  from get_steps_other [OF this assms(2,3)] this show ?thesis
    using assms(2) by (simp add: get val_expire val_put deadline_expire)
qed

end

section \<open>Names without separators\<close>

text \<open>
  The parts of a namespace are joined by bars, namespace and key by a colon, and nothing is escaped. Names
  are told apart when no part holds a bar or a colon, no key holds a colon, and the namespace is not the one empty part,
  which has the same text as the empty namespace.
\<close>

definition ns_ok :: "string list \<Rightarrow> bool" where
  "ns_ok ns \<longleftrightarrow> ns \<noteq> [[]] \<and> (\<forall>p \<in> set ns. CHR ''|'' \<notin> set p \<and> CHR '':'' \<notin> set p)"

definition name_ok :: "string list \<times> string \<Rightarrow> bool" where
  "name_ok = (\<lambda>(ns, key). ns_ok ns \<and> CHR '':'' \<notin> set key)"

definition name_key :: "string list \<times> string \<Rightarrow> string" where
  "name_key = (\<lambda>(ns, key). fullKey (nsKey ns) key)"

lemma nsKey_inj:
  assumes "ns_ok a" and "ns_ok b" and "nsKey a = nsKey b"
  shows "a = b"
proof -
  have ne: "nsKey c \<noteq> []" if "ns_ok c" "c \<noteq> []" for c
    using that by (cases c; cases "tl c") (auto simp: nsKey_def ns_ok_def)
  have split: "go_split (CHR ''|'') (nsKey c) = c" if "ns_ok c" "c \<noteq> []" for c
    unfolding nsKey_def using that by (intro go_split_join) (auto simp: ns_ok_def)
  show ?thesis
    using assms ne [of a] ne [of b] split [of a] split [of b]
    by (cases "a = []"; cases "b = []") (auto simp: nsKey_def)
qed

lemma nsKey_no_colon: "ns_ok ns \<Longrightarrow> CHR '':'' \<notin> set (nsKey ns)"
proof -
  have "CHR '':'' \<notin> set (go_join ''|'' ps)" if "\<forall>p \<in> set ps. CHR '':'' \<notin> set p" for ps
    using that by (induction ps rule: induct_list012) auto
  then show "ns_ok ns \<Longrightarrow> ?thesis" by (simp add: nsKey_def ns_ok_def)
qed

lemma split_name_key: "name_ok (ns, key) \<Longrightarrow> go_split (CHR '':'') (name_key (ns, key)) = [nsKey ns, key]"
  by (simp add: name_ok_def name_key_def fullKey_def nsKey_no_colon go_split_append_sep go_split_no_sep)

lemma name_key_inj: "name_ok x \<Longrightarrow> name_ok y \<Longrightarrow> name_key x = name_key y \<longleftrightarrow> x = y"
  by (cases x; cases y) (metis list.inject name_ok_def case_prod_conv nsKey_inj split_name_key)

section \<open>The in-memory store as an expiring store\<close>

definition st_val :: "in_memory_store \<Rightarrow> string list \<times> string \<Rightarrow> goval gomap option" where
  "st_val s = (\<lambda>(ns, key). Option.bind (map_of (st_data s) (nsKey ns)) (\<lambda>m. map_of m key))"

definition st_deadline :: "in_memory_store \<Rightarrow> string list \<times> string \<Rightarrow> int option" where
  "st_deadline s x = map_of (st_ttl s) (name_key x)"

definition store_inv :: "in_memory_store \<Rightarrow> bool" where
  "store_inv s \<longleftrightarrow>
     \<not> st_closed s \<and> gm_ok (st_ttl s) \<and> (\<forall>fk \<in> gm_dom (st_ttl s). \<exists>x. name_ok x \<and> fk = name_key x)
     \<and> (\<forall>x v. name_ok x \<longrightarrow> st_val s x = Some v \<longrightarrow> gm_ok v)"

definition st_get :: "int \<Rightarrow> in_memory_store \<Rightarrow> string list \<times> string \<Rightarrow> goval gomap option" where
  "st_get now s = (\<lambda>(ns, key). case im_Get now s ns key of Inr v \<Rightarrow> v | Inl err \<Rightarrow> None)"

definition st_put :: "string list \<times> string \<Rightarrow> goval gomap \<Rightarrow> in_memory_store \<Rightarrow> in_memory_store" where
  "st_put = (\<lambda>(ns, key) v s. put_value ns key v s)"

definition st_expire :: "string list \<times> string \<Rightarrow> int \<Rightarrow> in_memory_store \<Rightarrow> in_memory_store" where
  "st_expire = (\<lambda>(ns, key) d s. set_expiry d ns key s)"

definition st_del :: "string list \<times> string \<Rightarrow> in_memory_store \<Rightarrow> in_memory_store" where
  "st_del = (\<lambda>(ns, key) s. snd (im_Delete ns key s))"

lemma st_op_simps:
  "st_put (ns, key) v s = put_value ns key v s"
  "st_expire (ns, key) d s = set_expiry d ns key s"
  "st_del (ns, key) s = snd (im_Delete ns key s)"
  by (simp_all add: st_put_def st_expire_def st_del_def)

lemma gm_ok_copyValue [simp]: "gm_ok (copyValue v)"
proof -
  have "gm_ok acc \<Longrightarrow> gm_ok (fold (\<lambda>(k, v). gm_put k v) v acc)" for acc :: "goval gomap"
    by (induction v arbitrary: acc) auto
  then show ?thesis by (simp add: copyValue_def)
qed

lemma copyValue_id [simp]: "gm_ok v \<Longrightarrow> copyValue v = v"
  using fold_put_distinct [of "[]" v "\<lambda>v. v"] by (simp add: copyValue_def)

lemma st_val_put_value:
  assumes "name_ok (ns, key)" and "name_ok x"
  shows "st_val (put_value ns key v s) x = (if x = (ns, key) then Some (copyValue v) else st_val s x)"
  using assms
  by (cases x) (auto simp: st_val_def put_value_def Let_def gomap_simps name_ok_def dest: nsKey_inj split: option.split)

lemma gm_del_Nil: "gm_del k m = [] \<Longrightarrow> k' \<noteq> k \<Longrightarrow> map_of m k' = None"
  using AList.delete_conv' [of k m] by (metis fun_upd_other map_of.simps(1))

lemma st_val_drop_value:
  assumes "name_ok (ns, key)" and "name_ok x"
  shows "st_val (drop_value (nsKey ns) key s) x = (if x = (ns, key) then None else st_val s x)"
proof (cases "map_of (st_data s) (nsKey ns)")
  case None
  then show ?thesis by (auto simp: st_val_def drop_value_def)
next
  case (Some m)
  show ?thesis
    using assms Some
    by (cases x)
       (auto simp: st_val_def drop_value_def Let_def gomap_simps name_ok_def gm_del_Nil dest: nsKey_inj)
qed

lemma sweep_entry_ttl [simp]: "st_ttl (sweep_entry fk s) = gm_del fk (st_ttl s)"
  by (auto simp: sweep_entry_def drop_value_def Let_def split: list.split option.split)

lemma sweep_entry_closed [simp]: "st_closed (sweep_entry fk s) = st_closed s"
  by (auto simp: sweep_entry_def drop_value_def Let_def split: list.split option.split)

lemma st_val_sweep_entry:
  assumes "name_ok y" and "name_ok x"
  shows "st_val (sweep_entry (name_key y) s) x = (if x = y then None else st_val s x)"
proof -
  obtain ns key where y: "y = (ns, key)" by (cases y)
  have "st_val (sweep_entry (name_key y) s) x = st_val (drop_value (nsKey ns) key s) x"
    using assms by (simp add: sweep_entry_def y split_name_key Let_def) (simp add: st_val_def)
  then show ?thesis using assms y by (simp add: st_val_drop_value)
qed

lemma sweep_entries:
  assumes "\<forall>fk \<in> set fks. \<exists>y. name_ok y \<and> fk = name_key y" and "name_ok x"
  shows "st_val (fold sweep_entry fks s) x = (if name_key x \<in> set fks then None else st_val s x)"
  using assms(1)
proof (induction fks arbitrary: s)
  case (Cons fk fks)
  then obtain y where y: "name_ok y" "fk = name_key y" by auto
  have "st_val (fold sweep_entry (fk # fks) s) x =
      (if name_key x \<in> set fks then None else st_val (sweep_entry fk s) x)"
    using Cons by simp
  then show ?case using y assms(2) by (simp add: st_val_sweep_entry name_key_inj)
qed simp

lemma sweep_entries_ttl:
  "st_ttl (fold sweep_entry fks s) = fold gm_del fks (st_ttl s) \<and> st_closed (fold sweep_entry fks s) = st_closed s"
  by (induction fks arbitrary: s) simp_all

lemma map_of_fold_del: "map_of (fold gm_del ks m) k = (if k \<in> set ks then None else map_of m k)"
  by (induction ks arbitrary: m) (auto simp: gomap_simps)

lemma gm_ok_fold_del: "gm_ok m \<Longrightarrow> gm_ok (fold gm_del ks m)"
  by (induction ks arbitrary: m) auto

definition expired_keys :: "int \<Rightarrow> in_memory_store \<Rightarrow> string list" where
  "expired_keys now s = map fst (filter (\<lambda>(fk, expiry). expiry < now) (st_ttl s))"

lemma cleanupExpired_fold: "cleanupExpired now s = fold sweep_entry (expired_keys now s) s"
proof -
  have "fold (\<lambda>(fk, expiry) s. if expiry < now then sweep_entry fk s else s) es s =
      fold sweep_entry (map fst (filter (\<lambda>(fk, expiry). expiry < now) es)) s" for es
    by (induction es arbitrary: s) auto
  then show ?thesis by (simp add: cleanupExpired_def expired_keys_def)
qed

lemma expired_keys_iff:
  assumes "gm_ok (st_ttl s)"
  shows "name_key x \<in> set (expired_keys now s) \<longleftrightarrow> expired (st_deadline s x) now"
proof -
  have "name_key x \<in> set (expired_keys now s) \<longleftrightarrow> (\<exists>d. (name_key x, d) \<in> set (st_ttl s) \<and> d < now)"
    by (force simp: expired_keys_def)
  also have "\<dots> \<longleftrightarrow> (\<exists>d. map_of (st_ttl s) (name_key x) = Some d \<and> d < now)"
    using assms by simp
  finally show ?thesis by (auto simp: expired_def st_deadline_def split: option.split)
qed

lemma st_val_deadline_cleanup:
  assumes "store_inv s" and "name_ok x"
  shows "st_val (cleanupExpired now s) x = (if expired (st_deadline s x) now then None else st_val s x)"
    and "st_deadline (cleanupExpired now s) x = (if expired (st_deadline s x) now then None else st_deadline s x)"
proof -
  have ok: "gm_ok (st_ttl s)" and "\<forall>fk \<in> set (expired_keys now s). \<exists>y. name_ok y \<and> fk = name_key y"
    using assms(1) by (auto simp: store_inv_def expired_keys_def)
  with assms(2) show "st_val (cleanupExpired now s) x = (if expired (st_deadline s x) now then None else st_val s x)"
    by (simp add: cleanupExpired_fold sweep_entries expired_keys_iff)
  show "st_deadline (cleanupExpired now s) x = (if expired (st_deadline s x) now then None else st_deadline s x)"
    using ok by (simp add: cleanupExpired_fold sweep_entries_ttl st_deadline_def map_of_fold_del expired_keys_iff [unfolded st_deadline_def])
qed

lemma name_ttl_keys: "name_key (ns, key) = fullKey (nsKey ns) key"
  by (simp add: name_key_def)

lemma store_inv_open: "store_inv s \<Longrightarrow> \<not> st_closed s"
  and store_inv_ttl: "store_inv s \<Longrightarrow> gm_ok (st_ttl s)"
  and store_inv_names: "store_inv s \<Longrightarrow> fk \<in> gm_dom (st_ttl s) \<Longrightarrow> \<exists>x. name_ok x \<and> fk = name_key x"
  and store_inv_val: "store_inv s \<Longrightarrow> name_ok x \<Longrightarrow> st_val s x = Some v \<Longrightarrow> gm_ok v"
  unfolding store_inv_def by metis+

lemma store_invI:
  assumes "store_inv s" and "\<not> st_closed s'" and "gm_ok (st_ttl s')"
    and "gm_dom (st_ttl s') \<subseteq> gm_dom (st_ttl s) \<union> K" and "\<And>fk. fk \<in> K \<Longrightarrow> \<exists>x. name_ok x \<and> fk = name_key x"
    and "\<And>x v. name_ok x \<Longrightarrow> st_val s' x = Some v \<Longrightarrow> st_val s x = Some v \<or> gm_ok v"
  shows "store_inv s'"
  unfolding store_inv_def
proof (intro conjI ballI allI impI assms(2,3))
  fix fk assume "fk \<in> gm_dom (st_ttl s')"
  then have "fk \<in> gm_dom (st_ttl s) \<or> fk \<in> K" using assms(4) by blast
  then show "\<exists>x. name_ok x \<and> fk = name_key x" using store_inv_names [OF assms(1)] assms(5) by metis
next
  fix x v assume "name_ok x" and "st_val s' x = Some v"
  then show "gm_ok v" using store_inv_val [OF assms(1)] assms(6) by metis
qed

lemma store_inv_cleanup:
  assumes "store_inv s"
  shows "store_inv (cleanupExpired now s)"
proof (rule store_invI [OF assms, where K = "{}"])
  show "\<not> st_closed (cleanupExpired now s)" and "gm_ok (st_ttl (cleanupExpired now s))"
    using assms by (simp_all add: cleanupExpired_fold sweep_entries_ttl gm_ok_fold_del store_inv_def)
  show "gm_dom (st_ttl (cleanupExpired now s)) \<subseteq> gm_dom (st_ttl s) \<union> {}"
    by (simp add: cleanupExpired_fold sweep_entries_ttl flip: dom_map_of_conv_image_fst)
       (auto simp: map_of_fold_del split: if_splits)
qed (use assms in \<open>simp_all add: st_val_deadline_cleanup(1) split: if_splits\<close>)

lemma st_get_eq:
  assumes "store_inv s" and "name_ok x"
  shows "st_get t s x =
    (case st_deadline s x of Some d \<Rightarrow> if t < d then st_val s x else None | None \<Rightarrow> st_val s x)"
proof -
  obtain ns key where x: "x = (ns, key)" by (cases x)
  have copy: "copyValue v = v" if "map_of (st_data s) (nsKey ns) = Some m" "map_of m key = Some v" for m v
    using assms that by (auto simp: store_inv_def st_val_def x)
  show ?thesis
    using assms copy
    by (auto simp: st_get_def im_Get_def st_deadline_def st_val_def checkTTL_def name_key_def x store_inv_def Let_def
        map_option_case split: option.split)
qed

interpretation mem: expiring_store st_get st_put st_expire st_del cleanupExpired st_val st_deadline name_ok
  copyValue store_inv
proof
  fix s :: in_memory_store and x y :: "string list \<times> string" and v :: "goval gomap" and d t :: int
  obtain ns key where x: "x = (ns, key)" by (cases x)
  show "st_deadline (st_put x v s) y = st_deadline s y"
    by (simp add: x st_put_def put_value_def Let_def st_deadline_def)
  show "st_val (st_expire x d s) y = st_val s y"
    by (simp add: x st_expire_def set_expiry_def st_val_def)
  show "store_inv s \<Longrightarrow> store_inv (cleanupExpired t s)" by (rule store_inv_cleanup)
  assume okx: "name_ok x"
  show "store_inv s \<Longrightarrow> st_get t s x =
      (case st_deadline s x of Some d \<Rightarrow> if t < d then st_val s x else None | None \<Rightarrow> st_val s x)"
    using okx by (rule st_get_eq [rotated])
  show "store_inv s \<Longrightarrow> st_val (cleanupExpired t s) x = (if expired (st_deadline s x) t then None else st_val s x)"
    and "store_inv s \<Longrightarrow>
      st_deadline (cleanupExpired t s) x = (if expired (st_deadline s x) t then None else st_deadline s x)"
    using okx by (simp_all add: st_val_deadline_cleanup)
  have val_put: "name_ok y \<Longrightarrow> st_val (st_put x v s) y = (if y = x then Some (copyValue v) else st_val s y)" for y
    using okx by (simp add: x st_put_def st_val_put_value)
  then show "name_ok y \<Longrightarrow> st_val (st_put x v s) y = (if y = x then Some (copyValue v) else st_val s y)" .
  show "name_ok y \<Longrightarrow> st_deadline (st_expire x d s) y = (if y = x then Some d else st_deadline s y)"
    using okx by (auto simp: x st_expire_def set_expiry_def st_deadline_def gomap_simps name_key_inj simp flip: name_ttl_keys)
  have val_del: "name_ok y \<Longrightarrow> \<not> st_closed s \<Longrightarrow> st_val (st_del x s) y = (if y = x then None else st_val s y)" for y
    using okx by (cases y) (auto simp: x st_del_def im_Delete_def st_val_def Let_def gomap_simps name_ok_def
        dest: nsKey_inj split: option.split)
  then show "store_inv s \<Longrightarrow> name_ok y \<Longrightarrow> st_val (st_del x s) y = (if y = x then None else st_val s y)"
    by (simp add: store_inv_def)
  show "name_ok y \<Longrightarrow> y \<noteq> x \<Longrightarrow> st_deadline (st_del x s) y = st_deadline s y"
    using okx by (auto simp: x st_del_def im_Delete_def st_deadline_def Let_def gomap_simps name_key_inj
        simp flip: name_ttl_keys split: option.split)
  assume inv: "store_inv s"
  have "st_ttl (st_put x v s) = st_ttl s" and "st_closed (st_put x v s) = st_closed s"
    by (simp_all add: x st_put_def put_value_def Let_def)
  then show "store_inv (st_put x v s)"
    by (intro store_invI [OF inv, where K = "{}"])
       (use inv in \<open>auto simp: val_put store_inv_open store_inv_ttl split: if_splits\<close>)
  show "store_inv (st_expire x d s)"
    by (rule store_invI [OF inv, where K = "{name_key x}"])
       (use inv okx in \<open>auto simp: x st_expire_def set_expiry_def gomap_simps st_val_def store_inv_open store_inv_ttl
          simp flip: name_ttl_keys\<close>)
  have "gm_ok (st_ttl (st_del x s))" and "gm_dom (st_ttl (st_del x s)) \<subseteq> gm_dom (st_ttl s) \<union> {}"
      and "\<not> st_closed (st_del x s)"
    using store_inv_ttl [OF inv] store_inv_open [OF inv]
    by (simp_all add: x st_del_def im_Delete_def Let_def gomap_simps Diff_subset split: option.split)
  then show "store_inv (st_del x s)"
    by (intro store_invI [OF inv, where K = "{}"])
       (use inv val_del in \<open>auto simp: store_inv_open split: if_splits\<close>)
qed

section \<open>What a client sees\<close>

text \<open>
  The operations a client has, as steps on the open store. A value put with a lifetime is a \<open>PutItem\<close> with a ttl.
\<close>

datatype client_op =
    CPut "string list" string "goval gomap" index_arg "int option" int
  | CDelete "string list" string
  | CSetTTL "string list" string int int
  | CSweep int

definition client_step :: "client_op \<Rightarrow> in_memory_store \<Rightarrow> in_memory_store" where
  "client_step a s =
     (case a of
        CPut ns key v index ttl now \<Rightarrow> snd (PutItem now ns key v index ttl s)
      | CDelete ns key \<Rightarrow> snd (im_Delete ns key s)
      | CSetTTL ns key ttl now \<Rightarrow> snd (SetTTL now ns key ttl s)
      | CSweep now \<Rightarrow> cleanupExpired now s)"

definition client_key :: "client_op \<Rightarrow> (string list \<times> string) option" where
  "client_key a =
     (case a of
        CPut ns key v index ttl now \<Rightarrow> Some (ns, key) | CDelete ns key \<Rightarrow> Some (ns, key)
      | CSetTTL ns key ttl now \<Rightarrow> Some (ns, key) | CSweep now \<Rightarrow> None)"

text \<open>A client operation is other than the name \<open>x\<close>, with an admissible name, and sweeps no later than \<open>t\<close>.\<close>

definition leaves_alone :: "string list \<times> string \<Rightarrow> int \<Rightarrow> client_op \<Rightarrow> bool" where
  "leaves_alone x t a \<longleftrightarrow>
     (case client_key a of
        Some y \<Rightarrow> name_ok y \<and> y \<noteq> x
      | None \<Rightarrow> (case a of CSweep now \<Rightarrow> now \<le> t | _ \<Rightarrow> False))"

definition as_kv_ops :: "client_op \<Rightarrow> (string list \<times> string, goval gomap) kv_op list" where
  "as_kv_ops a =
     (case a of
        CPut ns key v index ttl now \<Rightarrow>
          KPut (ns, key) v # (case ttl of None \<Rightarrow> [] | Some d \<Rightarrow> [KExpire (ns, key) (now + d)])
      | CDelete ns key \<Rightarrow> [KDel (ns, key)]
      | CSetTTL ns key ttl now \<Rightarrow> (if ttl \<le> 0 then [] else [KExpire (ns, key) (now + ttl)])
      | CSweep now \<Rightarrow> [KSweep now])"

text \<open>The index maps are not looked at by reads, so a client step is a sequence of steps of the interface up to them.\<close>

definition same_items :: "in_memory_store \<Rightarrow> in_memory_store \<Rightarrow> bool" where
  "same_items s s' \<longleftrightarrow> st_data s = st_data s' \<and> st_ttl s = st_ttl s' \<and> st_closed s = st_closed s'"

lemma same_items_refl [simp]: "same_items s s"
  by (simp add: same_items_def)

lemma same_items_put_index [simp]: "same_items (put_index nk key value index s) s"
  by (auto simp: same_items_def put_index_def add_vector_def Let_def split: index_arg.split option.split)

lemma same_items_get: "same_items s s' \<Longrightarrow> st_get t s x = st_get t s' x"
  by (cases x) (auto simp: same_items_def st_get_def im_Get_def checkTTL_def Let_def split: option.split)

lemma same_items_trans: "same_items s s' \<Longrightarrow> same_items s' s'' \<Longrightarrow> same_items s s''"
  by (simp add: same_items_def)

lemma same_items_drop_value: "same_items s s' \<Longrightarrow> same_items (drop_value nk key s) (drop_value nk key s')"
  by (cases "map_of (st_data s') nk") (simp_all add: same_items_def drop_value_def Let_def)

lemma same_items_sweep_entry:
  assumes "same_items s s'"
  shows "same_items (sweep_entry fk s) (sweep_entry fk s')"
proof -
  have "same_items (case go_split (CHR '':'') fk of [nk, key] \<Rightarrow> drop_value nk key s | _ \<Rightarrow> s)
      (case go_split (CHR '':'') fk of [nk, key] \<Rightarrow> drop_value nk key s' | _ \<Rightarrow> s')"
    using assms by (auto simp: same_items_drop_value split: list.split)
  then show ?thesis unfolding sweep_entry_def Let_def by (simp add: same_items_def)
qed

lemma same_items_sweep:
  assumes "same_items s s'"
  shows "same_items (cleanupExpired t s) (cleanupExpired t s')"
proof -
  have "same_items (fold sweep_entry fks s) (fold sweep_entry fks s')" for fks
    using assms by (induction fks arbitrary: s s') (simp_all add: same_items_sweep_entry)
  moreover have "expired_keys t s = expired_keys t s'"
    using assms by (simp add: same_items_def expired_keys_def)
  ultimately show ?thesis by (simp add: cleanupExpired_fold)
qed

lemma same_items_Delete: "same_items s s' \<Longrightarrow> same_items (snd (im_Delete ns key s)) (snd (im_Delete ns key s'))"
  by (cases "map_of (st_data s') (nsKey ns)") (simp_all add: same_items_def im_Delete_def Let_def)

lemma same_items_step: "same_items s s' \<Longrightarrow> same_items (mem.step a s) (mem.step a s')"
  by (cases a)
     (auto simp: same_items_sweep st_op_simps same_items_Delete,
      simp_all add: same_items_def put_value_def set_expiry_def Let_def)

lemma same_items_steps: "same_items s s' \<Longrightarrow> same_items (fold mem.step as s) (fold mem.step as s')"
  by (induction as arbitrary: s s') (simp_all add: same_items_step)

lemma client_step_kv: "\<not> st_closed s \<Longrightarrow> same_items (client_step a s) (fold mem.step (as_kv_ops a) s)"
  by (cases a)
     (auto simp: client_step_def as_kv_ops_def PutItem_def SetTTL_def set_ttl_opt_def st_op_simps split: option.split)

definition kv_ops :: "client_op list \<Rightarrow> (string list \<times> string, goval gomap) kv_op list" where
  "kv_ops as = concat (map as_kv_ops as)"

lemma leaves_alone_kv:
  "leaves_alone x t a \<Longrightarrow>
   \<forall>b \<in> set (as_kv_ops a). mem.op_ok b \<and> op_key b \<noteq> Some x \<and> (\<forall>now. b = KSweep now \<longrightarrow> now \<le> t)"
  by (cases a) (auto simp: leaves_alone_def as_kv_ops_def client_key_def mem.op_ok_def split: option.splits)

lemma client_steps_kv:
  assumes "store_inv s" and "same_items s' s" and "\<forall>a \<in> set as. leaves_alone x t a"
  shows "same_items (fold client_step as s') (fold mem.step (kv_ops as) s)"
  using assms
proof (induction as arbitrary: s s')
  case (Cons a as)
  let ?s = "fold mem.step (as_kv_ops a) s"
  have "same_items (client_step a s') (fold mem.step (as_kv_ops a) s')"
    using Cons.prems by (intro client_step_kv) (simp add: same_items_def store_inv_open)
  then have "same_items (client_step a s') ?s"
    using same_items_trans same_items_steps [OF Cons.prems(2)] by blast
  moreover have "store_inv ?s"
    using Cons.prems leaves_alone_kv [of x t a] by (intro mem.invar_steps) auto
  ultimately show ?case using Cons by (simp add: kv_ops_def)
qed (simp add: kv_ops_def)

lemma im_Get_open: "\<not> st_closed s \<Longrightarrow> im_Get t s ns key = Inr (st_get t s (ns, key))"
  by (simp add: im_Get_def st_get_def Let_def split: option.split)

lemma client_steps_get:
  assumes "store_inv s" and "same_items s' s" and "name_ok x" and "\<forall>a \<in> set as. leaves_alone x t a"
  shows "im_Get t (fold client_step as s') (fst x) (snd x) = Inr (st_get t s x)"
proof -
  have other: "\<forall>b \<in> set (kv_ops as). mem.op_ok b \<and> op_key b \<noteq> Some x \<and> (\<forall>now. b = KSweep now \<longrightarrow> now \<le> t)"
    using assms(4) leaves_alone_kv by (fastforce simp: kv_ops_def)
  have same: "same_items (fold client_step as s') (fold mem.step (kv_ops as) s)"
    using assms by (intro client_steps_kv)
  have "store_inv (fold mem.step (kv_ops as) s)" using assms(1) other by (intro mem.invar_steps) auto
  then have "\<not> st_closed (fold client_step as s')" using same by (simp add: same_items_def store_inv_open)
  then show ?thesis
    by (simp add: im_Get_open same_items_get [OF same] mem.get_steps_other [OF assms(1,3) other])
qed

text \<open>
  C26: a value stored with a lifetime is read back unchanged until the lifetime has passed and not any more from
  then on, whatever the clients do under other names in between and however often the sweep runs until then. The store
  is open, and every name in use is one the store can tell apart: no bar or colon in a part of the namespace, no colon in the
  key, and not the namespace of one empty part.
\<close>

theorem store_lifetime:
  assumes "store_inv s" and "name_ok (ns, key)" and "\<forall>a \<in> set as. leaves_alone (ns, key) t a"
  shows "im_Get t (fold client_step as (snd (PutItem now ns key v index (Some d) s))) ns key =
    Inr (if t < now + d then Some (copyValue v) else None)"
proof -
  let ?s = "st_expire (ns, key) (now + d) (st_put (ns, key) v s)"
  have inv: "store_inv ?s" using assms by (intro mem.invar_expire mem.invar_put)
  have "same_items (snd (PutItem now ns key v index (Some d) s)) ?s"
    using assms(1) by (simp add: PutItem_def store_inv_open set_ttl_opt_def st_op_simps)
  from client_steps_get [OF inv this assms(2,3)] show ?thesis
    using mem.lifetime [OF assms(1,2), of "[]" t "now + d" v] by simp
qed

theorem store_lifetime_witness:
  "im_Get 9 (fold client_step [CPut [''a''] ''y'' [] NoIndex None 2, CSweep 8, CDelete [''b''] ''x'']
     (snd (PutItem 0 [''a''] ''x'' [(''k'', GBool True)] NoIndex (Some 9) NewInMemoryStore))) [''a''] ''x'' = Inr None"
  using store_lifetime [of NewInMemoryStore "[''a'']" "''x''"
      "[CPut [''a''] ''y'' [] NoIndex None 2, CSweep 8, CDelete [''b''] ''x'']" 9 0 "[(''k'', GBool True)]" NoIndex 9]
  by (simp add: store_inv_def NewInMemoryStore_def st_val_def name_ok_def ns_ok_def leaves_alone_def client_key_def)

text \<open>
  C27: a sweep cannot be observed through a name that nobody writes. After the sweep, let the clients do
  anything under other names and sweep again; a read of the name at the time of the sweep or later gives the same as
  if the first sweep had not been. Names are ones the store can tell apart, as above.
\<close>

theorem sweep_unobservable:
  assumes "store_inv s" and "name_ok (ns, key)" and "now \<le> t" and "\<forall>a \<in> set as. leaves_alone (ns, key) t a"
  shows "im_Get t (fold client_step as (cleanupExpired now s)) ns key = im_Get t (fold client_step as s) ns key"
  using client_steps_get [OF store_inv_cleanup [OF assms(1)] same_items_refl assms(2,4)]
    client_steps_get [OF assms(1) same_items_refl assms(2,4)] assms(1-3)
  by (simp add: mem.get_sweep)

text \<open>A store with an expired and a living value: the sweep takes the expired one out, a read does not notice.\<close>

theorem sweep_unobservable_witness:
  "let s = snd (PutItem 0 [''a''] ''z'' [(''k'', GInt 1)] NoIndex (Some 9)
             (snd (PutItem 0 [''a''] ''x'' [(''k'', GBool True)] NoIndex (Some 3) NewInMemoryStore)));
       as = [CPut [''b''] ''y'' [] NoIndex None 5, CDelete [''a''] ''y'']
   in st_val s ([''a''], ''x'') \<noteq> None \<and> st_val (cleanupExpired 4 s) ([''a''], ''x'') = None
      \<and> im_Get 6 (fold client_step as (cleanupExpired 4 s)) [''a''] ''x'' = im_Get 6 (fold client_step as s) [''a''] ''x''
      \<and> im_Get 6 (fold client_step as (cleanupExpired 4 s)) [''a''] ''z'' = im_Get 6 (fold client_step as s) [''a''] ''z''"
proof -
  define s where "s = snd (PutItem 0 [''a''] ''z'' [(''k'', GInt 1)] NoIndex (Some 9)
             (snd (PutItem 0 [''a''] ''x'' [(''k'', GBool True)] NoIndex (Some 3) NewInMemoryStore)))"
  define as where "as = [CPut [''b''] ''y'' [] NoIndex None 5, CDelete [''a''] ''y'']"
  have s: "st_ttl s = [(name_key ([''a''], ''x''), 3), (name_key ([''a''], ''z''), 9)]" "\<not> st_closed s"
    "st_data s = [(''a'', [(''x'', [(''k'', GBool True)]), (''z'', [(''k'', GInt 1)])])]"
    by (simp_all add: s_def PutItem_def NewInMemoryStore_def set_ttl_opt_def put_value_def set_expiry_def put_index_def
        nsKey_def fullKey_def name_key_def copyValue_def Let_def)
  have names: "name_ok ([''a''], ''x'')" "name_ok ([''a''], ''z'')" by (simp_all add: name_ok_def ns_ok_def)
  have known: "\<forall>fk \<in> gm_dom (st_ttl s). \<exists>x. name_ok x \<and> fk = name_key x"
    using names unfolding s(1) by (auto simp del: split_paired_Ex)
  have inv: "store_inv s"
    unfolding store_inv_def using known
    by (auto simp: s st_val_def name_key_def nsKey_def fullKey_def bind_eq_Some_conv split: if_splits)
  have "st_val (cleanupExpired 4 s) ([''a''], ''x'') = None"
    using st_val_deadline_cleanup [OF inv names(1), of 4] by (simp add: s st_deadline_def expired_def)
  moreover have "st_val s ([''a''], ''x'') \<noteq> None" by (simp add: s st_val_def nsKey_def)
  moreover have "\<forall>a \<in> set as. leaves_alone ([''a''], ''x'') 6 a" "\<forall>a \<in> set as. leaves_alone ([''a''], ''z'') 6 a"
    by (simp_all add: as_def leaves_alone_def client_key_def name_ok_def ns_ok_def)
  ultimately show ?thesis
    unfolding Let_def s_def [symmetric] as_def [symmetric]
    using sweep_unobservable [OF inv names(1), of 4 6 as] sweep_unobservable [OF inv names(2), of 4 6 as] by simp
qed

text \<open>
  With a write of the name in between the sweep is observable. \<^verbatim>\<open>Put\<close> without a lifetime leaves the
  expiry of an expired entry as it is, so the new value cannot be read; if the sweep came first, it can.
\<close>

theorem put_over_expired:
  "let s = snd (PutItem 0 [''a''] ''x'' [(''k'', GInt 1)] NoIndex (Some 3) NewInMemoryStore);
       put = (\<lambda>s. snd (im_Put [''a''] ''x'' [(''k'', GInt 2)] s))
   in im_Get 6 (put s) [''a''] ''x'' = Inr None
      \<and> im_Get 6 (put (cleanupExpired 4 s)) [''a''] ''x'' = Inr (Some [(''k'', GInt 2)])"
  by (simp add: PutItem_def NewInMemoryStore_def set_ttl_opt_def put_value_def set_expiry_def put_index_def im_Put_def
      im_Get_def checkTTL_def cleanupExpired_fold expired_keys_def sweep_entry_def drop_value_def nsKey_def fullKey_def
      copyValue_def Let_def)

text \<open>The empty namespace and the namespace of one empty part are one: a value stored under one is read under the other.\<close>

theorem empty_namespaces_collide:
  assumes "\<not> st_closed s"
  shows "im_Get t (snd (im_Put [[]] key v s)) [] key = im_Get t (snd (im_Put [] key v s)) [] key"
  using assms by (simp add: im_Put_def put_value_def nsKey_def)

lemma go_split_parts: "p \<in> set (go_split c s) \<Longrightarrow> c \<notin> set p"
  by (induction s arbitrary: p) (auto split: if_splits list.splits)

lemma colon_key_sweep_entry:
  assumes "CHR '':'' \<in> set key"
  shows "st_val (sweep_entry fk s) (ns, key) = st_val s (ns, key)"
proof -
  have drop: "st_val (drop_value nk k s) (ns, key) = st_val s (ns, key)" if "k \<noteq> key" for nk k
  proof (cases "map_of (st_data s) nk")
    case (Some m)
    then show ?thesis using \<open>k \<noteq> key\<close> by (auto simp: st_val_def drop_value_def Let_def gomap_simps gm_del_Nil)
  qed (simp add: drop_value_def)
  have parts: "k \<noteq> key" if "go_split (CHR '':'') fk = [nk, k]" for nk k
    using go_split_parts [of k "CHR '':''" fk] that assms by auto
  have "st_val (case go_split (CHR '':'') fk of [nk, k] \<Rightarrow> drop_value nk k s | _ \<Rightarrow> s) (ns, key) = st_val s (ns, key)"
    using drop parts by (auto split: list.split)
  then show ?thesis unfolding sweep_entry_def Let_def by (simp add: st_val_def)
qed

lemma colon_key_swept: "CHR '':'' \<in> set key \<Longrightarrow> st_val (fold sweep_entry fks s) (ns, key) = st_val s (ns, key)"
  by (induction fks arbitrary: s) (simp_all add: colon_key_sweep_entry)

text \<open>
  For a key that holds a colon the sweep is observable. A value that has expired and is not returned any more
  is returned again, and for good, after the sweep: it takes the expiry away and leaves the value.
\<close>

theorem colon_key_comes_back:
  assumes "\<not> st_closed s" and "CHR '':'' \<in> set key" and "now + d < t"
  shows "let s' = snd (PutItem now ns key v index (Some d) s)
    in im_Get t s' ns key = Inr None \<and> im_Get t' (cleanupExpired t s') ns key = Inr (Some (copyValue v))"
proof -
  let ?s = "snd (PutItem now ns key v index (Some d) s)"
  have same: "same_items ?s (set_expiry (now + d) ns key (put_value ns key v s))"
    using assms(1) by (simp add: PutItem_def set_ttl_opt_def)
  have ttl: "map_of (st_ttl ?s) (fullKey (nsKey ns) key) = Some (now + d)"
    and val: "st_val ?s (ns, key) = Some (copyValue v)" and open_: "\<not> st_closed ?s"
    using same assms(1)
    by (simp_all add: same_items_def set_expiry_def put_value_def Let_def gomap_simps st_val_def split: option.split)
  have "st_val (cleanupExpired t ?s) (ns, key) = Some (copyValue v)"
    using val by (simp add: cleanupExpired_fold colon_key_swept assms(2))
  moreover have "fullKey (nsKey ns) key \<in> set (expired_keys t ?s)"
    using map_of_SomeD [OF ttl] assms(3) by (force simp: expired_keys_def)
  then have "map_of (st_ttl (cleanupExpired t ?s)) (fullKey (nsKey ns) key) = None"
    by (simp add: cleanupExpired_fold sweep_entries_ttl map_of_fold_del)
  moreover have "\<not> st_closed (cleanupExpired t ?s)"
    using open_ by (simp add: cleanupExpired_fold sweep_entries_ttl)
  ultimately show ?thesis
    using ttl val open_ assms(3)
    by (auto simp: Let_def im_Get_def checkTTL_def st_val_def bind_eq_Some_conv split: option.split)
qed

theorem colon_key_comes_back_witness:
  "let s' = snd (PutItem 0 [''a''] ''x:y'' [(''k'', GBool True)] NoIndex (Some 5) NewInMemoryStore)
   in im_Get 6 s' [''a''] ''x:y'' = Inr None
    \<and> im_Get 100 (cleanupExpired 6 s') [''a''] ''x:y'' = Inr (Some (copyValue [(''k'', GBool True)]))"
  by (rule colon_key_comes_back) (simp_all add: NewInMemoryStore_def)

section \<open>Searching\<close>

definition limited :: "int \<Rightarrow> 'a list \<Rightarrow> 'a list" where
  "limited limit xs = (if limit > 0 then take (nat limit) xs else xs)"

lemma search_loop_found:
  assumes "\<forall>(k, v) \<in> set kvs. matches v = Inr (P v)" and "limit > 0 \<longrightarrow> int (length results) < limit"
  shows "search_loop alive matches limit kvs results =
    Inr (limited limit (results @ map (\<lambda>(k, v). (k, copyValue v)) (filter (\<lambda>(k, v). alive k \<and> P v) kvs)))"
  using assms
proof (induction kvs arbitrary: results)
  case (Cons kv kvs)
  obtain k v where kv: "kv = (k, v)" by (cases kv)
  have full: "limited limit (results @ (k, copyValue v) # rest) = results @ [(k, copyValue v)]"
    if "limit > 0" "int (length results + 1) \<ge> limit" for rest
  proof -
    have "nat limit = Suc (length results)" using that Cons.prems(2) by linarith
    then show ?thesis using that by (simp add: limited_def)
  qed
  show ?case
    using Cons.prems Cons.IH [of results] Cons.IH [of "results @ [(k, copyValue v)]"] full
    by (auto simp: kv Let_def)
qed (auto simp: limited_def)

text \<open>What a search by text and filter has to choose from: the entries that are alive and match, in the map's order.\<close>

definition found_items ::
  "text_ops \<Rightarrow> int \<Rightarrow> in_memory_store \<Rightarrow> string list \<Rightarrow> string option \<Rightarrow> goval gomap option \<Rightarrow> search_item list" where
  "found_items tx now s ns query flt =
     map (plain_hit \<circ> make_item now s ns)
       (map (\<lambda>(k, v). (k, copyValue v))
         (filter (\<lambda>(k, v). checkTTL now s (fullKey (nsKey ns) k) \<and> query_matches tx query flt v = Inr True)
           (case map_of (st_data s) (nsKey ns) of None \<Rightarrow> [] | Some m \<Rightarrow> m)))"

definition no_embedding :: "goval gomap option \<Rightarrow> bool" where
  "no_embedding flt \<longleftrightarrow> (case flt of None \<Rightarrow> True | Some f \<Rightarrow> (case gm_val f ''$embedding'' of GFloats emb \<Rightarrow> False | _ \<Rightarrow> True))"

lemma SearchItems_by_text:
  assumes "\<not> st_closed s" and "no_embedding flt"
  shows "SearchItems tx now s ns query flt limit offset =
    (case map_of (st_data s) (nsKey ns) of
       None \<Rightarrow> Inr []
     | Some nsData \<Rightarrow>
         map_sum id (\<lambda>results. apply_offset offset (map (plain_hit \<circ> make_item now s ns) results))
           (search_loop (\<lambda>key. checkTTL now s (fullKey (nsKey ns) key)) (query_matches tx query flt) limit nsData []))"
  using assms by (simp add: SearchItems_def no_embedding_def Let_def split: option.splits goval.splits)

text \<open>
  A search without an embedding whose filter compares only comparable values returns the entries that are alive
  and match, the first \<open>limit\<close> of them, and then applies the offset to what the limit has left, ignoring an offset past it.
\<close>

theorem SearchItems_spec:
  assumes "\<not> st_closed s" and "no_embedding flt"
    and "\<And>m k v. map_of (st_data s) (nsKey ns) = Some m \<Longrightarrow> (k, v) \<in> set m \<Longrightarrow> \<exists>b. query_matches tx query flt v = Inr b"
  shows "SearchItems tx now s ns query flt limit offset =
    Inr (apply_offset offset (limited limit (found_items tx now s ns query flt)))"
proof (cases "map_of (st_data s) (nsKey ns)")
  case None
  then show ?thesis using assms(1,2) by (simp add: SearchItems_by_text found_items_def apply_offset_def limited_def)
next
  case (Some m)
  have "\<forall>(k, v) \<in> set m. query_matches tx query flt v = Inr (query_matches tx query flt v = Inr True)"
    using assms(3) [OF Some] by force
  note loop = search_loop_found [OF this, of limit "[]"]
  have "map f (limited limit xs) = limited limit (map f xs)" for f :: "string \<times> goval gomap \<Rightarrow> search_item" and xs
    by (simp add: limited_def take_map)
  then show ?thesis using assms(1,2) Some by (simp add: SearchItems_by_text loop found_items_def)
qed

definition two_items :: in_memory_store where
  "two_items = NewInMemoryStore\<lparr>st_data := [(''a'', [(''x'', []), (''y'', [(''k'', GBool True)])])]\<rparr>"

fun insert_scored :: "search_item \<times> float64 \<Rightarrow> (search_item \<times> float64) list \<Rightarrow> (search_item \<times> float64) list" where
  "insert_scored x [] = [x]"
| "insert_scored x (y # ys) = (if f_less (snd x) (snd y) then y # insert_scored x ys else x # y # ys)"

definition by_score :: "(search_item \<times> float64) list \<Rightarrow> (search_item \<times> float64) list" where
  "by_score xs = foldr insert_scored xs []"

definition plain_text :: text_ops where
  "plain_text = \<lparr>tx_lower = id, tx_regex = (\<lambda>p. None), tx_same = (=), tx_sort = by_score\<rparr>"

theorem SearchItems_spec_witness:
  "SearchItems plain_text 0 two_items [''a''] None None 1 1 =
   Inr [plain_hit (make_item 0 two_items [''a''] (''x'', []))]"
proof -
  have "SearchItems plain_text 0 two_items [''a''] None None 1 1 =
      Inr (apply_offset 1 (limited 1 (found_items plain_text 0 two_items [''a''] None None)))"
    by (rule SearchItems_spec) (auto simp: two_items_def NewInMemoryStore_def no_embedding_def query_matches_def)
  also have "found_items plain_text 0 two_items [''a''] None None =
      [plain_hit (make_item 0 two_items [''a''] (''x'', [])),
       plain_hit (make_item 0 two_items [''a''] (''y'', [(''k'', GBool True)]))]"
    by (simp add: found_items_def two_items_def NewInMemoryStore_def nsKey_def checkTTL_def query_matches_def copyValue_def)
  finally show ?thesis by (simp add: apply_offset_def limited_def)
qed

text \<open>So asking for the page after the first gives the first page again.\<close>

lemma apply_offset_limited: "0 < limit \<Longrightarrow> limit \<le> offset \<Longrightarrow> apply_offset offset (limited limit xs) = limited limit xs"
  by (auto simp: apply_offset_def limited_def)

text \<open>Only the first prefix or suffix condition of a list of conditions is looked at.\<close>

lemma matchNamespaceConditions_first:
  "mc_MatchType c \<in> {''prefix'', ''suffix''} \<Longrightarrow>
   matchNamespaceConditions ns (c # conds) = matchNamespaceConditions ns [c]"
  by (auto simp: matchNamespaceConditions_def Let_def)

section \<open>Searching by vectors\<close>

definition hits :: "int \<Rightarrow> in_memory_store \<Rightarrow> string \<Rightarrow> float64 list \<Rightarrow> (search_item \<times> float64) list" where
  "hits now s nk emb =
     List.map_filter (scored_item now s nk emb) (case map_of (st_indexes s) nk of None \<Rightarrow> [] | Some idx \<Rightarrow> idx)"

text \<open>What the documentation of \<^verbatim>\<open>sort.Slice\<close> promises for a list: a permutation with no ascent.\<close>

definition sorts_scores :: "text_ops \<Rightarrow> (search_item \<times> float64) list \<Rightarrow> bool" where
  "sorts_scores tx xs \<longleftrightarrow>
     mset (tx_sort tx xs) = mset xs \<and> sorted_wrt (\<lambda>a b. \<not> f_less (snd a) (snd b)) (tx_sort tx xs)"

lemma sorted_wrt_take_drop:
  assumes "sorted_wrt P xs"
  shows "\<forall>a \<in> set (take n xs). \<forall>b \<in> set (drop n xs). P a b"
proof -
  have "sorted_wrt P (take n xs @ drop n xs)" using assms by simp
  then show ?thesis unfolding sorted_wrt_append by blast
qed

text \<open>
  The search by vectors returns the best hits. For every index, the result consists of the first \<open>limit\<close> of the
  indexed entries that still exist and are alive, and no entry that is left out has a higher score than one returned.
\<close>

theorem searchByEmbedding_best:
  assumes "sorts_scores tx (hits now s nk emb)"
  shows "\<exists>top rest. searchByEmbedding tx now s nk emb limit = map fst top
     \<and> mset (top @ rest) = mset (hits now s nk emb)
     \<and> length top = (if limit > 0 then min (nat limit) (length (hits now s nk emb)) else length (hits now s nk emb))
     \<and> (\<forall>a \<in> set top. \<forall>b \<in> set rest. \<not> f_less (snd a) (snd b))"
proof -
  let ?h = "hits now s nk emb" and ?n = "if limit > 0 then nat limit else length (hits now s nk emb)"
  let ?l = "tx_sort tx ?h"
  have perm: "mset ?l = mset ?h" and desc: "sorted_wrt (\<lambda>a b. \<not> f_less (snd a) (snd b)) ?l"
    using assms by (simp_all add: sorts_scores_def)
  have len: "length ?l = length ?h" using perm by (rule mset_eq_length)
  have result: "searchByEmbedding tx now s nk emb limit = map fst (take ?n ?l)"
  proof (cases "map_of (st_indexes s) nk")
    case None
    then have "?h = []" by (simp add: hits_def)
    with len None show ?thesis by (simp add: searchByEmbedding_def)
  next
    case (Some idx)
    then have "?h = List.map_filter (scored_item now s nk emb) idx" by (simp add: hits_def)
    with len Some show ?thesis by (simp add: searchByEmbedding_def Let_def)
  qed
  have parts: "mset (take ?n ?l @ drop ?n ?l) = mset ?h" using perm by (simp only: append_take_drop_id)
  have best: "\<forall>a \<in> set (take ?n ?l). \<forall>b \<in> set (drop ?n ?l). \<not> f_less (snd a) (snd b)"
    by (rule sorted_wrt_take_drop [OF desc])
  have size: "length (take ?n ?l) =
      (if limit > 0 then min (nat limit) (length ?h) else length ?h)"
    using len by (simp add: min.commute)
  show ?thesis using result parts size best by (intro exI conjI)
qed

lemma f_less_asym: "f_less a b \<Longrightarrow> \<not> f_less b a"
  by (cases "(a, b)" rule: f_less.cases) auto

definition two_vectors :: in_memory_store where
  "two_vectors = two_items\<lparr>st_indexes := [(''a'', [(''x'', [F_Fin 1]), (''y'', [F_Fin 2]), (''z'', [F_Fin 3])])]\<rparr>"

theorem searchByEmbedding_best_witness:
  "sorts_scores plain_text (hits 0 two_vectors ''a'' [F_Fin 1]) \<and>
   (\<exists>top rest. searchByEmbedding plain_text 0 two_vectors ''a'' [F_Fin 1] 1 = map fst top
     \<and> mset (top @ rest) = mset (hits 0 two_vectors ''a'' [F_Fin 1]) \<and> length top = 1
     \<and> (\<forall>a \<in> set top. \<forall>b \<in> set rest. \<not> f_less (snd a) (snd b)))"
proof -
  have "\<exists>p q. hits 0 two_vectors ''a'' [F_Fin 1] = [p, q]"
    by (simp add: hits_def two_vectors_def two_items_def NewInMemoryStore_def List.map_filter_def scored_item_def
        checkTTL_def Let_def)
  then obtain p q where h: "hits 0 two_vectors ''a'' [F_Fin 1] = [p, q]" by blast
  have s: "sorts_scores plain_text (hits 0 two_vectors ''a'' [F_Fin 1])"
    unfolding h by (auto simp: sorts_scores_def plain_text_def by_score_def f_less_asym)
  show ?thesis using searchByEmbedding_best [OF s, of 1] s by (simp add: h)
qed

end
