(* ===== verification/Memory_Cache.thy ===== *)
theory Memory_Cache
  imports Go_Errors
begin

text \<open>
  The cache of node outputs (\<^verbatim>\<open>pregel/cache.go\<close>): the in-memory cache with its eviction policies, the cache that stores nothing,
  and the executor that puts a cache in front of a function. Every method holds the lock of the cache, so it is one step at
  a time \<open>now\<close>. The zero time, which stands for \<open>never\<close> in an expiration and for \<open>none yet\<close> in the search
  for the oldest entry, is \<open>None\<close>; the clock does not return it. The random eviction takes the first entry of the
  map, whose order is open.
\<close>

section \<open>The cache\<close>

record cache_entry =
  ce_value :: goval
  ce_expiration :: "int option"
  ce_lastAccess :: int
  ce_hits :: int

text \<open>The three policies the package declares. Go's type is an int; a cache made with any other value would never evict, and is not modelled.\<close>

datatype eviction_policy = EvictLRU | EvictLFU | EvictRandom

record memory_cache =
  mem_data :: "cache_entry gomap"
  mem_maxSize :: int
  mem_eviction :: eviction_policy

definition NewMemoryCache :: "int \<Rightarrow> eviction_policy \<Rightarrow> memory_cache" where
  "NewMemoryCache maxSize eviction = \<lparr>mem_data = [], mem_maxSize = maxSize, mem_eviction = eviction\<rparr>"

definition mem_Get :: "int \<Rightarrow> string \<Rightarrow> memory_cache \<Rightarrow> goval option \<times> memory_cache" where
  "mem_Get now key c =
     (case map_of (mem_data c) key of
        None \<Rightarrow> (None, c)
      | Some entry \<Rightarrow>
          if (case ce_expiration entry of None \<Rightarrow> False | Some e \<Rightarrow> e < now) then (None, c)
          else (Some (ce_value entry),
                c\<lparr>mem_data := gm_put key (entry\<lparr>ce_hits := ce_hits entry + 1, ce_lastAccess := now\<rparr>) (mem_data c)\<rparr>))"

fun lru_loop :: "cache_entry gomap \<Rightarrow> int option \<Rightarrow> string \<Rightarrow> string" where
  "lru_loop [] oldest keyToDelete = keyToDelete"
| "lru_loop ((k, v) # kvs) oldest keyToDelete =
     (if (case oldest of None \<Rightarrow> True | Some t \<Rightarrow> ce_lastAccess v < t)
      then lru_loop kvs (Some (ce_lastAccess v)) k else lru_loop kvs oldest keyToDelete)"

fun lfu_loop :: "cache_entry gomap \<Rightarrow> int \<Rightarrow> string \<Rightarrow> string" where
  "lfu_loop [] minHits keyToDelete = keyToDelete"
| "lfu_loop ((k, v) # kvs) minHits keyToDelete =
     (if minHits = -1 \<or> ce_hits v < minHits then lfu_loop kvs (ce_hits v) k else lfu_loop kvs minHits keyToDelete)"

definition evict_key :: "memory_cache \<Rightarrow> string" where
  "evict_key c =
     (case mem_eviction c of
        EvictLRU \<Rightarrow> lru_loop (mem_data c) None []
      | EvictLFU \<Rightarrow> lfu_loop (mem_data c) (-1) []
      | EvictRandom \<Rightarrow> (case mem_data c of [] \<Rightarrow> [] | kv # kvs \<Rightarrow> fst kv))"

definition evict :: "memory_cache \<Rightarrow> memory_cache" where
  "evict c =
     (if length (mem_data c) = 0 then c
      else let keyToDelete = evict_key c
           in if keyToDelete \<noteq> [] then c\<lparr>mem_data := gm_del keyToDelete (mem_data c)\<rparr> else c)"

definition mem_Set :: "int \<Rightarrow> string \<Rightarrow> goval \<Rightarrow> int \<Rightarrow> memory_cache \<Rightarrow> memory_cache" where
  "mem_Set now key val ttl c =
     (let c = (if int (length (mem_data c)) \<ge> mem_maxSize c then evict c else c);
          expiration = (if ttl > 0 then Some (now + ttl) else None)
      in c\<lparr>mem_data := gm_put key
             \<lparr>ce_value = val, ce_expiration = expiration, ce_lastAccess = now, ce_hits = 0\<rparr> (mem_data c)\<rparr>)"

definition mem_Delete :: "string \<Rightarrow> memory_cache \<Rightarrow> memory_cache" where
  "mem_Delete key c = c\<lparr>mem_data := gm_del key (mem_data c)\<rparr>"

definition mem_Clear :: "memory_cache \<Rightarrow> memory_cache" where
  "mem_Clear c = c\<lparr>mem_data := []\<rparr>"

section \<open>The executor\<close>

text \<open>
  The operations the executor calls on its cache. The key of an input is computed by the policy, or from the JSON text of
  the input by a hash function, both arguments here; \<open>marshal\<close> is \<open>None\<close> for an input that has no JSON text.
\<close>

record 's cache_ops =
  kc_Get :: "int \<Rightarrow> string \<Rightarrow> 's \<Rightarrow> goval option \<times> 's"
  kc_Set :: "int \<Rightarrow> string \<Rightarrow> goval \<Rightarrow> int \<Rightarrow> 's \<Rightarrow> 's"

record cache_policy =
  cp_KeyFunc :: "(goval \<Rightarrow> string) option"
  cp_TTL :: "int option"

record key_ops =
  ko_marshal :: "goval \<Rightarrow> string option"
  ko_sha256_hex :: "string \<Rightarrow> string"

definition GenerateCacheKey :: "key_ops \<Rightarrow> string \<Rightarrow> goval \<Rightarrow> string" where
  "GenerateCacheKey ko nodeName input =
     (case ko_marshal ko input of
        None \<Rightarrow> nodeName @ '':'' @ fmt_T input
      | Some data \<Rightarrow> nodeName @ '':'' @ ko_sha256_hex ko data)"

definition cache_key :: "key_ops \<Rightarrow> cache_policy option \<Rightarrow> string \<Rightarrow> goval \<Rightarrow> string" where
  "cache_key ko policy nodeName input =
     (case policy of
        Some p \<Rightarrow> (case cp_KeyFunc p of Some f \<Rightarrow> f input | None \<Rightarrow> GenerateCacheKey ko nodeName input)
      | None \<Rightarrow> GenerateCacheKey ko nodeName input)"

definition policy_ttl :: "cache_policy option \<Rightarrow> int" where
  "policy_ttl policy = (case policy of None \<Rightarrow> 0 | Some p \<Rightarrow> (case cp_TTL p of None \<Rightarrow> 0 | Some d \<Rightarrow> d))"

text \<open>The lookup happens at the time \<open>t1\<close> and the store, after the call, at \<open>t2\<close>.\<close>

definition ce_Execute ::
  "'s cache_ops \<Rightarrow> key_ops \<Rightarrow> cache_policy option \<Rightarrow> string \<Rightarrow> (goval \<Rightarrow> goval go_result) \<Rightarrow> int \<Rightarrow> int \<Rightarrow> goval \<Rightarrow> 's
   \<Rightarrow> goval go_result \<times> 's" where
  "ce_Execute co ko policy nodeName fn t1 t2 input s =
     (let key = cache_key ko policy nodeName input
      in case kc_Get co t1 key s of
           (Some cached, s') \<Rightarrow> (Inr cached, s')
         | (None, s') \<Rightarrow>
             (case fn input of
                Inl err \<Rightarrow> (Inl err, s')
              | Inr result \<Rightarrow> (Inr result, kc_Set co t2 key result (policy_ttl policy) s')))"

definition memory_ops :: "memory_cache cache_ops" where
  "memory_ops = \<lparr>kc_Get = mem_Get, kc_Set = mem_Set\<rparr>"

lemma memory_ops_sel [simp]: "kc_Get memory_ops = mem_Get" "kc_Set memory_ops = mem_Set"
  by (simp_all add: memory_ops_def)

definition noop_ops :: "unit cache_ops" where
  "noop_ops = \<lparr>kc_Get = (\<lambda>now key s. (None, s)), kc_Set = (\<lambda>now key val ttl s. s)\<rparr>"

section \<open>The size of the cache\<close>

inductive cache_step :: "memory_cache \<Rightarrow> memory_cache \<Rightarrow> bool" where
  step_get: "cache_step c (snd (mem_Get now key c))"
| step_set: "key \<noteq> [] \<Longrightarrow> cache_step c (mem_Set now key val ttl c)"
| step_delete: "cache_step c (mem_Delete key c)"
| step_clear: "cache_step c (mem_Clear c)"

definition cache_inv :: "memory_cache \<Rightarrow> bool" where
  "cache_inv c \<longleftrightarrow> gm_ok (mem_data c) \<and> [] \<notin> gm_dom (mem_data c) \<and> (\<forall>(k, e) \<in> set (mem_data c). 0 \<le> ce_hits e)
     \<and> int (length (mem_data c)) \<le> max 1 (mem_maxSize c)"

text \<open>The searches find an entry whose last access is oldest, or whose hits are fewest.\<close>

lemma lru_loop_min:
  "\<exists>t'. (lru_loop m (Some t) k = k \<and> t' = t \<or> (\<exists>e. (lru_loop m (Some t) k, e) \<in> set m \<and> t' = ce_lastAccess e))
     \<and> t' \<le> t \<and> (\<forall>(j, e) \<in> set m. t' \<le> ce_lastAccess e)"
proof (induction m arbitrary: t k)
  case (Cons kv m)
  obtain j e where kv: "kv = (j, e)" by (cases kv)
  show ?case
  proof (cases "ce_lastAccess e < t")
    case True
    then show ?thesis using Cons [of "ce_lastAccess e" j] by (auto simp: kv)
  next
    case False
    with Cons [of t k] show ?thesis by (auto simp: kv intro: order_trans)
  qed
qed simp

lemma lfu_loop_min:
  assumes "0 \<le> t" and "\<forall>(j, e) \<in> set m. 0 \<le> ce_hits e"
  shows "\<exists>t'. (lfu_loop m t k = k \<and> t' = t \<or> (\<exists>e. (lfu_loop m t k, e) \<in> set m \<and> t' = ce_hits e))
     \<and> t' \<le> t \<and> (\<forall>(j, e) \<in> set m. t' \<le> ce_hits e)"
  using assms
proof (induction m arbitrary: t k)
  case (Cons kv m)
  obtain j e where kv: "kv = (j, e)" by (cases kv)
  show ?case
  proof (cases "ce_hits e < t")
    case True
    then show ?thesis using Cons.IH [of "ce_hits e" j] Cons.prems by (auto simp: kv)
  next
    case False
    with Cons.IH [of t k] Cons.prems show ?thesis by (auto simp: kv intro: order_trans)
  qed
qed simp

definition worst :: "eviction_policy \<Rightarrow> cache_entry gomap \<Rightarrow> cache_entry \<Rightarrow> bool" where
  "worst p m e \<longleftrightarrow>
     (case p of
        EvictLRU \<Rightarrow> (\<forall>(j, e') \<in> set m. ce_lastAccess e \<le> ce_lastAccess e')
      | EvictLFU \<Rightarrow> (\<forall>(j, e') \<in> set m. ce_hits e \<le> ce_hits e')
      | EvictRandom \<Rightarrow> True)"

lemma evict_key_worst:
  assumes "mem_data c \<noteq> []" and "\<forall>(j, e) \<in> set (mem_data c). 0 \<le> ce_hits e"
  shows "\<exists>e. (evict_key c, e) \<in> set (mem_data c) \<and> worst (mem_eviction c) (mem_data c) e"
proof -
  obtain k v m where m: "mem_data c = (k, v) # m" using assms by (cases "mem_data c") auto
  show ?thesis
  proof (cases "mem_eviction c")
    case EvictLRU
    then show ?thesis
      using lru_loop_min [of m "ce_lastAccess v" k] by (fastforce simp: evict_key_def worst_def m)
  next
    case EvictLFU
    then show ?thesis
      using lfu_loop_min [of "ce_hits v" m k] assms(2) by (fastforce simp: evict_key_def worst_def m)
  next
    case EvictRandom
    then show ?thesis by (auto simp: evict_key_def worst_def m)
  qed
qed

lemma evict_worst:
  assumes "cache_inv c" and "mem_data c \<noteq> []"
  shows "\<exists>k e. map_of (mem_data c) k = Some e \<and> worst (mem_eviction c) (mem_data c) e
    \<and> evict c = c\<lparr>mem_data := gm_del k (mem_data c)\<rparr>"
proof -
  obtain e where e: "(evict_key c, e) \<in> set (mem_data c)" "worst (mem_eviction c) (mem_data c) e"
    using evict_key_worst [of c] assms by (auto simp: cache_inv_def)
  then have "evict_key c \<noteq> []" using assms(1) by (force simp: cache_inv_def)
  then show ?thesis using e assms by (intro exI [of _ "evict_key c"] exI [of _ e]) (simp add: evict_def cache_inv_def Let_def)
qed

lemma length_del: "gm_ok m \<Longrightarrow> k \<in> gm_dom m \<Longrightarrow> length (gm_del k m) = length m - 1"
  by (simp add: length_gm_ok gomap_simps)

lemma length_put_le: "gm_ok m \<Longrightarrow> length (gm_put k v m) \<le> Suc (length m)"
  by (simp add: length_gm_ok gomap_simps card_insert_if)

text \<open>Making room keeps the invariant and leaves space for one entry.\<close>

lemma make_room:
  assumes "cache_inv c"
  defines "c' \<equiv> (if int (length (mem_data c)) \<ge> mem_maxSize c then evict c else c)"
  shows "cache_inv c' \<and> int (length (mem_data c')) + 1 \<le> max 1 (mem_maxSize c) \<and> mem_maxSize c' = mem_maxSize c"
proof (cases "int (length (mem_data c)) \<ge> mem_maxSize c \<and> mem_data c \<noteq> []")
  case True
  then obtain k e where k: "map_of (mem_data c) k = Some e" "evict c = c\<lparr>mem_data := gm_del k (mem_data c)\<rparr>"
    using evict_worst [OF assms(1)] by blast
  then have "length (gm_del k (mem_data c)) = length (mem_data c) - 1"
    using assms(1) by (simp add: length_del map_of_Some_key cache_inv_def)
  moreover have "length (mem_data c) > 0" using True by simp
  ultimately show ?thesis
    using True k assms(1) by (auto simp: c'_def cache_inv_def gomap_simps dest: gm_del_mem)
next
  case False
  then show ?thesis using assms(1) by (auto simp: c'_def cache_inv_def evict_def)
qed

lemma cache_inv_step: "cache_step c c' \<Longrightarrow> cache_inv c \<Longrightarrow> cache_inv c'"
proof (induction rule: cache_step.induct)
  case (step_get c now key)
  show ?case
  proof (cases "map_of (mem_data c) key")
    case (Some e)
    let ?m = "gm_put key (e\<lparr>ce_hits := ce_hits e + 1, ce_lastAccess := now\<rparr>) (mem_data c)"
    have key: "key \<in> gm_dom (mem_data c)" using Some by (rule map_of_Some_key)
    have "gm_dom ?m = gm_dom (mem_data c)" using key by (simp add: gomap_simps insert_absorb)
    moreover have "length ?m = length (mem_data c)"
      using step_get calculation by (simp add: length_gm_ok cache_inv_def)
    moreover have "\<forall>(k, e) \<in> set ?m. 0 \<le> ce_hits e"
      using step_get map_of_SomeD [OF Some] by (force simp: cache_inv_def dest: gm_put_mem)
    ultimately show ?thesis using step_get Some by (auto simp: mem_Get_def cache_inv_def)
  qed (use step_get in \<open>simp add: mem_Get_def\<close>)
next
  case (step_set key c now val ttl)
  define c' where "c' = (if int (length (mem_data c)) \<ge> mem_maxSize c then evict c else c)"
  have c': "cache_inv c'" "int (length (mem_data c')) + 1 \<le> max 1 (mem_maxSize c)" "mem_maxSize c' = mem_maxSize c"
    using make_room [OF step_set.prems] by (simp_all add: c'_def)
  have "int (length (gm_put key e (mem_data c'))) \<le> max 1 (mem_maxSize c)" for e
    using length_put_le [of "mem_data c'" key e] c' by (simp add: cache_inv_def)
  then show ?case
    using c' step_set.hyps by (force simp: mem_Set_def cache_inv_def gomap_simps simp flip: c'_def dest: gm_put_mem)
next
  case (step_delete c key)
  then show ?case using AList.length_delete_le [of key "mem_data c"]
    by (auto simp: cache_inv_def mem_Delete_def gomap_simps dest: gm_del_mem)
next
  case (step_clear c)
  then show ?case by (simp add: cache_inv_def mem_Clear_def)
qed

text \<open>
  C28: the cache keeps to its size, and makes room by its policy. After any sequence of operations with keys that are
  not empty, it holds at most as many entries as its maximum, or one where the maximum is lower. When it evicts, the entry that goes is
  the least recently or the least frequently used one, and no other entry is touched.
\<close>

theorem cache_bounded:
  assumes "cache_step\<^sup>*\<^sup>* (NewMemoryCache n p) c"
  shows "int (length (mem_data c)) \<le> max 1 (mem_maxSize c)
    \<and> (mem_data c = [] \<or>
       (\<exists>k e. map_of (mem_data c) k = Some e \<and> worst (mem_eviction c) (mem_data c) e
          \<and> evict c = c\<lparr>mem_data := gm_del k (mem_data c)\<rparr>))"
proof -
  have "cache_inv c" using assms
    by induction (simp_all add: cache_inv_step, simp add: cache_inv_def NewMemoryCache_def)
  then show ?thesis using evict_worst by (auto simp: cache_inv_def)
qed

theorem cache_bounded_witness:
  "let c = mem_Set 5 ''b'' GNil 0 (mem_Set 3 ''a'' GNil 0 (NewMemoryCache 1 EvictLRU))
   in int (length (mem_data c)) \<le> max 1 (mem_maxSize c)"
proof -
  let ?c = "mem_Set 3 ''a'' GNil 0 (NewMemoryCache 1 EvictLRU)"
  have "cache_step (NewMemoryCache 1 EvictLRU) ?c" and "cache_step ?c (mem_Set 5 ''b'' GNil 0 ?c)"
    by (simp_all add: step_set)
  then have "cache_step\<^sup>*\<^sup>* (NewMemoryCache 1 EvictLRU) (mem_Set 5 ''b'' GNil 0 ?c)"
    by (rule rtranclp_trans [OF r_into_rtranclp r_into_rtranclp])
  from cache_bounded [OF this] show ?thesis by (simp add: Let_def)
qed

text \<open>An entry under the empty key is never evicted when the search ends with it, so the bound needs the keys.\<close>

lemma empty_key_not_evicted:
  "length (mem_data (mem_Set 1 ''a'' GNil 0 (mem_Set 0 [] GNil 0 (NewMemoryCache 1 EvictLRU)))) = 2"
  by (simp add: mem_Set_def NewMemoryCache_def evict_def evict_key_def Let_def)

section \<open>What the executor relies on\<close>

text \<open>
  A cache may forget, but it returns only what was stored under the key. \<open>contents\<close> is what a lookup may return.
\<close>

locale output_cache =
  fixes co :: "'s cache_ops"
    and contents :: "'s \<Rightarrow> string \<Rightarrow> goval option"
  assumes get_sound: "kc_Get co t k s = (Some v, s') \<Longrightarrow> contents s k = Some v"
    and contents_get: "contents (snd (kc_Get co t k s)) k' = Some v \<Longrightarrow> contents s k' = Some v"
    and contents_set: "contents (kc_Set co t k v d s) k' = Some w \<Longrightarrow> k' = k \<and> w = v \<or> contents s k' = Some w"
begin

fun runs ::
  "key_ops \<Rightarrow> cache_policy option \<Rightarrow> string \<Rightarrow> (goval \<Rightarrow> goval go_result) \<Rightarrow> (int \<times> int \<times> goval) list \<Rightarrow> 's
   \<Rightarrow> goval go_result list" where
  "runs ko policy n fn [] s = []"
| "runs ko policy n fn ((t1, t2, x) # calls) s =
     (let (r, s') = ce_Execute co ko policy n fn t1 t2 x s in r # runs ko policy n fn calls s')"

text \<open>Every entry is the output for every input with its key.\<close>

definition memo :: "(goval \<Rightarrow> string) \<Rightarrow> (goval \<Rightarrow> goval go_result) \<Rightarrow> 's \<Rightarrow> bool" where
  "memo key fn s \<longleftrightarrow> (\<forall>x v. contents s (key x) = Some v \<longrightarrow> fn x = Inr v)"

lemma Execute_memo:
  assumes "\<And>x y. cache_key ko policy n x = cache_key ko policy n y \<Longrightarrow> fn x = fn y"
    and "memo (cache_key ko policy n) fn s"
  shows "fst (ce_Execute co ko policy n fn t1 t2 input s) = fn input
    \<and> memo (cache_key ko policy n) fn (snd (ce_Execute co ko policy n fn t1 t2 input s))"
proof -
  let ?key = "cache_key ko policy n"
  obtain r s' where g: "kc_Get co t1 (?key input) s = (r, s')" by (cases "kc_Get co t1 (?key input) s")
  have memo': "memo ?key fn s'"
    using assms(2) contents_get [of t1 "?key input" s] by (simp add: g memo_def)
  have set': "memo ?key fn (kc_Set co t2 (?key input) v (policy_ttl policy) s')" if "fn input = Inr v" for v
    unfolding memo_def
  proof (intro allI impI)
    fix x w assume "contents (kc_Set co t2 (?key input) v (policy_ttl policy) s') (?key x) = Some w"
    then have "?key x = ?key input \<and> w = v \<or> contents s' (?key x) = Some w" by (rule contents_set)
    then show "fn x = Inr w" using assms(1) [of x input] that memo' by (auto simp: memo_def)
  qed
  have "fn input = Inr v" if "r = Some v" for v
    using assms(2) get_sound [of t1 "?key input" s v s'] g that by (simp add: memo_def)
  then show ?thesis using memo' set'
    by (auto simp: ce_Execute_def g Let_def split: option.split sum.split)
qed

lemma runs_memo:
  assumes "\<And>x y. cache_key ko policy n x = cache_key ko policy n y \<Longrightarrow> fn x = fn y"
    and "memo (cache_key ko policy n) fn s"
  shows "runs ko policy n fn calls s = map (\<lambda>(t1, t2, x). fn x) calls"
  using assms(2)
proof (induction calls arbitrary: s)
  case (Cons call calls)
  obtain t1 t2 x where call: "call = (t1, t2, x)" by (cases call)
  from Execute_memo [OF assms(1) Cons.prems, of t1 t2 x] Cons.IH show ?case
    by (simp add: call case_prod_beta)
qed simp

end

definition mem_contents :: "memory_cache \<Rightarrow> string \<Rightarrow> goval option" where
  "mem_contents c k = map_option ce_value (map_of (mem_data c) k)"

lemma evict_contents: "mem_contents (evict c) k = Some v \<Longrightarrow> mem_contents c k = Some v"
  by (auto simp: mem_contents_def evict_def gomap_simps Let_def split: if_splits)

interpretation mem_cache: output_cache memory_ops mem_contents
proof
  fix t k s v s' k' w d
  show "kc_Get memory_ops t k s = (Some v, s') \<Longrightarrow> mem_contents s k = Some v"
    by (auto simp: mem_Get_def mem_contents_def split: option.splits if_splits)
  show "mem_contents (snd (kc_Get memory_ops t k s)) k' = Some v \<Longrightarrow> mem_contents s k' = Some v"
    by (auto simp: mem_Get_def mem_contents_def gomap_simps split: option.splits if_splits)
  show "mem_contents (kc_Set memory_ops t k v d s) k' = Some w \<Longrightarrow> k' = k \<and> w = v \<or> mem_contents s k' = Some w"
    using evict_contents [of s k' w]
    by (auto simp: mem_Set_def mem_contents_def gomap_simps Let_def split: if_splits)
qed

interpretation noop_cache: output_cache noop_ops "\<lambda>s k. None"
  by unfold_locales (simp_all add: noop_ops_def)

definition execute_all ::
  "key_ops \<Rightarrow> cache_policy option \<Rightarrow> string \<Rightarrow> (goval \<Rightarrow> goval go_result) \<Rightarrow> (int \<times> int \<times> goval) list \<Rightarrow> memory_cache
   \<Rightarrow> goval go_result list" where
  "execute_all ko policy n fn calls c = mem_cache.runs ko policy n fn calls c"

text \<open>
  C29: caching cannot be seen. If inputs with the same key have the same output, then calls through the executor, with any
  size of the cache, eviction policy and lifetime and at any times, return what the function returns, errors included.
\<close>

theorem caching_transparent:
  assumes "\<And>x y. cache_key ko policy n x = cache_key ko policy n y \<Longrightarrow> fn x = fn y"
  shows "execute_all ko policy n fn calls (NewMemoryCache m p) = map (\<lambda>(t1, t2, x). fn x) calls"
proof -
  have "mem_cache.memo (cache_key ko policy n) fn (NewMemoryCache m p)"
    by (simp add: mem_cache.memo_def mem_contents_def NewMemoryCache_def)
  from mem_cache.runs_memo [OF assms this] show ?thesis by (simp add: execute_all_def)
qed

theorem caching_transparent_witness:
  "execute_all \<lparr>ko_marshal = Some \<circ> fmt_T, ko_sha256_hex = id\<rparr> None ''n'' (\<lambda>x. Inr (GStr (fmt_T x)))
     [(0, 1, GBool True), (2, 3, GStr []), (4, 5, GBool False)] (NewMemoryCache 1 EvictLFU) =
   [Inr (GStr ''bool''), Inr (GStr ''string''), Inr (GStr ''bool'')]"
  using caching_transparent [of "\<lparr>ko_marshal = Some \<circ> fmt_T, ko_sha256_hex = id\<rparr>" None "''n''"
      "\<lambda>x. Inr (GStr (fmt_T x))" "[(0, 1, GBool True), (2, 3, GStr []), (4, 5, GBool False)]" 1 EvictLFU]
  by (simp add: cache_key_def GenerateCacheKey_def)

text \<open>
  The keys of inputs without JSON text do not tell inputs of one type apart: the second of two such calls returns the output of the
  first.
\<close>

lemma same_type_inputs_collide:
  assumes "ko_marshal ko x = None" and "ko_marshal ko y = None" and "fmt_T x = fmt_T y" and "fn x = Inr v" and "t2 \<ge> t1"
  shows "execute_all ko None n fn [(t0, t1, x), (t2, t3, y)] (NewMemoryCache 10 p) = [Inr v, Inr v]"
  using assms
  by (simp add: execute_all_def ce_Execute_def cache_key_def GenerateCacheKey_def policy_ttl_def mem_Get_def
      mem_Set_def NewMemoryCache_def Let_def)

end
