(* ===== verification/Messages.thy ===== *)
theory Messages
  imports Go_Errors
begin

text \<open>
  Conversations (\<^verbatim>\<open>graph/message.go\<close>): messages, the reducer that merges updates by identifier, filters and the conversion
  to the chat format of OpenAI. A dynamic value is given as the reducer sees it: nil, a slice of
  messages, one message, or a value of another type, of which only the type name matters. Pointers to messages are not nil.
\<close>

section \<open>Messages\<close>

record message =
  msg_ID :: string
  msg_Role :: string
  msg_Content :: string
  msg_Extra :: "goval gomap"

definition NewMessage :: "string \<Rightarrow> string \<Rightarrow> message" where
  "NewMessage role content = \<lparr>msg_ID = [], msg_Role = role, msg_Content = content, msg_Extra = []\<rparr>"

definition NewMessageWithID :: "string \<Rightarrow> string \<Rightarrow> string \<Rightarrow> message" where
  "NewMessageWithID msgID role content = \<lparr>msg_ID = msgID, msg_Role = role, msg_Content = content, msg_Extra = []\<rparr>"

record messages_state =
  mst_Messages :: "message list"
  mst_Extra :: "goval gomap"

definition mst_AddMessages :: "message list \<Rightarrow> messages_state \<Rightarrow> messages_state" where
  "mst_AddMessages msgs s = s\<lparr>mst_Messages := mst_Messages s @ msgs\<rparr>"

definition GetLastMessage :: "messages_state \<Rightarrow> message option" where
  "GetLastMessage s = (if length (mst_Messages s) = 0 then None else Some (last (mst_Messages s)))"

definition GetMessagesByRole :: "string \<Rightarrow> messages_state \<Rightarrow> message list" where
  "GetMessagesByRole role s = filter (\<lambda>msg. msg_Role msg = role) (mst_Messages s)"

section \<open>The reducer\<close>

datatype msg_value = MV_Nil | MV_List "message list" | MV_One message | MV_Slice "msg_value list" | MV_Other string

fun mv_type :: "msg_value \<Rightarrow> string" where
  "mv_type MV_Nil = ''<nil>''"
| "mv_type (MV_List ms) = ''[]*graph.Message''"
| "mv_type (MV_One m) = ''*graph.Message''"
| "mv_type (MV_Slice xs) = ''[]interface {}''"
| "mv_type (MV_Other t) = t"

definition GraphError :: "string \<Rightarrow> string \<Rightarrow> go_error" where
  "GraphError msg code = Errorf (if code \<noteq> [] then code @ '': '' @ msg else msg)"

definition existing_map :: "message list \<Rightarrow> message gomap" where
  "existing_map existingMsgs =
     fold (\<lambda>msg m. if msg_ID msg \<noteq> [] then gm_put (msg_ID msg) msg m else m) existingMsgs []"

text \<open>The first loop: the existing messages, each replaced by the first update with its identifier.\<close>

fun update_existing ::
  "message list \<Rightarrow> message list \<Rightarrow> message list \<Rightarrow> bool gomap \<Rightarrow> message list \<times> bool gomap" where
  "update_existing msgs [] result processedIDs = (result, processedIDs)"
| "update_existing msgs (msg # existing) result processedIDs =
     (if msg_ID msg = [] then update_existing msgs existing (result @ [msg]) processedIDs
      else case find (\<lambda>u. msg_ID u = msg_ID msg) msgs of
             Some updated \<Rightarrow> update_existing msgs existing (result @ [updated]) (gm_put (msg_ID msg) True processedIDs)
           | None \<Rightarrow> update_existing msgs existing (result @ [msg]) processedIDs)"

text \<open>The second loop: the updates that are new.\<close>

fun append_new :: "bool gomap \<Rightarrow> message gomap \<Rightarrow> message list \<Rightarrow> message list \<Rightarrow> message list" where
  "append_new processedIDs existingMap [] result = result"
| "append_new processedIDs existingMap (msg # msgs) result =
     (if msg_ID msg = [] then append_new processedIDs existingMap msgs (result @ [msg])
      else if \<not> gm_bool processedIDs (msg_ID msg) \<and> map_of existingMap (msg_ID msg) = None
      then append_new processedIDs existingMap msgs (result @ [msg])
      else append_new processedIDs existingMap msgs result)"

definition AddMessagesReducer :: "msg_value \<Rightarrow> msg_value \<Rightarrow> msg_value go_result" where
  "AddMessagesReducer existing updates =
     (case (case updates of MV_List ms \<Rightarrow> Inr ms | MV_One m \<Rightarrow> Inr [m]
            | _ \<Rightarrow> Inl (GraphError (''cannot add messages of type '' @ mv_type updates) [])) of
        Inl err \<Rightarrow> Inl err
      | Inr msgs \<Rightarrow>
          (case existing of
             MV_Nil \<Rightarrow> Inr (MV_List msgs)
           | MV_List existingMsgs \<Rightarrow>
               (case update_existing msgs existingMsgs [] [] of
                  (result, processedIDs) \<Rightarrow> Inr (MV_List (append_new processedIDs (existing_map existingMsgs) msgs result)))
           | _ \<Rightarrow> Inl (GraphError (''existing messages is not []*Message, got '' @ mv_type existing) [])))"

section \<open>Messages in a state map\<close>

fun all_messages :: "nat \<Rightarrow> msg_value list \<Rightarrow> message list \<Rightarrow> message list go_result" where
  "all_messages i [] result = Inr result"
| "all_messages i (MV_One m # vs) result = all_messages (Suc i) vs (result @ [m])"
| "all_messages i (v # vs) result =
     Inl (GraphError (''message at index '' @ fmt_d (int i) @ '' is not *Message, got '' @ mv_type v) [])"

definition GetMessagesFromState :: "msg_value gomap \<Rightarrow> message list go_result" where
  "GetMessagesFromState state =
     (case map_of state ''messages'' of
        None \<Rightarrow> Inr []
      | Some (MV_List msgs) \<Rightarrow> Inr msgs
      | Some (MV_Slice vs) \<Rightarrow> all_messages 0 vs []
      | Some v \<Rightarrow> Inl (GraphError (''messages is not []*Message, got '' @ mv_type v) []))"

definition AddMessagesToState :: "message list \<Rightarrow> msg_value gomap \<Rightarrow> go_error option \<times> msg_value gomap" where
  "AddMessagesToState msgs state =
     (case GetMessagesFromState state of
        Inl err \<Rightarrow> (Some err, state)
      | Inr existing \<Rightarrow> (None, gm_put ''messages'' (MV_List (existing @ msgs)) state))"

section \<open>Roles and filters\<close>

definition HumanMessage :: "string \<Rightarrow> message" where "HumanMessage content = NewMessage ''user'' content"
definition AIMessage :: "string \<Rightarrow> message" where "AIMessage content = NewMessage ''assistant'' content"
definition SystemMessage :: "string \<Rightarrow> message" where "SystemMessage content = NewMessage ''system'' content"

definition ToolMessage :: "string \<Rightarrow> string \<Rightarrow> message" where
  "ToolMessage content toolCallID =
     (let msg = NewMessage ''tool'' content in msg\<lparr>msg_Extra := gm_put ''tool_call_id'' (GStr toolCallID) (msg_Extra msg)\<rparr>)"

definition FunctionMessage :: "string \<Rightarrow> string \<Rightarrow> message" where
  "FunctionMessage content name =
     (let msg = NewMessage ''function'' content in msg\<lparr>msg_Extra := gm_put ''name'' (GStr name) (msg_Extra msg)\<rparr>)"

definition FormatMessages :: "message list \<Rightarrow> string list" where
  "FormatMessages msgs = map (\<lambda>msg. msg_Role msg @ '': '' @ msg_Content msg) msgs"

definition GetLastUserMessage :: "message list \<Rightarrow> message option" where
  "GetLastUserMessage msgs = find (\<lambda>msg. msg_Role msg = ''user'') (rev msgs)"

definition GetLastAIMessage :: "message list \<Rightarrow> message option" where
  "GetLastAIMessage msgs = find (\<lambda>msg. msg_Role msg = ''assistant'') (rev msgs)"

definition FilterMessagesByRole :: "message list \<Rightarrow> string list \<Rightarrow> message list" where
  "FilterMessagesByRole msgs roles =
     (let roleSet = fold (\<lambda>r. gm_put r True) roles [] in filter (\<lambda>msg. gm_bool roleSet (msg_Role msg)) msgs)"

record messages_filter =
  mf_roles :: "string list"
  mf_limit :: int
  mf_offset :: int
  mf_reverse :: bool
  mf_predicate :: "(message \<Rightarrow> bool) option"

definition NewMessagesFilter :: messages_filter where
  "NewMessagesFilter = \<lparr>mf_roles = [], mf_limit = 0, mf_offset = 0, mf_reverse = False, mf_predicate = None\<rparr>"

definition mf_WithRole :: "string list \<Rightarrow> messages_filter \<Rightarrow> messages_filter" where
  "mf_WithRole roles f = f\<lparr>mf_roles := roles\<rparr>"

definition mf_WithLimit :: "int \<Rightarrow> messages_filter \<Rightarrow> messages_filter" where
  "mf_WithLimit limit f = f\<lparr>mf_limit := limit\<rparr>"

definition mf_WithOffset :: "int \<Rightarrow> messages_filter \<Rightarrow> messages_filter" where
  "mf_WithOffset offset f = f\<lparr>mf_offset := offset\<rparr>"

definition mf_WithReverse :: "messages_filter \<Rightarrow> messages_filter" where
  "mf_WithReverse f = f\<lparr>mf_reverse := True\<rparr>"

definition mf_WithPredicate :: "(message \<Rightarrow> bool) \<Rightarrow> messages_filter \<Rightarrow> messages_filter" where
  "mf_WithPredicate p f = f\<lparr>mf_predicate := Some p\<rparr>"

text \<open>Reversal in place, by swapping the ends inwards.\<close>

function swap_loop :: "nat \<Rightarrow> nat \<Rightarrow> 'a list \<Rightarrow> 'a list" where
  "swap_loop i j xs = (if i < j then swap_loop (i + 1) (j - 1) (xs[i := xs ! j, j := xs ! i]) else xs)"
  by pat_completeness auto
termination
  by (relation "measure (\<lambda>(i, j, xs). j - i)") auto

declare swap_loop.simps [simp del]

definition mf_page :: "messages_filter \<Rightarrow> message list \<Rightarrow> message list" where
  "mf_page f msgs =
     (let result = filter (\<lambda>msg. (length (mf_roles f) > 0 \<longrightarrow> msg_Role msg \<in> set (mf_roles f))
                             \<and> (case mf_predicate f of None \<Rightarrow> True | Some p \<Rightarrow> p msg)) msgs;
          result = (if mf_offset f > 0 \<and> mf_offset f < int (length result) then drop (nat (mf_offset f)) result else result)
      in if mf_limit f > 0 \<and> mf_limit f < int (length result) then take (nat (mf_limit f)) result else result)"

definition mf_Filter :: "messages_filter \<Rightarrow> message list \<Rightarrow> message list" where
  "mf_Filter f msgs =
     (let result = mf_page f msgs in if mf_reverse f then swap_loop 0 (length result - 1) result else result)"

section \<open>The chat format\<close>

record openai_message =
  oa_Role :: string
  oa_Content :: string
  oa_Name :: string

definition ToOpenAIChatMessage :: "message \<Rightarrow> openai_message" where
  "ToOpenAIChatMessage m = \<lparr>oa_Role = msg_Role m, oa_Content = msg_Content m, oa_Name = []\<rparr>"

definition MessagesToOpenAIFormat :: "message list \<Rightarrow> openai_message list" where
  "MessagesToOpenAIFormat messages =
     map (\<lambda>msg. \<lparr>oa_Role = msg_Role msg, oa_Content = msg_Content msg, oa_Name = []\<rparr>) messages"

definition OpenAIFormatToMessages :: "openai_message list \<Rightarrow> message list" where
  "OpenAIFormatToMessages openaiMessages =
     map (\<lambda>msg. \<lparr>msg_ID = [], msg_Role = oa_Role msg, msg_Content = oa_Content msg,
             msg_Extra = (if oa_Name msg \<noteq> [] then gm_put ''name'' (GStr (oa_Name msg)) [] else [])\<rparr>) openaiMessages"

section \<open>Merging by identifier\<close>

definition msg_ids :: "message list \<Rightarrow> string set" where
  "msg_ids ms = {msg_ID m | m. m \<in> set ms \<and> msg_ID m \<noteq> []}"

definition replaced :: "message list \<Rightarrow> message \<Rightarrow> message" where
  "replaced us m = (if msg_ID m = [] then m else case find (\<lambda>u. msg_ID u = msg_ID m) us of Some u \<Rightarrow> u | None \<Rightarrow> m)"

definition merge_messages :: "message list \<Rightarrow> message list \<Rightarrow> message list" where
  "merge_messages es us = map (replaced us) es @ filter (\<lambda>u. msg_ID u = [] \<or> msg_ID u \<notin> msg_ids es) us"

lemma find_SomeD: "find P xs = Some x \<Longrightarrow> x \<in> set xs \<and> P x"
  by (auto simp: find_Some_iff)

lemma replaced_id [simp]: "msg_ID (replaced us m) = msg_ID m"
  by (auto simp: replaced_def find_Some_iff split: option.split)

lemma update_existing_eq:
  "fst (update_existing us es acc ps) = acc @ map (replaced us) es
   \<and> (\<forall>i. gm_bool (snd (update_existing us es acc ps)) i \<longleftrightarrow>
          gm_bool ps i \<or> i \<in> msg_ids es \<and> (\<exists>u \<in> set us. msg_ID u = i))"
proof (induction es arbitrary: acc ps)
  case (Cons m es)
  show ?case
  proof (cases "msg_ID m = []")
    case True
    then show ?thesis using Cons [of "acc @ [m]" ps] by (auto simp: msg_ids_def replaced_def)
  next
    case False
    show ?thesis
    proof (cases "find (\<lambda>u. msg_ID u = msg_ID m) us")
      case None
      then have "\<forall>u \<in> set us. msg_ID u \<noteq> msg_ID m" by (simp add: find_None_iff)
      then show ?thesis using Cons [of "acc @ [m]" ps] False None by (auto simp: msg_ids_def replaced_def)
    next
      case (Some u)
      then have "\<exists>u \<in> set us. msg_ID u = msg_ID m" by (auto simp: find_Some_iff)
      then show ?thesis
        using Cons [of "acc @ [u]" "gm_put (msg_ID m) True ps"] False Some by (auto simp: msg_ids_def replaced_def)
    qed
  qed
qed (simp add: msg_ids_def)

lemma existing_map_None: "map_of (existing_map es) i = None \<longleftrightarrow> i \<notin> msg_ids es"
proof -
  have "map_of (fold (\<lambda>msg m. if msg_ID msg \<noteq> [] then gm_put (msg_ID msg) msg m else m) es m) i = None
      \<longleftrightarrow> i \<notin> msg_ids es \<and> map_of m i = None" for m
    by (induction es arbitrary: m) (auto simp: msg_ids_def gomap_simps)
  then show ?thesis by (simp add: existing_map_def)
qed

lemma append_new_eq:
  "append_new ps em us acc =
     acc @ filter (\<lambda>u. msg_ID u = [] \<or> \<not> gm_bool ps (msg_ID u) \<and> map_of em (msg_ID u) = None) us"
  by (induction us arbitrary: acc) auto

lemma AddMessagesReducer_merge:
  "AddMessagesReducer (MV_List es) (MV_List us) = Inr (MV_List (merge_messages es us))"
proof -
  let ?r = "update_existing us es [] []"
  have r: "fst ?r = map (replaced us) es" and "\<forall>i. gm_bool (snd ?r) i \<longrightarrow> i \<in> msg_ids es"
    using update_existing_eq [of us es "[]" "[]"] by auto
  then have "filter (\<lambda>u. msg_ID u = [] \<or> \<not> gm_bool (snd ?r) (msg_ID u) \<and> map_of (existing_map es) (msg_ID u) = None) us
      = filter (\<lambda>u. msg_ID u = [] \<or> msg_ID u \<notin> msg_ids es) us"
    by (intro filter_cong) (auto simp: existing_map_None)
  then show ?thesis
    by (simp add: AddMessagesReducer_def append_new_eq merge_messages_def case_prod_beta r)
qed

definition unique_ids :: "message list \<Rightarrow> bool" where
  "unique_ids ms \<longleftrightarrow> distinct (filter (\<lambda>i. i \<noteq> []) (map msg_ID ms))"

lemma unique_ids_inj:
  assumes "unique_ids us" and "u \<in> set us" and "u' \<in> set us" and "msg_ID u = msg_ID u'" and "msg_ID u \<noteq> []"
  shows "u = u'"
proof -
  let ?us = "filter (\<lambda>u. msg_ID u \<noteq> []) us"
  have "distinct (map msg_ID ?us)" using assms(1) by (simp add: unique_ids_def filter_map o_def)
  moreover have "u \<in> set ?us" and "u' \<in> set ?us" using assms by auto
  ultimately show ?thesis using assms(4) by (metis distinct_map inj_on_eq_iff)
qed

lemma replaced_update: "unique_ids us \<Longrightarrow> u \<in> set us \<Longrightarrow> msg_ID e = msg_ID u \<Longrightarrow> msg_ID u \<noteq> [] \<Longrightarrow> replaced us e = u"
  using unique_ids_inj [of us u]
  by (auto simp: replaced_def find_None_iff dest!: find_SomeD split: option.split) metis

lemma replaced_other: "msg_ID e = [] \<or> msg_ID e \<notin> msg_ids us \<Longrightarrow> replaced us e = e"
  by (auto simp: replaced_def msg_ids_def dest!: find_SomeD split: option.split)

lemma replaced_twice [simp]: "replaced us (replaced us m) = replaced us m"
  by (simp add: replaced_def [of us "replaced us m"]) (simp add: replaced_def split: option.split)

lemma mem_msg_ids: "u \<in> set us \<Longrightarrow> msg_ID u \<noteq> [] \<Longrightarrow> msg_ID u \<in> msg_ids us"
  by (auto simp: msg_ids_def)

lemma ids_merge: "map msg_ID (merge_messages es us) =
    map msg_ID es @ filter (\<lambda>i. i = [] \<or> i \<notin> msg_ids es) (map msg_ID us)"
  by (simp add: merge_messages_def filter_map o_def)

lemma msg_ids_eq: "msg_ids ms = set (map msg_ID ms) - {[]}"
  by (auto simp: msg_ids_def)

lemma merge_unique: "unique_ids es \<Longrightarrow> unique_ids us \<Longrightarrow> unique_ids (merge_messages es us)"
proof -
  assume "unique_ids es" and "unique_ids us"
  moreover have "distinct (filter P xs)" if "distinct (filter Q xs)" "\<And>x. P x \<Longrightarrow> Q x" for P Q and xs :: "string list"
  proof -
    have "filter P xs = filter P (filter Q xs)" using that(2) by (auto intro: filter_cong)
    then show ?thesis using distinct_filter [OF that(1), of P] by argo
  qed
  ultimately show ?thesis by (auto simp: unique_ids_def ids_merge msg_ids_eq)
qed

lemma merge_has_updates:
  assumes "unique_ids us" and "u \<in> set us"
  shows "u \<in> set (merge_messages es us)"
proof (cases "msg_ID u = [] \<or> msg_ID u \<notin> msg_ids es")
  case False
  then obtain e where "e \<in> set es" "msg_ID e = msg_ID u" by (auto simp: msg_ids_def)
  then show ?thesis using replaced_update [OF assms] False by (force simp: merge_messages_def)
qed (use assms in \<open>simp add: merge_messages_def\<close>)

lemma merge_keeps:
  assumes "e \<in> set es" and "msg_ID e = [] \<or> msg_ID e \<notin> msg_ids us"
  shows "e \<in> set (merge_messages es us)"
  using imageI [OF assms(1), of "replaced us"] replaced_other [OF assms(2)] by (simp add: merge_messages_def)

lemma merge_twice:
  assumes "unique_ids us" and "[] \<notin> msg_ID ` set us"
  shows "merge_messages (merge_messages es us) us = merge_messages es us"
proof -
  let ?ms = "merge_messages es us"
  have "msg_ID u \<in> msg_ids ?ms" if "u \<in> set us" for u
    using merge_has_updates [OF assms(1) that] assms(2) that by (force intro: mem_msg_ids)
  then have "filter (\<lambda>u. msg_ID u = [] \<or> msg_ID u \<notin> msg_ids ?ms) us = []"
    using assms(2) by (force simp: filter_empty_conv)
  moreover have "replaced us m = m" if m: "m \<in> set ?ms" for m
  proof -
    have "m \<in> replaced us ` set es \<or> m \<in> set us" using m by (auto simp: merge_messages_def)
    then show ?thesis using replaced_update [OF assms(1), of m m] assms(2) by force
  qed
  then have "map (replaced us) ?ms = ?ms" by (simp add: map_idI)
  ultimately show ?thesis by (simp add: merge_messages_def [of ?ms])
qed

text \<open>
  C30: merging a list of messages into a list. Every existing message keeps its place; one with an identifier is
  replaced there by the first update with that identifier, if there is one. Behind them come, in their order, the updates
  without an identifier and those whose identifier no existing message has. If the identifiers on each side are
  unique, those of the result are. If the updates have unique identifiers, each is in the result; if every
  one of them also has an identifier, a second delivery changes nothing.
\<close>

theorem AddMessages_dedup:
  "\<exists>ms. AddMessagesReducer (MV_List es) (MV_List us) = Inr (MV_List ms)
     \<and> length es \<le> length ms
     \<and> (\<forall>i < length es. ms ! i =
          (if msg_ID (es ! i) = [] then es ! i
           else case find (\<lambda>u. msg_ID u = msg_ID (es ! i)) us of Some u \<Rightarrow> u | None \<Rightarrow> es ! i))
     \<and> drop (length es) ms = filter (\<lambda>u. msg_ID u = [] \<or> (\<forall>e \<in> set es. msg_ID e \<noteq> msg_ID u)) us
     \<and> (unique_ids es \<and> unique_ids us \<longrightarrow> unique_ids ms)
     \<and> (unique_ids us \<longrightarrow> set us \<subseteq> set ms)
     \<and> (unique_ids us \<and> [] \<notin> msg_ID ` set us \<longrightarrow> AddMessagesReducer (MV_List ms) (MV_List us) = Inr (MV_List ms))"
proof (intro exI conjI impI allI)
  let ?ms = "merge_messages es us"
  show "AddMessagesReducer (MV_List es) (MV_List us) = Inr (MV_List ?ms)" by (rule AddMessagesReducer_merge)
  show "length es \<le> length ?ms" by (simp add: merge_messages_def)
  show "?ms ! i = (if msg_ID (es ! i) = [] then es ! i
      else case find (\<lambda>u. msg_ID u = msg_ID (es ! i)) us of Some u \<Rightarrow> u | None \<Rightarrow> es ! i)" if "i < length es" for i
    using that by (simp add: merge_messages_def nth_append replaced_def)
  show "drop (length es) ?ms = filter (\<lambda>u. msg_ID u = [] \<or> (\<forall>e \<in> set es. msg_ID e \<noteq> msg_ID u)) us"
    by (auto simp: merge_messages_def msg_ids_def intro!: filter_cong)
  show "unique_ids ?ms" if "unique_ids es \<and> unique_ids us" using that merge_unique by blast
  show "set us \<subseteq> set ?ms" if "unique_ids us" using merge_has_updates [OF that] by blast
  show "AddMessagesReducer (MV_List ?ms) (MV_List us) = Inr (MV_List ?ms)" if "unique_ids us \<and> [] \<notin> msg_ID ` set us"
    using that merge_twice by (simp add: AddMessagesReducer_merge)
qed

theorem AddMessages_dedup_witness:
  "let es = [NewMessageWithID ''1'' ''user'' ''a'', HumanMessage ''b''];
       us = [NewMessageWithID ''2'' ''user'' ''d'', NewMessageWithID ''1'' ''user'' ''c'']
   in \<exists>ms. AddMessagesReducer (MV_List es) (MV_List us) = Inr (MV_List ms)
        \<and> ms ! 0 = NewMessageWithID ''1'' ''user'' ''c'' \<and> ms ! 1 = HumanMessage ''b''
        \<and> drop 2 ms = [NewMessageWithID ''2'' ''user'' ''d''] \<and> unique_ids ms
        \<and> AddMessagesReducer (MV_List ms) (MV_List us) = Inr (MV_List ms)"
proof -
  define es where "es = [NewMessageWithID ''1'' ''user'' ''a'', HumanMessage ''b'']"
  define us where "us = [NewMessageWithID ''2'' ''user'' ''d'', NewMessageWithID ''1'' ''user'' ''c'']"
  have u: "unique_ids es" "unique_ids us" "[] \<notin> msg_ID ` set us"
    by (simp_all add: es_def us_def unique_ids_def NewMessageWithID_def HumanMessage_def NewMessage_def)
  from AddMessages_dedup [of es us] u obtain ms where ms: "AddMessagesReducer (MV_List es) (MV_List us) = Inr (MV_List ms)"
    and place: "\<forall>i < length es. ms ! i =
          (if msg_ID (es ! i) = [] then es ! i
           else case find (\<lambda>u. msg_ID u = msg_ID (es ! i)) us of Some u \<Rightarrow> u | None \<Rightarrow> es ! i)"
    and rest: "drop (length es) ms = filter (\<lambda>u. msg_ID u = [] \<or> (\<forall>e \<in> set es. msg_ID e \<noteq> msg_ID u)) us"
    and more: "unique_ids ms" "AddMessagesReducer (MV_List ms) (MV_List us) = Inr (MV_List ms)" by blast
  have "ms ! 0 = NewMessageWithID ''1'' ''user'' ''c''" "ms ! 1 = HumanMessage ''b''"
    using place [rule_format, of 0] place [rule_format, of 1]
    by (simp_all add: es_def us_def NewMessageWithID_def HumanMessage_def NewMessage_def)
  moreover have "drop 2 ms = [NewMessageWithID ''2'' ''user'' ''d'']"
    using rest by (simp add: es_def us_def NewMessageWithID_def HumanMessage_def NewMessage_def numeral_2_eq_2)
  ultimately show ?thesis
    using ms more unfolding Let_def es_def [symmetric] us_def [symmetric] by blast
qed

text \<open>Two updates with the same new identifier are both kept.\<close>

lemma duplicate_updates_kept:
  "msg_ID a = msg_ID b \<Longrightarrow> AddMessagesReducer (MV_List []) (MV_List [a, b]) = Inr (MV_List [a, b])"
  by (simp add: AddMessagesReducer_merge merge_messages_def msg_ids_def)

section \<open>Filters\<close>

text \<open>The swaps reverse the list.\<close>

lemma length_swap_loop [simp]: "length (swap_loop i j xs) = length xs"
  by (induction i j xs rule: swap_loop.induct) (subst swap_loop.simps, simp)

lemma nth_swap_loop:
  "j < length xs \<Longrightarrow> k < length xs \<Longrightarrow> swap_loop i j xs ! k = (if i \<le> k \<and> k \<le> j then xs ! (i + j - k) else xs ! k)"
proof (induction i j xs rule: swap_loop.induct)
  case (1 i j xs)
  show ?case
  proof (cases "i < j")
    case True
    then show ?thesis
      using 1 by (subst swap_loop.simps) (auto simp: nth_list_update)
  next
    case False
    then have "i + j - k = k" if "i \<le> k" "k \<le> j" using that by linarith
    then show ?thesis using False by (subst swap_loop.simps) auto
  qed
qed

lemma swap_loop_rev: "swap_loop 0 (length xs - 1) xs = rev xs"
proof (cases "xs = []")
  case False
  then have "length xs - 1 < length xs" by simp
  then show ?thesis by (intro nth_equalityI) (auto simp: nth_swap_loop rev_nth)
qed (simp add: swap_loop.simps)

text \<open>The page of a filter: the messages that pass, from the offset on, up to the limit, and reversed last.\<close>

lemma mf_Filter_page:
  assumes "0 \<le> mf_offset f" and "mf_offset f < int (length (mf_Filter (f\<lparr>mf_offset := 0, mf_limit := 0\<rparr>) msgs))"
    and "0 < mf_limit f" and "\<not> mf_reverse f"
  shows "mf_Filter f msgs = take (nat (mf_limit f)) (drop (nat (mf_offset f)) (mf_Filter (f\<lparr>mf_offset := 0, mf_limit := 0\<rparr>) msgs))"
  using assms by (auto simp: mf_Filter_def mf_page_def Let_def)

lemma mf_Filter_reverse: "mf_Filter (mf_WithReverse f) msgs = rev (mf_Filter (f\<lparr>mf_reverse := False\<rparr>) msgs)"
  by (simp add: mf_Filter_def mf_page_def mf_WithReverse_def Let_def swap_loop_rev [unfolded One_nat_def] cong: if_cong)

section \<open>The chat format\<close>

text \<open>Role and content survive the chat format; identifiers and extra data do not.\<close>

lemma openai_roundtrip:
  "OpenAIFormatToMessages (MessagesToOpenAIFormat ms) = map (\<lambda>m. NewMessage (msg_Role m) (msg_Content m)) ms"
  by (simp add: OpenAIFormatToMessages_def MessagesToOpenAIFormat_def NewMessage_def)

end
