(* ===== verification/Interrupts.thy ===== *)
theory Interrupts
  imports Go_Errors
begin

text \<open>
  Interrupts raised from inside a node (\<^verbatim>\<open>interrupt/interrupt.go\<close>): the values a client resumes with, and the function that returns
  the next of them or raises an interrupt. The state is the context of the request, if there is one, the context
  shared by the whole process, and the counter behind the identifiers of interrupts. Each access to a context is one step under
  its lock. The hash of a value is an argument.
\<close>

section \<open>Contexts\<close>

record interrupt_context =
  ic_resumeValues :: "goval list"
  ic_index :: nat
  ic_nullResume :: goval

record interrupt_world =
  iw_local :: "interrupt_context option"
  iw_global :: interrupt_context
  iw_counter :: int

definition new_context :: interrupt_context where
  "new_context = \<lparr>ic_resumeValues = [], ic_index = 0, ic_nullResume = GNil\<rparr>"

definition WithInterruptContext :: "interrupt_world \<Rightarrow> interrupt_world" where
  "WithInterruptContext w = w\<lparr>iw_local := Some new_context\<rparr>"

definition IsInterruptContext :: "interrupt_world \<Rightarrow> bool" where
  "IsInterruptContext w \<longleftrightarrow> iw_local w \<noteq> None"

text \<open>The context of the request, or else the one of the process.\<close>

definition ctx_of :: "interrupt_world \<Rightarrow> interrupt_context" where
  "ctx_of w = (case iw_local w of Some ic \<Rightarrow> ic | None \<Rightarrow> iw_global w)"

definition set_ctx :: "interrupt_context \<Rightarrow> interrupt_world \<Rightarrow> interrupt_world" where
  "set_ctx ic w = (case iw_local w of Some old \<Rightarrow> w\<lparr>iw_local := Some ic\<rparr> | None \<Rightarrow> w\<lparr>iw_global := ic\<rparr>)"

definition consumeNextResumeValue :: "interrupt_context \<Rightarrow> goval option \<times> interrupt_context" where
  "consumeNextResumeValue ic =
     (if ic_index ic < length (ic_resumeValues ic)
      then (Some (ic_resumeValues ic ! ic_index ic), ic\<lparr>ic_index := ic_index ic + 1\<rparr>)
      else (None, ic))"

definition appendResumeValue :: "goval \<Rightarrow> interrupt_context \<Rightarrow> interrupt_context" where
  "appendResumeValue v ic = ic\<lparr>ic_resumeValues := ic_resumeValues ic @ [v]\<rparr>"

definition setNullResume :: "goval \<Rightarrow> interrupt_context \<Rightarrow> interrupt_context" where
  "setNullResume v ic = ic\<lparr>ic_nullResume := v\<rparr>"

definition setResumeValues :: "goval list \<Rightarrow> interrupt_context \<Rightarrow> interrupt_context" where
  "setResumeValues vs ic = ic\<lparr>ic_resumeValues := vs\<rparr>"

definition ic_reset :: "interrupt_context \<Rightarrow> interrupt_context" where
  "ic_reset ic = ic\<lparr>ic_resumeValues := [], ic_index := 0, ic_nullResume := GNil\<rparr>"

section \<open>Operations\<close>

definition generateInterruptID :: "(goval \<Rightarrow> string) \<Rightarrow> goval \<Rightarrow> interrupt_world \<Rightarrow> string \<times> interrupt_world" where
  "generateInterruptID hash val w =
     (let n = iw_counter w + 1 in (hash val @ ''_'' @ fmt_d n, w\<lparr>iw_counter := n\<rparr>))"

definition interrupt_record :: "goval \<Rightarrow> string \<Rightarrow> goval" where
  "interrupt_record val i =
     GPtr (GStruct ''types.Interrupt'' [(''Value'', GNil), (''ID'', GStr [])] [(''Value'', val), (''ID'', GStr i)])"

definition Interrupt ::
  "(goval \<Rightarrow> string) \<Rightarrow> goval \<Rightarrow> interrupt_world \<Rightarrow> goval go_result \<times> interrupt_world" where
  "Interrupt hash val w =
     (case consumeNextResumeValue (ctx_of w) of
        (Some v, ic) \<Rightarrow> (Inr v, set_ctx ic w)
      | (None, ic) \<Rightarrow>
          (let v = ic_nullResume ic
           in if v \<noteq> GNil then (Inr v, set_ctx (appendResumeValue v (setNullResume GNil ic)) w)
              else let (i, w) = generateInterruptID hash val w in (Inl (GraphInterrupt [interrupt_record val i]), w)))"

definition GetResumeValues :: "interrupt_world \<Rightarrow> goval list" where
  "GetResumeValues w = ic_resumeValues (ctx_of w)"

definition GetInterruptIndex :: "interrupt_world \<Rightarrow> nat" where
  "GetInterruptIndex w = ic_index (ctx_of w)"

definition AppendResumeValue :: "goval \<Rightarrow> interrupt_world \<Rightarrow> interrupt_world" where
  "AppendResumeValue v w = set_ctx (appendResumeValue v (ctx_of w)) w"

definition GetNullResume :: "bool \<Rightarrow> interrupt_world \<Rightarrow> goval \<times> interrupt_world" where
  "GetNullResume consume w =
     (ic_nullResume (ctx_of w), if consume then set_ctx (setNullResume GNil (ctx_of w)) w else w)"

definition SetResumeValues :: "goval list \<Rightarrow> interrupt_world \<Rightarrow> interrupt_world" where
  "SetResumeValues vs w = set_ctx (setResumeValues vs (ctx_of w)) w"

definition iw_Reset :: "interrupt_world \<Rightarrow> interrupt_world" where
  "iw_Reset w = set_ctx (ic_reset (ctx_of w)) w"

definition GetInterruptValue :: "go_error \<Rightarrow> goval option" where
  "GetInterruptValue err =
     (case err of
        GraphInterrupt (i # is) \<Rightarrow>
          (case i of GPtr (GStruct n z fs) \<Rightarrow> if n = ''types.Interrupt'' then Some (gm_val fs ''Value'') else Some i | _ \<Rightarrow> Some i)
      | _ \<Rightarrow> None)"

section \<open>Answers in order\<close>

text \<open>A node that raises interrupts one after the other and stops at the first that is not answered.\<close>

fun interrupts :: "(goval \<Rightarrow> string) \<Rightarrow> goval list \<Rightarrow> interrupt_world \<Rightarrow> goval list \<times> go_error option \<times> interrupt_world" where
  "interrupts hash [] w = ([], None, w)"
| "interrupts hash (q # qs) w =
     (case Interrupt hash q w of
        (Inl err, w') \<Rightarrow> ([], Some err, w')
      | (Inr v, w') \<Rightarrow> (let (vs, err, w'') = interrupts hash qs w' in (v # vs, err, w'')))"

lemma ctx_set_ctx [simp]: "ctx_of (set_ctx ic w) = ic"
  by (simp add: ctx_of_def set_ctx_def split: option.split)

lemma set_ctx_twice [simp]: "set_ctx a (set_ctx b w) = set_ctx a w"
  by (simp add: set_ctx_def split: option.split)

lemma GetInterruptValue_Interrupt:
  "Interrupt hash q w = (Inl err, w') \<Longrightarrow> GetInterruptValue err = Some q"
  by (auto simp: Interrupt_def Let_def consumeNextResumeValue_def generateInterruptID_def GetInterruptValue_def
      interrupt_record_def gm_val_def split: if_splits prod.splits)

text \<open>
  C3: answers are matched to interrupts by their order. A node that is run with the resume values \<open>as\<close> and asks the
  questions \<open>qs\<close> gets the answers in order; if there are fewer answers than questions, it is interrupted at the first open
  question, and the interrupt carries that question.
\<close>

theorem interrupts_in_order:
  assumes "ctx_of w = \<lparr>ic_resumeValues = as, ic_index = 0, ic_nullResume = GNil\<rparr>"
  shows "fst (interrupts hash qs w) = take (length qs) as
    \<and> (case fst (snd (interrupts hash qs w)) of
         None \<Rightarrow> length qs \<le> length as
       | Some err \<Rightarrow> length as < length qs \<and> GetInterruptValue err = Some (qs ! length as))"
proof -
  have "fst (interrupts hash qs w) = take (length qs) (drop i as)
    \<and> (case fst (snd (interrupts hash qs w)) of
         None \<Rightarrow> length qs \<le> length as - i
       | Some err \<Rightarrow> length as - i < length qs \<and> GetInterruptValue err = Some (qs ! (length as - i)))"
    if "ctx_of w = \<lparr>ic_resumeValues = as, ic_index = i, ic_nullResume = GNil\<rparr>" for i
    using that
  proof (induction qs arbitrary: w i)
    case (Cons q qs)
    show ?case
    proof (cases "i < length as")
      case True
      let ?w = "set_ctx \<lparr>ic_resumeValues = as, ic_index = Suc i, ic_nullResume = GNil\<rparr> w"
      have q: "Interrupt hash q w = (Inr (as ! i), ?w)"
        using True Cons.prems by (simp add: Interrupt_def consumeNextResumeValue_def)
      have "length as - i = Suc (length as - Suc i)" using True by simp
      then show ?thesis
        using Cons.IH [of ?w "Suc i"] True
        by (auto simp: q Cons_nth_drop_Suc [symmetric] case_prod_beta split: option.splits)
    next
      case False
      then obtain err w' where q: "Interrupt hash q w = (Inl err, w')"
        using Cons.prems by (auto simp: Interrupt_def consumeNextResumeValue_def Let_def generateInterruptID_def)
      then show ?thesis using False GetInterruptValue_Interrupt [OF q] by simp
    qed
  qed simp
  from this [OF assms] show ?thesis by (simp only: drop_0 diff_zero)
qed

theorem interrupts_in_order_witness:
  "GetInterruptValue (the (fst (snd (interrupts (\<lambda>v. ''h'') [GStr ''name'', GStr ''age'']
      (SetResumeValues [GStr ''Ann''] (WithInterruptContext \<lparr>iw_local = None, iw_global = new_context, iw_counter = 0\<rparr>))))))
   = Some (GStr ''age'')"
  using interrupts_in_order [of "SetResumeValues [GStr ''Ann''] (WithInterruptContext
        \<lparr>iw_local = None, iw_global = new_context, iw_counter = 0\<rparr>)" "[GStr ''Ann'']" "\<lambda>v. ''h''" "[GStr ''name'', GStr ''age'']"]
  by (auto simp: SetResumeValues_def setResumeValues_def new_context_def WithInterruptContext_def ctx_of_def set_ctx_def
      split: option.splits)

text \<open>A null resume value is appended behind the index, so it answers two interrupts.\<close>

lemma null_resume_answers_twice:
  assumes "ctx_of w = \<lparr>ic_resumeValues = [], ic_index = 0, ic_nullResume = v\<rparr>" and "v \<noteq> GNil"
  shows "fst (interrupts hash [q1, q2] w) = [v, v]"
  using assms by (simp add: Interrupt_def consumeNextResumeValue_def Let_def setNullResume_def appendResumeValue_def)

end
