(* ===== verification/Loop_Node.thy ===== *)
theory Loop_Node
  imports Pregel_Properties Interrupts
begin

text \<open>
  Nodes that run a compiled graph again and again (\<^verbatim>\<open>graph/loop.go\<close>), with \<^verbatim>\<open>Invoke\<close> of a compiled graph
  (\<^verbatim>\<open>graph/graph.go\<close>, \<^verbatim>\<open>pregel/init_pregel.go\<close>) as a run of the engine. An interrupt inside the inner graph
  is raised again with the state of the loop, and the next run of the node continues from that state.

  The inner runs share the state of their checkpointer, which is passed along. A panic in the goroutine of an inner run ends the
  process; it is passed on as the result. Encoding to and from JSON is an argument.

  The context that carries the resume values is not handed to the inner runs here: in the model an inner graph neither
  consumes resume values nor changes the interrupt state of the node, which in Go it may do by calling \<^verbatim>\<open>Interrupt\<close> itself.
\<close>

section \<open>Invoking a compiled graph\<close>

definition cg_Invoke ::
  "'s run_env \<Rightarrow> compiled_graph \<Rightarrow> runnable_config option \<Rightarrow> goval \<Rightarrow> 's \<Rightarrow> goval go_result \<times> 's" where
  "cg_Invoke env cg config input s =
     (let rc = (case config of Some c \<Rightarrow> c | None \<Rightarrow>
                  \<lparr>Configurable = None, RecursionLimit = 0, Tags = [], rcMetadata = None, RunID = [], ThreadID = [], Durability = []\<rparr>);
          (r, rs) = RunSync env (compiled_engine cg (Some rc)) input s
      in (r, rs_store rs))"

definition thread_config :: "string \<Rightarrow> runnable_config" where
  "thread_config t =
     \<lparr>Configurable = Some [(''thread_id'', GStr t)], RecursionLimit = 0, Tags = [], rcMetadata = None, RunID = [],
      ThreadID = [], Durability = []\<rparr>"

section \<open>The loop\<close>

record loop_options =
  lo_maxIterations :: int
  lo_checkpointIDPrefix :: string

definition WithLoopMaxIterations :: "int \<Rightarrow> loop_options \<Rightarrow> loop_options" where
  "WithLoopMaxIterations n opt = (if n \<ge> 0 then opt\<lparr>lo_maxIterations := n\<rparr> else opt)"

definition WithLoopCheckpointIDPrefix :: "string \<Rightarrow> loop_options \<Rightarrow> loop_options" where
  "WithLoopCheckpointIDPrefix p opt = (if p \<noteq> [] then opt\<lparr>lo_checkpointIDPrefix := p\<rparr> else opt)"

definition getLoopOptions :: "(loop_options \<Rightarrow> loop_options) list \<Rightarrow> loop_options" where
  "getLoopOptions opts = fold (\<lambda>opt. opt) opts \<lparr>lo_maxIterations = 1024, lo_checkpointIDPrefix = []\<rparr>"

record loop_state =
  ls_Iteration :: int
  ls_CurrentInput :: "string option"
  ls_UserFillUpValue :: "string option"

definition loop_state_value :: "loop_state \<Rightarrow> goval" where
  "loop_state_value st =
     (let raw = (\<lambda>r. case r of None \<Rightarrow> GNil | Some b \<Rightarrow> GBytes b)
      in GStruct ''graph.loopInterruptState'' [(''Iteration'', GInt 0), (''CurrentInput'', GNil), (''UserFillUpValue'', GNil)]
           [(''Iteration'', GInt (of_int (ls_Iteration st))), (''CurrentInput'', raw (ls_CurrentInput st)),
            (''UserFillUpValue'', raw (ls_UserFillUpValue st))])"

text \<open>
  The surroundings of a loop: those of the run of each iteration, JSON, the parser of a saved state and the hash of an interrupt's value.
\<close>

record 's loop_env =
  le_run :: "int \<Rightarrow> 's run_env"
  le_marshal :: "goval \<Rightarrow> string go_result"
  le_unmarshal :: "string \<Rightarrow> string + goval"
  le_decode :: "string \<Rightarrow> loop_state option"
  le_hash :: "goval \<Rightarrow> string"

type_synonym loop_condition = "int \<Rightarrow> goval \<Rightarrow> goval \<Rightarrow> bool go_result"

definition loop_invoke :: "'s loop_env \<Rightarrow> string \<Rightarrow> compiled_graph \<Rightarrow> loop_options \<Rightarrow> int \<Rightarrow> goval \<Rightarrow> 's \<Rightarrow> goval go_result \<times> 's" where
  "loop_invoke env key sub options iteration current s =
     (let subCheckpointID = lo_checkpointIDPrefix options @ '':loop:'' @ key @ '':iter:'' @ fmt_d iteration
      in cg_Invoke (le_run env iteration) sub (Some (thread_config subCheckpointID)) current s)"

text \<open>What happens when the inner graph was interrupted: the value of an answered interrupt is dropped.\<close>

definition loop_interrupt ::
  "'s loop_env \<Rightarrow> int \<Rightarrow> goval \<Rightarrow> go_error \<Rightarrow> interrupt_world \<Rightarrow> goval go_result \<times> interrupt_world" where
  "loop_interrupt env iteration current invokeErr w =
     (case le_marshal env current of
        Inl mErr \<Rightarrow> (Inl (WrapErr ''graph: loop marshal state: '' mErr), w)
      | Inr currentJSON \<Rightarrow>
          (let fillUpJSON =
                 (case GetInterruptValue invokeErr of
                    None \<Rightarrow> None
                  | Some v \<Rightarrow> if v = GNil then None else (case le_marshal env v of Inr b \<Rightarrow> Some b | Inl e \<Rightarrow> None));
               loopState = \<lparr>ls_Iteration = iteration, ls_CurrentInput = Some currentJSON, ls_UserFillUpValue = fillUpJSON\<rparr>
           in case Interrupt (le_hash env) (loop_state_value loopState) w of
                (Inl err, w') \<Rightarrow> (Inl err, w')
              | (Inr v, w') \<Rightarrow> (Inr GNil, w')))"

text \<open>The last iteration: what the loop returns when it does not go on.\<close>

definition loop_return ::
  "'s loop_env \<Rightarrow> loop_condition \<Rightarrow> loop_options \<Rightarrow> int \<Rightarrow> goval \<Rightarrow> goval go_result \<Rightarrow> interrupt_world
   \<Rightarrow> (goval go_result \<times> interrupt_world) option" where
  "loop_return env shouldQuit options iteration current r w =
     (case r of
        Inl invokeErr \<Rightarrow>
          Some (if IsGraphInterrupt invokeErr then loop_interrupt env iteration current invokeErr w
                else (case invokeErr of
                        GoPanic p \<Rightarrow> (Inl (GoPanic p), w)
                      | _ \<Rightarrow> (Inl (WrapErr (''graph: loop iteration '' @ fmt_d iteration @ '': '') invokeErr), w)))
      | Inr output \<Rightarrow>
          (case shouldQuit iteration current output of
             Inl qErr \<Rightarrow> Some (Inl (WrapErr (''graph: loop condition iteration '' @ fmt_d iteration @ '': '') qErr), w)
           | Inr True \<Rightarrow> Some (Inr output, w)
           | Inr False \<Rightarrow>
               (if iteration \<ge> lo_maxIterations options
                then Some (Inl (Errorf (''graph: loop max iterations exceeded: '' @ fmt_d (lo_maxIterations options))), w)
                else None)))"

lemma loop_return_None:
  "loop_return env shouldQuit options iteration current r w = None \<longleftrightarrow>
     (\<exists>output. r = Inr output \<and> shouldQuit iteration current output = Inr False \<and> iteration < lo_maxIterations options)"
  by (auto simp: loop_return_def split: sum.split bool.split)

function loop_from ::
  "'s loop_env \<Rightarrow> string \<Rightarrow> compiled_graph \<Rightarrow> loop_condition \<Rightarrow> loop_options \<Rightarrow> int \<Rightarrow> goval \<Rightarrow> interrupt_world \<Rightarrow> 's
   \<Rightarrow> goval go_result \<times> interrupt_world \<times> 's" where
  "loop_from env key sub shouldQuit options iteration current w s =
     (case loop_invoke env key sub options iteration current s of
        (r, s') \<Rightarrow>
          (case loop_return env shouldQuit options iteration current r w of
             Some (result, w') \<Rightarrow> (result, w', s')
           | None \<Rightarrow>
               loop_from env key sub shouldQuit options (iteration + 1) (case r of Inr output \<Rightarrow> output | Inl e \<Rightarrow> GNil) w s'))"
  by pat_completeness auto
termination
  by (relation "measure (\<lambda>(env, key, sub, shouldQuit, options, iteration, current, w, s). nat (lo_maxIterations options - iteration))")
    (auto simp: loop_return_None)

declare loop_from.simps [simp del]

definition decode_loop_state :: "'s loop_env \<Rightarrow> string \<Rightarrow> loop_state option" where
  "decode_loop_state env b =
     (case le_decode env b of Some st \<Rightarrow> if ls_Iteration st > 0 then Some st else None | None \<Rightarrow> None)"

fun first_loop_state :: "'s loop_env \<Rightarrow> goval list \<Rightarrow> loop_state option" where
  "first_loop_state env [] = None"
| "first_loop_state env (v # vs) =
     (case (case v of GBytes b \<Rightarrow> decode_loop_state env b | GStr b \<Rightarrow> decode_loop_state env b | _ \<Rightarrow> None) of
        Some st \<Rightarrow> Some st
      | None \<Rightarrow> first_loop_state env vs)"

text \<open>The saved state is looked for in the context of the node, \<open>saved\<close>, then among the resume values.\<close>

definition loadLoopSnapshot :: "'s loop_env \<Rightarrow> string option \<Rightarrow> interrupt_world \<Rightarrow> loop_state option" where
  "loadLoopSnapshot env saved w =
     (case Option.bind saved (decode_loop_state env) of
        Some st \<Rightarrow> Some st
      | None \<Rightarrow> first_loop_state env (GetResumeValues w))"

definition runLoop ::
  "'s loop_env \<Rightarrow> string \<Rightarrow> compiled_graph \<Rightarrow> goval \<Rightarrow> loop_condition \<Rightarrow> loop_options \<Rightarrow> string option \<Rightarrow> interrupt_world \<Rightarrow> 's
   \<Rightarrow> goval go_result \<times> interrupt_world \<times> 's" where
  "runLoop env key sub input shouldQuit options saved w s =
     (let snap = loadLoopSnapshot env saved w;
          start = (case snap of
                     Some st \<Rightarrow>
                       (case ls_CurrentInput st of
                          Some b \<Rightarrow> (case le_unmarshal env b of
                                          Inr v \<Rightarrow> Inr v
                                        | Inl e \<Rightarrow> Inl (Errorf (''graph: loop resume state invalid: decode current input: '' @ e)))
                        | None \<Rightarrow> Inr input)
                   | None \<Rightarrow> Inr input)
      in case start of
           Inl err \<Rightarrow> (Inl err, w, s)
         | Inr current \<Rightarrow>
             loop_from env key sub shouldQuit options (case snap of Some st \<Rightarrow> ls_Iteration st | None \<Rightarrow> 1)
               (if current = GNil then GMap [] else current) w s)"

text \<open>The checks when the node is made; \<open>None\<close> stands for a nil graph or condition.\<close>

definition NewLoopNodeFunc ::
  "string \<Rightarrow> compiled_graph option \<Rightarrow> loop_condition option \<Rightarrow> (loop_options \<Rightarrow> loop_options) list
   \<Rightarrow> ('s loop_env \<Rightarrow> goval \<Rightarrow> string option \<Rightarrow> interrupt_world \<Rightarrow> 's \<Rightarrow> goval go_result \<times> interrupt_world \<times> 's) go_result" where
  "NewLoopNodeFunc key sub shouldQuit opts =
     (if key = [] then Inl (Errorf ''graph: loop key is empty'')
      else case (sub, shouldQuit) of
             (None, _) \<Rightarrow> Inl (Errorf ''graph: loop sub-graph is nil'')
           | (_, None) \<Rightarrow> Inl (Errorf ''graph: loop shouldQuit is nil'')
           | (Some g, Some q) \<Rightarrow>
               (let options = getLoopOptions opts;
                    options = (if lo_checkpointIDPrefix options = [] then options\<lparr>lo_checkpointIDPrefix := key\<rparr> else options)
                in Inr (\<lambda>env input saved w s. runLoop env key g input q options saved w s)))"

section \<open>What the loop does\<close>

text \<open>The iterations that go on: each feeds its output to the next.\<close>

inductive loop_steps ::
  "'s loop_env \<Rightarrow> string \<Rightarrow> compiled_graph \<Rightarrow> loop_condition \<Rightarrow> loop_options \<Rightarrow> int \<Rightarrow> goval \<Rightarrow> 's \<Rightarrow> int \<Rightarrow> goval \<Rightarrow> 's \<Rightarrow> bool"
  for env key sub q opts where
  stay: "loop_steps env key sub q opts i c s i c s"
| go: "loop_invoke env key sub opts i c s = (Inr out, s') \<Longrightarrow> q i c out = Inr False \<Longrightarrow> i < lo_maxIterations opts \<Longrightarrow>
    loop_steps env key sub q opts (i + 1) out s' k d t \<Longrightarrow> loop_steps env key sub q opts i c s k d t"

lemma loop_steps_le: "loop_steps env key sub q opts i c s k d t \<Longrightarrow> i \<le> k \<and> k \<le> max i (lo_maxIterations opts)"
  by (induction rule: loop_steps.induct) auto

lemma loop_from_ends:
  "\<exists>k d t r t' res w'. loop_steps env key sub q opts i c s k d t \<and> loop_invoke env key sub opts k d t = (r, t')
     \<and> loop_return env q opts k d r w = Some (res, w') \<and> loop_from env key sub q opts i c w s = (res, w', t')"
proof (induction env key sub q opts i c w s rule: loop_from.induct)
  case (1 env key sub q opts i c w s)
  obtain r s' where inv: "loop_invoke env key sub opts i c s = (r, s')" by (cases "loop_invoke env key sub opts i c s")
  show ?case
  proof (cases "loop_return env q opts i c r w")
    case (Some p)
    then show ?thesis using inv loop_steps.stay [of env key sub q opts i c s]
      by (cases p) (auto simp: loop_from.simps [of env key sub q opts i])
  next
    case None
    then obtain out where r: "r = Inr out" "q i c out = Inr False" "i < lo_maxIterations opts"
      by (auto simp: loop_return_None)
    have eq: "loop_from env key sub q opts i c w s = loop_from env key sub q opts (i + 1) out w s'"
      using inv None r by (simp add: loop_from.simps [of env key sub q opts i])
    from 1 [OF inv [symmetric] None] obtain k d t r' t' res w' where
      steps: "loop_steps env key sub q opts (i + 1) out s' k d t" and last: "loop_invoke env key sub opts k d t = (r', t')"
      "loop_return env q opts k d r' w = Some (res, w')" "loop_from env key sub q opts (i + 1) out w s' = (res, w', t')"
      unfolding r(1) by auto
    have "loop_steps env key sub q opts i c s k d t"
      by (rule loop_steps.go [OF _ _ r(3) steps]) (use inv r in simp_all)
    then show ?thesis unfolding eq using last by blast
  qed
qed

text \<open>
  A loop node always returns. After iterations that each hand their output to the next, at most as many as the maximum,
  it returns the output for which the condition holds, or the error of the inner graph or of the condition with the number
  of the iteration, or the interrupt with the loop's state, or the error that the maximum is exceeded.
\<close>

theorem loop_outcome:
  assumes "loadLoopSnapshot env saved w = None"
  shows "\<exists>k d t r t' res w'. loop_steps env key sub q opts 1 (if input = GNil then GMap [] else input) s k d t
     \<and> 1 \<le> k \<and> k \<le> max 1 (lo_maxIterations opts) \<and> loop_invoke env key sub opts k d t = (r, t')
     \<and> loop_return env q opts k d r w = Some (res, w') \<and> runLoop env key sub input q opts saved w s = (res, w', t')"
  using loop_from_ends [of env key sub q opts 1 "if input = GNil then GMap [] else input" s w] loop_steps_le assms
  by (fastforce simp: runLoop_def)

lemma loop_return_interrupt:
  assumes "loop_return env q opts k d r w = Some (Inl (GraphInterrupt is), w')"
  shows "\<exists>b f. le_marshal env d = Inr b
    \<and> GetInterruptValue (GraphInterrupt is) = Some (loop_state_value \<lparr>ls_Iteration = k, ls_CurrentInput = Some b, ls_UserFillUpValue = f\<rparr>)"
  using assms GetInterruptValue_Interrupt
  by (auto simp: loop_return_def loop_interrupt_def Let_def split: sum.splits bool.splits if_splits go_error.splits prod.splits)

text \<open>
  C4: an interrupted loop goes on where it stopped. The interrupt carries the iteration and the input it was working on; a later run
  of the node that gets this state back starts with that iteration and that input, and no earlier iteration is run again.
\<close>

theorem loop_resume_point:
  assumes "loadLoopSnapshot env saved w = None"
    and "fst (runLoop env key sub input q opts saved w s) = Inl (GraphInterrupt is)"
  shows "\<exists>k d t st b. loop_steps env key sub q opts 1 (if input = GNil then GMap [] else input) s k d t
     \<and> GetInterruptValue (GraphInterrupt is) = Some (loop_state_value st) \<and> ls_Iteration st = k \<and> le_marshal env d = Inr b
     \<and> (\<forall>text' input' w2 s2. le_decode env text' = Some st \<and> le_unmarshal env b = Inr d \<and> d \<noteq> GNil \<longrightarrow>
          runLoop env key sub input' q opts (Some text') w2 s2 = loop_from env key sub q opts k d w2 s2)"
proof -
  from loop_from_ends [of env key sub q opts 1 "if input = GNil then GMap [] else input" s w]
  obtain k d t r t' res w' where k: "loop_steps env key sub q opts 1 (if input = GNil then GMap [] else input) s k d t"
    and ret: "loop_return env q opts k d r w = Some (res, w')"
    and eq: "loop_from env key sub q opts 1 (if input = GNil then GMap [] else input) w s = (res, w', t')" by blast
  have "res = Inl (GraphInterrupt is)" using assms eq by (simp add: runLoop_def)
  with ret obtain b f where b: "le_marshal env d = Inr b"
    "GetInterruptValue (GraphInterrupt is) = Some (loop_state_value \<lparr>ls_Iteration = k, ls_CurrentInput = Some b, ls_UserFillUpValue = f\<rparr>)"
    using loop_return_interrupt by blast
  have "k > 0" using loop_steps_le [OF k] by simp
  then have "runLoop env key sub input' q opts (Some text') w2 s2 = loop_from env key sub q opts k d w2 s2"
    if "le_decode env text' = Some \<lparr>ls_Iteration = k, ls_CurrentInput = Some b, ls_UserFillUpValue = f\<rparr>"
      "le_unmarshal env b = Inr d" "d \<noteq> GNil" for text' input' w2 s2
    using that by (simp add: runLoop_def loadLoopSnapshot_def decode_loop_state_def)
  with k b show ?thesis
    by (intro exI [of _ k] exI [of _ d] exI [of _ t] exI [of _ "\<lparr>ls_Iteration = k, ls_CurrentInput = Some b, ls_UserFillUpValue = f\<rparr>"]
        exI [of _ b]) auto
qed

section \<open>An example\<close>

text \<open>A graph with one node and an interrupt before it.\<close>

definition gate :: compiled_graph where
  "gate =
     \<lparr>cg_graph = snd (SetEntryPoint ''a'' (AddNode ''a'' (Some (\<lambda>ctx v. Inr v)) (NewStateGraph (SchemaMap K_String)))),
      cg_checkpointer = GNil, cg_interrupts = [(''a'', True)], cg_interruptsAfter = [], cg_recursionLimit = 25,
      cg_debug = False, cg_nodeTriggerMode = []\<rparr>"

definition gate_env :: "unit loop_env" where
  "gate_env =
     \<lparr>le_run = (\<lambda>i. quiet_env None), le_marshal = (\<lambda>v. Inr ''{}''), le_unmarshal = (\<lambda>b. Inr (GMap [])),
      le_decode = (\<lambda>b. Some \<lparr>ls_Iteration = 1, ls_CurrentInput = Some ''{}'', ls_UserFillUpValue = None\<rparr>), le_hash = (\<lambda>v. [])\<rparr>"

definition no_answers :: interrupt_world where
  "no_answers = \<lparr>iw_local = None, iw_global = new_context, iw_counter = 0\<rparr>"

lemma gate_graph:
  "sg_nodes (cg_graph gate) = [(''a'', NewNode ''a'' (Some (\<lambda>ctx v. Inr v)))]" "sg_entryPoint (cg_graph gate) = ''a''"
  "sg_channels (cg_graph gate) = []"
  by (simp_all add: gate_def SetEntryPoint_def AddNode_def NewStateGraph_def)

lemma gate_interrupted:
  "\<exists>rs. Run (quiet_env None) (compiled_engine gate (Some (thread_config t))) (GMap []) () = (Some (GraphInterrupt []), rs)"
proof -
  define env :: "unit run_env" where "env = quiet_env None"
  define e where "e = compiled_engine gate (Some (thread_config t))"
  have e: "en_graph e = cg_graph gate" "en_interrupts e = [(''a'', True)]" "en_recursionLimit e = 25"
    by (simp_all add: e_def compiled_engine_def NewEngine_def eo_WithInterrupts_def eo_WithInterruptsAfter_def eo_WithConfig_def
        eo_WithRecursionLimit_def eo_WithDebug_def) (simp_all add: gate_def)
  have env: "env_checkpointer env = None" "env_done env 0 = None" by (simp_all add: env_def quiet_env_def)
  obtain sub rs where start: "start_run env e (GMap []) () = (None, sub, rs)" and "rs_completed rs = []"
    and same: "en_graph (rs_engine rs) = cg_graph gate" "en_interrupts (rs_engine rs) = [(''a'', True)]"
      "en_recursionLimit (rs_engine rs) = 25"
    by (simp add: start_run_def start_registry_def e gate_graph applyInput_def toMap_def NewRegistry_def load_checkpoint_def
        env Let_def)
  obtain n where n: "getNode (rs_engine rs) ''a'' = Some n" "nd_Name n = ''a''"
    by (simp add: getNode_def same gate_graph NewNode_def)
  have entry: "getEntryPoint (rs_engine rs) = ''a''" by (simp add: getEntryPoint_def same gate_graph)
  define uid where "uid = env_taskUUID env 0"
  obtain trig where plan: "prepareNextTasks (env_fv env) uid [0] (rs_engine rs) (rs_registry rs) []
      (rs_lastNode rs) (rs_lastState rs) = Inr ([createTask (uid 0) n trig []], [Start])"
    using n(1) entry by (auto simp: prepareNextTasks_def prepareNextTasksWithMode_def End_def Let_def)
  have stop: "shouldInterrupt (rs_engine rs) [createTask (uid 0) n trig []] = [createTask (uid 0) n trig []]"
    using n(2) by (auto simp: shouldInterrupt_def same createTask_def gm_bool_def Let_def)
  have "\<exists>rs'. superstep env u sub 0 rs = (Failed (GraphInterrupt []), rs')" for u
    by (simp add: superstep_def \<open>rs_completed rs = []\<close> plan [unfolded uid_def] stop [unfolded uid_def] interrupt_before_def put_thread_def env Let_def)
  then obtain rs' where "superstep env (getThreadID env e) sub 0 rs = (Failed (GraphInterrupt []), rs')" by blast
  then have "Run env e (GMap []) () = (Some (GraphInterrupt []), rs')"
    using start env same by (simp add: Run_def run_loop.simps [of env _ sub 0 rs])
  then show ?thesis unfolding e_def env_def by blast
qed

lemma gate_invoke: "loop_invoke gate_env ''l'' gate opts i (GMap []) () = (Inl (GraphInterrupt []), ())"
proof -
  obtain rs :: "unit run_state" where
    "Run (quiet_env None) (compiled_engine gate (Some (thread_config (lo_checkpointIDPrefix opts @ '':loop:l:iter:'' @ fmt_d i))))
       (GMap []) () = (Some (GraphInterrupt []), rs)"
    using gate_interrupted by blast
  then show ?thesis by (simp add: loop_invoke_def cg_Invoke_def RunSync_def gate_env_def)
qed

lemma gate_no_snapshot: "loadLoopSnapshot gate_env None no_answers = None"
  by (simp add: loadLoopSnapshot_def no_answers_def GetResumeValues_def ctx_of_def new_context_def)

lemma gate_loop:
  "runLoop gate_env ''l'' gate (GMap []) (\<lambda>i c n. Inr True) \<lparr>lo_maxIterations = 3, lo_checkpointIDPrefix = ''l''\<rparr> None no_answers ()
   = (let (r, w) = loop_interrupt gate_env 1 (GMap []) (GraphInterrupt []) no_answers in (r, w, ()))"
  by (simp add: runLoop_def gate_no_snapshot loop_from.simps [of gate_env] gate_invoke loop_return_def case_prod_beta)

theorem loop_outcome_witness:
  "\<exists>k. 1 \<le> k \<and> k \<le> (3 :: int) \<and> (\<exists>d t. loop_steps gate_env ''l'' gate (\<lambda>i c n. Inr True)
      \<lparr>lo_maxIterations = 3, lo_checkpointIDPrefix = ''l''\<rparr> 1 (GMap []) () k d t)"
  using loop_outcome [OF gate_no_snapshot, of "''l''" gate "\<lambda>i c n. Inr True"
      "\<lparr>lo_maxIterations = 3, lo_checkpointIDPrefix = ''l''\<rparr>" "GMap []" "()"] by auto

theorem loop_resume_point_witness:
  "\<exists>i. fst (runLoop gate_env ''l'' gate (GMap []) (\<lambda>i c n. Inr True)
        \<lparr>lo_maxIterations = 3, lo_checkpointIDPrefix = ''l''\<rparr> None no_answers ()) = Inl (GraphInterrupt i)
     \<and> (\<exists>st. GetInterruptValue (GraphInterrupt i) = Some (loop_state_value st))"
proof -
  obtain i where "fst (runLoop gate_env ''l'' gate (GMap []) (\<lambda>i c n. Inr True)
        \<lparr>lo_maxIterations = 3, lo_checkpointIDPrefix = ''l''\<rparr> None no_answers ()) = Inl (GraphInterrupt i)"
    by (simp add: gate_loop loop_interrupt_def Let_def case_prod_beta)
      (simp add: gate_env_def Interrupt_def no_answers_def ctx_of_def new_context_def consumeNextResumeValue_def Let_def
        generateInterruptID_def)
  with loop_resume_point [OF gate_no_snapshot this] show ?thesis by blast
qed

end
