(* ===== verification/Parallel_Node.thy ===== *)
theory Parallel_Node
  imports Loop_Node
begin

text \<open>
  Nodes that run a compiled graph once per item of a list (\<^verbatim>\<open>graph/parallel.go\<close>). Items run one after the other, or in goroutines
  when more than one may run at a time; \<open>pe_sched\<close> says in which order they finish. The runs use different threads of the
  checkpointer, so each is taken as one step. When items are interrupted, the node is interrupted with a state from which a
  later run goes on.

  A \<^verbatim>\<open>map[int]any\<close> is an association list. As for loop nodes, the inner runs neither consume resume values nor change the
  interrupt state of the node.
\<close>

section \<open>State\<close>

record parallel_options =
  po_maxConcurrency :: int

definition WithParallelMaxConcurrency :: "int \<Rightarrow> parallel_options \<Rightarrow> parallel_options" where
  "WithParallelMaxConcurrency n opt = (if n \<ge> 0 then opt\<lparr>po_maxConcurrency := n\<rparr> else opt)"

definition getParallelOptions :: "(parallel_options \<Rightarrow> parallel_options) list \<Rightarrow> parallel_options" where
  "getParallelOptions opts = fold (\<lambda>opt. opt) opts \<lparr>po_maxConcurrency = 0\<rparr>"

record parallel_state =
  ps_OriginalInputsJSON :: string
  ps_CompletedResults :: "(int \<times> goval) list"
  ps_InterruptedIndices :: "int list"
  ps_TotalCount :: int
  ps_ItemCheckpoints :: "string gomap"

text \<open>The state as the value of an interrupt; integer keys in decimal, as JSON writes them.\<close>

definition parallel_state_value :: "parallel_state \<Rightarrow> goval" where
  "parallel_state_value st =
     GStruct ''graph.parallelInterruptState'' []
       [(''OriginalInputsJSON'', GBytes (ps_OriginalInputsJSON st)),
        (''CompletedResults'', GMap (map (\<lambda>(i, v). (fmt_d i, v)) (ps_CompletedResults st))),
        (''InterruptedIndices'', GSlice (map (\<lambda>i. GInt (of_int i)) (ps_InterruptedIndices st))),
        (''TotalCount'', GInt (of_int (ps_TotalCount st))),
        (''ItemCheckpoints'', GMap (map (\<lambda>(k, b). (k, GBytes b)) (ps_ItemCheckpoints st)))]"

record 's parallel_env =
  pe_run :: "int \<Rightarrow> 's run_env"
  pe_sched :: "int list \<Rightarrow> int list"
  pe_marshal :: "goval \<Rightarrow> string go_result"
  pe_decode :: "string \<Rightarrow> parallel_state option"
  pe_hash :: "goval \<Rightarrow> string"
  pe_text :: "go_error \<Rightarrow> string"

section \<open>The store of item checkpoints\<close>

definition newItemCheckpointStore :: "string gomap \<Rightarrow> string gomap" where
  "newItemCheckpointStore data = fold (\<lambda>(k, v). gm_put k v) data []"

definition item_get :: "string gomap \<Rightarrow> string \<Rightarrow> string option" where
  "item_get st i = map_of st i"

definition item_set :: "string \<Rightarrow> string \<Rightarrow> string gomap \<Rightarrow> string gomap" where
  "item_set i payload st = gm_put i payload st"

definition item_snapshot :: "string gomap \<Rightarrow> string gomap" where
  "item_snapshot st = fold (\<lambda>(k, v). gm_put k v) st []"

section \<open>Running the items\<close>

type_synonym item_result = "int \<times> goval go_result"

definition run_item ::
  "'s parallel_env \<Rightarrow> string \<Rightarrow> compiled_graph \<Rightarrow> goval list \<Rightarrow> int \<Rightarrow> 's \<Rightarrow> item_result \<times> 's" where
  "run_item env key sub items idx s =
     (if idx < 0 \<or> idx \<ge> int (length items)
      then ((idx, Inl (Errorf (''parallel item index '' @ fmt_d idx @ '' out of bounds (len(items)='' @
                                fmt_d (int (length items)) @ '')''))), s)
      else let cfg = thread_config (''parallel:'' @ key @ '':item:'' @ fmt_d idx);
               (r, s) = cg_Invoke (pe_run env idx) sub (Some cfg) (items ! nat idx) s
           in ((idx, r), s))"

fun run_items ::
  "'s parallel_env \<Rightarrow> string \<Rightarrow> compiled_graph \<Rightarrow> goval list \<Rightarrow> int list \<Rightarrow> 's \<Rightarrow> item_result list \<times> 's" where
  "run_items env key sub items [] s = ([], s)"
| "run_items env key sub items (idx # idxs) s =
     (let (r, s') = run_item env key sub items idx s; (rs, s'') = run_items env key sub items idxs s' in (r # rs, s''))"

definition fanOutItems ::
  "'s parallel_env \<Rightarrow> string \<Rightarrow> compiled_graph \<Rightarrow> goval list \<Rightarrow> int list \<Rightarrow> parallel_options \<Rightarrow> 's \<Rightarrow> item_result list \<times> 's" where
  "fanOutItems env key sub items indices options s =
     run_items env key sub items (if po_maxConcurrency options \<le> 1 then indices else pe_sched env indices) s"

section \<open>Collecting the results\<close>

record collected =
  co_outputs :: "goval list"
  co_normalErr :: "go_error option"
  co_hasInterrupt :: bool
  co_completed :: "(int \<times> goval) list"

definition set_output :: "int \<Rightarrow> goval \<Rightarrow> goval list \<Rightarrow> goval list" where
  "set_output idx v outs = (if idx \<ge> 0 \<and> idx < int (length outs) then outs[nat idx := v] else outs)"

definition collect :: "'s parallel_env \<Rightarrow> item_result \<Rightarrow> collected \<Rightarrow> collected" where
  "collect env r c =
     (case r of
        (idx, Inr v) \<Rightarrow> c\<lparr>co_outputs := set_output idx v (co_outputs c), co_completed := AList.update idx v (co_completed c)\<rparr>
      | (idx, Inl err) \<Rightarrow>
          (if IsGraphInterrupt err then c\<lparr>co_hasInterrupt := True\<rparr>
           else if co_normalErr c = None
           then c\<lparr>co_normalErr := Some (case err of
                    GoPanic p \<Rightarrow> GoPanic p
                  | _ \<Rightarrow> Errorf (''graph: parallel item failed: item '' @ fmt_d idx @ '': '' @ pe_text env err))\<rparr>
           else c))"

fun first_parallel_state :: "'s parallel_env \<Rightarrow> goval list \<Rightarrow> parallel_state option" where
  "first_parallel_state env [] = None"
| "first_parallel_state env (v # vs) =
     (case (case v of GBytes b \<Rightarrow> pe_decode env b | GStr b \<Rightarrow> pe_decode env b | _ \<Rightarrow> None) of
        Some st \<Rightarrow> if ps_TotalCount st > 0 then Some st else first_parallel_state env vs
      | None \<Rightarrow> first_parallel_state env vs)"

definition loadParallelSnapshot :: "'s parallel_env \<Rightarrow> interrupt_world \<Rightarrow> parallel_state option" where
  "loadParallelSnapshot env w = first_parallel_state env (GetResumeValues w)"

definition pending_indices :: "int \<Rightarrow> (int \<times> goval) list \<Rightarrow> int list" where
  "pending_indices totalCount completed = filter (\<lambda>idx. map_of completed idx = None) [0..totalCount - 1]"

definition parallel_interrupt ::
  "'s parallel_env \<Rightarrow> goval list \<Rightarrow> int \<Rightarrow> (int \<times> goval) list \<Rightarrow> string gomap \<Rightarrow> interrupt_world
   \<Rightarrow> goval go_result \<times> interrupt_world" where
  "parallel_interrupt env items totalCount completed bridge w =
     (case pe_marshal env (GSlice items) of
        Inl jErr \<Rightarrow> (Inl (WrapErr ''graph: parallel marshal inputs: '' jErr), w)
      | Inr inputsJSON \<Rightarrow>
          (let st = \<lparr>ps_OriginalInputsJSON = inputsJSON, ps_CompletedResults = completed,
                     ps_InterruptedIndices = pending_indices totalCount completed, ps_TotalCount = totalCount,
                     ps_ItemCheckpoints = item_snapshot bridge\<rparr>
           in case Interrupt (pe_hash env) (parallel_state_value st) w of
                (Inl err, w') \<Rightarrow> (Inl err, w')
              | (Inr v, w') \<Rightarrow> (Inr GNil, w')))"

definition replay :: "parallel_state \<Rightarrow> goval list" where
  "replay prev =
     fold (\<lambda>(idx, v) outs. if idx \<ge> 0 \<and> idx < ps_TotalCount prev then outs[nat idx := v] else outs)
       (ps_CompletedResults prev) (replicate (nat (ps_TotalCount prev)) GNil)"

definition runParallel ::
  "'s parallel_env \<Rightarrow> string \<Rightarrow> compiled_graph \<Rightarrow> goval list \<Rightarrow> parallel_options \<Rightarrow> interrupt_world \<Rightarrow> 's
   \<Rightarrow> goval go_result \<times> interrupt_world \<times> 's" where
  "runParallel env key sub items options w s =
     (let prev = loadParallelSnapshot env w;
          totalCount = (case prev of Some p \<Rightarrow> ps_TotalCount p | None \<Rightarrow> int (length items));
          outputs = (case prev of Some p \<Rightarrow> replay p | None \<Rightarrow> replicate (length items) GNil);
          indices = (case prev of Some p \<Rightarrow> ps_InterruptedIndices p | None \<Rightarrow> [0..int (length items) - 1]);
          bridge = (case prev of Some p \<Rightarrow> newItemCheckpointStore (ps_ItemCheckpoints p) | None \<Rightarrow> [])
      in if length indices = 0 then (Inr (GSlice outputs), w, s)
         else let (results, s') = fanOutItems env key sub items indices options s;
                  c = fold (collect env) results
                        \<lparr>co_outputs = outputs, co_normalErr = None, co_hasInterrupt = False, co_completed = []\<rparr>
              in case co_normalErr c of
                   Some err \<Rightarrow> (Inl err, w, s')
                 | None \<Rightarrow>
                     if co_hasInterrupt c
                     then (case parallel_interrupt env items totalCount (co_completed c) bridge w of (r, w') \<Rightarrow> (r, w', s'))
                     else (Inr (GSlice (co_outputs c)), w, s'))"

text \<open>The input of the node: a list, or a map that holds one.\<close>

definition parallel_items :: "goval \<Rightarrow> goval list go_result" where
  "parallel_items state =
     (case state of
        GSlice items \<Rightarrow> Inr items
      | GMap m \<Rightarrow>
          (let a = (case map_of m ''__input__'' of Some (GSlice xs) \<Rightarrow> Some xs | _ \<Rightarrow> None);
               b = (case a of Some xs \<Rightarrow> Some xs
                    | None \<Rightarrow> (case map_of m ''items'' of Some (GSlice xs) \<Rightarrow> Some xs | _ \<Rightarrow> None))
           in case b of
                Some xs \<Rightarrow> Inr xs
              | None \<Rightarrow> Inl (Errorf ''graph: parallel node cannot extract []interface{} from map[string]interface {}''))
      | _ \<Rightarrow> Inl (Errorf (''graph: parallel node expects []interface{} input, got '' @ fmt_T state)))"

definition NewParallelNodeFunc ::
  "string \<Rightarrow> compiled_graph option \<Rightarrow> (parallel_options \<Rightarrow> parallel_options) list
   \<Rightarrow> ('s parallel_env \<Rightarrow> goval \<Rightarrow> interrupt_world \<Rightarrow> 's \<Rightarrow> goval go_result \<times> interrupt_world \<times> 's) go_result" where
  "NewParallelNodeFunc key sub opts =
     (if key = [] then Inl (Errorf ''graph: parallel key is empty'')
      else case sub of
             None \<Rightarrow> Inl (Errorf ''graph: parallel sub-graph is nil'')
           | Some g \<Rightarrow>
               (let options = getParallelOptions opts
                in Inr (\<lambda>env state w s.
                     case parallel_items state of
                       Inl err \<Rightarrow> (Inl err, w, s)
                     | Inr items \<Rightarrow> runParallel env key g items options w s)))"

section \<open>What is collected\<close>

fun oks :: "item_result list \<Rightarrow> (int \<times> goval) list" where
  "oks [] = []"
| "oks ((i, Inr v) # rs) = (i, v) # oks rs"
| "oks ((i, Inl e) # rs) = oks rs"

definition only_interrupts :: "item_result list \<Rightarrow> bool" where
  "only_interrupts rs \<longleftrightarrow> (\<forall>(i, r) \<in> set rs. case r of Inr v \<Rightarrow> True | Inl e \<Rightarrow> IsGraphInterrupt e)"

definition has_interrupt :: "item_result list \<Rightarrow> bool" where
  "has_interrupt rs \<longleftrightarrow> (\<exists>(i, r) \<in> set rs. case r of Inr v \<Rightarrow> False | Inl e \<Rightarrow> IsGraphInterrupt e)"

lemma oks_fst: "set (map fst (oks rs)) \<subseteq> set (map fst rs)"
  by (induction rs rule: oks.induct) auto

lemma distinct_oks: "distinct (map fst rs) \<Longrightarrow> distinct (map fst (oks rs))"
  using oks_fst by (induction rs rule: oks.induct) fastforce+

lemma collect_fold:
  assumes "only_interrupts rs"
  shows "fold (collect env) rs c =
    c\<lparr>co_outputs := fold (\<lambda>(i, v). set_output i v) (oks rs) (co_outputs c), co_hasInterrupt := co_hasInterrupt c \<or> has_interrupt rs,
      co_completed := fold (\<lambda>(i, v). AList.update i v) (oks rs) (co_completed c)\<rparr>"
  using assms
  by (induction rs arbitrary: c rule: oks.induct) (auto simp: only_interrupts_def has_interrupt_def collect_def)

lemma map_of_fold_update:
  "distinct (map fst kvs) \<Longrightarrow> map_of (fold (\<lambda>(i, v). AList.update i v) kvs m) = map_of m ++ map_of kvs"
proof (induction kvs arbitrary: m)
  case (Cons kv kvs)
  obtain i v where kv: "kv = (i, v)" by (cases kv)
  have "map_of (fold (\<lambda>(i, v). AList.update i v) (kv # kvs) m) = (map_of m)(i \<mapsto> v) ++ map_of kvs"
    using Cons by (simp add: kv AList.update_conv')
  also have "\<dots> = map_of m ++ map_of (kv # kvs)"
  proof -
    have "map_of kvs i = None" using Cons.prems by (simp add: kv map_of_eq_None_iff)
    then show ?thesis by (auto simp: kv map_add_def fun_eq_iff split: option.splits)
  qed
  finally show ?case .
qed simp

lemma fold_set_output:
  assumes "distinct (map fst kvs)"
  shows "length (fold (\<lambda>(i, v). set_output i v) kvs outs) = length outs
    \<and> (\<forall>j < length outs. fold (\<lambda>(i, v). set_output i v) kvs outs ! j =
         (case map_of kvs (int j) of Some v \<Rightarrow> v | None \<Rightarrow> outs ! j))"
  using assms
proof (induction kvs arbitrary: outs)
  case (Cons kv kvs)
  obtain i v where kv: "kv = (i, v)" by (cases kv)
  have len: "length (set_output i v outs) = length outs" by (simp add: set_output_def)
  have nth: "set_output i v outs ! j = (if int j = i then v else outs ! j)" if "j < length outs" for j
    using that by (auto simp: set_output_def nth_list_update)
  have fresh: "map_of kvs i = None" using Cons.prems by (simp add: kv map_of_eq_None_iff)
  show ?case
    using Cons.IH [of "set_output i v outs"] Cons.prems fresh by (auto simp: kv len nth split: option.splits)
qed simp

lemma run_items_fst: "map fst (fst (run_items env key sub items idxs s)) = idxs"
  by (induction idxs arbitrary: s) (auto simp: case_prod_beta run_item_def Let_def)

definition no_errors :: "item_result list \<Rightarrow> bool" where
  "no_errors rs \<longleftrightarrow> (\<forall>(i, r) \<in> set rs. \<exists>v. r = Inr v)"

lemma no_errors_simps:
  assumes "no_errors rs"
  shows "only_interrupts rs" and "\<not> has_interrupt rs" and "map fst (oks rs) = map fst rs"
  using assms by (induction rs rule: oks.induct) (auto simp: no_errors_def only_interrupts_def has_interrupt_def)

lemma replay_eq:
  assumes "distinct (map fst (ps_CompletedResults p))"
  shows "length (replay p) = nat (ps_TotalCount p)
    \<and> (\<forall>j < nat (ps_TotalCount p). replay p ! j = (case map_of (ps_CompletedResults p) (int j) of Some v \<Rightarrow> v | None \<Rightarrow> GNil))"
proof -
  have "length outs = nat (ps_TotalCount p) \<Longrightarrow>
      fold (\<lambda>(idx, v) outs. if idx \<ge> 0 \<and> idx < ps_TotalCount p then outs[nat idx := v] else outs) kvs outs =
      fold (\<lambda>(i, v). set_output i v) kvs outs" for kvs :: "(int \<times> goval) list" and outs
    by (induction kvs arbitrary: outs) (auto simp: set_output_def)
  then have "replay p = fold (\<lambda>(i, v). set_output i v) (ps_CompletedResults p) (replicate (nat (ps_TotalCount p)) GNil)"
    by (simp add: replay_def)
  then show ?thesis
    using fold_set_output [OF assms, of "replicate (nat (ps_TotalCount p)) GNil"] by (auto split: option.split)
qed

section \<open>Results in order\<close>

text \<open>The items that run: all of them, or those a saved state names, each once, in the order in which they finish.\<close>

definition finish_order :: "'s parallel_env \<Rightarrow> parallel_options \<Rightarrow> int list \<Rightarrow> int list" where
  "finish_order env options indices = (if po_maxConcurrency options \<le> 1 then indices else pe_sched env indices)"

lemma fanOut_fst: "map fst (fst (fanOutItems env key sub items indices options s)) = finish_order env options indices"
  by (simp add: fanOutItems_def run_items_fst finish_order_def)

lemma run_fresh:
  assumes "loadParallelSnapshot env w = None" and "items \<noteq> []"
    and "fanOutItems env key sub items [0..int (length items) - 1] options s = (results, s')"
    and "distinct (map fst results)" and "no_errors results"
  shows "runParallel env key sub items options w s =
    (Inr (GSlice (fold (\<lambda>(i, v). set_output i v) (oks results) (replicate (length items) GNil))), w, s')"
  using assms no_errors_simps [OF assms(5)] by (simp add: runParallel_def collect_fold)

lemma oks_results: "(i, v) \<in> set (oks rs) \<Longrightarrow> (i, Inr v) \<in> set rs"
  by (induction rs rule: oks.induct) auto

lemma output_of_run:
  assumes "distinct (map fst results)" and "no_errors results" and "int j \<in> set (map fst results)" and "j < length outs"
  shows "(int j, Inr (fold (\<lambda>(i, v). set_output i v) (oks results) outs ! j)) \<in> set results"
proof -
  have "int j \<in> set (map fst (oks results))" using assms(3) by (simp add: no_errors_simps(3) [OF assms(2)] del: set_map)
  then obtain v where v: "map_of (oks results) (int j) = Some v"
    by (metis map_of_eq_None_iff not_None_eq list.set_map)
  then show ?thesis
    using oks_results [OF map_of_SomeD [OF v]] fold_set_output [OF distinct_oks [OF assms(1)], of outs] assms(4) by simp
qed

text \<open>
  C5: a parallel node returns one result per item, in the order of the items. With no saved state and every inner run
  successful, result \<open>j\<close> is the output of the run for item \<open>j\<close>, in whatever order the runs finish, with and without
  concurrency.
\<close>

theorem parallel_in_order:
  assumes "loadParallelSnapshot env w = None" and "items \<noteq> []"
    and "mset (finish_order env options [0..int (length items) - 1]) = mset [0..int (length items) - 1]"
    and "fanOutItems env key sub items [0..int (length items) - 1] options s = (results, s')" and "no_errors results"
  shows "\<exists>outs. runParallel env key sub items options w s = (Inr (GSlice outs), w, s') \<and> length outs = length items
    \<and> (\<forall>j < length items. (int j, Inr (outs ! j)) \<in> set results)"
proof -
  have fst: "map fst results = finish_order env options [0..int (length items) - 1]"
    using fanOut_fst [of env key sub items "[0..int (length items) - 1]" options s] assms(4) by simp
  have dist: "distinct (map fst results)"
    unfolding fst using assms(3) by (metis distinct_upto mset_eq_imp_distinct_iff)
  have "(int j, Inr (fold (\<lambda>(i, v). set_output i v) (oks results) (replicate (length items) GNil) ! j)) \<in> set results"
    if j: "j < length items" for j
    using mset_eq_setD [OF assms(3)] j by (intro output_of_run [OF dist assms(5)]) (simp_all add: fst del: set_map)
  with run_fresh [OF assms(1,2,4) dist assms(5)] fold_set_output [OF distinct_oks [OF dist]] show ?thesis by auto
qed

text \<open>
  C6: a resumed node runs only what is pending. With a saved state, exactly the items it names as interrupted run again,
  each once; if they all succeed, their outputs and the saved results of the others make up the result.
\<close>

theorem parallel_resume:
  assumes "loadParallelSnapshot env w = Some p" and "ps_InterruptedIndices p \<noteq> []" and "distinct (ps_InterruptedIndices p)"
    and "distinct (map fst (ps_CompletedResults p))"
    and "mset (finish_order env options (ps_InterruptedIndices p)) = mset (ps_InterruptedIndices p)"
    and "fanOutItems env key sub items (ps_InterruptedIndices p) options s = (results, s')" and "no_errors results"
  shows "mset (map fst results) = mset (ps_InterruptedIndices p)
    \<and> (\<exists>outs. runParallel env key sub items options w s = (Inr (GSlice outs), w, s') \<and> length outs = nat (ps_TotalCount p)
       \<and> (\<forall>j < nat (ps_TotalCount p).
            if int j \<in> set (ps_InterruptedIndices p) then (int j, Inr (outs ! j)) \<in> set results
            else outs ! j = (case map_of (ps_CompletedResults p) (int j) of Some v \<Rightarrow> v | None \<Rightarrow> GNil)))"
proof -
  have fst: "map fst results = finish_order env options (ps_InterruptedIndices p)"
    using fanOut_fst [of env key sub items "ps_InterruptedIndices p" options s] assms(6) by simp
  have dist: "distinct (map fst results)" unfolding fst using assms(3,5) by (metis mset_eq_imp_distinct_iff)
  have run: "runParallel env key sub items options w s =
      (Inr (GSlice (fold (\<lambda>(i, v). set_output i v) (oks results) (replay p))), w, s')"
    using assms(1,2,6) no_errors_simps [OF assms(7)] by (simp add: runParallel_def collect_fold)
  note replay = replay_eq [OF assms(4)]
  note outs = fold_set_output [OF distinct_oks [OF dist], of "replay p"]
  have done_now: "(int j, Inr (fold (\<lambda>(i, v). set_output i v) (oks results) (replay p) ! j)) \<in> set results"
    if "j < nat (ps_TotalCount p)" "int j \<in> set (ps_InterruptedIndices p)" for j
    using that mset_eq_setD [OF assms(5)] replay
    by (intro output_of_run [OF dist assms(7)]) (simp_all add: fst del: set_map)
  have done_before: "fold (\<lambda>(i, v). set_output i v) (oks results) (replay p) ! j =
      (case map_of (ps_CompletedResults p) (int j) of Some v \<Rightarrow> v | None \<Rightarrow> GNil)"
    if "j < nat (ps_TotalCount p)" "int j \<notin> set (ps_InterruptedIndices p)" for j
  proof -
    have "int j \<notin> set (map fst (oks results))"
      using that mset_eq_setD [OF assms(5)] by (simp add: no_errors_simps(3) [OF assms(7)] fst del: set_map)
    then have "map_of (oks results) (int j) = None" by (simp add: map_of_eq_None_iff)
    then show ?thesis using that outs replay by simp
  qed
  show ?thesis using run outs replay done_now done_before assms(5) fst by auto
qed

text \<open>
  A second interrupt is lost. The saved state reaches the node as a resume value that the node reads without
  consuming it; when an item is interrupted again, that value answers the interrupt, and the node returns nil as its output.
\<close>

theorem parallel_second_interrupt_lost:
  assumes "loadParallelSnapshot env w = Some p" and "ps_InterruptedIndices p \<noteq> []"
    and "ic_index (ctx_of w) < length (GetResumeValues w)"
    and "fanOutItems env key sub items (ps_InterruptedIndices p) options s = (results, s')"
    and "only_interrupts results" and "has_interrupt results" and "pe_marshal env (GSlice items) = Inr b"
  shows "fst (runParallel env key sub items options w s) = Inr GNil"
  using assms
  by (simp add: runParallel_def collect_fold parallel_interrupt_def Interrupt_def consumeNextResumeValue_def GetResumeValues_def
      Let_def case_prod_beta)

text \<open>
  And where the interrupt is raised, its state forgets the results of earlier runs: all items but those that succeeded in this
  run are pending again.
\<close>

lemma pending_again:
  assumes "only_interrupts results" and "distinct (map fst results)" and "0 \<le> i" and "i < n" and "i \<notin> set (map fst results)"
  shows "i \<in> set (pending_indices n (co_completed (fold (collect env) results
    \<lparr>co_outputs = outs, co_normalErr = None, co_hasInterrupt = False, co_completed = []\<rparr>)))"
proof -
  have "i \<notin> set (map fst (oks results))" using assms(5) oks_fst by blast
  then have "map_of (oks results) i = None" by (simp add: map_of_eq_None_iff)
  then show ?thesis
    using assms(1-4) by (simp add: pending_indices_def collect_fold map_of_fold_update distinct_oks)
qed

section \<open>Examples\<close>

definition example_env :: "parallel_state \<Rightarrow> unit parallel_env" where
  "example_env p =
     \<lparr>pe_run = (\<lambda>i. quiet_env None), pe_sched = rev, pe_marshal = (\<lambda>v. Inr []), pe_decode = (\<lambda>b. Some p), pe_hash = (\<lambda>v. []),
      pe_text = (\<lambda>e. [])\<rparr>"

definition one_answer :: interrupt_world where
  "one_answer = SetResumeValues [GBytes []] no_answers"

lemma one_answer_values: "GetResumeValues one_answer = [GBytes []]" "ic_index (ctx_of one_answer) = 0"
  by (simp_all add: one_answer_def no_answers_def SetResumeValues_def GetResumeValues_def setResumeValues_def ctx_of_def
      set_ctx_def new_context_def)

definition first_pending :: parallel_state where
  "first_pending =
     \<lparr>ps_OriginalInputsJSON = [], ps_CompletedResults = [(1, GBool True)], ps_InterruptedIndices = [0], ps_TotalCount = 2,
      ps_ItemCheckpoints = []\<rparr>"

lemma example_snapshot: "loadParallelSnapshot (example_env first_pending) one_answer = Some first_pending"
  by (simp add: loadParallelSnapshot_def one_answer_values example_env_def first_pending_def)

text \<open>A graph that goes from the start to the end.\<close>

definition through :: compiled_graph where
  "through = gate\<lparr>cg_graph := snd (AddEdge Start End (NewStateGraph (SchemaMap K_String))), cg_interrupts := []\<rparr>"

lemma through_ends:
  "\<exists>rs. Run (quiet_env None) (compiled_engine through (Some (thread_config t))) (GMap []) () = (None, rs :: unit run_state)"
proof -
  define env :: "unit run_env" where "env = quiet_env None"
  define e where "e = compiled_engine through (Some (thread_config t))"
  have g: "sg_nodes (cg_graph through) = []" "sg_entryPoint (cg_graph through) = End" "sg_channels (cg_graph through) = []"
    by (simp_all add: through_def AddEdge_def NewStateGraph_def Let_def)
  have e: "en_graph e = cg_graph through" "en_recursionLimit e = 25" "en_config e = Some (thread_config t)"
    by (simp_all add: e_def compiled_engine_def NewEngine_def eo_WithInterrupts_def eo_WithInterruptsAfter_def eo_WithConfig_def
        eo_WithRecursionLimit_def eo_WithDebug_def) (simp_all add: through_def gate_def)
  have env: "env_checkpointer env = None" "env_done env 0 = None" by (simp_all add: env_def quiet_env_def)
  obtain sub rs where start: "start_run env e (GMap []) () = (None, sub, rs)" and "rs_completed rs = []"
    and same: "en_graph (rs_engine rs) = cg_graph through" "en_recursionLimit (rs_engine rs) = 25"
      "en_config (rs_engine rs) = Some (thread_config t)"
    by (simp add: start_run_def start_registry_def e g applyInput_def toMap_def NewRegistry_def load_checkpoint_def
        env Let_def)
  have entry: "getEntryPoint (rs_engine rs) = End" by (simp add: getEntryPoint_def same g)
  obtain rs' where step: "superstep env (getThreadID env e) sub 0 rs = (Finished, rs')"
    and cfg: "en_config (rs_engine rs') = Some (thread_config t)"
    by (simp add: superstep_def \<open>rs_completed rs = []\<close> prepareNextTasks_def prepareNextTasksWithMode_def entry same
        emit_event_def Let_def)
  have "run_loop env (getThreadID env e) sub 0 rs = (None, 0, rs')"
    using step env same by (simp add: run_loop.simps [of env _ sub 0 rs])
  moreover have "fst (finish_run env 0 rs') = None"
    by (simp add: finish_run_def cfg thread_config_def DurabilityExit_def case_prod_beta Let_def)
  ultimately have "fst (Run env e (GMap []) ()) = None" using start by (simp add: Run_def)
  then show ?thesis unfolding e_def env_def by (metis prod.collapse)
qed

lemma through_items:
  "\<exists>results. fanOutItems (example_env p) ''k'' through [GMap [], GMap []] indices options () = (results, ())
     \<and> (set indices \<subseteq> {0, 1} \<longrightarrow> no_errors results)" if "po_maxConcurrency options \<le> 1"
proof -
  have one: "\<exists>v. run_item (example_env p) ''k'' through [GMap [], GMap []] i () = ((i, Inr v), ())" if i: "i \<in> {0, 1}" for i
  proof -
    obtain rs :: "unit run_state" where "Run (quiet_env None)
        (compiled_engine through (Some (thread_config (''parallel:k:item:'' @ fmt_d i)))) (GMap []) () = (None, rs)"
      using through_ends by blast
    then show ?thesis using i by (auto simp: run_item_def cg_Invoke_def RunSync_def example_env_def)
  qed
  have "set idxs \<subseteq> {0, 1} \<Longrightarrow> no_errors (fst (run_items (example_env p) ''k'' through [GMap [], GMap []] idxs ()))" for idxs
  proof (induction idxs)
    case (Cons i idxs)
    then obtain v where "run_item (example_env p) ''k'' through [GMap [], GMap []] i () = ((i, Inr v), ())" using one by auto
    then show ?case using Cons by (simp add: no_errors_def case_prod_beta)
  qed (simp add: no_errors_def)
  then show ?thesis using that by (auto simp: fanOutItems_def intro!: prod_eqI)
qed

theorem parallel_in_order_witness:
  "\<exists>outs s'. runParallel (example_env first_pending) ''k'' through [GMap [], GMap []] \<lparr>po_maxConcurrency = 0\<rparr> no_answers ()
     = (Inr (GSlice outs), no_answers, s') \<and> length outs = 2"
proof -
  have "[0..int (length [GMap [], GMap []]) - 1] = [0, 1]" by (simp add: upto.simps)
  moreover obtain results where "fanOutItems (example_env first_pending) ''k'' through [GMap [], GMap []] [0, 1]
      \<lparr>po_maxConcurrency = 0\<rparr> () = (results, ())" "no_errors results"
    using through_items [of "\<lparr>po_maxConcurrency = 0\<rparr>" first_pending "[0, 1]"] by auto
  moreover have "loadParallelSnapshot (example_env first_pending) no_answers = None"
    by (simp add: loadParallelSnapshot_def GetResumeValues_def no_answers_def ctx_of_def new_context_def)
  ultimately show ?thesis
    using parallel_in_order [of "example_env first_pending" no_answers "[GMap [], GMap []]" "\<lparr>po_maxConcurrency = 0\<rparr>" "''k''"
        through "()" results "()"]
    by (auto simp: finish_order_def)
qed

theorem parallel_resume_witness:
  "\<exists>outs s'. runParallel (example_env first_pending) ''k'' through [GMap [], GMap []] \<lparr>po_maxConcurrency = 0\<rparr> one_answer ()
     = (Inr (GSlice outs), one_answer, s') \<and> length outs = 2 \<and> outs ! 1 = GBool True"
proof -
  obtain results where "fanOutItems (example_env first_pending) ''k'' through [GMap [], GMap []] [0]
      \<lparr>po_maxConcurrency = 0\<rparr> () = (results, ())" "no_errors results"
    using through_items [of "\<lparr>po_maxConcurrency = 0\<rparr>" first_pending "[0]"] by auto
  with parallel_resume [OF example_snapshot, of "\<lparr>po_maxConcurrency = 0\<rparr>" "''k''" through "[GMap [], GMap []]" "()" results "()"]
  show ?thesis by (auto simp: first_pending_def finish_order_def)
qed

theorem parallel_second_interrupt_lost_witness:
  "fst (runParallel (example_env first_pending) ''k'' gate [GMap [], GMap []] \<lparr>po_maxConcurrency = 0\<rparr> one_answer ()) = Inr GNil"
proof -
  obtain rs :: "unit run_state" where "Run (quiet_env None)
      (compiled_engine gate (Some (thread_config (''parallel:k:item:'' @ fmt_d 0)))) (GMap []) () = (Some (GraphInterrupt []), rs)"
    using gate_interrupted by blast
  then have "fanOutItems (example_env first_pending) ''k'' gate [GMap [], GMap []] [0] \<lparr>po_maxConcurrency = 0\<rparr> ()
      = ([(0, Inl (GraphInterrupt []))], ())"
    by (simp add: fanOutItems_def run_item_def cg_Invoke_def RunSync_def example_env_def)
  with parallel_second_interrupt_lost [OF example_snapshot, of "''k''" gate "[GMap [], GMap []]" "\<lparr>po_maxConcurrency = 0\<rparr>" "()"
      "[(0, Inl (GraphInterrupt []))]" "()" "[]"]
  show ?thesis
    by (simp add: first_pending_def one_answer_values only_interrupts_def has_interrupt_def example_env_def)
qed

end
