(* ===== verification/Async_Executor.thy ===== *)
theory Async_Executor
  imports Retry "HOL-Library.Multiset"
begin

text \<open>
  Running nodes in the background: the \<^verbatim>\<open>AsyncExecutor\<close> of \<^verbatim>\<open>pregel/async.go\<close> with its pool of
  worker slots.

  The goroutines that \<^verbatim>\<open>Execute\<close>, \<^verbatim>\<open>ExecuteBatch\<close> and \<^verbatim>\<open>ExecuteWithRetry\<close> start run interleaved. The
  state of the system lists them with the point each has reached; an event is one call of the
  executor, one visible step of one goroutine (deferred functions are steps of their own, in the
  order Go runs them) or one read of a result channel. A buffered channel is the list of what
  it holds. A send on a full channel blocks, so its step has no result; a send on a closed channel,
  a second close and a panic of a function that nothing recovers end the program.
\<close>

section \<open>The executor\<close>

record async_result =
  ar_TaskID :: string
  ar_Name :: string
  ar_Output :: goval
  ar_Err :: "go_error option"
  ar_Duration :: int

text \<open>
  The function of a task gets its context and the number of the call; all it sees of the context
  is whether it is cancelled. \<open>at_Cancel\<close> says that the task has a cancel function.
\<close>

type_synonym async_func = "bool \<Rightarrow> nat \<Rightarrow> goval \<times> go_error option"

record async_task =
  at_ID :: string
  at_Name :: string
  at_Func :: async_func
  at_Cancel :: bool
  at_Priority :: int

record async_executor =
  ae_maxConcurrency :: int
  ae_workerPool :: nat
  ae_activeTasks :: "async_task gomap"

definition NewAsyncExecutor :: "int \<Rightarrow> async_executor" where
  "NewAsyncExecutor maxConcurrency =
     (let mc = (if maxConcurrency \<le> 0 then 10 else maxConcurrency)
      in \<lparr>ae_maxConcurrency = mc, ae_workerPool = nat mc, ae_activeTasks = []\<rparr>)"

text \<open>
  A goroutine comes from one of the three calls. \<open>Retried rc w\<close> carries the retry configuration and
  the outcome of the wait after each failed attempt.
\<close>

datatype ae_kind = Single | Batched | Retried retry_config "nat \<Rightarrow> go_error option"

datatype ae_phase =
  Waiting | Running | Sent | Released | Unlisted async_result | Unregistered | Finished

record goroutine =
  g_task :: async_task
  g_kind :: ae_kind
  g_phase :: ae_phase
  g_chan :: nat

text \<open>
  A result channel with its capacity, its content and what the caller has read from it.
  \<open>rch_wait\<close> is the \<^verbatim>\<open>WaitGroup\<close> of a batch.
\<close>

record result_chan =
  rch_cap :: nat
  rch_buf :: "async_result list"
  rch_taken :: "async_result list"
  rch_closed :: bool
  rch_wait :: "nat option"

record async_system =
  sys_exec :: async_executor
  sys_gos :: "goroutine list"
  sys_chans :: "result_chan list"
  sys_cancelled :: "string list"
  sys_crashed :: bool

definition new_system :: "int \<Rightarrow> async_system" where
  "new_system maxConcurrency =
     \<lparr>sys_exec = NewAsyncExecutor maxConcurrency, sys_gos = [], sys_chans = [], sys_cancelled = [],
      sys_crashed = False\<rparr>"

subsection \<open>The calls\<close>

definition register :: "async_task \<Rightarrow> async_system \<Rightarrow> async_system" where
  "register t s = s\<lparr>sys_exec := (sys_exec s)\<lparr>ae_activeTasks :=
     gm_put (at_ID t) t (ae_activeTasks (sys_exec s))\<rparr>\<rparr>"

definition spawn :: "ae_kind \<Rightarrow> ae_phase \<Rightarrow> nat \<Rightarrow> async_task \<Rightarrow> async_system \<Rightarrow> async_system" where
  "spawn k ph c t s =
     s\<lparr>sys_gos := sys_gos s @ [\<lparr>g_task = t, g_kind = k, g_phase = ph, g_chan = c\<rparr>]\<rparr>"

definition open_chan :: "nat \<Rightarrow> nat option \<Rightarrow> async_system \<Rightarrow> async_system" where
  "open_chan n w s =
     s\<lparr>sys_chans := sys_chans s @ [\<lparr>rch_cap = n, rch_buf = [], rch_taken = [], rch_closed = False, rch_wait = w\<rparr>]\<rparr>"

text \<open>The identifier that \<^verbatim>\<open>uuid.New()\<close> makes is an argument.\<close>

definition ae_Execute :: "string \<Rightarrow> string \<Rightarrow> async_func \<Rightarrow> async_system \<Rightarrow> async_system" where
  "ae_Execute uid name fn s =
     (let c = length (sys_chans s);
          task = \<lparr>at_ID = uid, at_Name = name, at_Func = fn, at_Cancel = True, at_Priority = 0\<rparr>
      in spawn Single Waiting c task (register task (open_chan 1 None s)))"

definition ae_ExecuteBatch :: "string list \<Rightarrow> async_task list \<Rightarrow> async_system \<Rightarrow> async_system" where
  "ae_ExecuteBatch uids tasks s =
     (let c = length (sys_chans s);
          tasks = map (\<lambda>(uid, t). t\<lparr>at_ID := uid\<rparr>) (zip uids tasks);
          s = fold register tasks (open_chan (length tasks) (Some (length tasks)) s)
      in fold (spawn Batched Waiting c) tasks s)"

definition ae_ExecuteWithRetry ::
  "string \<Rightarrow> string \<Rightarrow> async_func \<Rightarrow> retry_config \<Rightarrow> (nat \<Rightarrow> go_error option) \<Rightarrow> async_system \<Rightarrow> async_system" where
  "ae_ExecuteWithRetry uid name fn rc w s =
     (let c = length (sys_chans s);
          task = \<lparr>at_ID = uid, at_Name = name, at_Func = fn, at_Cancel = True, at_Priority = 0\<rparr>
      in spawn (Retried rc w) Running c task (register task (open_chan 1 None s)))"

definition ae_Cancel :: "async_system \<Rightarrow> async_system" where
  "ae_Cancel s =
     s\<lparr>sys_exec := (sys_exec s)\<lparr>ae_activeTasks := []\<rparr>,
       sys_cancelled := sys_cancelled s @ map fst (filter (at_Cancel \<circ> snd) (ae_activeTasks (sys_exec s)))\<rparr>"

definition GetActiveTaskCount :: "async_system \<Rightarrow> int" where
  "GetActiveTaskCount s = int (length (ae_activeTasks (sys_exec s)))"

text \<open>
  One pass of the polling loop of \<^verbatim>\<open>Wait\<close>: \<open>None\<close> goes round again. \<open>ctxErr\<close> is the error of the
  context when the select took that branch.
\<close>

definition ae_Wait_poll :: "go_error option \<Rightarrow> async_system \<Rightarrow> go_error option option" where
  "ae_Wait_poll ctxErr s =
     (case ctxErr of
        Some e \<Rightarrow> Some (Some e)
      | None \<Rightarrow> if GetActiveTaskCount s = 0 then Some None else None)"

subsection \<open>The steps of a goroutine\<close>

abbreviation phase_of :: "async_system \<Rightarrow> nat \<Rightarrow> ae_phase option" where
  "phase_of s i \<equiv> (if i < length (sys_gos s) then Some (g_phase (sys_gos s ! i)) else None)"

definition set_phase :: "nat \<Rightarrow> ae_phase \<Rightarrow> async_system \<Rightarrow> async_system" where
  "set_phase i ph s = s\<lparr>sys_gos := (sys_gos s)[i := (sys_gos s ! i)\<lparr>g_phase := ph\<rparr>]\<rparr>"

definition chan_send :: "nat \<Rightarrow> async_result \<Rightarrow> async_system \<Rightarrow> async_system option" where
  "chan_send c r s =
     (let ch = sys_chans s ! c
      in if rch_closed ch then Some (s\<lparr>sys_crashed := True\<rparr>)
         else if length (rch_buf ch) < rch_cap ch
         then Some (s\<lparr>sys_chans := (sys_chans s)[c := ch\<lparr>rch_buf := rch_buf ch @ [r]\<rparr>]\<rparr>)
         else None)"

definition chan_close :: "nat \<Rightarrow> async_system \<Rightarrow> async_system" where
  "chan_close c s =
     (let ch = sys_chans s ! c
      in if rch_closed ch then s\<lparr>sys_crashed := True\<rparr>
         else s\<lparr>sys_chans := (sys_chans s)[c := ch\<lparr>rch_closed := True\<rparr>]\<rparr>)"

definition put_pool :: "nat \<Rightarrow> async_system \<Rightarrow> async_system" where
  "put_pool n s = s\<lparr>sys_exec := (sys_exec s)\<lparr>ae_workerPool := n\<rparr>\<rparr>"

definition unlist :: "string \<Rightarrow> async_system \<Rightarrow> async_system" where
  "unlist uid s = s\<lparr>sys_exec := (sys_exec s)\<lparr>ae_activeTasks :=
     gm_del uid (ae_activeTasks (sys_exec s))\<rparr>\<rparr>"

text \<open>The two branches of the \<^verbatim>\<open>select\<close> at the start.\<close>

definition acquire_slot :: "nat \<Rightarrow> async_system \<Rightarrow> async_system option" where
  "acquire_slot i s =
     (if phase_of s i = Some Waiting \<and> 0 < ae_workerPool (sys_exec s)
      then Some (set_phase i Running (put_pool (ae_workerPool (sys_exec s) - 1) s))
      else None)"

definition ctx_done :: "nat \<Rightarrow> go_error \<Rightarrow> async_system \<Rightarrow> async_system option" where
  "ctx_done i err s =
     (if phase_of s i = Some Waiting
      then let g = sys_gos s ! i;
               r = \<lparr>ar_TaskID = at_ID (g_task g), ar_Name = at_Name (g_task g), ar_Output = GNil,
                    ar_Err = Some err, ar_Duration = 0\<rparr>
           in map_option (set_phase i Released) (chan_send (g_chan g) r s)
      else None)"

text \<open>
  The call of the function and the send of its result, which took the time \<open>d\<close>. After a retried
  call the task leaves the table before the result is sent.
\<close>

definition run_func :: "nat \<Rightarrow> int \<Rightarrow> async_system \<Rightarrow> async_system option" where
  "run_func i d s =
     (if phase_of s i = Some Running
      then let g = sys_gos s ! i;
               t = g_task g;
               fn = at_Func t (at_ID t \<in> set (sys_cancelled s));
               result = (\<lambda>(output, err). \<lparr>ar_TaskID = at_ID t, ar_Name = at_Name t, ar_Output = output,
                           ar_Err = err, ar_Duration = d\<rparr>)
           in (case g_kind g of
                 Retried rc w \<Rightarrow>
                   Some (set_phase i (Unlisted (result (Execute (rc_Policy rc) (at_Name t) fn w))) (unlist (at_ID t) s))
               | _ \<Rightarrow>
                   (case Option.bind (snd (fn 1)) IsPanic of
                      Some m \<Rightarrow> Some (s\<lparr>sys_crashed := True\<rparr>)
                    | None \<Rightarrow> map_option (set_phase i Sent) (chan_send (g_chan g) (result (fn 1)) s)))
      else None)"

definition send_result :: "nat \<Rightarrow> async_system \<Rightarrow> async_system option" where
  "send_result i s =
     (case phase_of s i of
        Some (Unlisted r) \<Rightarrow> map_option (set_phase i Unregistered) (chan_send (g_chan (sys_gos s ! i)) r s)
      | _ \<Rightarrow> None)"

text \<open>The deferred functions: the slot goes back, the task leaves the table, the channel is closed.\<close>

definition release_slot :: "nat \<Rightarrow> async_system \<Rightarrow> async_system option" where
  "release_slot i s =
     (if phase_of s i = Some Sent \<and> ae_workerPool (sys_exec s) < nat (ae_maxConcurrency (sys_exec s))
      then Some (set_phase i Released (put_pool (ae_workerPool (sys_exec s) + 1) s))
      else None)"

definition unregister :: "nat \<Rightarrow> async_system \<Rightarrow> async_system option" where
  "unregister i s =
     (if phase_of s i = Some Released
      then Some (set_phase i Unregistered (unlist (at_ID (g_task (sys_gos s ! i))) s))
      else None)"

definition finish :: "nat \<Rightarrow> async_system \<Rightarrow> async_system option" where
  "finish i s =
     (if phase_of s i = Some Unregistered
      then let g = sys_gos s ! i; c = g_chan g; ch = sys_chans s ! c
           in Some (set_phase i Finished
                (if g_kind g = Batched
                 then s\<lparr>sys_chans := (sys_chans s)[c := ch\<lparr>rch_wait := map_option (\<lambda>n. n - 1) (rch_wait ch)\<rparr>]\<rparr>
                 else chan_close c s))
      else None)"

text \<open>The goroutine of \<^verbatim>\<open>ExecuteBatch\<close> that waits for the others, and the caller's read.\<close>

definition close_batch :: "nat \<Rightarrow> async_system \<Rightarrow> async_system option" where
  "close_batch c s =
     (if c < length (sys_chans s) \<and> rch_wait (sys_chans s ! c) = Some 0 \<and> \<not> rch_closed (sys_chans s ! c)
      then Some (chan_close c s) else None)"

definition receive :: "nat \<Rightarrow> async_system \<Rightarrow> async_system option" where
  "receive c s =
     (if c < length (sys_chans s)
      then (case rch_buf (sys_chans s ! c) of
              [] \<Rightarrow> None
            | r # rs \<Rightarrow> Some (s\<lparr>sys_chans := (sys_chans s)[c := (sys_chans s ! c)
                          \<lparr>rch_buf := rs, rch_taken := rch_taken (sys_chans s ! c) @ [r]\<rparr>]\<rparr>))
      else None)"

datatype ae_event =
    Submit string string async_func
  | SubmitBatch "string list" "async_task list"
  | SubmitRetry string string async_func retry_config "nat \<Rightarrow> go_error option"
  | CancelAll
  | Receive nat
  | AcquireSlot nat
  | CtxDone nat go_error
  | RunFunc nat int
  | SendResult nat
  | ReleaseSlot nat
  | Unregister nat
  | Finish nat
  | CloseBatch nat

abbreviation all_ids :: "async_system \<Rightarrow> string list" where
  "all_ids s \<equiv> map (\<lambda>g. at_ID (g_task g)) (sys_gos s)"

text \<open>New identifiers are distinct from all others, as those of \<^verbatim>\<open>uuid.New()\<close> are.\<close>

fun ae_event_step :: "ae_event \<Rightarrow> async_system \<Rightarrow> async_system option" where
  "ae_event_step (Submit uid name fn) s =
     (if uid \<notin> set (all_ids s) then Some (ae_Execute uid name fn s) else None)"
| "ae_event_step (SubmitBatch uids tasks) s =
     (if length uids = length tasks \<and> distinct uids \<and> set uids \<inter> set (all_ids s) = {}
      then Some (ae_ExecuteBatch uids tasks s) else None)"
| "ae_event_step (SubmitRetry uid name fn rc w) s =
     (if uid \<notin> set (all_ids s) then Some (ae_ExecuteWithRetry uid name fn rc w s) else None)"
| "ae_event_step CancelAll s = Some (ae_Cancel s)"
| "ae_event_step (Receive c) s = receive c s"
| "ae_event_step (AcquireSlot i) s = acquire_slot i s"
| "ae_event_step (CtxDone i err) s = ctx_done i err s"
| "ae_event_step (RunFunc i d) s = run_func i d s"
| "ae_event_step (SendResult i) s = send_result i s"
| "ae_event_step (ReleaseSlot i) s = release_slot i s"
| "ae_event_step (Unregister i) s = unregister i s"
| "ae_event_step (Finish i) s = finish i s"
| "ae_event_step (CloseBatch c) s = close_batch c s"

definition ae_step :: "ae_event \<Rightarrow> async_system \<Rightarrow> async_system option" where
  "ae_step e s = (if sys_crashed s then None else ae_event_step e s)"

fun ae_run :: "ae_event list \<Rightarrow> async_system \<Rightarrow> async_system option" where
  "ae_run [] s = Some s"
| "ae_run (e # es) s = Option.bind (ae_step e s) (ae_run es)"

section \<open>The invariant of the executor\<close>

text \<open>
  A goroutine holds a worker slot, has sent its result, is in the table of active tasks.
\<close>

definition pooled :: "goroutine \<Rightarrow> bool" where
  "pooled g \<longleftrightarrow> (case g_kind g of Retried rc w \<Rightarrow> False | _ \<Rightarrow> True)"

definition holds_slot :: "goroutine \<Rightarrow> bool" where
  "holds_slot g \<longleftrightarrow> pooled g \<and> g_phase g \<in> {Running, Sent}"

definition has_sent :: "goroutine \<Rightarrow> bool" where
  "has_sent g \<longleftrightarrow> g_phase g \<in> {Sent, Released, Unregistered, Finished}"

definition registered :: "goroutine \<Rightarrow> bool" where
  "registered g \<longleftrightarrow> g_phase g \<in> {Waiting, Running, Sent, Released}"

definition on_chan :: "nat \<Rightarrow> goroutine \<Rightarrow> bool" where
  "on_chan c g \<longleftrightarrow> g_chan g = c"

abbreviation g_id :: "goroutine \<Rightarrow> string" where
  "g_id g \<equiv> at_ID (g_task g)"

lemmas g_defs = holds_slot_def has_sent_def registered_def on_chan_def pooled_def

text \<open>A function whose panic nothing recovers.\<close>

definition panics :: "goroutine \<Rightarrow> bool" where
  "panics g \<longleftrightarrow> pooled g \<and> (\<exists>b m. Option.bind (snd (at_Func (g_task g) b 1)) IsPanic = Some m)"

definition go_ok :: "result_chan list \<Rightarrow> goroutine \<Rightarrow> bool" where
  "go_ok chs g \<longleftrightarrow>
     g_chan g < length chs
     \<and> (g_kind g = Batched \<longleftrightarrow> rch_wait (chs ! g_chan g) \<noteq> None)
     \<and> (case g_phase g of
          Unlisted r \<Rightarrow> \<not> pooled g \<and> ar_TaskID r = g_id g
        | Running \<Rightarrow> True | Unregistered \<Rightarrow> True | Finished \<Rightarrow> True
        | _ \<Rightarrow> pooled g)"

text \<open>
  What a result channel owes to the goroutines that send on it: a place for each, one result of
  each that has sent, the count of those still at work, and that it is closed only after
  the last.
\<close>

definition chan_ok :: "goroutine multiset \<Rightarrow> nat \<Rightarrow> result_chan \<Rightarrow> bool" where
  "chan_ok G c ch \<longleftrightarrow>
     rch_cap ch = size (filter_mset (on_chan c) G)
     \<and> image_mset ar_TaskID (mset (rch_taken ch @ rch_buf ch)) =
         image_mset g_id (filter_mset has_sent (filter_mset (on_chan c) G))
     \<and> (case rch_wait ch of
          None \<Rightarrow> rch_cap ch = 1 \<and> (rch_closed ch \<longleftrightarrow> (\<forall>g\<in>#filter_mset (on_chan c) G. g_phase g = Finished))
        | Some n \<Rightarrow> n = size (filter_mset (\<lambda>g. g_phase g \<noteq> Finished) (filter_mset (on_chan c) G))
                    \<and> (rch_closed ch \<longrightarrow> n = 0))"

definition ae_ok :: "async_executor \<Rightarrow> goroutine multiset \<Rightarrow> result_chan list \<Rightarrow> bool" where
  "ae_ok ex G chs \<longleftrightarrow>
     0 < ae_maxConcurrency ex
     \<and> ae_workerPool ex + size (filter_mset holds_slot G) = nat (ae_maxConcurrency ex)
     \<and> gm_dom (ae_activeTasks ex) \<subseteq> g_id ` {g. g \<in># G \<and> registered g}
     \<and> (\<forall>g\<in>#G. go_ok chs g)
     \<and> (\<forall>c < length chs. chan_ok G c (chs ! c))"

definition ae_inv :: "async_system \<Rightarrow> bool" where
  "ae_inv s \<longleftrightarrow>
     ae_ok (sys_exec s) (mset (sys_gos s)) (sys_chans s) \<and> distinct (all_ids s)
     \<and> (sys_crashed s \<longrightarrow> (\<exists>g \<in> set (sys_gos s). panics g))"

inductive ae_reachable :: "int \<Rightarrow> async_system \<Rightarrow> bool" for mc where
  ae_start: "ae_reachable mc (new_system mc)"
| ae_next: "ae_reachable mc s \<Longrightarrow> ae_step e s = Some s' \<Longrightarrow> ae_reachable mc s'"

lemma update_mset:
  assumes "i < length xs"
  obtains R where "mset xs = add_mset (xs ! i) R" and "\<And>y. mset (xs[i := y]) = add_mset y R"
proof (rule that [of "mset xs - {#xs ! i#}"])
  show "mset xs = add_mset (xs ! i) (mset xs - {#xs ! i#})"
    using assms by (simp add: insert_DiffM)
  show "mset (xs[i := y]) = add_mset y (mset xs - {#xs ! i#})" for y
    using assms by (simp add: mset_update)
qed

text \<open>A channel that the goroutine does not use is not affected by its step.\<close>

lemma chan_ok_other:
  "\<not> on_chan c g \<Longrightarrow> \<not> on_chan c g' \<Longrightarrow> chan_ok (add_mset g R) c ch = chan_ok (add_mset g' R) c ch"
  by (simp add: chan_ok_def split: option.split)

lemma ae_ok_step:
  assumes ok: "ae_ok ex (add_mset g R) chs"
    and max: "ae_maxConcurrency ex' = ae_maxConcurrency ex"
    and pool: "ae_workerPool ex' + of_bool (holds_slot g') = ae_workerPool ex + of_bool (holds_slot g)"
    and task: "g_task g' = g_task g" "g_chan g' = g_chan g" "g_kind g' = g_kind g"
    and act: "gm_dom (ae_activeTasks ex') \<subseteq> gm_dom (ae_activeTasks ex)"
      "registered g \<Longrightarrow> \<not> registered g' \<Longrightarrow> \<forall>h. h \<in># R \<longrightarrow> g_id h \<noteq> g_id g
        \<Longrightarrow> g_id g \<notin> gm_dom (ae_activeTasks ex')"
    and ids: "\<forall>h. h \<in># R \<longrightarrow> g_id h \<noteq> g_id g"
    and chs: "chs' = chs[g_chan g := ch']" "rch_wait ch' = None \<longleftrightarrow> rch_wait (chs ! g_chan g) = None"
    and okg: "go_ok chs' g'"
    and okc: "chan_ok (add_mset g R) (g_chan g) (chs ! g_chan g) \<Longrightarrow> go_ok chs g
      \<Longrightarrow> chan_ok (add_mset g' R) (g_chan g) ch'"
  shows "ae_ok ex' (add_mset g' R) chs'"
proof -
  have len: "g_chan g < length chs" and gok: "go_ok chs g"
    using ok by (auto simp: ae_ok_def go_ok_def)
  have "chan_ok (add_mset g' R) c (chs' ! c)" if "c < length chs'" for c
  proof (cases "c = g_chan g")
    case True
    then show ?thesis using ok okc gok len by (simp add: chs(1) ae_ok_def)
  next
    case False
    then have "chan_ok (add_mset g R) c (chs ! c)" "\<not> on_chan c g" "\<not> on_chan c g'"
      using ok that task(2) by (auto simp: chs(1) ae_ok_def on_chan_def)
    then have "chan_ok (add_mset g' R) c (chs ! c)" using chan_ok_other by blast
    then show ?thesis using False by (simp add: chs(1))
  qed
  moreover have "go_ok chs' h" if "h \<in># R" for h
  proof -
    have "go_ok chs h" using ok that by (simp add: ae_ok_def)
    then show ?thesis
      using chs len by (cases "g_chan h = g_chan g") (simp_all add: go_ok_def)
  qed
  moreover have "gm_dom (ae_activeTasks ex') \<subseteq> g_id ` {h. h \<in># add_mset g' R \<and> registered h}"
  proof
    fix k assume k: "k \<in> gm_dom (ae_activeTasks ex')"
    then obtain h where h: "h \<in># add_mset g R" "registered h" "k = g_id h"
      using ok act(1) unfolding ae_ok_def by blast
    show "k \<in> g_id ` {h. h \<in># add_mset g' R \<and> registered h}"
    proof (cases "h \<in># R")
      case True
      then show ?thesis using h by (intro image_eqI [of _ _ h]) simp_all
    next
      case False
      then have "h = g" using h by simp
      then have "registered g'" using act(2) [OF _ _ ids] h(2,3) k by blast
      then show ?thesis using \<open>h = g\<close> h(3) task(1) by (intro image_eqI [of _ _ g']) simp_all
    qed
  qed
  moreover have "ae_workerPool ex' + size (filter_mset holds_slot (add_mset g' R)) = nat (ae_maxConcurrency ex')"
    using ok pool max by (cases "holds_slot g"; cases "holds_slot g'") (simp_all add: ae_ok_def)
  moreover have "0 < ae_maxConcurrency ex'" using ok max by (simp add: ae_ok_def)
  ultimately show ?thesis
    using okg unfolding ae_ok_def by simp
qed

text \<open>A send on the channel of a goroutine that has not sent yet always finds a place.\<close>

lemma chan_ok_room:
  assumes "chan_ok (add_mset g R) (g_chan g) ch" and "\<not> has_sent g"
  shows "length (rch_buf ch) < rch_cap ch" and "\<not> rch_closed ch"
proof -
  have on: "on_chan (g_chan g) g" by (simp add: on_chan_def)
  have "size (image_mset ar_TaskID (mset (rch_taken ch @ rch_buf ch))) =
      size (image_mset g_id (filter_mset has_sent (filter_mset (on_chan (g_chan g)) (add_mset g R))))"
    using assms(1) unfolding chan_ok_def by simp
  then have "length (rch_buf ch) \<le> size (filter_mset has_sent (filter_mset (on_chan (g_chan g)) R))"
    using assms(2) on by simp
  also have "\<dots> \<le> size (filter_mset (on_chan (g_chan g)) R)"
    by (rule size_filter_mset_lesseq)
  also have "\<dots> < rch_cap ch" using assms(1) on by (simp add: chan_ok_def)
  finally show "length (rch_buf ch) < rch_cap ch" .
  show "\<not> rch_closed ch"
    using assms on by (auto simp: chan_ok_def has_sent_def split: option.splits)
qed

lemma chan_ok_send:
  assumes "chan_ok (add_mset g R) (g_chan g) ch" and "\<not> has_sent g" and "has_sent g'"
    and "g_phase g' \<noteq> Finished" and "g_task g' = g_task g" and "g_chan g' = g_chan g" and "ar_TaskID r = g_id g"
  shows "chan_ok (add_mset g' R) (g_chan g) (ch\<lparr>rch_buf := rch_buf ch @ [r]\<rparr>)"
proof -
  have "g_phase g \<noteq> Finished" using assms(2) by (auto simp: has_sent_def)
  moreover have "on_chan (g_chan g) g" "on_chan (g_chan g) g'" using assms(6) by (simp_all add: on_chan_def)
  moreover have "\<not> rch_closed ch" using assms(1,2) by (rule chan_ok_room(2))
  ultimately show ?thesis
    using assms by (auto simp: chan_ok_def split: option.splits)
qed

text \<open>A step that neither sends nor ends the goroutine leaves its channel as it is.\<close>

lemma chan_ok_quiet:
  assumes "chan_ok (add_mset g R) (g_chan g) ch" and "has_sent g' = has_sent g"
    and "g_phase g \<noteq> Finished" and "g_phase g' \<noteq> Finished"
    and "g_task g' = g_task g" and "g_chan g' = g_chan g"
  shows "chan_ok (add_mset g' R) (g_chan g) ch"
proof -
  have "on_chan (g_chan g) g" "on_chan (g_chan g) g'" using assms(6) by (simp_all add: on_chan_def)
  then show ?thesis using assms by (auto simp: chan_ok_def split: option.splits)
qed

lemma chan_ok_finish:
  assumes "chan_ok (add_mset g R) (g_chan g) ch" and "g_phase g = Unregistered" and "g_phase g' = Finished"
    and "g_task g' = g_task g" and "g_chan g' = g_chan g"
  shows "rch_wait ch = None \<Longrightarrow> chan_ok (add_mset g' R) (g_chan g) (ch\<lparr>rch_closed := True\<rparr>)"
    and "rch_wait ch = Some n \<Longrightarrow> chan_ok (add_mset g' R) (g_chan g) (ch\<lparr>rch_wait := Some (n - 1)\<rparr>)"
    and "\<not> rch_closed ch"
proof -
  have on: "on_chan (g_chan g) g" "on_chan (g_chan g) g'" using assms(5) by (simp_all add: on_chan_def)
  show "\<not> rch_closed ch"
    using assms on by (auto simp: chan_ok_def split: option.splits)
  show "rch_wait ch = None \<Longrightarrow> chan_ok (add_mset g' R) (g_chan g) (ch\<lparr>rch_closed := True\<rparr>)"
    using assms on by (auto simp: chan_ok_def has_sent_def)
  show "rch_wait ch = Some n \<Longrightarrow> chan_ok (add_mset g' R) (g_chan g) (ch\<lparr>rch_wait := Some (n - 1)\<rparr>)"
    using assms on by (auto simp: chan_ok_def has_sent_def)
qed

text \<open>One step of the goroutine \<open>i\<close>, which changes its phase, the executor and its channel.\<close>

lemma go_step_inv:
  assumes inv: "ae_inv s" "\<not> sys_crashed s" and i: "i < length (sys_gos s)" and g: "g = sys_gos s ! i"
    and ex: "ae_maxConcurrency ex' = ae_maxConcurrency (sys_exec s)"
      "ae_workerPool ex' + of_bool (holds_slot (g\<lparr>g_phase := ph\<rparr>)) = ae_workerPool (sys_exec s) + of_bool (holds_slot g)"
      "gm_dom (ae_activeTasks ex') \<subseteq> gm_dom (ae_activeTasks (sys_exec s))"
      "registered g \<Longrightarrow> \<not> registered (g\<lparr>g_phase := ph\<rparr>) \<Longrightarrow> g_id g \<notin> gm_dom (ae_activeTasks ex')"
    and ch: "rch_wait ch' = None \<longleftrightarrow> rch_wait (sys_chans s ! g_chan g) = None"
    and okg: "go_ok ((sys_chans s)[g_chan g := ch']) (g\<lparr>g_phase := ph\<rparr>)"
    and okc: "\<And>R. chan_ok (add_mset g R) (g_chan g) (sys_chans s ! g_chan g) \<Longrightarrow> go_ok (sys_chans s) g
      \<Longrightarrow> chan_ok (add_mset (g\<lparr>g_phase := ph\<rparr>) R) (g_chan g) ch'"
  shows "ae_inv (s\<lparr>sys_exec := ex', sys_gos := (sys_gos s)[i := g\<lparr>g_phase := ph\<rparr>],
    sys_chans := (sys_chans s)[g_chan g := ch']\<rparr>)"
proof -
  obtain R where R: "mset (sys_gos s) = add_mset g R" "\<And>y. mset ((sys_gos s)[i := y]) = add_mset y R"
    using i unfolding g by (rule update_mset) blast
  have "count (mset (all_ids s)) (g_id g) \<le> 1"
    using inv(1) by (simp add: ae_inv_def distinct_count_atmost_1)
  then have "g_id g \<notin># image_mset g_id R"
    by (simp add: R(1) not_in_iff del: set_image_mset)
  then have ids: "\<forall>h. h \<in># R \<longrightarrow> g_id h \<noteq> g_id g" by (metis imageI set_image_mset)
  have ok: "ae_ok (sys_exec s) (add_mset g R) (sys_chans s)" using inv(1) by (simp add: ae_inv_def R(1))
  have "ae_ok ex' (add_mset (g\<lparr>g_phase := ph\<rparr>) R) ((sys_chans s)[g_chan g := ch'])"
    by (rule ae_ok_step [OF ok ex(1,2) _ _ _ ex(3) _ ids refl ch okg okc]) (use ex(4) in auto)
  moreover have "map g_id ((sys_gos s)[i := g\<lparr>g_phase := ph\<rparr>]) = all_ids s"
    using i by (simp add: g map_update list_update_same_conv)
  ultimately show ?thesis using inv by (simp add: ae_inv_def R(2))
qed

text \<open>What the invariant says of the goroutine \<open>i\<close> and its channel.\<close>

lemma ae_inv_go:
  assumes "ae_inv s" and "i < length (sys_gos s)" and "g = sys_gos s ! i"
  shows "go_ok (sys_chans s) g" and "g_chan g < length (sys_chans s)"
    and "\<exists>R. chan_ok (add_mset g R) (g_chan g) (sys_chans s ! g_chan g)"
proof -
  have "g \<in># mset (sys_gos s)" using assms by simp
  then obtain R where R: "mset (sys_gos s) = add_mset g R" by (rule mset_add)
  show *: "go_ok (sys_chans s) g" using assms(1) R by (simp add: ae_inv_def ae_ok_def)
  then show "g_chan g < length (sys_chans s)" by (simp add: go_ok_def)
  with assms(1) R show "\<exists>R. chan_ok (add_mset g R) (g_chan g) (sys_chans s ! g_chan g)"
    by (auto simp: ae_inv_def ae_ok_def)
qed

text \<open>A step that leaves the channel alone, and one that sends on it.\<close>

lemma quiet_step_inv:
  assumes inv: "ae_inv s" "\<not> sys_crashed s" and i: "i < length (sys_gos s)" and g: "g = sys_gos s ! i"
    and ex: "ae_maxConcurrency ex' = ae_maxConcurrency (sys_exec s)"
      "ae_workerPool ex' + of_bool (holds_slot (g\<lparr>g_phase := ph\<rparr>)) = ae_workerPool (sys_exec s) + of_bool (holds_slot g)"
      "gm_dom (ae_activeTasks ex') \<subseteq> gm_dom (ae_activeTasks (sys_exec s))"
      "registered g \<Longrightarrow> \<not> registered (g\<lparr>g_phase := ph\<rparr>) \<Longrightarrow> g_id g \<notin> gm_dom (ae_activeTasks ex')"
    and okg: "go_ok (sys_chans s) (g\<lparr>g_phase := ph\<rparr>)"
    and quiet: "has_sent (g\<lparr>g_phase := ph\<rparr>) = has_sent g" "g_phase g \<noteq> Finished" "ph \<noteq> Finished"
  shows "ae_inv (set_phase i ph (s\<lparr>sys_exec := ex'\<rparr>))"
proof -
  have "ae_inv (s\<lparr>sys_exec := ex', sys_gos := (sys_gos s)[i := g\<lparr>g_phase := ph\<rparr>],
      sys_chans := (sys_chans s)[g_chan g := sys_chans s ! g_chan g]\<rparr>)"
  proof (rule go_step_inv [OF inv i g ex])
    show "chan_ok (add_mset (g\<lparr>g_phase := ph\<rparr>) R) (g_chan g) (sys_chans s ! g_chan g)"
      if "chan_ok (add_mset g R) (g_chan g) (sys_chans s ! g_chan g)" for R
      by (rule chan_ok_quiet [OF that]) (use quiet in simp_all)
  qed (use okg in simp_all)
  then show ?thesis by (simp add: set_phase_def g)
qed

lemma send_step_inv:
  assumes inv: "ae_inv s" "\<not> sys_crashed s" and i: "i < length (sys_gos s)" and g: "g = sys_gos s ! i"
    and okg: "go_ok (sys_chans s) (g\<lparr>g_phase := ph\<rparr>)" and r: "ar_TaskID r = g_id g"
    and send: "\<not> has_sent g" "has_sent (g\<lparr>g_phase := ph\<rparr>)" "ph \<noteq> Finished" "holds_slot (g\<lparr>g_phase := ph\<rparr>) = holds_slot g"
      "registered g \<longleftrightarrow> registered (g\<lparr>g_phase := ph\<rparr>)"
    and s': "map_option (set_phase i ph) (chan_send (g_chan g) r s) = Some s'"
  shows "ae_inv s'"
proof -
  obtain R where "chan_ok (add_mset g R) (g_chan g) (sys_chans s ! g_chan g)"
    using ae_inv_go(3) [OF inv(1) i g] by blast
  from chan_ok_room [OF this send(1)]
  have "s' = s\<lparr>sys_exec := sys_exec s, sys_gos := (sys_gos s)[i := g\<lparr>g_phase := ph\<rparr>], sys_chans := (sys_chans s)[g_chan g :=
      (sys_chans s ! g_chan g)\<lparr>rch_buf := rch_buf (sys_chans s ! g_chan g) @ [r]\<rparr>]\<rparr>"
    using s' by (auto simp: chan_send_def set_phase_def g Let_def)
  moreover have "ae_inv \<dots>"
  proof (rule go_step_inv [OF inv i g])
    show "go_ok ((sys_chans s)[g_chan g := (sys_chans s ! g_chan g)
        \<lparr>rch_buf := rch_buf (sys_chans s ! g_chan g) @ [r]\<rparr>]) (g\<lparr>g_phase := ph\<rparr>)"
      using okg by (simp add: go_ok_def)
    show "chan_ok (add_mset (g\<lparr>g_phase := ph\<rparr>) R) (g_chan g)
        ((sys_chans s ! g_chan g)\<lparr>rch_buf := rch_buf (sys_chans s ! g_chan g) @ [r]\<rparr>)"
      if "chan_ok (add_mset g R) (g_chan g) (sys_chans s ! g_chan g)" for R
      by (rule chan_ok_send [OF that]) (use send r in simp_all)
  qed (use send in simp_all)
  ultimately show ?thesis by simp
qed

lemma acquire_slot_inv:
  assumes "ae_inv s" and "\<not> sys_crashed s" and "acquire_slot i s = Some s'"
  shows "ae_inv s'"
proof -
  have i: "i < length (sys_gos s)" "g_phase (sys_gos s ! i) = Waiting" "0 < ae_workerPool (sys_exec s)"
    and s': "s' = set_phase i Running (s\<lparr>sys_exec := (sys_exec s)\<lparr>ae_workerPool := ae_workerPool (sys_exec s) - 1\<rparr>\<rparr>)"
    using assms(3) by (auto simp: acquire_slot_def put_pool_def split: if_splits)
  have ok: "go_ok (sys_chans s) (sys_gos s ! i)" using assms(1) i(1) by (rule ae_inv_go) simp
  show ?thesis unfolding s'
    by (rule quiet_step_inv [OF assms(1,2) i(1) refl])
      (use ok i in \<open>auto simp: g_defs go_ok_def split: ae_kind.splits\<close>)
qed

lemma release_slot_inv:
  assumes "ae_inv s" and "\<not> sys_crashed s" and "release_slot i s = Some s'"
  shows "ae_inv s'"
proof -
  have i: "i < length (sys_gos s)" "g_phase (sys_gos s ! i) = Sent"
    and s': "s' = set_phase i Released (s\<lparr>sys_exec := (sys_exec s)\<lparr>ae_workerPool := ae_workerPool (sys_exec s) + 1\<rparr>\<rparr>)"
    using assms(3) by (auto simp: release_slot_def put_pool_def split: if_splits)
  have ok: "go_ok (sys_chans s) (sys_gos s ! i)" using assms(1) i(1) by (rule ae_inv_go) simp
  show ?thesis unfolding s'
    by (rule quiet_step_inv [OF assms(1,2) i(1) refl])
      (use ok i in \<open>auto simp: g_defs go_ok_def split: ae_kind.splits\<close>)
qed

lemma unregister_inv:
  assumes "ae_inv s" and "\<not> sys_crashed s" and "unregister i s = Some s'"
  shows "ae_inv s'"
proof -
  have i: "i < length (sys_gos s)" "g_phase (sys_gos s ! i) = Released"
    and s': "s' = set_phase i Unregistered (s\<lparr>sys_exec := (sys_exec s)\<lparr>ae_activeTasks :=
      gm_del (g_id (sys_gos s ! i)) (ae_activeTasks (sys_exec s))\<rparr>\<rparr>)"
    using assms(3) by (auto simp: unregister_def unlist_def split: if_splits)
  have ok: "go_ok (sys_chans s) (sys_gos s ! i)" using assms(1) i(1) by (rule ae_inv_go) simp
  show ?thesis unfolding s'
    by (rule quiet_step_inv [OF assms(1,2) i(1) refl])
      (use ok i in \<open>auto simp: g_defs go_ok_def gm_keys_del\<close>)
qed

lemma ctx_done_inv:
  assumes "ae_inv s" and "\<not> sys_crashed s" and "ctx_done i err s = Some s'"
  shows "ae_inv s'"
proof -
  have i: "i < length (sys_gos s)" "g_phase (sys_gos s ! i) = Waiting"
    using assms(3) by (auto simp: ctx_done_def split: if_splits)
  have ok: "go_ok (sys_chans s) (sys_gos s ! i)" using assms(1) i(1) by (rule ae_inv_go) simp
  obtain r where r: "ar_TaskID r = g_id (sys_gos s ! i)"
      "map_option (set_phase i Released) (chan_send (g_chan (sys_gos s ! i)) r s) = Some s'"
    using assms(3) i by (auto simp: ctx_done_def Let_def intro!: that)
  show ?thesis
    by (rule send_step_inv [OF assms(1,2) i(1) refl _ r(1) _ _ _ _ _ r(2)])
      (use ok i in \<open>auto simp: g_defs go_ok_def gm_keys_del\<close>)
qed

lemma send_result_inv:
  assumes "ae_inv s" and "\<not> sys_crashed s" and "send_result i s = Some s'"
  shows "ae_inv s'"
proof -
  obtain r where i: "i < length (sys_gos s)" "g_phase (sys_gos s ! i) = Unlisted r"
    using assms(3) by (auto simp: send_result_def split: if_splits ae_phase.splits)
  have ok: "go_ok (sys_chans s) (sys_gos s ! i)" using assms(1) i(1) by (rule ae_inv_go) simp
  have s': "map_option (set_phase i Unregistered) (chan_send (g_chan (sys_gos s ! i)) r s) = Some s'"
    using assms(3) i by (simp add: send_result_def)
  show ?thesis
    by (rule send_step_inv [OF assms(1,2) i(1) refl _ _ _ _ _ _ _ s'])
      (use ok i in \<open>auto simp: g_defs go_ok_def gm_keys_del\<close>)
qed

lemma run_func_inv:
  assumes "ae_inv s" and "\<not> sys_crashed s" and "run_func i d s = Some s'"
  shows "ae_inv s'"
proof -
  let ?g = "sys_gos s ! i"
  let ?fn = "at_Func (g_task ?g) (g_id ?g \<in> set (sys_cancelled s))"
  have i: "i < length (sys_gos s)" "g_phase ?g = Running"
    using assms(3) by (auto simp: run_func_def split: if_splits)
  have ok: "go_ok (sys_chans s) ?g" using assms(1) i(1) by (rule ae_inv_go) simp
  consider (retried) rc w where "g_kind ?g = Retried rc w"
    | (panic) m where "pooled ?g" "Option.bind (snd (?fn 1)) IsPanic = Some m"
    | (send) "pooled ?g" "Option.bind (snd (?fn 1)) IsPanic = None"
    by (cases "g_kind ?g"; cases "Option.bind (snd (?fn 1)) IsPanic") (auto simp: pooled_def)
  then show ?thesis
  proof cases
    case retried
    define res where "res = Execute (rc_Policy rc) (at_Name (g_task ?g)) ?fn w"
    define r where "r = \<lparr>ar_TaskID = g_id ?g, ar_Name = at_Name (g_task ?g), ar_Output = fst res,
      ar_Err = snd res, ar_Duration = d\<rparr>"
    have r: "ar_TaskID r = g_id ?g" "s' = set_phase i (Unlisted r) (s\<lparr>sys_exec :=
        (sys_exec s)\<lparr>ae_activeTasks := gm_del (g_id ?g) (ae_activeTasks (sys_exec s))\<rparr>\<rparr>)"
      using assms(3) i retried by (simp_all add: run_func_def unlist_def Let_def r_def res_def case_prod_unfold)
    show ?thesis unfolding r(2)
      by (rule quiet_step_inv [OF assms(1,2) i(1) refl])
        (use ok i r(1) retried in \<open>auto simp: g_defs go_ok_def gm_keys_del\<close>)
  next
    case panic
    then have "s' = s\<lparr>sys_crashed := True\<rparr>"
      using assms(3) i by (auto simp: run_func_def Let_def pooled_def split: ae_kind.splits)
    moreover have "panics ?g" using panic by (auto simp: panics_def)
    ultimately show ?thesis using assms(1) i(1) by (auto simp: ae_inv_def)
  next
    case send
    then obtain r where r: "ar_TaskID r = g_id ?g"
        "map_option (set_phase i Sent) (chan_send (g_chan ?g) r s) = Some s'"
      using assms(3) i by (auto simp: run_func_def Let_def pooled_def case_prod_unfold intro!: that split: ae_kind.splits)
    show ?thesis
      by (rule send_step_inv [OF assms(1,2) i(1) refl _ r(1) _ _ _ _ _ r(2)])
        (use ok i send in \<open>auto simp: g_defs go_ok_def\<close>)
  qed
qed

lemma finish_inv:
  assumes "ae_inv s" and "\<not> sys_crashed s" and "finish i s = Some s'"
  shows "ae_inv s'"
proof -
  let ?g = "sys_gos s ! i"
  let ?ch = "sys_chans s ! g_chan ?g"
  have i: "i < length (sys_gos s)" "g_phase ?g = Unregistered"
    using assms(3) by (auto simp: finish_def split: if_splits)
  have ok: "go_ok (sys_chans s) ?g" "g_chan ?g < length (sys_chans s)"
    using ae_inv_go [OF assms(1) i(1) refl] by simp_all
  obtain R where R: "chan_ok (add_mset ?g R) (g_chan ?g) ?ch"
    using ae_inv_go(3) [OF assms(1) i(1) refl] by blast
  define ch' where "ch' = (if g_kind ?g = Batched then ?ch\<lparr>rch_wait := map_option (\<lambda>n. n - 1) (rch_wait ?ch)\<rparr>
    else ?ch\<lparr>rch_closed := True\<rparr>)"
  have "\<not> rch_closed ?ch"
    using chan_ok_finish(3) [OF R i(2), of "?g\<lparr>g_phase := Finished\<rparr>"] by simp
  then have "s' = s\<lparr>sys_exec := sys_exec s, sys_gos := (sys_gos s)[i := ?g\<lparr>g_phase := Finished\<rparr>],
      sys_chans := (sys_chans s)[g_chan ?g := ch']\<rparr>"
    using assms(3) i by (auto simp: finish_def set_phase_def chan_close_def ch'_def Let_def)
  moreover have "ae_inv \<dots>"
  proof (rule go_step_inv [OF assms(1,2) i(1) refl])
    show "chan_ok (add_mset (?g\<lparr>g_phase := Finished\<rparr>) R) (g_chan ?g) ch'"
      if R: "chan_ok (add_mset ?g R) (g_chan ?g) ?ch" and "go_ok (sys_chans s) ?g" for R
    proof (cases "rch_wait ?ch")
      case None
      then have "ch' = ?ch\<lparr>rch_closed := True\<rparr>" using ok by (simp add: ch'_def go_ok_def)
      then show ?thesis using chan_ok_finish(1) [OF R i(2) _ _ _ None] by simp
    next
      case (Some n)
      then have "ch' = ?ch\<lparr>rch_wait := Some (n - 1)\<rparr>" using ok by (simp add: ch'_def go_ok_def)
      then show ?thesis using chan_ok_finish(2) [OF R i(2) _ _ _ Some] by simp
    qed
  qed (use ok i in \<open>auto simp: g_defs go_ok_def ch'_def\<close>)
  ultimately show ?thesis by simp
qed

text \<open>The steps on one channel only, and the calls.\<close>

lemma ae_ok_chan:
  assumes "ae_ok ex G chs" and "c < length chs" and "chan_ok G c ch'" and "rch_wait ch' = None \<longleftrightarrow> rch_wait (chs ! c) = None"
  shows "ae_ok ex G (chs[c := ch'])"
  using assms by (auto simp: ae_ok_def nth_list_update go_ok_def)

lemma close_batch_inv:
  assumes "ae_inv s" and "\<not> sys_crashed s" and "close_batch c s = Some s'"
  shows "ae_inv s'"
proof -
  have c: "c < length (sys_chans s)" "rch_wait (sys_chans s ! c) = Some 0"
    and s': "s' = s\<lparr>sys_chans := (sys_chans s)[c := (sys_chans s ! c)\<lparr>rch_closed := True\<rparr>]\<rparr>"
    using assms(3) by (auto simp: close_batch_def chan_close_def Let_def split: if_splits)
  have "chan_ok (mset (sys_gos s)) c (sys_chans s ! c)" using assms(1) c by (simp add: ae_inv_def ae_ok_def)
  then have "chan_ok (mset (sys_gos s)) c ((sys_chans s ! c)\<lparr>rch_closed := True\<rparr>)"
    using c(2) by (simp add: chan_ok_def)
  then show ?thesis using assms(1) c by (simp add: s' ae_inv_def ae_ok_chan)
qed

lemma receive_inv:
  assumes "ae_inv s" and "\<not> sys_crashed s" and "receive c s = Some s'"
  shows "ae_inv s'"
proof -
  obtain r rs where c: "c < length (sys_chans s)" "rch_buf (sys_chans s ! c) = r # rs"
    and s': "s' = s\<lparr>sys_chans := (sys_chans s)[c := (sys_chans s ! c)
      \<lparr>rch_buf := rs, rch_taken := rch_taken (sys_chans s ! c) @ [r]\<rparr>]\<rparr>"
    using assms(3) by (auto simp: receive_def split: if_splits list.splits)
  have "chan_ok (mset (sys_gos s)) c (sys_chans s ! c)" using assms(1) c by (simp add: ae_inv_def ae_ok_def)
  then have "chan_ok (mset (sys_gos s)) c ((sys_chans s ! c)
      \<lparr>rch_buf := rs, rch_taken := rch_taken (sys_chans s ! c) @ [r]\<rparr>)"
    using c(2) by (simp add: chan_ok_def split: option.splits)
  then show ?thesis using assms(1) c by (simp add: s' ae_inv_def ae_ok_chan)
qed

lemma Cancel_inv: "ae_inv s \<Longrightarrow> ae_inv (ae_Cancel s)"
  by (simp add: ae_inv_def ae_ok_def ae_Cancel_def)

text \<open>New goroutines on a new channel.\<close>

definition newborn :: "nat \<Rightarrow> goroutine \<Rightarrow> bool" where
  "newborn c g \<longleftrightarrow> g_chan g = c \<and> \<not> has_sent g \<and> \<not> holds_slot g \<and> registered g"

lemma filter_mset_none: "\<forall>x\<in>#M. \<not> P x \<Longrightarrow> filter_mset P M = {#}"
  by (induction M) auto

lemma filter_mset_all: "\<forall>x\<in>#M. P x \<Longrightarrow> filter_mset P M = M"
  by (induction M) auto

lemma ae_ok_submit:
  assumes ok: "ae_ok ex G chs"
    and new: "\<forall>g\<in>#N. newborn (length chs) g \<and> go_ok (chs @ [ch]) g"
    and ch: "ch = \<lparr>rch_cap = size N, rch_buf = [], rch_taken = [], rch_closed = False, rch_wait = w\<rparr>"
    and w: "w = None \<and> size N = 1 \<or> w = Some (size N)"
    and ex: "ae_maxConcurrency ex' = ae_maxConcurrency ex" "ae_workerPool ex' = ae_workerPool ex"
      "gm_dom (ae_activeTasks ex') \<subseteq> gm_dom (ae_activeTasks ex) \<union> g_id ` set_mset N"
  shows "ae_ok ex' (G + N) (chs @ [ch])"
proof -
  let ?n = "length chs"
  have none: "filter_mset holds_slot N = {#}" "filter_mset has_sent N = {#}" "filter_mset (on_chan ?n) N = N"
    "filter_mset (\<lambda>g. g_phase g \<noteq> Finished) N = N"
    using new by (force intro: filter_mset_none simp: newborn_def, force intro: filter_mset_none simp: newborn_def,
      force intro: filter_mset_all simp: newborn_def on_chan_def, force intro: filter_mset_all simp: newborn_def registered_def)
  have old: "filter_mset (on_chan ?n) G = {#}"
  proof -
    have "\<forall>g\<in>#G. go_ok chs g" using ok unfolding ae_ok_def by blast
    then show ?thesis by (intro filter_mset_none) (auto simp: go_ok_def on_chan_def)
  qed
  have chans: "chan_ok (G + N) c (chs ! c)" if "c < ?n" for c
  proof -
    have "filter_mset (on_chan c) N = {#}"
      using new that by (intro filter_mset_none) (auto simp: newborn_def on_chan_def)
    then have eq: "filter_mset (on_chan c) (G + N) = filter_mset (on_chan c) G" by simp
    have "chan_ok G c (chs ! c)" using ok that unfolding ae_ok_def by blast
    then show ?thesis unfolding chan_ok_def eq .
  qed
  have "\<forall>g\<in>#N. g_phase g \<noteq> Finished" using new by (auto simp: newborn_def registered_def)
  then have nonempty: "size N = 1 \<Longrightarrow> \<exists>g\<in>#N. g_phase g \<noteq> Finished"
    by (metis multiset_nonemptyE size_empty zero_neq_one)
  have eq: "filter_mset (on_chan ?n) (G + N) = N" using none(3) old by simp
  have "chan_ok (G + N) ?n ch"
    unfolding chan_ok_def eq using w
  proof (elim disjE)
    assume "w = None \<and> size N = 1"
    then show "rch_cap ch = size N
        \<and> image_mset ar_TaskID (mset (rch_taken ch @ rch_buf ch)) = image_mset g_id (filter_mset has_sent N)
        \<and> (case rch_wait ch of None \<Rightarrow> rch_cap ch = 1 \<and> (rch_closed ch \<longleftrightarrow> (\<forall>g\<in>#N. g_phase g = Finished))
            | Some n \<Rightarrow> n = size {#g \<in># N. g_phase g \<noteq> Finished#} \<and> (rch_closed ch \<longrightarrow> n = 0))"
      using nonempty unfolding ch none(2) by simp
  qed (unfold ch none(2,4), simp)
  with chans have "\<forall>c < length (chs @ [ch]). chan_ok (G + N) c ((chs @ [ch]) ! c)"
    unfolding length_append_singleton All_less_Suc by (simp add: nth_append)
  moreover have "\<forall>g\<in>#G + N. go_ok (chs @ [ch]) g"
  proof -
    have "go_ok (chs @ [ch]) g" if "go_ok chs g" for g using that by (simp add: go_ok_def nth_append)
    moreover have "\<forall>g\<in>#G. go_ok chs g" using ok unfolding ae_ok_def by blast
    ultimately show ?thesis using new by auto
  qed
  moreover have "gm_dom (ae_activeTasks ex') \<subseteq> g_id ` {g. g \<in># G + N \<and> registered g}"
  proof -
    have "gm_dom (ae_activeTasks ex) \<subseteq> g_id ` {g. g \<in># G \<and> registered g}" using ok by (simp add: ae_ok_def)
    moreover have "g_id ` set_mset N \<subseteq> g_id ` {g. g \<in># N \<and> registered g}"
      using new by (intro image_mono) (auto simp: newborn_def)
    ultimately have "gm_dom (ae_activeTasks ex') \<subseteq>
        g_id ` {g. g \<in># G \<and> registered g} \<union> g_id ` {g. g \<in># N \<and> registered g}"
      by (intro order_trans [OF ex(3)] Un_mono)
    also have "\<dots> \<subseteq> g_id ` {g. g \<in># G + N \<and> registered g}"
      unfolding image_Un [symmetric] by (intro image_mono) auto
    finally show ?thesis .
  qed
  moreover have "filter_mset holds_slot (G + N) = filter_mset holds_slot G"
    using none(1) by (simp only: filter_union_mset empty_neutral)
  moreover have "0 < ae_maxConcurrency ex" "ae_workerPool ex + size (filter_mset holds_slot G) = nat (ae_maxConcurrency ex)"
    using ok unfolding ae_ok_def by blast+
  ultimately show ?thesis
    unfolding ae_ok_def ex(1,2) by metis
qed

text \<open>The three calls.\<close>

lemma fold_register:
  "fold register ts s = s\<lparr>sys_exec := (sys_exec s)\<lparr>ae_activeTasks :=
     fold (\<lambda>t. gm_put (at_ID t) t) ts (ae_activeTasks (sys_exec s))\<rparr>\<rparr>"
  by (induction ts arbitrary: s) (simp_all add: register_def)

lemma fold_register_dom:
  "gm_dom (fold (\<lambda>t. gm_put (at_ID t) t) ts m) = gm_dom m \<union> at_ID ` set ts"
  by (induction ts arbitrary: m) (auto simp: gm_keys_put)

lemma fold_spawn:
  "fold (spawn k ph c) ts s =
     s\<lparr>sys_gos := sys_gos s @ map (\<lambda>t. \<lparr>g_task = t, g_kind = k, g_phase = ph, g_chan = c\<rparr>) ts\<rparr>"
  by (induction ts arbitrary: s) (simp_all add: spawn_def)

lemma submit_inv:
  assumes inv: "ae_inv s" "\<not> sys_crashed s"
    and ts: "distinct (map at_ID ts)" "at_ID ` set ts \<inter> set (all_ids s) = {}"
    and kind: "k = Batched \<longleftrightarrow> w \<noteq> None" "ph = (case k of Retried rc d \<Rightarrow> Running | _ \<Rightarrow> Waiting)"
    and w: "w = None \<and> length ts = 1 \<or> w = Some (length ts)"
  shows "ae_inv (fold (spawn k ph (length (sys_chans s))) ts (fold register ts (open_chan (length ts) w s)))"
proof -
  define N where "N = map (\<lambda>t. \<lparr>g_task = t, g_kind = k, g_phase = ph, g_chan = length (sys_chans s)\<rparr>) ts"
  define ch where "ch = \<lparr>rch_cap = length ts, rch_buf = [], rch_taken = [], rch_closed = False, rch_wait = w\<rparr>"
  define ex' where "ex' = (sys_exec s)\<lparr>ae_activeTasks := fold (\<lambda>t. gm_put (at_ID t) t) ts (ae_activeTasks (sys_exec s))\<rparr>"
  have N: "g_id ` set N = at_ID ` set ts" "map g_id N = map at_ID ts" "length N = length ts"
    by (auto simp: N_def image_image)
  have "ae_ok ex' (mset (sys_gos s) + mset N) (sys_chans s @ [ch])"
  proof (rule ae_ok_submit [where w = w])
    show "\<forall>g\<in>#mset N. newborn (length (sys_chans s)) g \<and> go_ok (sys_chans s @ [ch]) g"
      using kind by (auto simp: N_def ch_def newborn_def go_ok_def g_defs nth_append split: ae_kind.splits)
    show "gm_dom (ae_activeTasks ex') \<subseteq> gm_dom (ae_activeTasks (sys_exec s)) \<union> g_id ` set_mset (mset N)"
      using N(1) by (simp add: ex'_def fold_register_dom)
  qed (use inv(1) N(3) w in \<open>simp_all add: ae_inv_def ex'_def ch_def\<close>)
  moreover have "distinct (all_ids s @ map g_id N)"
    using inv(1) ts N(2) by (auto simp: ae_inv_def)
  ultimately have "ae_inv (s\<lparr>sys_exec := ex', sys_gos := sys_gos s @ N, sys_chans := sys_chans s @ [ch]\<rparr>)"
    using inv(2) by (simp add: ae_inv_def)
  then show ?thesis
    by (cases s) (simp add: fold_register fold_spawn open_chan_def ex'_def N_def ch_def)
qed

lemma Execute_inv:
  assumes "ae_inv s" and "\<not> sys_crashed s" and "uid \<notin> set (all_ids s)"
  shows "ae_inv (ae_Execute uid name fn s)" and "ae_inv (ae_ExecuteWithRetry uid name fn rc d s)"
proof -
  let ?t = "\<lparr>at_ID = uid, at_Name = name, at_Func = fn, at_Cancel = True, at_Priority = 0\<rparr>"
  show "ae_inv (ae_Execute uid name fn s)"
    using submit_inv [OF assms(1,2), of "[?t]" Single None Waiting] assms(3) by (simp add: ae_Execute_def Let_def)
  show "ae_inv (ae_ExecuteWithRetry uid name fn rc d s)"
    using submit_inv [OF assms(1,2), of "[?t]" "Retried rc d" None Running] assms(3)
    by (simp add: ae_ExecuteWithRetry_def Let_def)
qed

lemma ExecuteBatch_inv:
  assumes "ae_inv s" and "\<not> sys_crashed s" and "length uids = length tasks" and "distinct uids"
    and "set uids \<inter> g_id ` set (sys_gos s) = {}"
  shows "ae_inv (ae_ExecuteBatch uids tasks s)"
proof -
  let ?ts = "map (\<lambda>(uid, t). t\<lparr>at_ID := uid\<rparr>) (zip uids tasks)"
  have "map at_ID ?ts = uids" using assms(3)
    by (induction uids tasks rule: list_induct2) auto
  moreover from this have "at_ID ` set ?ts = set uids" by (metis list.set_map)
  ultimately show ?thesis
    using submit_inv [OF assms(1,2), of ?ts Batched "Some (length ?ts)" Waiting] assms(3-5)
    by (simp add: ae_ExecuteBatch_def Let_def)
qed

lemma ae_step_inv:
  assumes "ae_inv s" and "ae_step e s = Some s'"
  shows "ae_inv s'"
  using assms
  by (cases e) (auto simp: ae_step_def split: if_splits
      dest: acquire_slot_inv ctx_done_inv run_func_inv send_result_inv release_slot_inv unregister_inv
        finish_inv close_batch_inv receive_inv
      intro: Execute_inv ExecuteBatch_inv Cancel_inv)

lemma new_system_inv: "ae_inv (new_system mc)"
  by (simp add: ae_inv_def ae_ok_def new_system_def NewAsyncExecutor_def Let_def)

lemma ae_reachable_inv: "ae_reachable mc s \<Longrightarrow> ae_inv s"
  by (induction rule: ae_reachable.induct) (auto intro: new_system_inv ae_step_inv)

section \<open>Every task is answered\<close>

text \<open>
  The steps that a goroutine takes by itself once its function returns; the end of a context while a
  task waits is left out, since it may never come. \<open>ae_work\<close> bounds how many there can be.
\<close>

fun ae_internal :: "ae_event \<Rightarrow> bool" where
  "ae_internal (AcquireSlot i) = True"
| "ae_internal (RunFunc i d) = True"
| "ae_internal (SendResult i) = True"
| "ae_internal (ReleaseSlot i) = True"
| "ae_internal (Unregister i) = True"
| "ae_internal (Finish i) = True"
| "ae_internal (CloseBatch c) = True"
| "ae_internal _ = False"

fun ae_submits :: "ae_event \<Rightarrow> bool" where
  "ae_submits (Submit uid name fn) = True"
| "ae_submits (SubmitBatch uids ts) = True"
| "ae_submits (SubmitRetry uid name fn rc w) = True"
| "ae_submits _ = False"

fun phase_work :: "ae_phase \<Rightarrow> nat" where
  "phase_work Waiting = 5"
| "phase_work Running = 4"
| "phase_work Sent = 3"
| "phase_work (Unlisted r) = 3"
| "phase_work Released = 2"
| "phase_work Unregistered = 1"
| "phase_work Finished = 0"

definition ae_work :: "async_system \<Rightarrow> nat" where
  "ae_work s = sum_list (map (\<lambda>g. phase_work (g_phase g)) (sys_gos s))
     + length (filter (\<lambda>ch. rch_wait ch \<noteq> None \<and> \<not> rch_closed ch) (sys_chans s))"

lemma sum_list_phase_update:
  assumes "i < length gs"
  shows "sum_list (map (\<lambda>g. phase_work (g_phase g)) (gs[i := (gs ! i)\<lparr>g_phase := ph\<rparr>])) + phase_work (g_phase (gs ! i)) =
    sum_list (map (\<lambda>g. phase_work (g_phase g)) gs) + phase_work ph"
  using assms by (induction gs arbitrary: i) (auto simp: nth_Cons split: nat.splits)

lemma length_filter_update_same:
  "P x \<longleftrightarrow> P (xs ! i) \<Longrightarrow> length (filter P (xs[i := x])) = length (filter P xs)"
proof (induction xs arbitrary: i)
  case (Cons a xs)
  then show ?case by (cases i) auto
qed simp

lemma length_filter_update_less:
  assumes "i < length xs" and "P (xs ! i)" and "\<not> P x"
  shows "length (filter P (xs[i := x])) < length (filter P xs)"
  using assms
proof (induction xs arbitrary: i)
  case (Cons a xs)
  then show ?case by (cases i) auto
qed simp

lemma ae_work_phase:
  assumes "i < length (sys_gos s)" and "phase_work ph < phase_work (g_phase (sys_gos s ! i))"
    and "length (filter (\<lambda>ch. rch_wait ch \<noteq> None \<and> \<not> rch_closed ch) (sys_chans s'))
      = length (filter (\<lambda>ch. rch_wait ch \<noteq> None \<and> \<not> rch_closed ch) (sys_chans s))"
    and "sys_gos s' = sys_gos s"
  shows "ae_work (set_phase i ph s') < ae_work s"
  using sum_list_phase_update [OF assms(1), of ph] assms(2-4) by (simp add: ae_work_def set_phase_def)

lemma chan_send_work:
  assumes "chan_send c r s = Some s'"
  shows "sys_gos s' = sys_gos s"
    and "length (filter (\<lambda>ch. rch_wait ch \<noteq> None \<and> \<not> rch_closed ch) (sys_chans s'))
      = length (filter (\<lambda>ch. rch_wait ch \<noteq> None \<and> \<not> rch_closed ch) (sys_chans s))"
  using assms
  by (auto simp: chan_send_def Let_def split: if_splits intro!: length_filter_update_same)

lemma chan_close_work:
  assumes "rch_wait (sys_chans s ! c) = None"
  shows "sys_gos (chan_close c s) = sys_gos s"
    and "length (filter (\<lambda>ch. rch_wait ch \<noteq> None \<and> \<not> rch_closed ch) (sys_chans (chan_close c s)))
      = length (filter (\<lambda>ch. rch_wait ch \<noteq> None \<and> \<not> rch_closed ch) (sys_chans s))"
  using assms by (auto simp: chan_close_def Let_def intro!: length_filter_update_same)

lemma ae_step_work:
  assumes "ae_inv s" and "ae_step e s = Some s'" and "\<not> sys_crashed s'"
  shows "ae_internal e \<Longrightarrow> ae_work s' < ae_work s"
    and "\<not> ae_submits e \<Longrightarrow> ae_work s' \<le> ae_work s"
proof -
  have quiet: "ae_work (set_phase i ph (s\<lparr>sys_exec := ex\<rparr>)) < ae_work s"
    if "i < length (sys_gos s)" "phase_work ph < phase_work (g_phase (sys_gos s ! i))" for i ph ex
    using that by (auto intro!: ae_work_phase)
  have send: "ae_work (set_phase i ph z) < ae_work s"
    if "chan_send c r s = Some z" "i < length (sys_gos s)" "phase_work ph < phase_work (g_phase (sys_gos s ! i))" for i ph c r z
    using that chan_send_work by (auto intro!: ae_work_phase)
  have finish: "ae_work s' < ae_work s" if "finish i s = Some s'" for i
  proof -
    have i: "i < length (sys_gos s)" "g_phase (sys_gos s ! i) = Unregistered"
      using that by (auto simp: finish_def split: if_splits)
    have ok: "go_ok (sys_chans s) (sys_gos s ! i)" by (rule ae_inv_go(1) [OF assms(1) i(1) refl])
    show ?thesis
      using that i ok chan_close_work
      by (auto simp: finish_def Let_def go_ok_def intro!: ae_work_phase length_filter_update_same split: if_splits)
  qed
  have close: "ae_work s' < ae_work s" if "close_batch c s = Some s'" for c
    using that by (auto simp: close_batch_def chan_close_def ae_work_def Let_def
        intro!: length_filter_update_less split: if_splits)
  have run: "ae_work s' < ae_work s" if "run_func i d s = Some s'" for i d
    using that assms(3)
    by (auto simp: run_func_def Let_def unlist_def split: if_splits ae_kind.splits option.splits intro!: quiet intro: send)
  have int: "ae_work s' < ae_work s" if "ae_internal e"
    using assms(2) that run finish close
    by (cases e) (auto simp: ae_step_def acquire_slot_def release_slot_def unregister_def send_result_def
        put_pool_def unlist_def
        split: if_splits ae_phase.splits option.splits intro!: quiet intro: send)
  then show "ae_internal e \<Longrightarrow> ae_work s' < ae_work s" .
  have "ae_work s' \<le> ae_work s" if "receive c s = Some s'" for c
    using that by (auto simp: receive_def ae_work_def split: if_splits list.splits intro!: length_filter_update_same eq_refl)
  moreover have "ae_work s' \<le> ae_work s" if "ctx_done i err s = Some s'" for i err
    using that send by (auto simp: ctx_done_def Let_def split: if_splits intro!: less_imp_le)
  ultimately show "\<not> ae_submits e \<Longrightarrow> ae_work s' \<le> ae_work s"
    using int assms(2) by (cases e) (auto simp: ae_step_def ae_Cancel_def ae_work_def split: if_splits)
qed

text \<open>When no internal step is possible, every goroutine has finished.\<close>

lemma holder_exists:
  assumes "ae_inv s" and "ae_workerPool (sys_exec s) = 0"
  obtains i where "i < length (sys_gos s)" and "holds_slot (sys_gos s ! i)"
proof -
  have "filter_mset holds_slot (mset (sys_gos s)) \<noteq> {#}"
    using assms unfolding ae_inv_def ae_ok_def by (metis add_cancel_right_left nat_0_iff not_le size_empty)
  then obtain g where "g \<in> set (sys_gos s)" "holds_slot g" using filter_mset_none by fastforce
  then show ?thesis using that by (auto simp: in_set_conv_nth)
qed

lemma chan_send_room:
  assumes "ae_inv s" and "i < length (sys_gos s)" and "\<not> has_sent (sys_gos s ! i)"
  shows "chan_send (g_chan (sys_gos s ! i)) r s \<noteq> None"
proof -
  obtain R where "chan_ok (add_mset (sys_gos s ! i) R) (g_chan (sys_gos s ! i)) (sys_chans s ! g_chan (sys_gos s ! i))"
    using ae_inv_go(3) [OF assms(1,2) refl] by blast
  from chan_ok_room [OF this assms(3)] show ?thesis by (simp add: chan_send_def Let_def)
qed

lemma running_enabled:
  assumes "ae_inv s" and "i < length (sys_gos s)" and "g_phase (sys_gos s ! i) = Running"
  shows "run_func i d s \<noteq> None"
  using assms chan_send_room [OF assms(1,2)]
  by (auto simp: run_func_def Let_def has_sent_def split: ae_kind.split option.split)

lemma sent_enabled:
  assumes inv: "ae_inv s" and i: "i < length (sys_gos s)" "g_phase (sys_gos s ! i) = Sent"
  shows "release_slot i s \<noteq> None"
proof -
  have "holds_slot (sys_gos s ! i)"
    using ae_inv_go(1) [OF inv i(1) refl] i(2) by (simp add: go_ok_def holds_slot_def)
  moreover obtain R where "mset (sys_gos s) = add_mset (sys_gos s ! i) R"
    using i(1) by (metis update_mset)
  ultimately have "0 < size (filter_mset holds_slot (mset (sys_gos s)))" by simp
  then have "ae_workerPool (sys_exec s) < nat (ae_maxConcurrency (sys_exec s))"
    using inv by (auto simp: ae_inv_def ae_ok_def)
  then show ?thesis using i by (simp add: release_slot_def)
qed

lemma quiescent_finished:
  assumes inv: "ae_inv s" and quiet: "\<forall>e. ae_internal e \<longrightarrow> ae_event_step e s = None"
  shows "\<forall>g \<in> set (sys_gos s). g_phase g = Finished" and "\<forall>ch \<in> set (sys_chans s). rch_closed ch"
proof -
  have steps: "run_func i 0 s = None" "release_slot i s = None" "acquire_slot i s = None"
    "unregister i s = None" "finish i s = None" "send_result i s = None" "close_batch i s = None" for i
    using quiet by (metis ae_event_step.simps ae_internal.simps)+
  have busy: "g_phase (sys_gos s ! i) \<notin> {Running, Sent}" if "i < length (sys_gos s)" for i
    using running_enabled [OF inv that, of 0] sent_enabled [OF inv that] steps(1,2) by auto
  have pool: "ae_workerPool (sys_exec s) \<noteq> 0"
    using busy holder_exists [OF inv] by (metis holds_slot_def)
  have fin: "g_phase (sys_gos s ! i) = Finished" if i: "i < length (sys_gos s)" for i
  proof (cases "g_phase (sys_gos s ! i)")
    case Waiting
    then show ?thesis using pool steps(3) [of i] i by (simp add: acquire_slot_def)
  next
    case (Unlisted r)
    then show ?thesis using chan_send_room [OF inv i, of r] steps(6) [of i] i by (auto simp: send_result_def has_sent_def)
  qed (use busy [OF i] steps(4,5) [of i] i in \<open>auto simp: unregister_def finish_def Let_def\<close>)
  then show all: "\<forall>g \<in> set (sys_gos s). g_phase g = Finished" by (auto simp: in_set_conv_nth)
  have "rch_closed (sys_chans s ! c)" if c: "c < length (sys_chans s)" for c
  proof -
    have "chan_ok (mset (sys_gos s)) c (sys_chans s ! c)" using inv c by (simp add: ae_inv_def ae_ok_def)
    moreover have "filter_mset (\<lambda>g. g_phase g \<noteq> Finished) (filter_mset (on_chan c) (mset (sys_gos s))) = {#}"
      using all by (intro filter_mset_none) auto
    ultimately show ?thesis
      using steps(7) [of c] c all by (auto simp: chan_ok_def close_batch_def split: option.splits if_splits)
  qed
  then show "\<forall>ch \<in> set (sys_chans s). rch_closed ch" by (auto simp: in_set_conv_nth)
qed

section \<open>What a result says\<close>

text \<open>
  The result of a task: what its function returned, under the retry policy where there is one, or
  the error of the context for a task that never got a slot.
\<close>

definition task_outcome :: "async_task \<Rightarrow> ae_kind \<Rightarrow> bool \<Rightarrow> goval \<times> go_error option" where
  "task_outcome t k b =
     (case k of
        Retried rc w \<Rightarrow> Execute (rc_Policy rc) (at_Name t) (at_Func t b) w
      | _ \<Rightarrow> at_Func t b 1)"

definition answers :: "async_task \<times> ae_kind \<Rightarrow> async_result \<Rightarrow> bool" where
  "answers tk r \<longleftrightarrow>
     ar_TaskID r = at_ID (fst tk) \<and> ar_Name r = at_Name (fst tk)
     \<and> ((\<exists>b. (ar_Output r, ar_Err r) = task_outcome (fst tk) (snd tk) b)
        \<or> ar_Output r = GNil \<and> ar_Err r \<noteq> None \<and> (\<forall>rc w. snd tk \<noteq> Retried rc w))"

abbreviation task_kind :: "goroutine \<Rightarrow> async_task \<times> ae_kind" where
  "task_kind g \<equiv> (g_task g, g_kind g)"

definition chan_results :: "result_chan \<Rightarrow> async_result list" where
  "chan_results ch = rch_taken ch @ rch_buf ch"

definition answers_inv :: "async_system \<Rightarrow> bool" where
  "answers_inv s \<longleftrightarrow>
     (\<forall>ch \<in> set (sys_chans s). \<forall>r \<in> set (chan_results ch). \<exists>tk \<in> task_kind ` set (sys_gos s). answers tk r)
     \<and> (\<forall>g \<in> set (sys_gos s). \<forall>r. g_phase g = Unlisted r \<longrightarrow> answers (task_kind g) r)"

lemma set_phase_tasks:
  "task_kind ` set (sys_gos (set_phase i ph s)) = task_kind ` set (sys_gos s)"
proof (cases "i < length (sys_gos s)")
  case True
  have "map task_kind (sys_gos (set_phase i ph s)) = map task_kind (sys_gos s)"
    using True by (simp add: set_phase_def map_update list_update_same_conv)
  then show ?thesis by (metis list.set_map)
qed (simp add: set_phase_def list_update_beyond)

lemma answers_inv_phase:
  assumes "answers_inv s" and "\<And>r. ph = Unlisted r \<Longrightarrow> answers (task_kind (sys_gos s ! i)) r"
  shows "answers_inv (set_phase i ph s)"
proof -
  have "answers (task_kind g) r" if "g \<in> set (sys_gos (set_phase i ph s))" "g_phase g = Unlisted r" for g r
  proof -
    from that(1) have "g = (sys_gos s ! i)\<lparr>g_phase := ph\<rparr> \<or> g \<in> set (sys_gos s)"
      unfolding set_phase_def using set_update_subset_insert by fastforce
    then show ?thesis using assms that(2) by (auto simp: answers_inv_def)
  qed
  moreover have "sys_chans (set_phase i ph s) = sys_chans s" by (simp add: set_phase_def)
  ultimately show ?thesis using assms(1) unfolding answers_inv_def set_phase_tasks by metis
qed

text \<open>A change of a channel whose results all have a task.\<close>

lemma answers_inv_chan:
  assumes "answers_inv s"
    and "\<And>r. c < length (sys_chans s) \<Longrightarrow> r \<in> set (chan_results ch) \<Longrightarrow>
      r \<in> set (chan_results (sys_chans s ! c)) \<or> (\<exists>tk \<in> task_kind ` set (sys_gos s). answers tk r)"
  shows "answers_inv (s\<lparr>sys_chans := (sys_chans s)[c := ch]\<rparr>)"
proof (cases "c < length (sys_chans s)")
  case True
  have old: "\<exists>tk \<in> task_kind ` set (sys_gos s). answers tk r" if "ch' \<in> set (sys_chans s)" "r \<in> set (chan_results ch')" for ch' r
    using assms(1) that unfolding answers_inv_def by blast
  have "\<exists>tk \<in> task_kind ` set (sys_gos s). answers tk r"
    if "ch' \<in> set ((sys_chans s)[c := ch])" "r \<in> set (chan_results ch')" for ch' r
  proof -
    from that(1) consider "ch' = ch" | "ch' \<in> set (sys_chans s)"
      using set_update_subset_insert [of "sys_chans s" c ch] by blast
    then show ?thesis
    proof cases
      case 1
      then show ?thesis using assms(2) [OF True] that(2) old [OF nth_mem [OF True]] by metis
    qed (use old that(2) in blast)
  qed
  then show ?thesis using assms(1) by (simp add: answers_inv_def)
qed (use assms in \<open>simp add: list_update_beyond\<close>)

lemma answers_inv_send:
  assumes "answers_inv s" and "chan_send c r s = Some s'" and "tk \<in> task_kind ` set (sys_gos s)" and "answers tk r"
  shows "answers_inv s'"
proof -
  have "answers_inv (s\<lparr>sys_chans := (sys_chans s)[c := (sys_chans s ! c)\<lparr>rch_buf := rch_buf (sys_chans s ! c) @ [r]\<rparr>]\<rparr>)"
    using assms(1) by (rule answers_inv_chan) (use assms(3,4) in \<open>auto simp: chan_results_def\<close>)
  moreover have "answers_inv (s\<lparr>sys_crashed := True\<rparr>)" using assms(1) by (simp add: answers_inv_def)
  ultimately show ?thesis using assms(2) by (simp add: chan_send_def Let_def split: if_splits)
qed

lemma answers_inv_cong:
  "sys_gos s' = sys_gos s \<Longrightarrow> sys_chans s' = sys_chans s \<Longrightarrow> answers_inv s' = answers_inv s"
  by (simp add: answers_inv_def)

lemma answers_inv_submit:
  assumes "answers_inv s" and "\<forall>g \<in> set N. \<forall>r. g_phase g \<noteq> Unlisted r" and "chan_results ch = []"
  shows "answers_inv (s\<lparr>sys_exec := ex, sys_gos := sys_gos s @ N, sys_chans := sys_chans s @ [ch]\<rparr>)"
  using assms by (fastforce simp: answers_inv_def)

lemma answers_inv_step_send:
  assumes "answers_inv s" and "map_option (set_phase i ph) (chan_send c r s) = Some s'" and "i < length (sys_gos s)"
    and "answers (task_kind (sys_gos s ! i)) r" and "\<And>x. ph \<noteq> Unlisted x"
  shows "answers_inv s'"
proof -
  obtain z where z: "chan_send c r s = Some z" "s' = set_phase i ph z" using assms(2) by auto
  have "task_kind (sys_gos s ! i) \<in> task_kind ` set (sys_gos s)" using assms(3) by simp
  then have "answers_inv z" by (rule answers_inv_send [OF assms(1) z(1) _ assms(4)])
  then show ?thesis unfolding z(2) by (rule answers_inv_phase) (use assms(5) in simp)
qed

lemma run_func_answers:
  assumes inv: "answers_inv s" and s': "run_func i d s = Some s'"
  shows "answers_inv s'"
proof -
  let ?g = "sys_gos s ! i"
  have i: "i < length (sys_gos s)" using s' by (auto simp: run_func_def split: if_splits)
  define out where "out = task_outcome (g_task ?g) (g_kind ?g) (g_id ?g \<in> set (sys_cancelled s))"
  define r where "r = \<lparr>ar_TaskID = g_id ?g, ar_Name = at_Name (g_task ?g), ar_Output = fst out, ar_Err = snd out,
    ar_Duration = d\<rparr>"
  have r: "answers (task_kind ?g) r" by (auto simp: answers_def r_def out_def)
  have "s' = set_phase i (Unlisted r) (unlist (g_id ?g) s) \<or> s' = s\<lparr>sys_crashed := True\<rparr>
      \<or> map_option (set_phase i Sent) (chan_send (g_chan ?g) r s) = Some s'"
    using s' by (auto simp: run_func_def Let_def r_def out_def task_outcome_def case_prod_unfold
        split: if_splits ae_kind.splits option.splits)
  then show ?thesis
  proof (elim disjE)
    assume "s' = set_phase i (Unlisted r) (unlist (g_id ?g) s)"
    moreover have "answers_inv (unlist (g_id ?g) s)" using inv by (simp add: answers_inv_def unlist_def)
    moreover have "sys_gos (unlist (g_id ?g) s) = sys_gos s" by (simp add: unlist_def)
    ultimately show ?thesis using r by (auto intro!: answers_inv_phase)
  next
    assume "map_option (set_phase i Sent) (chan_send (g_chan ?g) r s) = Some s'"
    then show ?thesis by (rule answers_inv_step_send [OF inv _ i r]) simp
  qed (use inv in \<open>simp add: answers_inv_def\<close>)
qed

lemma ae_step_answers:
  assumes inv: "answers_inv s" "ae_inv s" and step: "ae_step e s = Some s'"
  shows "answers_inv s'"
proof -
  have e: "ae_event_step e s = Some s'" using step by (simp add: ae_step_def split: if_splits)
  have ex: "answers_inv (set_phase i ph (s\<lparr>sys_exec := x\<rparr>))" if "\<And>r. ph \<noteq> Unlisted r" for i ph x
  proof (rule answers_inv_phase)
    show "answers_inv (s\<lparr>sys_exec := x\<rparr>)" using inv(1) by (simp add: answers_inv_def)
  qed (use that in blast)
  have chan: "answers_inv (s\<lparr>sys_chans := (sys_chans s)[c := ch]\<rparr>)"
    if "chan_results ch = chan_results (sys_chans s ! c)" for c ch
    using inv(1) that by (intro answers_inv_chan) simp_all
  have close: "answers_inv (chan_close c s)" for c
  proof -
    have "answers_inv (s\<lparr>sys_crashed := True\<rparr>)" using inv(1) by (simp add: answers_inv_def)
    then show ?thesis by (auto simp: chan_close_def Let_def chan_results_def intro!: chan)
  qed
  show ?thesis
  proof (cases e)
    case (CtxDone i err)
    let ?g = "sys_gos s ! i"
    have i: "i < length (sys_gos s)" "g_phase ?g = Waiting"
      using e CtxDone by (auto simp: ctx_done_def split: if_splits)
    have "pooled ?g" using ae_inv_go(1) [OF inv(2) i(1) refl] i(2) by (simp add: go_ok_def)
    then show ?thesis using e CtxDone i
      by (intro answers_inv_step_send [OF inv(1) _ i(1)])
        (auto simp: ctx_done_def Let_def answers_def pooled_def)
  next
    case (SendResult i)
    obtain r where i: "i < length (sys_gos s)" "g_phase (sys_gos s ! i) = Unlisted r"
      using e SendResult by (auto simp: send_result_def split: if_splits ae_phase.splits)
    then have "answers (task_kind (sys_gos s ! i)) r" using inv(1) nth_mem by (auto simp: answers_inv_def)
    then show ?thesis using e SendResult i
      by (intro answers_inv_step_send [OF inv(1) _ i(1)]) (auto simp: send_result_def)
  next
    case (Submit uid name fn)
    then show ?thesis using e answers_inv_submit [OF inv(1)]
      by (cases s) (auto simp: ae_Execute_def Let_def spawn_def register_def open_chan_def chan_results_def split: if_splits)
  next
    case (SubmitRetry uid name fn rc w)
    then show ?thesis using e answers_inv_submit [OF inv(1)]
      by (cases s) (auto simp: ae_ExecuteWithRetry_def Let_def spawn_def register_def open_chan_def chan_results_def
          split: if_splits)
  next
    case (SubmitBatch uids tasks)
    then show ?thesis using e answers_inv_submit [OF inv(1)]
      by (cases s) (auto simp: ae_ExecuteBatch_def Let_def fold_spawn fold_register open_chan_def chan_results_def
          split: if_splits)
  next
    case (Finish i)
    then show ?thesis using e close chan
      by (auto simp: finish_def Let_def chan_results_def split: if_splits intro!: answers_inv_phase)
  qed (use e ex chan close inv run_func_answers in \<open>auto simp: acquire_slot_def release_slot_def unregister_def put_pool_def
      unlist_def close_batch_def receive_def chan_results_def ae_Cancel_def answers_inv_cong [of "_\<lparr>sys_exec := _, sys_cancelled := _\<rparr>" s]
      split: if_splits list.splits\<close>)
qed

section \<open>Properties of the executor\<close>

lemma ae_step_max:
  assumes "ae_step e s = Some s'"
  shows "ae_maxConcurrency (sys_exec s') = ae_maxConcurrency (sys_exec s)"
proof -
  have send: "sys_exec z = sys_exec s" if "chan_send c r s = Some z" for c r z
    using that by (auto simp: chan_send_def Let_def split: if_splits)
  show ?thesis
    using assms send
    by (cases e) (auto simp: ae_step_def acquire_slot_def release_slot_def unregister_def finish_def send_result_def
        close_batch_def receive_def ctx_done_def run_func_def ae_Cancel_def put_pool_def unlist_def set_phase_def
        chan_close_def Let_def ae_Execute_def ae_ExecuteWithRetry_def ae_ExecuteBatch_def spawn_def register_def
        open_chan_def fold_spawn fold_register
        split: if_splits option.splits ae_phase.splits ae_kind.splits list.splits)
qed

definition slot_limit :: "int \<Rightarrow> nat" where
  "slot_limit mc = (if mc \<le> 0 then 10 else nat mc)"

lemma ae_reachable_max: "ae_reachable mc s \<Longrightarrow> nat (ae_maxConcurrency (sys_exec s)) = slot_limit mc"
  by (induction rule: ae_reachable.induct)
    (auto simp: ae_step_max new_system_def NewAsyncExecutor_def slot_limit_def Let_def)

lemma ae_reachable_answers: "ae_reachable mc s \<Longrightarrow> answers_inv s"
proof (induction rule: ae_reachable.induct)
  case ae_start
  show ?case by (simp add: answers_inv_def new_system_def)
qed (blast intro: ae_step_answers ae_reachable_inv)

lemma ae_run_reachable: "ae_reachable mc s \<Longrightarrow> ae_run evs s = Some s' \<Longrightarrow> ae_reachable mc s'"
  by (induction evs arbitrary: s) (auto simp: bind_eq_Some_conv intro: ae_next)

text \<open>
  C13: in every interleaving, at most \<open>slot_limit mc\<close> tasks of \<^verbatim>\<open>Execute\<close> and \<^verbatim>\<open>ExecuteBatch\<close> run at
  the same time, and no slot is lost or made: those held and those in the pool are together as many
  as the executor was created with.
\<close>

theorem async_slot_limit:
  assumes "ae_reachable mc s"
  shows "ae_workerPool (sys_exec s) + length (filter holds_slot (sys_gos s)) = slot_limit mc
    \<and> length (filter (\<lambda>g. pooled g \<and> g_phase g = Running) (sys_gos s)) \<le> slot_limit mc"
proof -
  have "ae_workerPool (sys_exec s) + length (filter holds_slot (sys_gos s)) = slot_limit mc"
    using ae_reachable_inv [OF assms] ae_reachable_max [OF assms]
    by (simp add: ae_inv_def ae_ok_def flip: size_mset mset_filter)
  moreover have "filter (\<lambda>g. pooled g \<and> g_phase g = Running) (sys_gos s) =
      filter (\<lambda>g. g_phase g = Running) (filter holds_slot (sys_gos s))"
    by (auto simp: holds_slot_def intro!: filter_cong)
  then have "length (filter (\<lambda>g. pooled g \<and> g_phase g = Running) (sys_gos s)) \<le> length (filter holds_slot (sys_gos s))"
    by (simp only: length_filter_le)
  ultimately show ?thesis by linarith
qed

lemma ae_run_work:
  assumes "ae_inv s" and "ae_run evs s = Some s'" and "list_all (\<lambda>e. \<not> ae_submits e) evs" and "\<not> sys_crashed s'"
  shows "length (filter ae_internal evs) + ae_work s' \<le> ae_work s"
  using assms
proof (induction evs arbitrary: s)
  case (Cons e evs)
  then obtain t where t: "ae_step e s = Some t" "ae_run evs t = Some s'" by (auto simp: bind_eq_Some_conv)
  have inv: "ae_inv t" using Cons.prems(1) t(1) by (rule ae_step_inv)
  have ok: "\<not> sys_crashed t"
    using t(2) Cons.prems(4) by (cases evs) (auto simp: ae_step_def)
  have "length (filter ae_internal evs) + ae_work s' \<le> ae_work t"
    using inv t(2) Cons.prems(3,4) by (intro Cons.IH) simp_all
  then show ?case
    using ae_step_work [OF Cons.prems(1) t(1) ok] Cons.prems(3) by (cases "ae_internal e") auto
qed simp

text \<open>Steps other than submissions bring no new goroutine, and none changes its task.\<close>

lemma ae_step_tasks:
  assumes "ae_step e s = Some s'" and "\<not> ae_submits e"
  shows "map task_kind (sys_gos s') = map task_kind (sys_gos s)"
proof -
  have send: "sys_gos z = sys_gos s" if "chan_send c r s = Some z" for c r z
    using chan_send_work(1) [OF that] .
  have upd: "map task_kind (gs[i := (gs ! i)\<lparr>g_phase := ph\<rparr>]) = map task_kind gs" for gs i ph
    by (cases "i < length gs") (simp_all add: map_update list_update_same_conv list_update_beyond)
  show ?thesis
    using assms
    by (cases e) (auto simp: ae_step_def acquire_slot_def release_slot_def unregister_def finish_def send_result_def
        close_batch_def receive_def ctx_done_def run_func_def ae_Cancel_def put_pool_def unlist_def set_phase_def
        chan_close_def Let_def send upd
        split: if_splits option.splits ae_phase.splits ae_kind.splits list.splits)
qed

lemma ae_run_tasks:
  "ae_run evs s = Some s' \<Longrightarrow> list_all (\<lambda>e. \<not> ae_submits e) evs \<Longrightarrow>
    map task_kind (sys_gos s') = map task_kind (sys_gos s)"
  by (induction evs arbitrary: s) (auto simp: bind_eq_Some_conv ae_step_tasks)

lemma panics_task: "panics g \<longleftrightarrow> (case task_kind g of (t, k) \<Rightarrow>
    (case k of Retried rc w \<Rightarrow> False | _ \<Rightarrow> True) \<and> (\<exists>b m. Option.bind (snd (at_Func t b 1)) IsPanic = Some m))"
  by (simp add: panics_def pooled_def)

lemma ae_run_panics:
  assumes "map task_kind gs' = map task_kind gs" and "\<forall>g \<in> set gs. \<not> panics g"
  shows "\<forall>g \<in> set gs'. \<not> panics g"
proof
  fix g assume "g \<in> set gs'"
  then have "task_kind g \<in> set (map task_kind gs)" by (simp flip: assms(1))
  then obtain h where "h \<in> set gs" "task_kind h = task_kind g" by auto
  then show "\<not> panics g" using assms(2) panics_task [of g] panics_task [of h] by simp
qed

lemma filter_on_chan_mset: "filter_mset (on_chan c) (mset gs) = mset (filter (\<lambda>g. g_chan g = c) gs)"
  by (simp add: on_chan_def [abs_def])

text \<open>
  C12: every task is answered. From any reachable state and whatever the interleaving, as long as
  nothing new is submitted and no function panics outside a retry: the program does not
  crash (no send on a closed channel, no second close), the goroutines take at most \<open>ae_work s\<close> more
  steps, and a state in which none of them can move is final: all have finished, every slot is back in
  the pool, no task is listed as active, every result channel is closed and has delivered exactly one
  result for each of its tasks, which is what the task's function returned.
\<close>

theorem async_completes:
  assumes "ae_reachable mc s" and "ae_run evs s = Some s'"
    and "list_all (\<lambda>e. \<not> ae_submits e) evs" and "\<forall>g \<in> set (sys_gos s). \<not> panics g"
  shows "\<not> sys_crashed s' \<and> length (filter ae_internal evs) \<le> ae_work s
    \<and> ((\<forall>e. ae_internal e \<longrightarrow> ae_step e s' = None) \<longrightarrow>
        (\<forall>g \<in> set (sys_gos s'). g_phase g = Finished)
        \<and> ae_workerPool (sys_exec s') = slot_limit mc \<and> GetActiveTaskCount s' = 0
        \<and> (\<forall>c < length (sys_chans s'). rch_closed (sys_chans s' ! c)
            \<and> mset (map ar_TaskID (chan_results (sys_chans s' ! c)))
                = mset (map g_id (filter (\<lambda>g. g_chan g = c) (sys_gos s')))
            \<and> (\<forall>r \<in> set (chan_results (sys_chans s' ! c)).
                 \<exists>g \<in> set (sys_gos s). answers (g_task g, g_kind g) r)))"
proof -
  have inv: "ae_inv s" using assms(1) by (rule ae_reachable_inv)
  have reach: "ae_reachable mc s'" by (rule ae_run_reachable [OF assms(1,2)])
  have inv': "ae_inv s'" using reach by (rule ae_reachable_inv)
  have tasks: "map task_kind (sys_gos s') = map task_kind (sys_gos s)" by (rule ae_run_tasks [OF assms(2,3)])
  have ok: "\<not> sys_crashed s'" using inv' ae_run_panics [OF tasks assms(4)] by (auto simp: ae_inv_def)
  moreover have "length (filter ae_internal evs) \<le> ae_work s"
    using ae_run_work [OF inv assms(2,3) ok] by simp
  moreover have "(\<forall>g \<in> set (sys_gos s'). g_phase g = Finished)
        \<and> ae_workerPool (sys_exec s') = slot_limit mc \<and> GetActiveTaskCount s' = 0
        \<and> (\<forall>c < length (sys_chans s'). rch_closed (sys_chans s' ! c)
            \<and> mset (map ar_TaskID (chan_results (sys_chans s' ! c)))
                = mset (map g_id (filter (\<lambda>g. g_chan g = c) (sys_gos s')))
            \<and> (\<forall>r \<in> set (chan_results (sys_chans s' ! c)).
                 \<exists>g \<in> set (sys_gos s). answers (g_task g, g_kind g) r))"
    if quiet: "\<forall>e. ae_internal e \<longrightarrow> ae_step e s' = None"
  proof -
    have "\<forall>e. ae_internal e \<longrightarrow> ae_event_step e s' = None" using quiet ok by (simp add: ae_step_def)
    from quiescent_finished [OF inv' this]
    have fin: "\<forall>g \<in> set (sys_gos s'). g_phase g = Finished" and closed: "\<forall>ch \<in> set (sys_chans s'). rch_closed ch" .
    have "filter_mset holds_slot (mset (sys_gos s')) = {#}"
      using fin by (intro filter_mset_none) (auto simp: holds_slot_def)
    then have "ae_workerPool (sys_exec s') = slot_limit mc"
      using inv' ae_reachable_max [OF reach] unfolding ae_inv_def ae_ok_def by (metis add_0_right size_empty)
    moreover have "{g. g \<in># mset (sys_gos s') \<and> registered g} = {}" using fin by (auto simp: registered_def)
    then have "gm_dom (ae_activeTasks (sys_exec s')) \<subseteq> {}"
      using inv' unfolding ae_inv_def ae_ok_def by (metis image_empty)
    then have "GetActiveTaskCount s' = 0" by (simp add: GetActiveTaskCount_def)
    moreover have "mset (map ar_TaskID (chan_results (sys_chans s' ! c)))
          = mset (map g_id (filter (\<lambda>g. g_chan g = c) (sys_gos s')))" if "c < length (sys_chans s')" for c
    proof -
      have "filter_mset has_sent (filter_mset (on_chan c) (mset (sys_gos s'))) = filter_mset (on_chan c) (mset (sys_gos s'))"
        using fin by (intro filter_mset_all) (auto simp: has_sent_def)
      moreover have "chan_ok (mset (sys_gos s')) c (sys_chans s' ! c)" using inv' that by (simp add: ae_inv_def ae_ok_def)
      ultimately show ?thesis unfolding chan_ok_def filter_on_chan_mset chan_results_def by simp
    qed
    moreover have "\<exists>g \<in> set (sys_gos s). answers (g_task g, g_kind g) r"
      if "c < length (sys_chans s')" "r \<in> set (chan_results (sys_chans s' ! c))" for c r
    proof -
      have "\<exists>tk \<in> task_kind ` set (sys_gos s'). answers tk r"
        using ae_reachable_answers [OF reach] that nth_mem unfolding answers_inv_def by blast
      also have "task_kind ` set (sys_gos s') = task_kind ` set (sys_gos s)" using tasks by (metis list.set_map)
      finally show ?thesis by auto
    qed
    ultimately show ?thesis using fin closed by simp
  qed
  ultimately show ?thesis by blast
qed

text \<open>
  Two tasks and one slot: the second waits for the first and then gets its answer.
\<close>

definition two_tasks :: "ae_event list" where
  "two_tasks = [Submit ''a'' ''n'' (\<lambda>b k. (GInt 1, None)), Submit ''b'' ''m'' (\<lambda>b k. (GInt 2, None)), AcquireSlot 0]"

definition two_tasks_end :: "ae_event list" where
  "two_tasks_end = [RunFunc 0 7, ReleaseSlot 0, AcquireSlot 1, RunFunc 1 9, Unregister 0, ReleaseSlot 1, Unregister 1,
     Finish 1, Finish 0]"

lemmas ae_compute = ae_step_def acquire_slot_def release_slot_def unregister_def finish_def send_result_def
  close_batch_def receive_def ctx_done_def run_func_def ae_Cancel_def put_pool_def unlist_def set_phase_def
  chan_close_def chan_send_def ae_Execute_def ae_ExecuteWithRetry_def ae_ExecuteBatch_def spawn_def register_def
  open_chan_def new_system_def NewAsyncExecutor_def two_tasks_def two_tasks_end_def Let_def

lemma two_tasks_run: "\<exists>s. ae_run two_tasks (new_system 1) = Some s"
  by (simp add: ae_compute)

lemma finished_quiet:
  assumes "\<forall>g \<in> set (sys_gos s). g_phase g = Finished" and "\<forall>ch \<in> set (sys_chans s). rch_wait ch = None"
    and "ae_internal e"
  shows "ae_step e s = None"
proof -
  have "i < length (sys_gos s) \<Longrightarrow> g_phase (sys_gos s ! i) = Finished" for i using assms(1) by simp
  moreover have "i < length (sys_chans s) \<Longrightarrow> rch_wait (sys_chans s ! i) = None" for i using assms(2) by simp
  ultimately show ?thesis
    using assms(3) by (cases e) (auto simp: ae_step_def acquire_slot_def release_slot_def unregister_def finish_def
        send_result_def close_batch_def run_func_def)
qed

theorem async_slot_limit_witness:
  "ae_workerPool (sys_exec (the (ae_run two_tasks (new_system 1)))) = 0
   \<and> length (filter holds_slot (sys_gos (the (ae_run two_tasks (new_system 1))))) = 1"
proof -
  obtain s where s: "ae_run two_tasks (new_system 1) = Some s" using two_tasks_run by blast
  have "ae_reachable 1 s" using ae_start s by (rule ae_run_reachable)
  from async_slot_limit [OF this] show ?thesis
    using s by (auto simp: slot_limit_def ae_compute)
qed

theorem async_completes_witness:
  "\<exists>s'. ae_run two_tasks_end (the (ae_run two_tasks (new_system 1))) = Some s' \<and> ae_workerPool (sys_exec s') = 1
     \<and> map (map ar_Output \<circ> chan_results) (sys_chans s') = [[GInt 1], [GInt 2]] \<and> list_all rch_closed (sys_chans s')"
proof -
  obtain s where s: "ae_run two_tasks (new_system 1) = Some s" using two_tasks_run by blast
  obtain s' where s': "ae_run two_tasks_end s = Some s'" "map g_phase (sys_gos s') = [Finished, Finished]"
      "map (map ar_Output \<circ> chan_results) (sys_chans s') = [[GInt 1], [GInt 2]]" "map rch_wait (sys_chans s') = [None, None]"
    using s by (auto simp: ae_compute chan_results_def)
  have "\<not> panics g" if "g \<in> set (sys_gos s)" for g
    using s that by (auto simp: ae_compute panics_def)
  moreover have "list_all (\<lambda>e. \<not> ae_submits e) two_tasks_end" by (simp add: two_tasks_end_def)
  moreover have "ae_step e s' = None" if "ae_internal e" for e
    using s'(2,4) that by (intro finished_quiet) (auto simp: map_eq_Cons_conv)
  ultimately have "ae_workerPool (sys_exec s') = 1 \<and> (\<forall>c < length (sys_chans s'). rch_closed (sys_chans s' ! c))"
    using async_completes [OF ae_run_reachable [OF ae_start s] s'(1)] by (simp add: slot_limit_def)
  then show ?thesis using s s' by (auto simp: list_all_length)
qed

text \<open>
  The limit does not hold for \<^verbatim>\<open>ExecuteWithRetry\<close>, which takes no slot: an executor with one slot runs
  two retried tasks at the same time.
\<close>

lemma retried_tasks_unlimited:
  "\<exists>s. ae_run [SubmitRetry ''a'' ''n'' fn NewRetryConfig w, SubmitRetry ''b'' ''m'' fn NewRetryConfig w] (new_system 1) = Some s
     \<and> map g_phase (sys_gos s) = [Running, Running] \<and> ae_workerPool (sys_exec s) = 1"
  by (simp add: ae_compute)

text \<open>
  After \<^verbatim>\<open>Cancel\<close> the table of active tasks is empty while their goroutines go on, so
  \<^verbatim>\<open>Wait\<close> returns without waiting for them.
\<close>

lemma Wait_after_Cancel:
  "ae_Wait_poll None (ae_Cancel s) = Some None \<and> sys_gos (ae_Cancel s) = sys_gos s"
  by (simp add: ae_Wait_poll_def ae_Cancel_def GetActiveTaskCount_def)

end
