(* ===== verification/Async_Pipeline.thy ===== *)
theory Async_Pipeline
  imports Async_Executor
begin

text \<open>
  The rest of \<^verbatim>\<open>pregel/async.go\<close>: the \<^verbatim>\<open>AsyncPipeline\<close> around the executor, the
  \<^verbatim>\<open>ConcurrencyLimiter\<close> with one semaphore per node, and the \<^verbatim>\<open>PriorityExecutor\<close>.
\<close>

section \<open>The pipeline\<close>

text \<open>
  The channels of the pipeline are buffered lists with a closed flag; \<open>pl_cancelled\<close> counts the
  contexts that \<^verbatim>\<open>Stop\<close> has cancelled.
\<close>

record 'a event_chan =
  ec_buf :: "'a list"
  ec_cap :: nat
  ec_closed :: bool

definition make_chan :: "nat \<Rightarrow> 'a event_chan" where
  "make_chan n = \<lparr>ec_buf = [], ec_cap = n, ec_closed = False\<rparr>"

text \<open>A send in a \<^verbatim>\<open>select\<close> with a default branch: on a full channel the value is dropped.\<close>

definition try_send :: "'a \<Rightarrow> 'a event_chan \<Rightarrow> go_error + 'a event_chan" where
  "try_send x ch =
     (if ec_closed ch then Inl (GoPanic ''send on closed channel'')
      else if length (ec_buf ch) < ec_cap ch then Inr (ch\<lparr>ec_buf := ec_buf ch @ [x]\<rparr>)
      else Inr ch)"

definition close_chan :: "'a event_chan \<Rightarrow> go_error + 'a event_chan" where
  "close_chan ch =
     (if ec_closed ch then Inl (GoPanic ''close of closed channel'') else Inr (ch\<lparr>ec_closed := True\<rparr>))"

record async_pipeline =
  pl_executor :: async_system
  pl_retryer :: retry_policy
  pl_events :: "goval event_chan"
  pl_errors :: "go_error event_chan"
  pl_cancel :: bool
  pl_cancelled :: nat
  pl_running :: bool

definition NewAsyncPipeline :: "int \<Rightarrow> retry_policy option \<Rightarrow> async_pipeline" where
  "NewAsyncPipeline maxConcurrency retryPolicy =
     \<lparr>pl_executor = new_system maxConcurrency,
      pl_retryer = (case retryPolicy of None \<Rightarrow> DefaultRetryPolicy | Some p \<Rightarrow> p),
      pl_events = make_chan 100, pl_errors = make_chan 10, pl_cancel = False, pl_cancelled = 0, pl_running = False\<rparr>"

definition pl_Start :: "async_pipeline \<Rightarrow> async_pipeline" where
  "pl_Start p =
     (if pl_running p then p
      else p\<lparr>pl_events := make_chan 100, pl_errors := make_chan 10, pl_cancel := True, pl_running := True\<rparr>)"

definition pl_Stop :: "async_pipeline \<Rightarrow> go_error + async_pipeline" where
  "pl_Stop p =
     (if \<not> pl_running p then Inr p
      else case close_chan (pl_events p) of
             Inl e \<Rightarrow> Inl e
           | Inr events \<Rightarrow>
               (case close_chan (pl_errors p) of
                  Inl e \<Rightarrow> Inl e
                | Inr errs \<Rightarrow>
                    Inr (p\<lparr>pl_executor := ae_Cancel (pl_executor p),
                           pl_cancelled := pl_cancelled p + (if pl_cancel p then 1 else 0),
                           pl_events := events, pl_errors := errs, pl_running := False\<rparr>)))"

definition pl_ExecuteNode ::
  "string \<Rightarrow> string \<Rightarrow> async_func \<Rightarrow> retry_config option \<Rightarrow> (nat \<Rightarrow> go_error option) \<Rightarrow> async_pipeline \<Rightarrow> async_pipeline" where
  "pl_ExecuteNode uid name fn retryConfig w p =
     p\<lparr>pl_executor :=
        (case retryConfig of
           Some rc \<Rightarrow> ae_ExecuteWithRetry uid name fn rc w (pl_executor p)
         | None \<Rightarrow> ae_Execute uid name fn (pl_executor p))\<rparr>"

definition pl_EmitEvent :: "goval \<Rightarrow> async_pipeline \<Rightarrow> go_error + async_pipeline" where
  "pl_EmitEvent event p =
     (if pl_running p then map_sum id (\<lambda>ch. p\<lparr>pl_events := ch\<rparr>) (try_send event (pl_events p)) else Inr p)"

definition pl_EmitError :: "go_error \<Rightarrow> async_pipeline \<Rightarrow> go_error + async_pipeline" where
  "pl_EmitError err p =
     (if pl_running p then map_sum id (\<lambda>ch. p\<lparr>pl_errors := ch\<rparr>) (try_send err (pl_errors p)) else Inr p)"

datatype pl_call = Start | Stop | EmitEvent goval | EmitError go_error
  | ExecuteNode string string async_func "retry_config option" "nat \<Rightarrow> go_error option"
  | ReadEvent | ReadError

definition pl_do :: "pl_call \<Rightarrow> async_pipeline \<Rightarrow> go_error + async_pipeline" where
  "pl_do c p =
     (case c of
        Start \<Rightarrow> Inr (pl_Start p)
      | Stop \<Rightarrow> pl_Stop p
      | EmitEvent e \<Rightarrow> pl_EmitEvent e p
      | EmitError e \<Rightarrow> pl_EmitError e p
      | ExecuteNode uid name fn rc w \<Rightarrow> Inr (pl_ExecuteNode uid name fn rc w p)
      | ReadEvent \<Rightarrow> Inr (p\<lparr>pl_events := (pl_events p)\<lparr>ec_buf := tl (ec_buf (pl_events p))\<rparr>\<rparr>)
      | ReadError \<Rightarrow> Inr (p\<lparr>pl_errors := (pl_errors p)\<lparr>ec_buf := tl (ec_buf (pl_errors p))\<rparr>\<rparr>))"

fun pl_calls :: "pl_call list \<Rightarrow> async_pipeline \<Rightarrow> go_error + async_pipeline" where
  "pl_calls [] p = Inr p"
| "pl_calls (c # cs) p = (case pl_do c p of Inl e \<Rightarrow> Inl e | Inr p' \<Rightarrow> pl_calls cs p')"

text \<open>
  No sequence of calls panics: the channels of a running pipeline are open. The buffers stay within
  their capacities.
\<close>

definition pl_ok :: "async_pipeline \<Rightarrow> bool" where
  "pl_ok p \<longleftrightarrow> (pl_running p \<longrightarrow> \<not> ec_closed (pl_events p) \<and> \<not> ec_closed (pl_errors p))
     \<and> ec_cap (pl_events p) = 100 \<and> ec_cap (pl_errors p) = 10
     \<and> length (ec_buf (pl_events p)) \<le> 100 \<and> length (ec_buf (pl_errors p)) \<le> 10"

lemmas pl_defs = pl_do_def pl_Start_def pl_Stop_def pl_EmitEvent_def pl_EmitError_def pl_ExecuteNode_def
  try_send_def close_chan_def make_chan_def pl_ok_def

lemma pl_do_ok: "pl_ok p \<Longrightarrow> \<exists>p'. pl_do c p = Inr p' \<and> pl_ok p'"
  by (cases c) (auto simp: pl_defs)

lemma pl_calls_ok: "pl_ok p \<Longrightarrow> \<exists>p'. pl_calls cs p = Inr p' \<and> pl_ok p'"
proof (induction cs arbitrary: p)
  case (Cons c cs)
  then show ?case using pl_do_ok [of p c] by auto
qed simp

text \<open>
  Whatever the order of \<^verbatim>\<open>Start\<close>, \<^verbatim>\<open>Stop\<close>, \<^verbatim>\<open>EmitEvent\<close>, \<^verbatim>\<open>EmitError\<close>, \<^verbatim>\<open>ExecuteNode\<close> and reads,
  repeated or missing calls included, a pipeline never panics on a closed channel, and its channels
  never hold more than 100 events and 10 errors.
\<close>

lemma pipeline_never_panics:
  "\<exists>p. pl_calls cs (NewAsyncPipeline mc policy) = Inr p
     \<and> length (ec_buf (pl_events p)) \<le> 100 \<and> length (ec_buf (pl_errors p)) \<le> 10
     \<and> (pl_running p \<longrightarrow> \<not> ec_closed (pl_events p) \<and> \<not> ec_closed (pl_errors p))"
proof -
  have "pl_ok (NewAsyncPipeline mc policy)" by (simp add: NewAsyncPipeline_def pl_defs)
  then show ?thesis using pl_calls_ok [of "NewAsyncPipeline mc policy" cs] by (auto simp: pl_ok_def)
qed

section \<open>The concurrency limiter\<close>

text \<open>
  A semaphore is a buffered channel of tokens: its capacity and how many it holds. \<^verbatim>\<open>SetLimit\<close> puts a
  fresh one in the place of the old.
\<close>

type_synonym limiter = "(nat \<times> nat) gomap"

definition NewConcurrencyLimiter :: limiter where
  "NewConcurrencyLimiter = []"

definition SetLimit :: "string \<Rightarrow> int \<Rightarrow> limiter \<Rightarrow> go_error + limiter" where
  "SetLimit node limit l =
     (if limit < 0 then Inl (GoPanic ''makechan: size out of range'')
      else Inr (gm_put node (nat limit, nat limit) l))"

text \<open>
  \<open>None\<close>: the call blocks, because there is no token and the context has not ended. When both branches of
  the \<^verbatim>\<open>select\<close> are ready, \<open>pick\<close> says which one Go takes.
\<close>

definition Acquire :: "bool \<Rightarrow> go_error option \<Rightarrow> string \<Rightarrow> limiter \<Rightarrow> (go_error option \<times> limiter) option" where
  "Acquire pick ctxErr node l =
     (case map_of l node of
        None \<Rightarrow> Some (None, l)
      | Some (cap, tokens) \<Rightarrow>
          if 0 < tokens \<and> (ctxErr = None \<or> pick) then Some (None, gm_put node (cap, tokens - 1) l)
          else (case ctxErr of None \<Rightarrow> None | Some e \<Rightarrow> Some (Some e, l)))"

definition Release :: "string \<Rightarrow> limiter \<Rightarrow> limiter" where
  "Release node l =
     (case map_of l node of
        None \<Rightarrow> l
      | Some (cap, tokens) \<Rightarrow> if tokens < cap then gm_put node (cap, tokens + 1) l else l)"

text \<open>
  A history of one node: how many callers hold a slot. A caller releases only what it acquired.
\<close>

datatype limiter_op = OpAcquire | OpRelease | OpSetLimit int

fun limiter_run :: "string \<Rightarrow> limiter_op list \<Rightarrow> limiter \<times> nat \<Rightarrow> (limiter \<times> nat) option" where
  "limiter_run node [] s = Some s"
| "limiter_run node (OpAcquire # ops) (l, held) =
     (case Acquire True None node l of
        Some (None, l') \<Rightarrow> limiter_run node ops (l', Suc held)
      | _ \<Rightarrow> None)"
| "limiter_run node (OpRelease # ops) (l, held) =
     (if held = 0 then None else limiter_run node ops (Release node l, held - 1))"
| "limiter_run node (OpSetLimit n # ops) (l, held) =
     (case SetLimit node n l of Inl e \<Rightarrow> None | Inr l' \<Rightarrow> limiter_run node ops (l', held))"

lemma limiter_conserves:
  assumes "limiter_run node ops (l, held) = Some (l', held')" and "\<forall>n. OpSetLimit n \<notin> set ops"
    and "map_of l node = Some (cap, tokens)" and "tokens + held = cap"
  shows "\<exists>tokens'. map_of l' node = Some (cap, tokens') \<and> tokens' + held' = cap"
  using assms
proof (induction node ops "(l, held)" arbitrary: l held tokens rule: limiter_run.induct)
  case (2 node ops l held)
  then have "0 < tokens" "Acquire True None node l = Some (None, gm_put node (cap, tokens - 1) l)"
    by (auto simp: Acquire_def split: if_splits)
  then show ?case using 2 by (auto simp: gomap_simps)
next
  case (3 node ops l held)
  then have "0 < held" "Release node l = gm_put node (cap, tokens + 1) l" by (auto simp: Release_def split: if_splits)
  then show ?case using 3 by (auto simp: gomap_simps)
qed auto

text \<open>
  Between two calls of \<^verbatim>\<open>SetLimit\<close> the limit holds, whatever the order of acquisitions and releases.
\<close>

lemma limiter_bounded:
  assumes "0 \<le> n" and "limiter_run node (OpSetLimit n # ops) (NewConcurrencyLimiter, 0) = Some (l, held)"
    and "\<forall>m. OpSetLimit m \<notin> set ops"
  shows "int held \<le> n"
proof -
  have "limiter_run node ops (gm_put node (nat n, nat n) [], 0) = Some (l, held)"
    using assms(1,2) by (simp add: SetLimit_def NewConcurrencyLimiter_def)
  from limiter_conserves [OF this assms(3)] assms(1) show ?thesis by (auto simp: gomap_simps)
qed

text \<open>
  Setting the limit again while a slot is held forgets the holder: with the limit 1 set twice, two
  callers hold a slot.
\<close>

lemma SetLimit_forgets_holders:
  "\<exists>l. limiter_run node [OpSetLimit 1, OpAcquire, OpSetLimit 1, OpAcquire] (NewConcurrencyLimiter, 0) = Some (l, 2)"
  by (simp add: SetLimit_def Acquire_def NewConcurrencyLimiter_def gomap_simps)

section \<open>The priority executor\<close>

record priority_task =
  pt_Func :: "goval \<times> go_error option"
  pt_Priority :: int

record priority_executor =
  pe_tasks :: "priority_task list"
  pe_cap :: nat

definition NewPriorityExecutor :: "int \<Rightarrow> go_error + priority_executor" where
  "NewPriorityExecutor bufferSize =
     (if bufferSize < 0 then Inl (GoPanic ''makechan: size out of range'')
      else Inr \<lparr>pe_tasks = [], pe_cap = nat bufferSize\<rparr>)"

text \<open>\<open>idle\<close>: the loop of \<^verbatim>\<open>Execute\<close> is waiting to receive, so that a send succeeds without a buffer.\<close>

definition pe_Submit :: "bool \<Rightarrow> priority_task \<Rightarrow> priority_executor \<Rightarrow> go_error option \<times> priority_executor" where
  "pe_Submit idle task e =
     (if idle \<or> length (pe_tasks e) < pe_cap e then (None, e\<lparr>pe_tasks := pe_tasks e @ [task]\<rparr>)
      else (Some (Errorf ''task queue full''), e))"

record priority_result =
  pr_output :: goval
  pr_error :: "go_error option"
  pr_priority :: int

text \<open>
  The loop of \<^verbatim>\<open>Execute\<close> over the tasks it receives before the context ends: \<open>n\<close> is how many of the
  queued tasks those are. The result is what is sent on the result channel, in order, and the queue left.
\<close>

fun pe_Execute :: "nat \<Rightarrow> priority_executor \<Rightarrow> priority_result list \<times> priority_executor" where
  "pe_Execute 0 e = ([], e)"
| "pe_Execute (Suc n) e =
     (case pe_tasks e of
        [] \<Rightarrow> ([], e)
      | task # rest \<Rightarrow>
          (case pe_Execute n (e\<lparr>pe_tasks := rest\<rparr>) of
             (rs, e') \<Rightarrow>
               (\<lparr>pr_output = fst (pt_Func task), pr_error = snd (pt_Func task), pr_priority = pt_Priority task\<rparr> # rs, e')))"

fun pe_submit_all :: "priority_task list \<Rightarrow> priority_executor \<Rightarrow> priority_executor" where
  "pe_submit_all [] e = e"
| "pe_submit_all (t # ts) e = pe_submit_all ts (snd (pe_Submit False t e))"

lemma pe_submit_all_tasks:
  "length (pe_tasks e) \<le> pe_cap e \<Longrightarrow>
   pe_tasks (pe_submit_all ts e) = take (pe_cap e) (pe_tasks e @ ts) \<and> pe_cap (pe_submit_all ts e) = pe_cap e"
  by (induction ts arbitrary: e) (auto simp: pe_Submit_def take_Cons')

lemma pe_Execute_order:
  "map pr_priority (fst (pe_Execute n e)) = take n (map pt_Priority (pe_tasks e))"
  by (induction n e rule: pe_Execute.induct) (auto split: list.split prod.split)

text \<open>
  Tasks run in the order of their submission, and their priorities play no part: the priorities of the
  results are those of the tasks that found a place in the queue, in that order.
\<close>

lemma priority_executor_is_fifo:
  assumes "NewPriorityExecutor b = Inr e"
  shows "map pr_priority (fst (pe_Execute (length ts) (pe_submit_all ts e))) = take (nat b) (map pt_Priority ts)"
  using assms pe_submit_all_tasks [of e ts]
  by (auto simp: NewPriorityExecutor_def pe_Execute_order take_map min_def split: if_splits)

end
