(* ===== verification/Multi_Retry.thy ===== *)
theory Multi_Retry
  imports Retry
begin

text \<open>
  Retrying under several policies (\<^verbatim>\<open>pregel/retry_multi.go\<close>): the first policy that matches an error
  decides, and hands the rest of its attempts to a \<^verbatim>\<open>RetryExecutor\<close>. The model also counts the calls
  of the function: \<open>fn k\<close> is what the \<open>k\<close>-th call returns, counted over the whole run.
\<close>

section \<open>How often the attempt loop calls the function\<close>

fun retry_calls ::
  "retry_policy \<Rightarrow> (nat \<Rightarrow> goval \<times> go_error option) \<Rightarrow> (nat \<Rightarrow> go_error option) \<Rightarrow> nat \<Rightarrow> nat \<Rightarrow> nat" where
  "retry_calls p fn cancelled 0 attempt = 0"
| "retry_calls p fn cancelled (Suc left) attempt =
     (if decisive p fn cancelled attempt then 1 else Suc (retry_calls p fn cancelled left (Suc attempt)))"

text \<open>Of the calls made only the last one can succeed, and it does when the loop succeeds.\<close>

lemma retry_loop_calls:
  assumes "retry_loop p name fn cancelled left k e out = (v, r)" and "n = retry_calls p fn cancelled left k"
  shows "(r = None \<longrightarrow> 0 < n \<and> fn (k + n - 1) = (v, None))
    \<and> (\<forall>j. k \<le> j \<and> j < k + n \<and> snd (fn j) = None \<longrightarrow> r = None \<and> j = k + n - 1)"
  using assms
proof (induction left arbitrary: k e out n)
  case (Suc left)
  show ?case
  proof (cases "decisive p fn cancelled k")
    case True
    then have "verdict p name fn cancelled k = (v, r)" "n = 1"
      using Suc.prems by (simp_all add: retry_loop_decide del: retry_loop.simps)
    then have "(r = None \<longleftrightarrow> snd (fn k) = None) \<and> (r = None \<longrightarrow> fn k = (v, None))" using True
      by (cases "fn k") (auto simp: verdict_def decisive_def split: option.splits if_splits)
    then show ?thesis using \<open>n = 1\<close> by (auto simp: le_less_Suc_eq)
  next
    case False
    then have "retry_loop p name fn cancelled left (Suc k) (snd (fn k)) (fst (fn k)) = (v, r)"
      using Suc.prems by (simp add: retry_loop_skip del: retry_loop.simps)
    note IH = Suc.IH [OF this refl]
    have "snd (fn k) \<noteq> None" using False by (auto simp: decisive_def split: option.splits)
    moreover have n: "n = Suc (retry_calls p fn cancelled left (Suc k))" using Suc.prems(2) False by simp
    ultimately have late: "Suc k \<le> j" if "k \<le> j" "snd (fn j) = None" for j
      using that by (metis le_neq_implies_less Suc_leI)
    show ?thesis using IH late by (auto simp: n)
  qed
qed auto

section \<open>The executor\<close>

definition matches_policy :: "go_error \<Rightarrow> retry_policy \<Rightarrow> bool" where
  "matches_policy err p = (case RetryOn p of None \<Rightarrow> True | Some on \<Rightarrow> on err)"

definition findMatchingPolicy :: "retry_policy list \<Rightarrow> go_error \<Rightarrow> retry_policy option" where
  "findMatchingPolicy policies err = List.find (matches_policy err) policies"

definition most_attempts :: "retry_policy list \<Rightarrow> int" where
  "most_attempts ps = fold max (map MaxAttempts ps) 0"

lemma fold_max_ge: "(x::int) \<in> set xs \<or> x \<le> a \<Longrightarrow> x \<le> fold max xs a"
  by (induction xs arbitrary: a) (force simp: max_def)+

lemma findMatchingPolicy_SomeD:
  assumes "findMatchingPolicy ps err = Some p"
  shows "p \<in> set ps" and "matches_policy err p" and "MaxAttempts p \<le> most_attempts ps"
proof -
  show "p \<in> set ps" and "matches_policy err p"
    using assms by (auto simp: findMatchingPolicy_def find_Some_iff)
  then show "MaxAttempts p \<le> most_attempts ps"
    unfolding most_attempts_def by (intro fold_max_ge) auto
qed

text \<open>
  The loop, after \<open>calls\<close> calls of the function. The first component is what \<^verbatim>\<open>Execute\<close> returns, the
  second how often the function has been called in the end. A direct call that panics ends the loop;
  in the delegated part the panic is an ordinary error.
\<close>

function multi_loop ::
  "retry_policy list \<Rightarrow> string \<Rightarrow> (nat \<Rightarrow> goval \<times> go_error option) \<Rightarrow> (nat \<Rightarrow> go_error option)
   \<Rightarrow> int \<Rightarrow> nat \<Rightarrow> (goval \<times> go_error option) \<times> nat" where
  "multi_loop policies name fn cancelled attempt calls =
     (case fn (calls + 1) of
        (output, None) \<Rightarrow> ((output, None), calls + 1)
      | (output, Some err) \<Rightarrow>
          if IsPanic err \<noteq> None then ((GNil, Some err), calls + 1)
          else
          (let attempt = attempt + 1 in
           case findMatchingPolicy policies err of
             None \<Rightarrow> ((GNil, Some (WrapErr (''node '' @ name @ '' failed with non-retryable error: '') err)), calls + 1)
           | Some policy \<Rightarrow>
               if attempt \<ge> MaxAttempts policy
               then ((GNil, Some (RetryExhaustedError name attempt (Some err) output)), calls + 1)
               else
               (let remaining = MaxAttempts policy - attempt;
                    limitedPolicy = policy\<lparr>MaxAttempts := remaining + 1\<rparr>;
                    fn' = (\<lambda>k. fn (calls + 1 + k));
                    cancelled' = (\<lambda>k. cancelled (calls + 1 + k));
                    made = retry_calls limitedPolicy fn' cancelled' (nat (MaxAttempts limitedPolicy)) 1 in
                case Execute limitedPolicy name fn' cancelled' of
                  (result, None) \<Rightarrow> ((result, None), calls + 1 + made)
                | (result, Some e) \<Rightarrow> multi_loop policies name fn cancelled (attempt + remaining) (calls + 1 + made))))"
  by pat_completeness auto

termination
  by (relation "measure (\<lambda>(ps, name, fn, c, attempt, calls). nat (most_attempts ps - attempt))")
    (auto dest: findMatchingPolicy_SomeD(3))

declare multi_loop.simps [simp del]

definition multi_Execute ::
  "retry_policy list \<Rightarrow> string \<Rightarrow> (nat \<Rightarrow> goval \<times> go_error option) \<Rightarrow> (nat \<Rightarrow> go_error option)
   \<Rightarrow> (goval \<times> go_error option) \<times> nat" where
  "multi_Execute policies name fn cancelled =
     (if policies = [] then (fn 1, 1) else multi_loop policies name fn cancelled 0 0)"

section \<open>Configuration\<close>

record multi_retry_config =
  mrc_Policies :: "retry_policy list"
  mrc_OnRetry :: "(int \<Rightarrow> int \<Rightarrow> go_error \<Rightarrow> unit) option"
  mrc_OnSuccess :: "(int \<Rightarrow> unit) option"
  mrc_OnPolicyMatch :: "(int \<Rightarrow> int \<Rightarrow> unit) option"

definition NewMultiRetryConfig :: "retry_policy list \<Rightarrow> multi_retry_config" where
  "NewMultiRetryConfig policies =
     \<lparr>mrc_Policies = (if policies = [] then [DefaultRetryPolicy] else policies),
      mrc_OnRetry = None, mrc_OnSuccess = None, mrc_OnPolicyMatch = None\<rparr>"

definition mrc_WithOnRetry :: "(int \<Rightarrow> int \<Rightarrow> go_error \<Rightarrow> unit) option \<Rightarrow> multi_retry_config \<Rightarrow> multi_retry_config" where
  "mrc_WithOnRetry callback c = c\<lparr>mrc_OnRetry := callback\<rparr>"

definition mrc_WithOnSuccess :: "(int \<Rightarrow> unit) option \<Rightarrow> multi_retry_config \<Rightarrow> multi_retry_config" where
  "mrc_WithOnSuccess callback c = c\<lparr>mrc_OnSuccess := callback\<rparr>"

definition mrc_WithOnPolicyMatch :: "(int \<Rightarrow> int \<Rightarrow> unit) option \<Rightarrow> multi_retry_config \<Rightarrow> multi_retry_config" where
  "mrc_WithOnPolicyMatch callback c = c\<lparr>mrc_OnPolicyMatch := callback\<rparr>"

definition CreateExecutor :: "multi_retry_config \<Rightarrow> retry_policy list" where
  "CreateExecutor c = mrc_Policies c"

definition error_mentions :: "(goval \<Rightarrow> string) \<Rightarrow> string list \<Rightarrow> go_error \<Rightarrow> bool" where
  "error_mentions fv kws err = list_ex (contains (err_Error fv err)) kws"

definition preset_NetworkErrors :: "(goval \<Rightarrow> string) \<Rightarrow> retry_policy" where
  "preset_NetworkErrors fv =
     \<lparr>InitialInterval = 100000000, BackoffFactor = F_Fin 2, MaxInterval = 30000000000, MaxAttempts = 5, Jitter = True,
      RetryOn = Some (\<lambda>err. NetworkErrors fv (Some err))\<rparr>"

definition preset_TemporaryErrors :: "(goval \<Rightarrow> string) \<Rightarrow> retry_policy" where
  "preset_TemporaryErrors fv =
     \<lparr>InitialInterval = 500000000, BackoffFactor = F_Fin (3 / 2), MaxInterval = 10000000000, MaxAttempts = 3, Jitter = True,
      RetryOn = Some (\<lambda>err. TemporaryErrors fv (Some err))\<rparr>"

definition preset_ResourceErrors :: "(goval \<Rightarrow> string) \<Rightarrow> retry_policy" where
  "preset_ResourceErrors fv =
     \<lparr>InitialInterval = 1000000000, BackoffFactor = F_Fin (3 / 2), MaxInterval = 60000000000, MaxAttempts = 10, Jitter = True,
      RetryOn = Some (error_mentions fv
        [''resource exhausted'', ''too many requests'', ''rate limit'', ''quota exceeded'', ''429'', ''503''])\<rparr>"

definition preset_TimeoutErrors :: "(goval \<Rightarrow> string) \<Rightarrow> retry_policy" where
  "preset_TimeoutErrors fv =
     \<lparr>InitialInterval = 1000000000, BackoffFactor = F_Fin 2, MaxInterval = 30000000000, MaxAttempts = 3, Jitter = False,
      RetryOn = Some (error_mentions fv [''timeout'', ''deadline exceeded'', ''context deadline'', ''408'', ''504''])\<rparr>"

definition CreateDefaultMultiPolicy :: "(goval \<Rightarrow> string) \<Rightarrow> multi_retry_config" where
  "CreateDefaultMultiPolicy fv =
     NewMultiRetryConfig [preset_NetworkErrors fv, preset_TemporaryErrors fv, preset_TimeoutErrors fv, preset_ResourceErrors fv]"

section \<open>What the executor returns\<close>

text \<open>
  A success is the output of the last call made; every call before it failed.
\<close>

lemma multi_loop_success:
  "multi_loop policies name fn cancelled attempt calls = ((v, None), n) \<Longrightarrow>
   calls < n \<and> fn n = (v, None) \<and> (\<forall>j. calls < j \<and> j < n \<longrightarrow> snd (fn j) \<noteq> None)"
proof (induction policies name fn cancelled attempt calls rule: multi_loop.induct)
  case (1 policies name fn cancelled attempt calls)
  obtain out err where f: "fn (calls + 1) = (out, err)" by (cases "fn (calls + 1)")
  show ?case
  proof (cases err)
    case None
    then show ?thesis using "1.prems" f by (auto simp: multi_loop.simps)
  next
    case (Some e)
    then obtain p where p: "findMatchingPolicy policies e = Some p" "\<not> MaxAttempts p \<le> attempt + 1" "IsPanic e = None"
      using "1.prems" f by (auto simp: multi_loop.simps Let_def split: option.splits if_splits)
    define lp where "lp = p\<lparr>MaxAttempts := MaxAttempts p - (attempt + 1) + 1\<rparr>"
    define g where "g = (\<lambda>k. fn (calls + 1 + k))"
    define c where "c = (\<lambda>k. cancelled (calls + 1 + k))"
    define made where "made = retry_calls lp g c (nat (MaxAttempts lp)) 1"
    obtain result err' where ex: "Execute lp name g c = (result, err')" by (cases "Execute lp name g c")
    have "retry_loop lp name g c (nat (MaxAttempts lp)) 1 None GNil = (result, err')"
      using ex by (simp add: Execute_def)
    note inner = retry_loop_calls [OF this made_def]
    have step: "multi_loop policies name fn cancelled attempt calls =
        (case err' of None \<Rightarrow> ((result, None), calls + 1 + made)
         | Some e \<Rightarrow> multi_loop policies name fn cancelled (attempt + 1 + (MaxAttempts p - (attempt + 1))) (calls + 1 + made))"
      using f Some p ex unfolding lp_def g_def c_def made_def
      by (subst multi_loop.simps) (simp add: Let_def split: option.split)
    have old: "snd (fn j) \<noteq> None" if j: "calls < j" "j < calls + 1 + made \<or> err' \<noteq> None \<and> j = calls + 1 + made" for j
    proof (cases "j = calls + 1")
      case False
      then obtain i where i: "j = calls + 1 + i" "1 \<le> i"
        using j(1) by (metis Suc_eq_plus1 Suc_leI le_add_diff_inverse add.commute One_nat_def add_diff_cancel_left' diff_is_0_eq not_less_eq_eq)
      then have "i < 1 + made" "i < made \<or> err' \<noteq> None" using j(2) by auto
      then have "snd (g i) \<noteq> None" using inner i(2) by fastforce
      then show ?thesis by (simp add: g_def i(1))
    qed (use f Some in simp)
    show ?thesis
    proof (cases err')
      case None
      then show ?thesis using "1.prems" step inner old by (auto simp: g_def)
    next
      case (Some e')
      then have "multi_loop policies name fn cancelled (attempt + 1 + (MaxAttempts p - (attempt + 1))) (calls + 1 + made) = ((v, None), n)"
        using "1.prems" step by simp
      then have new: "calls + 1 + made < n \<and> fn n = (v, None) \<and> (\<forall>j. calls + 1 + made < j \<and> j < n \<longrightarrow> snd (fn j) \<noteq> None)"
        using "1.IH" [OF f [symmetric] \<open>err = Some e\<close> _ refl p(1,2) refl refl refl refl refl ex [symmetric, unfolded lp_def g_def c_def] Some] p(3)
        unfolding lp_def g_def c_def made_def by simp
      have "snd (fn j) \<noteq> None" if "calls < j" "j < n" for j
      proof (cases "j \<le> calls + 1 + made")
        case True
        then have "j < calls + 1 + made \<or> err' \<noteq> None \<and> j = calls + 1 + made" using Some by auto
        then show ?thesis by (rule old [OF that(1)])
      qed (use new that(2) in auto)
      then show ?thesis using new by auto
    qed
  qed
qed

text \<open>
  The executor always returns; when it returns an output, the last call made returned it and all the
  calls before failed; and an error that no policy matches is returned after the first call that has it.
\<close>

lemma multi_Execute_success:
  assumes "multi_Execute policies name fn cancelled = ((v, None), n)"
  shows "0 < n \<and> fn n = (v, None) \<and> (\<forall>j. 0 < j \<and> j < n \<longrightarrow> snd (fn j) \<noteq> None)"
  using assms multi_loop_success [of policies name fn cancelled 0 0 v n]
  by (auto simp: multi_Execute_def split: if_splits)

lemma multi_Execute_unmatched:
  assumes "policies \<noteq> []" and "fn 1 = (out, Some err)" and "IsPanic err = None" and "list_all (\<lambda>p. \<not> matches_policy err p) policies"
  shows "multi_Execute policies name fn cancelled =
    ((GNil, Some (WrapErr (''node '' @ name @ '' failed with non-retryable error: '') err)), 1)"
proof -
  have "findMatchingPolicy policies err = None"
    using assms(4) by (auto simp: findMatchingPolicy_def find_None_iff list_all_iff)
  then show ?thesis using assms(1-3) by (simp add: multi_Execute_def multi_loop.simps)
qed

text \<open>
  A function that keeps failing under one policy with \<open>m\<close> attempts, \<open>m \<ge> 2\<close>: it is called \<open>m + 2\<close>
  times, and the error reports \<open>m + 1\<close> attempts.
\<close>

lemma retry_calls_all:
  assumes "\<forall>k \<ge> 1. \<exists>out err. fn k = (out, Some err) \<and> IsPanic err = None \<and> \<not> IsGraphInterrupt err \<and> matches_policy err p"
    and "\<forall>k. cancelled k = None" and "int k + int left = MaxAttempts p + 1" and "1 \<le> k" and "0 < left"
  shows "retry_calls p fn cancelled left k = left
    \<and> snd (retry_loop p name fn cancelled left k e out) \<noteq> None"
  using assms(3-5)
proof (induction left arbitrary: k e out)
  case (Suc left)
  obtain o1 err where f: "fn k = (o1, Some err)" "IsPanic err = None" "\<not> IsGraphInterrupt err" "matches_policy err p"
    using assms(1) Suc.prems(2) by blast
  show ?case
  proof (cases left)
    case 0
    then have "decisive p fn cancelled k" using Suc.prems f by (simp add: decisive_def)
    then show ?thesis using 0 f Suc.prems(1) by (auto simp: matches_policy_def split: option.splits)
  next
    case (Suc l)
    then have nd: "\<not> decisive p fn cancelled k"
      using Suc.prems f assms(2) by (auto simp: decisive_def matches_policy_def split: option.splits)
    have "retry_calls p fn cancelled left (Suc k) = left
        \<and> snd (retry_loop p name fn cancelled left (Suc k) (snd (fn k)) (fst (fn k))) \<noteq> None"
      using Suc Suc.prems by (intro Suc.IH) auto
    then show ?thesis using nd by (simp add: retry_loop_skip del: retry_loop.simps)
  qed
qed simp

lemma multi_retry_two_too_many:
  assumes fails: "\<forall>k \<ge> 1. \<exists>out err. fn k = (out, Some err) \<and> IsPanic err = None \<and> \<not> IsGraphInterrupt err \<and> matches_policy err p"
    and "\<forall>k. cancelled k = None" and m: "2 \<le> MaxAttempts p"
  shows "snd (multi_Execute [p] name fn cancelled) = nat (MaxAttempts p) + 2
    \<and> (\<exists>out err. fst (multi_Execute [p] name fn cancelled) =
        (GNil, Some (RetryExhaustedError name (MaxAttempts p + 1) (Some err) out)))"
proof -
  define lp where "lp = p\<lparr>MaxAttempts := MaxAttempts p\<rparr>"
  define g where "g = (\<lambda>k. fn (1 + k))"
  have "\<forall>k \<ge> 1. \<exists>out err. g k = (out, Some err) \<and> IsPanic err = None \<and> \<not> IsGraphInterrupt err \<and> matches_policy err lp"
    using fails by (auto simp: g_def lp_def matches_policy_def)
  then have inner: "retry_calls lp g (\<lambda>k. None) (nat (MaxAttempts p)) 1 = nat (MaxAttempts p)
      \<and> snd (Execute lp name g (\<lambda>k. None)) \<noteq> None"
    using m retry_calls_all [of g lp "\<lambda>k. None" 1 "nat (MaxAttempts p)" name None GNil]
    by (simp add: Execute_def lp_def)
  then obtain v e where ex: "Execute lp name g (\<lambda>k. None) = (v, Some e)" by (cases "Execute lp name g (\<lambda>k. None)") auto
  obtain o1 e1 where f1: "fn 1 = (o1, Some e1)" "IsPanic e1 = None" "findMatchingPolicy [p] e1 = Some p"
    using fails by (force simp: findMatchingPolicy_def)
  obtain o2 e2 where f2: "fn (nat (MaxAttempts p) + 2) = (o2, Some e2)" "IsPanic e2 = None" "findMatchingPolicy [p] e2 = Some p"
    using fails [rule_format, of "nat (MaxAttempts p) + 2"] by (force simp: findMatchingPolicy_def)
  have c: "cancelled = (\<lambda>k. None)" using assms(2) by auto
  have "multi_loop [p] name fn cancelled 0 0 = multi_loop [p] name fn cancelled (MaxAttempts p) (1 + nat (MaxAttempts p))"
    using f1 m ex inner by (subst multi_loop.simps) (simp add: c lp_def g_def)
  also have "\<dots> = ((GNil, Some (RetryExhaustedError name (MaxAttempts p + 1) (Some e2) o2)), nat (MaxAttempts p) + 2)"
    using f2 by (subst multi_loop.simps) simp
  finally show ?thesis by (simp add: multi_Execute_def)
qed

text \<open>
  An interrupt, which the single-policy executor returns at once, is retried here by a policy without a
  predicate, so a node that interrupts once and then answers is never interrupted.
\<close>

lemma multi_retry_swallows_interrupt:
  "RetryOn p = None \<Longrightarrow> MaxAttempts p = 2 \<Longrightarrow>
   multi_Execute [p] name (\<lambda>k. if k = 1 then (GNil, Some (GraphInterrupt is)) else (v, None)) (\<lambda>k. None) = ((v, None), 2)"
  by (simp add: multi_Execute_def multi_loop.simps findMatchingPolicy_def matches_policy_def Execute_def decisive_def
      eval_nat_numeral)

end
