(* ===== verification/Channel_IO.thy ===== *)
theory Channel_IO
  imports Channel_Registry
begin

text \<open>
  Writing to and reading from the channels of a registry (\<^verbatim>\<open>pregel/write.go\<close>, \<^verbatim>\<open>pregel/read.go\<close>):
  pending write entries with their validators and transformers, batches, the selectors, transformers
  and triggers of a read. The Go interfaces are datatypes with one constructor per implementation of
  the package and one for an implementation of the caller, which is a function.
\<close>

section \<open>Writing\<close>

record write_entry =
  we_Channel :: string
  we_Value :: goval
  we_Overwrite :: bool
  we_Node :: string
  we_Metadata :: "goval gomap option"

text \<open>
  A transformer may change the entry it is given as well as return one: the copy that
  \<^verbatim>\<open>MetadataWriteTransformer\<close> makes shares its metadata map with the original.
\<close>

datatype write_transformer =
    IdentityWriteTransformer
  | MappingWriteTransformer "string gomap"
  | PrefixWriteTransformer string
  | MetadataWriteTransformer "goval gomap"
  | NodeWriteTransformer string
  | FilterWriteTransformer "(write_entry \<Rightarrow> bool) option"
  | CustomWriteTransformer "write_entry \<Rightarrow> (go_error + write_entry) \<times> write_entry"

fun wt_Transform :: "write_transformer \<Rightarrow> write_entry \<Rightarrow> (go_error + write_entry) \<times> write_entry" where
  "wt_Transform IdentityWriteTransformer e = (Inr e, e)"
| "wt_Transform (MappingWriteTransformer mappings) e =
     (case map_of mappings (we_Channel e) of
        Some newName \<Rightarrow> (Inr (e\<lparr>we_Channel := newName\<rparr>), e)
      | None \<Rightarrow> (Inr e, e))"
| "wt_Transform (PrefixWriteTransformer p) e = (Inr (e\<lparr>we_Channel := p @ we_Channel e\<rparr>), e)"
| "wt_Transform (MetadataWriteTransformer metadata) e =
     (case we_Metadata e of
        None \<Rightarrow> (Inr (e\<lparr>we_Metadata := Some (gm_merge [] metadata)\<rparr>), e)
      | Some m \<Rightarrow> let e' = e\<lparr>we_Metadata := Some (gm_merge m metadata)\<rparr> in (Inr e', e'))"
| "wt_Transform (NodeWriteTransformer node) e =
     (if we_Node e = [] then (Inr (e\<lparr>we_Node := node\<rparr>), e) else (Inr e, e))"
| "wt_Transform (FilterWriteTransformer pred) e =
     (case pred of
        Some p \<Rightarrow> (if \<not> p e then (Inl (WriteSkipError (we_Channel e)), e) else (Inr e, e))
      | None \<Rightarrow> (Inr e, e))"
| "wt_Transform (CustomWriteTransformer f) e = f e"

fun IsWriteSkipError :: "go_error \<Rightarrow> bool" where
  "IsWriteSkipError (WriteSkipError ch) = True"
| "IsWriteSkipError _ = False"

datatype write_validator =
    NoOpValidator
  | TypeWriteValidator "goval gomap"
  | NonNullWriteValidator "string list"
  | LengthWriteValidator "int gomap" "int gomap"
  | CustomWriteValidator "write_entry \<Rightarrow> go_error option"

fun value_length :: "goval \<Rightarrow> int option" where
  "value_length (GSlice vs) = Some (int (length vs))"
| "value_length (GStr s) = Some (int (length s))"
| "value_length (GMap m) = Some (int (length m))"
| "value_length _ = None"

fun wv_Validate :: "write_validator \<Rightarrow> write_entry \<Rightarrow> go_error option" where
  "wv_Validate NoOpValidator e = None"
| "wv_Validate (TypeWriteValidator types) e =
     (case map_of types (we_Channel e) of
        Some expectedType \<Rightarrow>
          (if we_Value e \<noteq> GNil \<and> fmt_T (we_Value e) \<noteq> fmt_T expectedType
           then Some (WriteValidationError (we_Channel e)
                  (''expected type '' @ fmt_T expectedType @ '', got '' @ fmt_T (we_Value e)))
           else None)
      | None \<Rightarrow> None)"
| "wv_Validate (NonNullWriteValidator whitelist) e =
     (if we_Channel e \<in> set whitelist then None
      else if we_Value e = GNil then Some (WriteValidationError (we_Channel e) ''value cannot be nil'')
      else None)"
| "wv_Validate (LengthWriteValidator minLengths maxLengths) e =
     (case value_length (we_Value e) of
        None \<Rightarrow> None
      | Some n \<Rightarrow>
          (case map_of minLengths (we_Channel e) of
             Some mn \<Rightarrow>
               (if n < mn
                then Some (WriteValidationError (we_Channel e) (''length '' @ fmt_d n @ '' is less than minimum '' @ fmt_d mn))
                else case map_of maxLengths (we_Channel e) of
                       Some mx \<Rightarrow> (if n > mx then Some (WriteValidationError (we_Channel e)
                                     (''length '' @ fmt_d n @ '' exceeds maximum '' @ fmt_d mx)) else None)
                     | None \<Rightarrow> None)
           | None \<Rightarrow>
               (case map_of maxLengths (we_Channel e) of
                  Some mx \<Rightarrow> (if n > mx then Some (WriteValidationError (we_Channel e)
                                (''length '' @ fmt_d n @ '' exceeds maximum '' @ fmt_d mx)) else None)
                | None \<Rightarrow> None)))"
| "wv_Validate (CustomWriteValidator f) e = f e"

text \<open>The registry is shared with the rest of the program, so it is passed to the operations.\<close>

record channel_write =
  cw_entries :: "write_entry list"
  cw_transformer :: "write_transformer option"
  cw_validator :: "write_validator option"

definition WithWriteTransformer :: "write_transformer option \<Rightarrow> channel_write \<Rightarrow> channel_write" where
  "WithWriteTransformer t cw = cw\<lparr>cw_transformer := t\<rparr>"

definition WithValidator :: "write_validator option \<Rightarrow> channel_write \<Rightarrow> channel_write" where
  "WithValidator v cw = cw\<lparr>cw_validator := v\<rparr>"

definition NewChannelWrite :: "(channel_write \<Rightarrow> channel_write) list \<Rightarrow> channel_write" where
  "NewChannelWrite opts =
     fold (\<lambda>opt cw. opt cw) opts
       \<lparr>cw_entries = [], cw_transformer = Some IdentityWriteTransformer, cw_validator = Some NoOpValidator\<rparr>"

definition AddEntries :: "write_entry list \<Rightarrow> channel_write \<Rightarrow> channel_write" where
  "AddEntries es cw = cw\<lparr>cw_entries := cw_entries cw @ es\<rparr>"

definition AddEntry :: "write_entry \<Rightarrow> channel_write \<Rightarrow> channel_write" where
  "AddEntry e cw = cw\<lparr>cw_entries := cw_entries cw @ [e]\<rparr>"

definition plain_entry :: "string \<Rightarrow> goval \<Rightarrow> bool \<Rightarrow> string \<Rightarrow> write_entry" where
  "plain_entry channel value ow node =
     \<lparr>we_Channel = channel, we_Value = value, we_Overwrite = ow, we_Node = node, we_Metadata = None\<rparr>"

definition cw_WriteTo :: "string \<Rightarrow> goval \<Rightarrow> channel_write \<Rightarrow> channel_write" where
  "cw_WriteTo channel value cw = AddEntry (plain_entry channel value False []) cw"

definition cw_Overwrite :: "string \<Rightarrow> goval \<Rightarrow> channel_write \<Rightarrow> channel_write" where
  "cw_Overwrite channel value cw = AddEntry (plain_entry channel value True []) cw"

definition cw_WriteNode :: "string \<Rightarrow> string \<Rightarrow> goval \<Rightarrow> channel_write \<Rightarrow> channel_write" where
  "cw_WriteNode node channel value cw = AddEntry (plain_entry channel value False node) cw"

definition cw_Clear :: "channel_write \<Rightarrow> channel_write" where
  "cw_Clear cw = cw\<lparr>cw_entries := []\<rparr>"

definition EntryCount :: "channel_write \<Rightarrow> int" where
  "EntryCount cw = int (length (cw_entries cw))"

text \<open>
  The loop of \<^verbatim>\<open>Write\<close> over the entries. It returns the names of the updated channels or the error, the
  registry and the entries visited, as the transformer left them.
\<close>

definition validate_entry :: "write_validator option \<Rightarrow> write_entry \<Rightarrow> go_error option" where
  "validate_entry v e = (case v of None \<Rightarrow> None | Some w \<Rightarrow> wv_Validate w e)"

definition transform_entry :: "write_transformer option \<Rightarrow> write_entry \<Rightarrow> (go_error + write_entry) \<times> write_entry" where
  "transform_entry t e = (case t of None \<Rightarrow> (Inr e, e) | Some w \<Rightarrow> wt_Transform w e)"

definition entry_value :: "write_entry \<Rightarrow> goval" where
  "entry_value e = (if we_Overwrite e then GOverwrite (we_Value e) else we_Value e)"

fun write_loop ::
  "write_validator option \<Rightarrow> write_transformer option \<Rightarrow> write_entry list \<Rightarrow> registry \<Rightarrow> bool gomap
   \<Rightarrow> (go_error + bool gomap) \<times> registry \<times> write_entry list" where
  "write_loop v t [] r updated = (Inr updated, r, [])"
| "write_loop v t (entry # rest) r updated =
     (case validate_entry v entry of
        Some err \<Rightarrow> (Inl (WrapErr (''validation failed for channel '' @ we_Channel entry @ '': '') err), r, entry # rest)
      | None \<Rightarrow>
          (case transform_entry t entry of
             (Inl err, entry') \<Rightarrow>
               (Inl (WrapErr (''transformation failed for channel '' @ we_Channel entry' @ '': '') err), r, entry' # rest)
           | (Inr transformed, entry') \<Rightarrow>
               (case reg_Get r (we_Channel transformed) of
                  None \<Rightarrow> (Inl (Errorf (''channel not found: '' @ we_Channel transformed)), r, entry' # rest)
                | Some ch \<Rightarrow>
                    (case ch_Update ch [entry_value transformed] of
                       (Inl err, ch') \<Rightarrow>
                         (Inl (WrapErr (''failed to update channel '' @ we_Channel transformed @ '': '') err),
                          Register (we_Channel transformed) ch' r, entry' # rest)
                     | (Inr wasUpdated, ch') \<Rightarrow>
                         (case write_loop v t rest (Register (we_Channel transformed) ch' r)
                                 (if wasUpdated then gm_put (we_Channel transformed) True updated else updated) of
                            (res, r', seen) \<Rightarrow> (res, r', entry' # seen))))))"

definition cw_Write :: "channel_write \<Rightarrow> registry \<Rightarrow> (go_error + bool gomap) \<times> channel_write \<times> registry" where
  "cw_Write cw r =
     (case write_loop (cw_validator cw) (cw_transformer cw) (cw_entries cw) r [] of
        (Inl err, r', es) \<Rightarrow> (Inl err, cw\<lparr>cw_entries := es\<rparr>, r')
      | (Inr updated, r', es) \<Rightarrow> (Inr updated, cw\<lparr>cw_entries := []\<rparr>, r'))"

subsection \<open>Batches\<close>

type_synonym write_batch = "write_entry list"

definition NewWriteBatch :: write_batch where
  "NewWriteBatch = []"

definition wb_Add :: "write_entry \<Rightarrow> write_batch \<Rightarrow> write_batch" where
  "wb_Add e b = b @ [e]"

definition wb_WriteTo :: "string \<Rightarrow> goval \<Rightarrow> write_batch \<Rightarrow> write_batch" where
  "wb_WriteTo channel value b = wb_Add (plain_entry channel value False []) b"

definition wb_Overwrite :: "string \<Rightarrow> goval \<Rightarrow> write_batch \<Rightarrow> write_batch" where
  "wb_Overwrite channel value b = wb_Add (plain_entry channel value True []) b"

definition wb_Size :: "write_batch \<Rightarrow> int" where
  "wb_Size b = int (length b)"

definition wb_Clear :: "write_batch \<Rightarrow> write_batch" where
  "wb_Clear b = []"

record write_context =
  wc_Node :: string
  wc_Step :: int
  wc_Writer :: channel_write
  wc_Batches :: "write_batch gomap"

definition NewWriteContext :: "string \<Rightarrow> int \<Rightarrow> channel_write \<Rightarrow> write_context" where
  "NewWriteContext node step writer =
     \<lparr>wc_Node = node, wc_Step = step, wc_Writer = writer, wc_Batches = []\<rparr>"

definition CreateBatch :: "string \<Rightarrow> write_context \<Rightarrow> write_context" where
  "CreateBatch name wc = wc\<lparr>wc_Batches := gm_put name NewWriteBatch (wc_Batches wc)\<rparr>"

definition GetBatch :: "string \<Rightarrow> write_context \<Rightarrow> write_batch option" where
  "GetBatch name wc = map_of (wc_Batches wc) name"

definition Flush :: "write_context \<Rightarrow> registry \<Rightarrow> (go_error + bool gomap) \<times> write_context \<times> registry" where
  "Flush wc r =
     (case cw_Write (fold (\<lambda>(name, batch). AddEntries batch) (wc_Batches wc) (wc_Writer wc)) r of
        (res, writer, r') \<Rightarrow> (res, wc\<lparr>wc_Writer := writer\<rparr>, r'))"

section \<open>Reading\<close>

datatype channel_selector =
    AllChannelsSelector
  | SpecificChannelsSelector "string list"
  | PrefixChannelsSelector string
  | AvailableChannelsSelector
  | CustomSelector "registry \<Rightarrow> go_error + string list"

definition channel_available :: "registry \<Rightarrow> string \<Rightarrow> bool" where
  "channel_available r name = (case reg_Get r name of Some ch \<Rightarrow> ch_IsAvailable ch | None \<Rightarrow> False)"

fun cs_Select :: "channel_selector \<Rightarrow> registry \<Rightarrow> go_error + string list" where
  "cs_Select AllChannelsSelector r = Inr (reg_Names r)"
| "cs_Select (SpecificChannelsSelector names) r = Inr (filter (\<lambda>name. reg_Get r name \<noteq> None) names)"
| "cs_Select (PrefixChannelsSelector p) r =
     Inr (filter (\<lambda>name. length name \<ge> length p \<and> take (length p) name = p) (reg_Names r))"
| "cs_Select AvailableChannelsSelector r = Inr (filter (channel_available r) (reg_Names r))"
| "cs_Select (CustomSelector f) r = f r"

datatype channel_transformer =
    IdentityTransformer
  | MappingTransformer "string gomap"
  | FilterTransformer "bool gomap"
  | DefaultTransformer "goval gomap"
  | MergingTransformer string "goval list \<Rightarrow> go_error + goval"
  | CustomTransformer "goval gomap \<Rightarrow> go_error + goval gomap"

definition NewFilterTransformer :: "string list \<Rightarrow> channel_transformer" where
  "NewFilterTransformer keep = FilterTransformer (fold (\<lambda>name. gm_put name True) keep [])"

fun ct_Transform :: "channel_transformer \<Rightarrow> goval gomap \<Rightarrow> go_error + goval gomap" where
  "ct_Transform IdentityTransformer vals = Inr vals"
| "ct_Transform (MappingTransformer mappings) vals =
     Inr (fold (\<lambda>(oldName, value). gm_put (case map_of mappings oldName of Some m \<Rightarrow> m | None \<Rightarrow> oldName) value) vals [])"
| "ct_Transform (FilterTransformer flt) vals =
     Inr (fold (\<lambda>(name, value) res. if gm_bool flt name then gm_put name value res else res) vals [])"
| "ct_Transform (DefaultTransformer defaults) vals =
     (let res = fold (\<lambda>(name, defValue). gm_put name (case map_of vals name of Some v \<Rightarrow> v | None \<Rightarrow> defValue)) defaults []
      in Inr (fold (\<lambda>(name, value) res. if map_of res name = None then gm_put name value res else res) vals res))"
| "ct_Transform (MergingTransformer target merger) vals =
     (case merger (map snd vals) of Inl err \<Rightarrow> Inl err | Inr merged \<Rightarrow> Inr [(target, merged)])"
| "ct_Transform (CustomTransformer f) vals = f vals"

record channel_read =
  cr_selector :: channel_selector
  cr_transformer :: "channel_transformer option"

definition WithSelector :: "channel_selector \<Rightarrow> channel_read \<Rightarrow> channel_read" where
  "WithSelector s cr = cr\<lparr>cr_selector := s\<rparr>"

definition WithTransformer :: "channel_transformer option \<Rightarrow> channel_read \<Rightarrow> channel_read" where
  "WithTransformer t cr = cr\<lparr>cr_transformer := t\<rparr>"

definition NewChannelRead :: "(channel_read \<Rightarrow> channel_read) list \<Rightarrow> channel_read" where
  "NewChannelRead opts =
     fold (\<lambda>opt cr. opt cr) opts \<lparr>cr_selector = AllChannelsSelector, cr_transformer = Some IdentityTransformer\<rparr>"

text \<open>A read may change a channel, so it returns the registry.\<close>

fun cr_read_loop :: "string list \<Rightarrow> registry \<Rightarrow> goval gomap \<Rightarrow> goval gomap \<times> registry" where
  "cr_read_loop [] r vals = (vals, r)"
| "cr_read_loop (name # names) r vals =
     (case reg_Get r name of
        None \<Rightarrow> cr_read_loop names r vals
      | Some ch \<Rightarrow>
          cr_read_loop names (Register name (snd (ch_Get ch)) r)
            (case fst (ch_Get ch) of Inr val \<Rightarrow> gm_put name val vals | Inl err \<Rightarrow> vals))"

definition cr_Read :: "channel_read \<Rightarrow> registry \<Rightarrow> (go_error + goval gomap) \<times> registry" where
  "cr_Read cr r =
     (case cs_Select (cr_selector cr) r of
        Inl err \<Rightarrow> (Inl (WrapErr ''channel selection failed: '' err), r)
      | Inr names \<Rightarrow>
          (case cr_read_loop names r [] of
             (vals, r') \<Rightarrow>
               (case cr_transformer cr of
                  None \<Rightarrow> (Inr vals, r')
                | Some t \<Rightarrow>
                    (case ct_Transform t vals of
                       Inl err \<Rightarrow> (Inl (WrapErr ''channel transformation failed: '' err), r')
                     | Inr transformed \<Rightarrow> (Inr transformed, r')))))"

definition ReadChannel :: "string \<Rightarrow> registry \<Rightarrow> (go_error + goval) \<times> registry" where
  "ReadChannel name r =
     (case reg_Get r name of
        Some ch \<Rightarrow> (fst (ch_Get ch), Register name (snd (ch_Get ch)) r)
      | None \<Rightarrow> (Inl (Errorf (''channel not found: '' @ name)), r))"

definition HasChannel :: "string \<Rightarrow> registry \<Rightarrow> bool" where
  "HasChannel name r = (reg_Get r name \<noteq> None)"

definition ListChannels :: "registry \<Rightarrow> string list" where
  "ListChannels r = reg_Names r"

subsection \<open>Triggers\<close>

text \<open>A trigger keeps state: the last version that \<^verbatim>\<open>ChannelChangedTrigger\<close> saw.\<close>

datatype trigger =
    AlwaysTrigger
  | AnyAvailableTrigger "string list"
  | AllAvailableTrigger "string list"
  | ChannelChangedTrigger string int

definition NewChannelChangedTrigger :: "string \<Rightarrow> trigger" where
  "NewChannelChangedTrigger channel = ChannelChangedTrigger channel (-1)"

fun ShouldTrigger :: "registry \<Rightarrow> trigger \<Rightarrow> bool \<times> trigger" where
  "ShouldTrigger r AlwaysTrigger = (True, AlwaysTrigger)"
| "ShouldTrigger r (AnyAvailableTrigger names) = (list_ex (channel_available r) names, AnyAvailableTrigger names)"
| "ShouldTrigger r (AllAvailableTrigger names) = (list_all (channel_available r) names, AllAvailableTrigger names)"
| "ShouldTrigger r (ChannelChangedTrigger channel lastVersion) =
     (case reg_Get r channel of
        None \<Rightarrow> (False, ChannelChangedTrigger channel lastVersion)
      | Some ch \<Rightarrow>
          let version = ch_GetVersion ch
          in if version \<ge> 0 \<and> version \<noteq> lastVersion then (True, ChannelChangedTrigger channel version)
             else (version < 0 \<and> ch_IsAvailable ch, ChannelChangedTrigger channel lastVersion))"

record read_context =
  rdc_Node :: string
  rdc_Step :: int
  rdc_Triggers :: "trigger list"
  rdc_Readers :: "channel_read gomap"

definition NewReadContext :: "string \<Rightarrow> int \<Rightarrow> read_context" where
  "NewReadContext node step = \<lparr>rdc_Node = node, rdc_Step = step, rdc_Triggers = [], rdc_Readers = []\<rparr>"

definition AddReader :: "string \<Rightarrow> channel_read \<Rightarrow> read_context \<Rightarrow> read_context" where
  "AddReader name reader rc = rc\<lparr>rdc_Readers := gm_put name reader (rdc_Readers rc)\<rparr>"

definition GetReader :: "string \<Rightarrow> read_context \<Rightarrow> channel_read option" where
  "GetReader name rc = map_of (rdc_Readers rc) name"

text \<open>The triggers are asked in order until one fires.\<close>

fun trigger_loop :: "registry \<Rightarrow> trigger list \<Rightarrow> bool \<times> trigger list" where
  "trigger_loop r [] = (False, [])"
| "trigger_loop r (t # ts) =
     (case ShouldTrigger r t of
        (True, t') \<Rightarrow> (True, t' # ts)
      | (False, t') \<Rightarrow> apsnd (Cons t') (trigger_loop r ts))"

definition ShouldExecute :: "registry \<Rightarrow> read_context \<Rightarrow> bool \<times> read_context" where
  "ShouldExecute r rc =
     (if rdc_Triggers rc = [] then (True, rc)
      else apsnd (\<lambda>ts. rc\<lparr>rdc_Triggers := ts\<rparr>) (trigger_loop r (rdc_Triggers rc)))"

fun read_all_loop :: "channel_read gomap \<Rightarrow> registry \<Rightarrow> goval gomap \<Rightarrow> (go_error + goval gomap) \<times> registry" where
  "read_all_loop [] r combined = (Inr combined, r)"
| "read_all_loop ((name, reader) # rs) r combined =
     (case cr_Read reader r of
        (Inl err, r') \<Rightarrow> (Inl (WrapErr (''reader '' @ name @ '' failed: '') err), r')
      | (Inr vals, r') \<Rightarrow> read_all_loop rs r' (fold (\<lambda>(k, v). gm_put (name @ ''.'' @ k) v) vals combined))"

definition ReadAll :: "read_context \<Rightarrow> registry \<Rightarrow> (go_error + goval gomap) \<times> registry" where
  "ReadAll rc r = read_all_loop (rdc_Readers rc) r []"

section \<open>What a write does to each channel\<close>

definition entry_image :: "write_transformer option \<Rightarrow> write_entry \<Rightarrow> write_entry" where
  "entry_image t e = (case fst (transform_entry t e) of Inr e' \<Rightarrow> e' | Inl err \<Rightarrow> e)"

definition entry_passes :: "write_validator option \<Rightarrow> write_transformer option \<Rightarrow> write_entry \<Rightarrow> bool" where
  "entry_passes v t e \<longleftrightarrow> validate_entry v e = None \<and> (\<exists>e'. fst (transform_entry t e) = Inr e')"

text \<open>The values for the channel \<open>n\<close>, in order, and the channel after it has got them one by one.\<close>

definition entry_values_for :: "write_transformer option \<Rightarrow> string \<Rightarrow> write_entry list \<Rightarrow> goval list" where
  "entry_values_for t n es = map entry_value (filter (\<lambda>e. we_Channel e = n) (map (entry_image t) es))"

definition update_each :: "channel \<Rightarrow> goval list \<Rightarrow> channel" where
  "update_each ch vals = foldl (\<lambda>c val. snd (ch_Update c [val])) ch vals"

lemma reg_Get_Register: "reg_Get (Register n ch r) m = (if m = n then Some ch else reg_Get r m)"
  by (simp add: reg_Get_def Register_def gomap_simps)

lemma reg_Get_NewRegistry: "reg_Get NewRegistry n = None"
  by (simp add: reg_Get_def NewRegistry_def)

lemma values_for_Cons:
  "entry_values_for t n (e # es) =
     (if we_Channel (entry_image t e) = n then entry_value (entry_image t e) # entry_values_for t n es else entry_values_for t n es)"
  by (simp add: entry_values_for_def)

lemma update_each_Cons [simp]:
  "update_each ch [] = ch" "update_each ch (v # vs) = update_each (snd (ch_Update ch [v])) vs"
  by (simp_all add: update_each_def)

lemma write_loop_success:
  assumes "write_loop v t es r upd = (Inr u, r', seen)"
  shows "list_all (entry_passes v t) es
    \<and> (\<forall>n. reg_Get r' n = map_option (\<lambda>ch. update_each ch (entry_values_for t n es)) (reg_Get r n))
    \<and> (\<forall>e \<in> set es. reg_Get r (we_Channel (entry_image t e)) \<noteq> None)"
  using assms
proof (induction v t es r upd arbitrary: u r' seen rule: write_loop.induct)
  case (2 v t entry rest r upd)
  from "2.prems" have val: "validate_entry v entry = None" by (auto split: option.splits)
  from "2.prems" val obtain e' entry' where tr: "transform_entry t entry = (Inr e', entry')"
    by (auto split: prod.splits sum.splits)
  from "2.prems" val tr obtain ch where ch: "reg_Get r (we_Channel e') = Some ch" by (auto split: option.splits)
  obtain b ch' where up: "ch_Update ch [entry_value e'] = (Inr b, ch')"
    using "2.prems" val tr ch by (auto split: prod.splits sum.splits)
  define r1 where "r1 = Register (we_Channel e') ch' r"
  obtain seen' where rec: "write_loop v t rest r1 (if b then gm_put (we_Channel e') True upd else upd) = (Inr u, r', seen')"
    using "2.prems" val tr ch up by (auto simp: r1_def split: prod.splits)
  note IH = "2.IH" [OF val tr [symmetric] refl ch up [symmetric] refl rec [unfolded r1_def]]
  have img: "entry_image t entry = e'" by (simp add: entry_image_def tr)
  have "reg_Get r' n = map_option (\<lambda>ch. update_each ch (entry_values_for t n (entry # rest))) (reg_Get r n)" for n
    using IH ch up by (cases "we_Channel e' = n") (auto simp: values_for_Cons img reg_Get_Register)
  moreover have "\<forall>e \<in> set (entry # rest). reg_Get r (we_Channel (entry_image t e)) \<noteq> None"
    using IH ch by (auto simp: img reg_Get_Register split: if_splits)
  ultimately show ?case using IH val tr by (simp add: entry_passes_def)
qed (simp add: entry_values_for_def option.map_ident)

text \<open>A failed write has done the entries before the failing one and nothing to the channels after.\<close>

lemma write_loop_failure:
  assumes "write_loop v t es r upd = (Inl err, r', seen)"
  shows "\<exists>pre e post u r1 seen1. es = pre @ e # post \<and> write_loop v t pre r upd = (Inr u, r1, seen1)
    \<and> (\<forall>n. n \<noteq> we_Channel (entry_image t e) \<longrightarrow> reg_Get r' n = reg_Get r1 n) \<and> length seen = length es"
  using assms
proof (induction v t es r upd arbitrary: err r' seen rule: write_loop.induct)
  case (2 v t entry rest r upd)
  show ?case
  proof (cases "\<exists>e' entry' ch b ch'. validate_entry v entry = None \<and> transform_entry t entry = (Inr e', entry')
      \<and> reg_Get r (we_Channel e') = Some ch \<and> ch_Update ch [entry_value e'] = (Inr b, ch')")
    case True
    then obtain e' entry' ch b ch' where step: "validate_entry v entry = None" "transform_entry t entry = (Inr e', entry')"
      "reg_Get r (we_Channel e') = Some ch" "ch_Update ch [entry_value e'] = (Inr b, ch')" by blast
    obtain seen' where rec: "write_loop v t rest (Register (we_Channel e') ch' r)
        (if b then gm_put (we_Channel e') True upd else upd) = (Inl err, r', seen')" and seen: "seen = entry' # seen'"
      using "2.prems" step by (auto split: prod.splits)
    obtain pre e post u r1 seen1 where IH: "rest = pre @ e # post"
      "write_loop v t pre (Register (we_Channel e') ch' r) (if b then gm_put (we_Channel e') True upd else upd) = (Inr u, r1, seen1)"
      "\<forall>n. n \<noteq> we_Channel (entry_image t e) \<longrightarrow> reg_Get r' n = reg_Get r1 n" "length seen' = length rest"
      using "2.IH" [OF step(1) step(2) [symmetric] refl step(3) step(4) [symmetric] refl rec] by blast
    show ?thesis
      using IH step seen by (intro exI [of _ "entry # pre"] exI [of _ e] exI [of _ post] exI [of _ u] exI [of _ r1]
          exI [of _ "entry' # seen1"]) simp
  next
    case False
    then have "(\<forall>n. n \<noteq> we_Channel (entry_image t entry) \<longrightarrow> reg_Get r' n = reg_Get r n) \<and> length seen = Suc (length rest)"
      using "2.prems" by (auto simp: entry_image_def reg_Get_Register split: option.splits prod.splits sum.splits)
    then show ?thesis by (intro exI [of _ "[]"]) auto
  qed
qed simp

text \<open>
  C32: the effect of \<^verbatim>\<open>Write\<close> on every channel. When it succeeds, each channel has got exactly the values of the
  (transformed) entries that name it, one update each and in order, whatever the entries for the other
  channels are, and no entry is left pending. When it fails at an entry, the entries before it have been
  applied in the same way, no channel but the one of the failing entry differs from that, and all
  entries are still pending.
\<close>

theorem Write_per_channel:
  assumes "cw_Write cw r = (res, cw', r')"
  shows "case res of
      Inr updated \<Rightarrow>
        cw_entries cw' = []
        \<and> (\<forall>n. reg_Get r' n =
              map_option (\<lambda>ch. update_each ch (entry_values_for (cw_transformer cw) n (cw_entries cw))) (reg_Get r n))
    | Inl err \<Rightarrow>
        length (cw_entries cw') = length (cw_entries cw)
        \<and> (\<exists>pre e post. cw_entries cw = pre @ e # post
            \<and> list_all (entry_passes (cw_validator cw) (cw_transformer cw)) pre
            \<and> (\<forall>n. n \<noteq> we_Channel (entry_image (cw_transformer cw) e) \<longrightarrow>
                  reg_Get r' n = map_option (\<lambda>ch. update_each ch (entry_values_for (cw_transformer cw) n pre)) (reg_Get r n)))"
proof -
  obtain out es where loop: "write_loop (cw_validator cw) (cw_transformer cw) (cw_entries cw) r [] = (out, r', es)"
    and res: "res = out" "cw' = cw\<lparr>cw_entries := (case out of Inl e \<Rightarrow> es | Inr u \<Rightarrow> [])\<rparr>"
    using assms by (auto simp: cw_Write_def split: prod.splits sum.splits)
  show ?thesis
  proof (cases out)
    case (Inr u)
    then show ?thesis using write_loop_success [OF loop [unfolded Inr]] res by simp
  next
    case (Inl err)
    obtain pre e post u r1 seen1 where f: "cw_entries cw = pre @ e # post"
      "write_loop (cw_validator cw) (cw_transformer cw) pre r [] = (Inr u, r1, seen1)"
      "\<forall>n. n \<noteq> we_Channel (entry_image (cw_transformer cw) e) \<longrightarrow> reg_Get r' n = reg_Get r1 n"
      "length es = length (cw_entries cw)"
      using write_loop_failure [OF loop [unfolded Inl]] by blast
    have "list_all (entry_passes (cw_validator cw) (cw_transformer cw)) pre \<and>
        (\<forall>n. n \<noteq> we_Channel (entry_image (cw_transformer cw) e) \<longrightarrow>
          reg_Get r' n = map_option (\<lambda>ch. update_each ch (entry_values_for (cw_transformer cw) n pre)) (reg_Get r n))"
      using write_loop_success [OF f(2)] f(3) by simp
    then show ?thesis using f(1,4) unfolding res Inl by (simp only: sum.case) auto
  qed
qed

text \<open>Two channels, three entries; then an entry for a channel that is not there.\<close>

theorem Write_per_channel_witness:
  "let r = Register ''a'' (LastValue (NewLastValue GNil)) (Register ''b'' (Topic (NewTopic GNil True)) NewRegistry);
       cw = cw_WriteTo ''b'' (GInt 2) (cw_WriteTo ''a'' (GInt 9) (cw_WriteTo ''b'' (GInt 1) (NewChannelWrite [])))
   in (\<exists>u cw' r'. cw_Write cw r = (Inr u, cw', r') \<and> cw_entries cw' = []
        \<and> reg_Get r' ''b'' = Some (update_each (Topic (NewTopic GNil True)) [GInt 1, GInt 2]))
      \<and> (\<exists>err cw' r'. cw_Write (cw_WriteTo ''c'' GNil cw) r = (Inl err, cw', r') \<and> length (cw_entries cw') = 4)"
proof -
  define r where "r = Register ''a'' (LastValue (NewLastValue GNil)) (Register ''b'' (Topic (NewTopic GNil True)) NewRegistry)"
  define cw where "cw = cw_WriteTo ''b'' (GInt 2) (cw_WriteTo ''a'' (GInt 9) (cw_WriteTo ''b'' (GInt 1) (NewChannelWrite [])))"
  note defs = r_def cw_def cw_WriteTo_def AddEntry_def NewChannelWrite_def plain_entry_def
  have vals: "cw_transformer cw = Some IdentityWriteTransformer" "length (cw_entries cw) = 3"
    "entry_values_for (cw_transformer cw) ''b'' (cw_entries cw) = [GInt 1, GInt 2]"
    "reg_Get r ''b'' = Some (Topic (NewTopic GNil True))"
    by (simp_all add: defs entry_values_for_def entry_image_def transform_entry_def entry_value_def reg_Get_Register)
  have "\<exists>u cw' r'. cw_Write cw r = (Inr u, cw', r')"
    by (simp add: cw_Write_def defs validate_entry_def transform_entry_def reg_Get_Register lv_Update_def tp_Update_def
        NewTopic_def entry_value_def as_slice_def Let_def)
  moreover have "\<exists>err cw' r'. cw_Write (cw_WriteTo ''c'' GNil cw) r = (Inl err, cw', r')"
    by (simp add: cw_Write_def defs validate_entry_def transform_entry_def reg_Get_Register lv_Update_def tp_Update_def
        NewTopic_def entry_value_def as_slice_def Let_def reg_Get_NewRegistry)
  ultimately obtain u cw' r' err cw2 r2 where ok: "cw_Write cw r = (Inr u, cw', r')"
    and bad: "cw_Write (cw_WriteTo ''c'' GNil cw) r = (Inl err, cw2, r2)" by blast
  have "length (cw_entries (cw_WriteTo ''c'' GNil cw)) = 4" using vals(2) by (simp add: cw_WriteTo_def AddEntry_def)
  with Write_per_channel [OF ok] Write_per_channel [OF bad] ok bad vals(3,4) show ?thesis
    unfolding r_def [symmetric] cw_def [symmetric] Let_def by auto
qed

section \<open>Reading back what was written\<close>

lemma read_loop_map_of:
  assumes "distinct names"
  shows "map_of (fst (cr_read_loop names r vals)) n =
    (if n \<in> set names
     then case reg_Get r n of
            Some ch \<Rightarrow> (case fst (ch_Get ch) of Inr v \<Rightarrow> Some v | Inl err \<Rightarrow> map_of vals n)
          | None \<Rightarrow> map_of vals n
     else map_of vals n)"
  using assms
  by (induction names r vals rule: cr_read_loop.induct)
    (auto simp: reg_Get_Register gomap_simps split: option.splits sum.splits)

lemma update_each_LastValue:
  "update_each (LastValue c) (vs @ [v]) = LastValue (c\<lparr>lv_value := v\<rparr>)"
proof -
  have "\<exists>x. update_each (LastValue c) vs = LastValue (c\<lparr>lv_value := x\<rparr>)" for vs
  proof (induction vs rule: rev_induct)
    case Nil
    then show ?case by (auto intro: exI [of _ "lv_value c"])
  next
    case (snoc x xs)
    then show ?case by (auto simp: update_each_def lv_Update_def)
  qed
  then obtain x where "update_each (LastValue c) vs = LastValue (c\<lparr>lv_value := x\<rparr>)" by blast
  then show ?thesis by (simp add: update_each_def lv_Update_def)
qed

text \<open>
  What was written to a last-value channel is what is read from it: after a successful \<^verbatim>\<open>Write\<close> both
  \<^verbatim>\<open>ReadChannel\<close> and a \<^verbatim>\<open>Read\<close> of all channels give the value of the last entry for the channel.
\<close>

lemma write_then_read:
  assumes "cw_Write cw r = (Inr u, cw', r')" and "reg_Get r n = Some (LastValue c)" and "reg_ok r'"
    and "entry_values_for (cw_transformer cw) n (cw_entries cw) = vs @ [v]" and "v \<noteq> GMissing"
  shows "fst (ReadChannel n r') = Inr v" and "\<exists>vals. fst (cr_Read (NewChannelRead []) r') = Inr vals \<and> map_of vals n = Some v"
proof -
  obtain seen where "write_loop (cw_validator cw) (cw_transformer cw) (cw_entries cw) r [] = (Inr u, r', seen)"
    using assms(1) by (auto simp: cw_Write_def split: prod.splits sum.splits)
  from write_loop_success [OF this] have ch: "reg_Get r' n = Some (LastValue (c\<lparr>lv_value := v\<rparr>))"
    using assms(2,4) by (simp add: update_each_LastValue)
  then show "fst (ReadChannel n r') = Inr v" using assms(5) by (simp add: ReadChannel_def lv_Get_def IsMissing_def)
  have mem: "n \<in> set (reg_Names r')" using ch by (force simp: reg_Get_def reg_Names_def dest: map_of_SomeD)
  have "distinct (reg_Names r')" using assms(3) by (simp add: reg_Names_def)
  then have "map_of (fst (cr_read_loop (reg_Names r') r' [])) n = Some v"
    using ch mem assms(5) by (simp add: read_loop_map_of lv_Get_def IsMissing_def)
  then show "\<exists>vals. fst (cr_Read (NewChannelRead []) r') = Inr vals \<and> map_of vals n = Some v"
    by (auto simp: cr_Read_def NewChannelRead_def split: prod.splits)
qed

section \<open>Where the code departs from its comments\<close>

lemmas write_compute = cw_Write_def cw_WriteTo_def cw_Overwrite_def AddEntry_def NewChannelWrite_def plain_entry_def
  validate_entry_def transform_entry_def entry_value_def reg_Get_Register reg_Get_NewRegistry lv_Update_def
  WithWriteTransformer_def

text \<open>
  \<^verbatim>\<open>Overwrite\<close> wraps the value in \<^verbatim>\<open>types.Overwrite\<close>, which no channel unwraps: a last-value channel then
  holds the wrapper itself, and an aggregate does not see an overwrite.
\<close>

lemma Overwrite_stores_wrapper:
  "reg_Get r n = Some (LastValue c) \<Longrightarrow>
   fst (ReadChannel n (snd (snd (cw_Write (cw_Overwrite n v (NewChannelWrite [])) r)))) = Inr (GOverwrite v)
   \<and> isOverwrite (GOverwrite v) = None"
  by (simp add: write_compute ReadChannel_def lv_Get_def IsMissing_def isOverwrite_def)

text \<open>
  The filter says an entry is to be skipped by an error, but \<^verbatim>\<open>Write\<close> gives up at it: nothing behind the
  filtered entry is written.
\<close>

lemma filtered_entry_aborts_write:
  assumes "\<not> p (plain_entry a x False [])"
  shows "cw_Write (cw_WriteTo b y (cw_WriteTo a x
      (NewChannelWrite [WithWriteTransformer (Some (FilterWriteTransformer (Some p)))]))) r =
    (Inl (WrapErr (''transformation failed for channel '' @ a @ '': '') (WriteSkipError a)),
     cw_WriteTo b y (cw_WriteTo a x (NewChannelWrite [WithWriteTransformer (Some (FilterWriteTransformer (Some p)))])), r)"
  using assms by (simp add: write_compute)

text \<open>
  A write that failed half-way and is tried again applies its first half twice: a counter that should
  be raised once is raised twice.
\<close>

lemma failed_write_repeats:
  "let counter = BinaryOperatorAggregate ((NewBinaryOperatorAggregate (GInt 0) IntAdd)\<lparr>bo_value := GInt 0\<rparr>);
       r = Register ''n'' counter NewRegistry;
       (res1, cw1, r1) = cw_Write (cw_WriteTo ''b'' GNil (cw_WriteTo ''n'' (GInt 1) (NewChannelWrite []))) r;
       (res2, cw2, r2) = cw_Write cw1 (Register ''b'' (LastValue (NewLastValue GNil)) r1)
   in res1 = Inl (Errorf ''channel not found: b'') \<and> (\<exists>u. res2 = Inr u)
      \<and> fst (ReadChannel ''n'' r1) = Inr (GInt 1) \<and> fst (ReadChannel ''n'' r2) = Inr (GInt 2)"
  by (simp add: write_compute ReadChannel_def bo_Update_def bo_Get_def IntAdd_def isOverwrite_def IsMissing_def Let_def
      NewBinaryOperatorAggregate_def)

text \<open>
  An update does not change the version of a channel, so \<^verbatim>\<open>ChannelChangedTrigger\<close>, which compares versions,
  does not fire after a write; and it fires on its first call for a channel that was never written.
\<close>

lemma ch_Get_Version: "ch_GetVersion (snd (ch_Get ch)) = ch_GetVersion ch"
  by (induction ch) (auto simp: lv_Get_def av_Get_def ev_Get_def uv_Get_def tp_Get_def bo_Get_def nb_Get_def nf_Get_def la_Get_def)

lemma ch_Update_Version: "ch_GetVersion (snd (ch_Update ch vs)) = ch_GetVersion ch"
  by (induction ch vs rule: ch_Update.induct)
    (auto simp: lv_Update_def av_Update_def ev_Update_def uv_Update_def tp_Update_def bo_Update_def nb_Update_def nf_Update_def
      la_Update_def Let_def ch_Get_Version split: list.split prod.split sum.split)

lemma changed_trigger_misses_update:
  assumes "reg_Get r n = Some ch" and "0 \<le> ch_GetVersion ch"
    and "ShouldTrigger r (ChannelChangedTrigger n lastV) = (b, t)"
  shows "fst (ShouldTrigger (Register n (snd (ch_Update ch vs)) r) t) = False"
  using assms by (auto simp: reg_Get_Register ch_Update_Version Let_def split: if_splits)

lemma changed_trigger_fires_on_empty:
  "reg_Get r n = Some (LastValue (NewLastValue ty)) \<Longrightarrow>
   fst (ShouldTrigger r (NewChannelChangedTrigger n)) \<and> \<not> channel_available r n"
  by (simp add: NewChannelChangedTrigger_def NewLastValue_def channel_available_def lv_IsAvailable_def IsMissing_def)

end
