(* ===== verification/State_Inspector.thy ===== *)
theory State_Inspector
  imports Graph_Validation Channel_Registry Memory_Saver Run_Config
begin

text \<open>
  Inspecting and editing the saved state of a compiled graph (\<^verbatim>\<open>graph/state_inspector.go\<close>): \<^verbatim>\<open>GetState\<close>,
  \<^verbatim>\<open>GetStateHistory\<close>, \<^verbatim>\<open>UpdateState\<close> and \<^verbatim>\<open>ForkThread\<close>, and the nesting of compiled graphs with its
  checkpoint namespaces (\<^verbatim>\<open>graph/compiled.go\<close>). The checkpointer is reached through the interface
  \<^verbatim>\<open>BaseCheckpointer\<close>; the laws a client relies on extend those of the engine by what \<^verbatim>\<open>List\<close> returns.
\<close>

section \<open>The operations\<close>

record 's base_checkpointer =
  bc_Get :: "'s \<Rightarrow> goval gomap \<Rightarrow> goval gomap option go_result"
  bc_Put :: "string \<Rightarrow> int \<Rightarrow> goval gomap \<Rightarrow> goval gomap \<Rightarrow> 's \<Rightarrow> go_error option \<times> 's"
  bc_List :: "'s \<Rightarrow> goval gomap \<Rightarrow> int \<Rightarrow> goval gomap list go_result"

record state_snapshot =
  ss_Values :: "goval gomap option"
  ss_Next :: "string list"
  ss_Config :: "runnable_config option"
  ss_Metadata :: "goval gomap"
  ss_CreatedAt :: int

record state_update =
  su_Values :: "goval gomap"
  su_AsNode :: string
  su_CheckID :: string
  su_ThreadID :: string

definition ConfigKeyCheckpointNS :: string where
  "ConfigKeyCheckpointNS = ''checkpoint_ns''"

definition copy_key :: "string \<Rightarrow> goval gomap \<Rightarrow> goval gomap \<Rightarrow> goval gomap" where
  "copy_key k src m = (case map_of src k of Some v \<Rightarrow> gm_put k v m | None \<Rightarrow> m)"

definition buildCheckpointerConfig :: "runnable_config option \<Rightarrow> goval gomap" where
  "buildCheckpointerConfig config =
     (case Option.bind config Configurable of
        None \<Rightarrow> []
      | Some c \<Rightarrow>
          copy_key ConfigKeyCheckpointNS c (copy_key ConfigKeyCheckpointID c (copy_key ConfigKeyThreadID c [])))"

definition extractMeta :: "goval gomap \<Rightarrow> goval gomap" where
  "extractMeta cpData =
     (let meta = (case map_of cpData ''__step__'' of Some v \<Rightarrow> gm_put ''step'' v [] | None \<Rightarrow> [])
      in case map_of cpData ''__last_completed_node__'' of
           Some v \<Rightarrow> gm_put ''last_completed_node'' v meta
         | None \<Rightarrow> meta)"

definition determineNextFromCheckpoint :: "goval gomap \<Rightarrow> string list" where
  "determineNextFromCheckpoint cpData = []"

text \<open>The checkpointer a graph was compiled with; \<open>None\<close>: the stored value has not that type.\<close>

definition getCheckpointer :: "compiled_graph \<Rightarrow> 's base_checkpointer option \<Rightarrow> 's base_checkpointer go_result" where
  "getCheckpointer cg cp =
     (case cp of
        None \<Rightarrow> Inl (Errorf (''checkpointer is not a BaseCheckpointer (got '' @ fmt_T (cg_checkpointer cg) @ '')''))
      | Some c \<Rightarrow> Inr c)"

definition channel_copies :: "compiled_graph \<Rightarrow> registry" where
  "channel_copies cg = fold (\<lambda>(name, ch). Register name (ch_Copy ch)) (sg_channels (cg_graph cg)) NewRegistry"

text \<open>The values of the channels, restored from the keys of the checkpoint that name a channel.\<close>

definition restored_values :: "compiled_graph \<Rightarrow> goval gomap \<Rightarrow> goval gomap option go_result" where
  "restored_values cg cpData =
     (let r = channel_copies cg;
          filtered = fold (\<lambda>(key, val) f. if reg_Get r key \<noteq> None then gm_put key val f else f) cpData []
      in case (if filtered \<noteq> [] then RestoreFromCheckpoint filtered r else (None, r)) of
           (Some err, r') \<Rightarrow> Inl (WrapErr ''failed to restore from checkpoint: '' err)
         | (None, r') \<Rightarrow> Inr (case fst (GetValues r') of Inr vals \<Rightarrow> Some vals | Inl e \<Rightarrow> None))"

definition cg_GetState ::
  "compiled_graph \<Rightarrow> 's base_checkpointer option \<Rightarrow> int \<Rightarrow> runnable_config option \<Rightarrow> 's
   \<Rightarrow> state_snapshot option go_result" where
  "cg_GetState cg cp now config s =
     (if cg_checkpointer cg = GNil
      then Inl (Errorf ''checkpointer is required for GetState, configure with WithCheckpointer during Compile'')
      else case getCheckpointer cg cp of
             Inl err \<Rightarrow> Inl err
           | Inr c \<Rightarrow>
               (case bc_Get c s (buildCheckpointerConfig config) of
                  Inl err \<Rightarrow> Inl (WrapErr ''failed to get checkpoint: '' err)
                | Inr None \<Rightarrow> Inr None
                | Inr (Some cpData) \<Rightarrow>
                    (case restored_values cg cpData of
                       Inl err \<Rightarrow> Inl err
                     | Inr vals \<Rightarrow>
                         Inr (Some \<lparr>ss_Values = vals, ss_Next = determineNextFromCheckpoint cpData, ss_Config = config,
                                    ss_Metadata = extractMeta cpData, ss_CreatedAt = now\<rparr>))))"

definition copy_config :: "runnable_config option \<Rightarrow> goval gomap" where
  "copy_config config =
     (case Option.bind config Configurable of None \<Rightarrow> [] | Some c \<Rightarrow> fold (\<lambda>(k, v). gm_put k v) c [])"

definition zero_config :: runnable_config where
  "zero_config =
     \<lparr>Configurable = None, RecursionLimit = 0, Tags = [], rcMetadata = None, RunID = [], ThreadID = [], Durability = []\<rparr>"

definition snapshot_config :: "runnable_config option \<Rightarrow> goval gomap \<Rightarrow> runnable_config" where
  "snapshot_config config entry =
     (let cpID = (case as_string (gm_val entry ConfigKeyCheckpointID) of Some i \<Rightarrow> i | None \<Rightarrow> []);
          m = copy_config config
      in zero_config\<lparr>Configurable := Some (if cpID \<noteq> [] then gm_put ConfigKeyCheckpointID (GStr cpID) m else m)\<rparr>)"

definition entry_time :: "goval gomap \<Rightarrow> int option" where
  "entry_time entry =
     (case gm_val entry ''created_at'' of GOther n t \<Rightarrow> (if n = ''time.Time'' then Some (int t) else None) | _ \<Rightarrow> None)"

fun history_loop ::
  "compiled_graph \<Rightarrow> 's base_checkpointer option \<Rightarrow> int \<Rightarrow> runnable_config option \<Rightarrow> 's \<Rightarrow> goval gomap list
   \<Rightarrow> state_snapshot list" where
  "history_loop cg cp now config s [] = []"
| "history_loop cg cp now config s (entry # rest) =
     (case cg_GetState cg cp now (Some (snapshot_config config entry)) s of
        Inr (Some snap) \<Rightarrow>
          (let snap = (case entry_time entry of Some t \<Rightarrow> snap\<lparr>ss_CreatedAt := t\<rparr> | None \<Rightarrow> snap);
               snap = (case as_map (gm_val entry ''metadata'') of Some m \<Rightarrow> snap\<lparr>ss_Metadata := m\<rparr> | None \<Rightarrow> snap)
           in snap # history_loop cg cp now config s rest)
      | _ \<Rightarrow> history_loop cg cp now config s rest)"

definition cg_GetStateHistory ::
  "compiled_graph \<Rightarrow> 's base_checkpointer option \<Rightarrow> int \<Rightarrow> runnable_config option \<Rightarrow> int \<Rightarrow> runnable_config option \<Rightarrow> 's
   \<Rightarrow> state_snapshot list go_result" where
  "cg_GetStateHistory cg cp now config limit before s =
     (if cg_checkpointer cg = GNil then Inl (Errorf ''checkpointer is required for GetStateHistory'')
      else case getCheckpointer cg cp of
             Inl err \<Rightarrow> Inl err
           | Inr c \<Rightarrow>
               (case bc_List c s (buildCheckpointerConfig config) limit of
                  Inl err \<Rightarrow> Inl (WrapErr ''failed to list checkpoints: '' err)
                | Inr entries \<Rightarrow> Inr (history_loop cg cp now config s entries)))"

definition first_id :: "goval gomap list \<Rightarrow> string" where
  "first_id entries =
     (case entries of
        [] \<Rightarrow> []
      | e # es \<Rightarrow> (case as_string (gm_val e ConfigKeyCheckpointID) of Some i \<Rightarrow> i | None \<Rightarrow> []))"

text \<open>\<open>uuid\<close> and \<open>now\<close> are what the checkpointer uses for a new checkpoint.\<close>

definition cg_UpdateState ::
  "compiled_graph \<Rightarrow> 's base_checkpointer option \<Rightarrow> string \<Rightarrow> int \<Rightarrow> runnable_config option \<Rightarrow> state_update \<Rightarrow> 's
   \<Rightarrow> runnable_config option go_result \<times> 's" where
  "cg_UpdateState cg cp uuid now config update s =
     (if cg_checkpointer cg = GNil then (Inl (Errorf ''checkpointer is required for UpdateState''), s)
      else case getCheckpointer cg cp of
        Inl err \<Rightarrow> (Inl err, s)
      | Inr c \<Rightarrow>
          (let cpConfig = buildCheckpointerConfig config;
               cpConfig = (if su_CheckID update \<noteq> [] then gm_put ConfigKeyCheckpointID (GStr (su_CheckID update)) cpConfig
                           else cpConfig)
           in case bc_Get c s cpConfig of
                Inl err \<Rightarrow> (Inl (WrapErr ''failed to get checkpoint for update: '' err), s)
              | Inr None \<Rightarrow> (Inl (Errorf ''no checkpoint found for the given config''), s)
              | Inr (Some cpData) \<Rightarrow>
                  (let cpData = fold (\<lambda>(key, val). gm_put key val) (su_Values update) cpData;
                       newThreadID = (if su_ThreadID update \<noteq> [] then su_ThreadID update
                                      else case as_string (gm_val cpConfig ConfigKeyThreadID) of Some i \<Rightarrow> i | None \<Rightarrow> [])
                   in if newThreadID = [] then (Inl (Errorf ''thread_id is required for UpdateState''), s)
                      else
                      (let parentID = (case as_string (gm_val cpConfig ConfigKeyCheckpointID) of Some i \<Rightarrow> i | None \<Rightarrow> []);
                           newConfig = [(ConfigKeyThreadID, GStr newThreadID), (''parent_checkpoint_id'', GStr parentID),
                                        (ConfigKeyCheckpointID, GStr [])]
                       in case bc_Put c uuid now newConfig cpData s of
                            (Some err, s') \<Rightarrow> (Inl (WrapErr ''failed to save updated checkpoint: '' err), s')
                          | (None, s') \<Rightarrow>
                              (case bc_List c s' [(ConfigKeyThreadID, GStr newThreadID)] 1 of
                                 Inr (e # es) \<Rightarrow>
                                   (Inr (Some (NewRunnableConfig\<lparr>Configurable := Some
                                      (gm_put ConfigKeyThreadID (GStr newThreadID)
                                        (gm_put ConfigKeyCheckpointID (GStr (first_id (e # es))) (copy_config config)))\<rparr>)), s')
                               | _ \<Rightarrow> (Inr config, s'))))))"

definition cg_ForkThread ::
  "compiled_graph \<Rightarrow> 's base_checkpointer option \<Rightarrow> string \<Rightarrow> int \<Rightarrow> string \<Rightarrow> string \<Rightarrow> string \<Rightarrow> 's
   \<Rightarrow> runnable_config go_result \<times> 's" where
  "cg_ForkThread cg cp uuid now sourceThreadID newThreadID sourceCheckpointID s =
     (if cg_checkpointer cg = GNil then (Inl (Errorf ''checkpointer is required for ForkThread''), s)
      else case getCheckpointer cg cp of
        Inl err \<Rightarrow> (Inl err, s)
      | Inr c \<Rightarrow>
          (let cpConfig = [(ConfigKeyThreadID, GStr sourceThreadID)]
                 @ (if sourceCheckpointID \<noteq> [] then [(ConfigKeyCheckpointID, GStr sourceCheckpointID)] else [])
           in case bc_Get c s cpConfig of
                Inl err \<Rightarrow> (Inl (WrapErr ''failed to get source checkpoint: '' err), s)
              | Inr None \<Rightarrow> (Inl (Errorf (''no checkpoint found for thread '' @ sourceThreadID)), s)
              | Inr (Some cpData) \<Rightarrow>
                  (let newConfig = [(ConfigKeyThreadID, GStr newThreadID)]
                   in case bc_Put c uuid now newConfig cpData s of
                        (Some err, s') \<Rightarrow> (Inl (WrapErr ''failed to write forked checkpoint: '' err), s')
                      | (None, s') \<Rightarrow>
                          (case bc_List c s' newConfig 1 of
                             Inr (e # es) \<Rightarrow>
                               (Inr (NewRunnableConfig\<lparr>Configurable := Some
                                  ([(ConfigKeyThreadID, GStr newThreadID)]
                                   @ (if first_id (e # es) \<noteq> [] then [(ConfigKeyCheckpointID, GStr (first_id (e # es)))] else []))\<rparr>), s')
                           | _ \<Rightarrow> (Inr (zero_config\<lparr>Configurable := Some [(ConfigKeyThreadID, GStr newThreadID)]\<rparr>), s')))))"

section \<open>What a client of the checkpointer sees\<close>

text \<open>
  The laws of the checkpointer, together with those on \<^verbatim>\<open>List\<close> and on the identifiers it gives: the newest
  checkpoint comes first, under the identifier of the configuration or else the new one.
\<close>

locale history_checkpointer = checkpointer get put copy thread cid empty
  for get :: "'s \<Rightarrow> goval gomap \<Rightarrow> goval gomap option go_result"
    and put :: "string \<Rightarrow> int \<Rightarrow> goval gomap \<Rightarrow> goval gomap \<Rightarrow> 's \<Rightarrow> go_error option \<times> 's"
    and copy :: "goval gomap \<Rightarrow> goval gomap"
    and thread cid :: "goval gomap \<Rightarrow> string option"
    and empty :: 's +
  fixes list :: "'s \<Rightarrow> goval gomap \<Rightarrow> int \<Rightarrow> goval gomap list go_result"
  assumes list_put:
      "thread c = Some t \<Longrightarrow> thread c' = Some t \<Longrightarrow>
       \<exists>e. list (snd (put u n c cp s)) c' 1 = Inr [e]
         \<and> gm_val e ConfigKeyCheckpointID = GStr (case cid c of Some i \<Rightarrow> i | None \<Rightarrow> u)"
    and get_put_fresh_id:
      "thread c = Some t \<Longrightarrow> cid c = None \<Longrightarrow> thread c' = Some t \<Longrightarrow> cid c' = Some u \<Longrightarrow> get s c' = Inl err \<Longrightarrow>
       get (snd (put u n c cp s)) c' = Inr (Some (copy cp))"
    and copy_get: "get s c = Inr (Some cp) \<Longrightarrow> copy cp = cp"
    and config_thread: "thread c = as_string (gm_val c ConfigKeyThreadID)"
    and config_id: "cid c = as_string (gm_val c ConfigKeyCheckpointID)"
begin

abbreviation ops :: "'s base_checkpointer" where
  "ops \<equiv> \<lparr>bc_Get = get, bc_Put = put, bc_List = list\<rparr>"

lemma build_config:
  "thread (buildCheckpointerConfig (Some (c\<lparr>Configurable := Some m\<rparr>))) = thread m"
  "cid (buildCheckpointerConfig (Some (c\<lparr>Configurable := Some m\<rparr>))) = cid m"
  by (simp_all add: buildCheckpointerConfig_def copy_key_def config_thread config_id gm_val_def gomap_simps
      ConfigKeyThreadID_def ConfigKeyCheckpointID_def ConfigKeyCheckpointNS_def split: option.split)

text \<open>
  A fork: reading the configuration that \<^verbatim>\<open>ForkThread\<close> returns gives what reading the source gave, and
  other threads are as before.
\<close>

lemma fork_reads_source:
  assumes cg: "cg_checkpointer cg \<noteq> GNil"
    and src: "get s ([(ConfigKeyThreadID, GStr src)] @ (if sid \<noteq> [] then [(ConfigKeyCheckpointID, GStr sid)] else [])) = Inr (Some cp)"
    and new: "get s [(ConfigKeyThreadID, GStr new), (ConfigKeyCheckpointID, GStr uuid)] = Inl err" and "uuid \<noteq> []"
  shows "\<exists>config s'. cg_ForkThread cg (Some ops) uuid now src new sid s = (Inr config, s')
    \<and> get s' (buildCheckpointerConfig (Some config)) = Inr (Some cp)
    \<and> (\<forall>c t. thread c = Some t \<and> t \<noteq> new \<longrightarrow> get s' c = get s c)"
proof -
  let ?new = "[(ConfigKeyThreadID, GStr new)]"
  define s' where "s' = snd (put uuid now ?new cp s)"
  define config where "config = NewRunnableConfig\<lparr>Configurable :=
    Some [(ConfigKeyThreadID, GStr new), (ConfigKeyCheckpointID, GStr uuid)]\<rparr>"
  have th: "thread ?new = Some new" "cid ?new = None"
    by (simp_all add: config_thread config_id gm_val_def as_string_def)
  have put: "put uuid now ?new cp s = (None, s')"
    using put_ok [OF th(1), of uuid now cp s] by (cases "put uuid now ?new cp s") (simp add: s'_def)
  obtain e where e: "list s' ?new 1 = Inr [e]" "first_id [e] = uuid"
    using list_put [OF th(1) th(1), of uuid now cp s] th(2) by (auto simp: s'_def first_id_def as_string_def)
  have fork: "cg_ForkThread cg (Some ops) uuid now src new sid s = (Inr config, s')"
    using cg src put e assms(4) by (simp add: cg_ForkThread_def getCheckpointer_def config_def Let_def)
  let ?cfg = "buildCheckpointerConfig (Some config)"
  have cfg: "thread ?cfg = Some new" "cid ?cfg = Some uuid"
    unfolding config_def build_config by (simp_all add: config_thread config_id gm_val_def as_string_def)
  have eq: "?cfg = [(ConfigKeyThreadID, GStr new), (ConfigKeyCheckpointID, GStr uuid)]"
    by (simp add: config_def buildCheckpointerConfig_def copy_key_def ConfigKeyThreadID_def ConfigKeyCheckpointID_def
        ConfigKeyCheckpointNS_def)
  have "get s' ?cfg = Inr (Some (copy cp))"
    unfolding s'_def using new by (intro get_put_fresh_id [OF th cfg, where err = err]) (simp add: eq)
  then have "get s' ?cfg = Inr (Some cp)" using copy_get [OF src] by simp
  moreover have "get s' c = get s c" if "thread c = Some t" "t \<noteq> new" for c t
    unfolding s'_def by (rule get_put_other [OF th(1) that])
  ultimately show ?thesis using fork by blast
qed

text \<open>An update: the latest checkpoint of the thread then holds the old values overridden by the new ones.\<close>

lemma update_is_latest:
  assumes cg: "cg_checkpointer cg \<noteq> GNil"
    and config: "thread (buildCheckpointerConfig config) = Some t" "t \<noteq> []"
    and upd: "su_ThreadID update = []" "su_CheckID update = []"
    and old: "get s (buildCheckpointerConfig config) = Inr (Some cp)"
    and latest: "thread c = Some t" "cid c = None"
  shows "\<exists>res s'. cg_UpdateState cg (Some ops) uuid now config update s = (Inr res, s')
    \<and> get s' c = Inr (Some (copy (fold (\<lambda>(key, val). gm_put key val) (su_Values update) cp)))"
proof -
  define cp' where "cp' = fold (\<lambda>(key, val). gm_put key val) (su_Values update) cp"
  define newc where "newc = [(ConfigKeyThreadID, GStr t), (''parent_checkpoint_id'', GStr
    (case as_string (gm_val (buildCheckpointerConfig config) ConfigKeyCheckpointID) of Some i \<Rightarrow> i | None \<Rightarrow> [])),
    (ConfigKeyCheckpointID, GStr [])]"
  define s' where "s' = snd (put uuid now newc cp' s)"
  have th: "thread newc = Some t" by (simp add: newc_def config_thread gm_val_def as_string_def)
  have put: "put uuid now newc cp' s = (None, s')"
    using put_ok [OF th, of uuid now cp' s] by (cases "put uuid now newc cp' s") (simp add: s'_def)
  have "thread [(ConfigKeyThreadID, GStr t)] = Some t" by (simp add: config_thread gm_val_def as_string_def)
  then obtain e where "list s' [(ConfigKeyThreadID, GStr t)] 1 = Inr [e]"
    using list_put [OF th, of _ uuid now cp' s] by (auto simp: s'_def)
  then have "\<exists>res. cg_UpdateState cg (Some ops) uuid now config update s = (Inr res, s')"
    using cg config upd old put by (auto simp: cg_UpdateState_def getCheckpointer_def Let_def config_thread newc_def cp'_def)
  moreover have "get s' c = Inr (Some (copy cp'))"
    unfolding s'_def by (rule get_put_latest [OF th latest])
  ultimately show ?thesis by (auto simp: cp'_def)
qed

end

section \<open>On the in-memory saver\<close>

abbreviation ms_ops :: "memory_saver base_checkpointer" where
  "ms_ops \<equiv> \<lparr>bc_Get = ms_Get, bc_Put = ms_Put, bc_List = ms_List\<rparr>"

lemma ms_Get_copy: "ms_Get s c = Inr (Some cp) \<Longrightarrow> deepCopyMap cp = cp"
  by (auto simp: ms_Get_def split: option.splits if_splits)

interpretation inspector: history_checkpointer ms_Get ms_Put deepCopyMap
  "config_string ConfigKeyThreadID" "config_string ConfigKeyCheckpointID" NewMemorySaver ms_List
proof
  fix c t c' u n cp s
  assume c: "config_string ConfigKeyThreadID c = Some t" "config_string ConfigKeyThreadID c' = Some t"
  obtain e where e: "ce_ID e = (case config_string ConfigKeyCheckpointID c of Some i \<Rightarrow> i | None \<Rightarrow> u)"
      "versions_of (snd (ms_Put u n c cp s)) t = versions_of s t @ [e]"
    using versions_of_Put [OF c(1), of u cp n s] by auto
  then show "\<exists>e. ms_List (snd (ms_Put u n c cp s)) c' 1 = Inr [e]
      \<and> gm_val e ConfigKeyCheckpointID = GStr (case config_string ConfigKeyCheckpointID c of Some i \<Rightarrow> i | None \<Rightarrow> u)"
    using c by (simp add: ms_List_def Let_def gm_val_def)
next
  fix c t c' u s err n cp
  assume c: "config_string ConfigKeyThreadID c = Some t" "config_string ConfigKeyCheckpointID c = None"
    "config_string ConfigKeyThreadID c' = Some t" "config_string ConfigKeyCheckpointID c' = Some u" "ms_Get s c' = Inl err"
  then show "ms_Get (snd (ms_Put u n c cp s)) c' = Inr (Some (deepCopyMap cp))"
    using versions_of_Put [OF c(1), of u cp n s] by (auto simp: ms_Get_alt find_snoc split: option.splits)
qed (simp_all add: ms_Get_copy config_string_def)

text \<open>The configuration that names a checkpoint of a thread, or its latest one.\<close>

definition at_checkpoint :: "string \<Rightarrow> string \<Rightarrow> runnable_config" where
  "at_checkpoint t i =
     zero_config\<lparr>Configurable := Some ([(ConfigKeyThreadID, GStr t)] @ (if i \<noteq> [] then [(ConfigKeyCheckpointID, GStr i)] else []))\<rparr>"

lemma build_at_checkpoint:
  "buildCheckpointerConfig (Some (at_checkpoint t i)) =
     [(ConfigKeyThreadID, GStr t)] @ (if i \<noteq> [] then [(ConfigKeyCheckpointID, GStr i)] else [])"
  by (simp add: buildCheckpointerConfig_def copy_key_def at_checkpoint_def ConfigKeyThreadID_def ConfigKeyCheckpointID_def
      ConfigKeyCheckpointNS_def)

lemma GetState_alt:
  "cg_checkpointer cg \<noteq> GNil \<Longrightarrow>
   cg_GetState cg (Some ms_ops) now config s =
     (case ms_Get s (buildCheckpointerConfig config) of
        Inl err \<Rightarrow> Inl (WrapErr ''failed to get checkpoint: '' err)
      | Inr None \<Rightarrow> Inr None
      | Inr (Some cpData) \<Rightarrow>
          (case restored_values cg cpData of
             Inl err \<Rightarrow> Inl err
           | Inr vals \<Rightarrow>
               Inr (Some \<lparr>ss_Values = vals, ss_Next = [], ss_Config = config, ss_Metadata = extractMeta cpData,
                          ss_CreatedAt = now\<rparr>)))"
  by (simp add: cg_GetState_def getCheckpointer_def determineNextFromCheckpoint_def split: sum.split option.split)

text \<open>
  C20: a forked thread starts from the state it was forked from. When \<^verbatim>\<open>GetState\<close> gives a snapshot at a
  checkpoint of the source thread, \<^verbatim>\<open>ForkThread\<close> from there succeeds, \<^verbatim>\<open>GetState\<close> at the
  configuration it returns gives the same values and metadata, and every thread other than
  the new one reads as before.
\<close>

theorem fork_same_state:
  assumes "cg_checkpointer cg \<noteq> GNil"
    and "cg_GetState cg (Some ms_ops) now (Some (at_checkpoint src sid)) s = Inr (Some snap)"
    and "ms_Get s [(ConfigKeyThreadID, GStr new), (ConfigKeyCheckpointID, GStr uuid)] = Inl err" and "uuid \<noteq> []"
  shows "\<exists>config s' snap'. cg_ForkThread cg (Some ms_ops) uuid now src new sid s = (Inr config, s')
    \<and> cg_GetState cg (Some ms_ops) now (Some config) s' = Inr (Some snap')
    \<and> ss_Values snap' = ss_Values snap \<and> ss_Metadata snap' = ss_Metadata snap
    \<and> (\<forall>t i. t \<noteq> new \<longrightarrow> cg_GetState cg (Some ms_ops) now (Some (at_checkpoint t i)) s'
                         = cg_GetState cg (Some ms_ops) now (Some (at_checkpoint t i)) s)"
proof -
  obtain cp where cp: "ms_Get s ([(ConfigKeyThreadID, GStr src)] @ (if sid \<noteq> [] then [(ConfigKeyCheckpointID, GStr sid)] else []))
      = Inr (Some cp)"
    using assms(2) unfolding GetState_alt [OF assms(1)] build_at_checkpoint by (auto split: sum.splits option.splits)
  obtain config s' where fork: "cg_ForkThread cg (Some ms_ops) uuid now src new sid s = (Inr config, s')"
      "ms_Get s' (buildCheckpointerConfig (Some config)) = Inr (Some cp)"
      "\<forall>c t. config_string ConfigKeyThreadID c = Some t \<and> t \<noteq> new \<longrightarrow> ms_Get s' c = ms_Get s c"
    using inspector.fork_reads_source [OF assms(1) cp assms(3,4)] by blast
  obtain vals where "restored_values cg cp = Inr vals" "ss_Values snap = vals" "ss_Metadata snap = extractMeta cp"
    using assms(2) cp unfolding GetState_alt [OF assms(1)] build_at_checkpoint by (auto split: sum.splits)
  then have snap: "\<exists>snap'. cg_GetState cg (Some ms_ops) now (Some config) s' = Inr (Some snap')
      \<and> ss_Values snap' = ss_Values snap \<and> ss_Metadata snap' = ss_Metadata snap"
    using fork(2) by (simp add: GetState_alt [OF assms(1)])
  have "ms_Get s' (buildCheckpointerConfig (Some (at_checkpoint t i))) = ms_Get s (buildCheckpointerConfig (Some (at_checkpoint t i)))"
    if "t \<noteq> new" for t i
    using fork(3) that by (simp add: build_at_checkpoint config_string_def gm_val_def as_string_def)
  then have "\<forall>t i. t \<noteq> new \<longrightarrow> cg_GetState cg (Some ms_ops) now (Some (at_checkpoint t i)) s'
      = cg_GetState cg (Some ms_ops) now (Some (at_checkpoint t i)) s"
    by (simp add: GetState_alt [OF assms(1)])
  with fork(1) snap show ?thesis by blast
qed

text \<open>A graph with one channel and a thread with two checkpoints, forked at the first.\<close>

definition counter_graph :: compiled_graph where
  "counter_graph =
     \<lparr>cg_graph = (NewStateGraph (SchemaMap K_String))\<lparr>sg_channels := [(''n'', LastValue (NewLastValue GNil))]\<rparr>,
      cg_checkpointer = GOther ''*checkpoint.MemorySaver'' 0, cg_interrupts = [], cg_interruptsAfter = [], cg_recursionLimit = 25,
      cg_debug = False, cg_nodeTriggerMode = []\<rparr>"

definition two_checkpoints :: memory_saver where
  "two_checkpoints =
     snd (ms_Put ''2'' 0 [(ConfigKeyThreadID, GStr ''a'')] [(''n'', GStr ''later'')]
       (snd (ms_Put ''1'' 0 [(ConfigKeyThreadID, GStr ''a'')] [(''n'', GStr ''first'')] NewMemorySaver)))"

lemmas config_simps = config_string_def gm_val_def as_string_def as_map_def ConfigKeyThreadID_def ConfigKeyCheckpointID_def
  ConfigKeyCheckpointNS_def

lemma deepCopy_str: "to_utf8 x = x \<Longrightarrow> deepCopy (GStr x) = GStr x"
  by (rule deepCopy_id) simp

lemma two_checkpoints_versions:
  "map (\<lambda>e. (ce_ID e, ce_Checkpoint e)) (versions_of two_checkpoints ''a'') =
     [(''1'', [(''n'', GStr ''first'')]), (''2'', [(''n'', GStr ''later'')])]"
  "versions_of two_checkpoints ''b'' = []"
  by (simp_all add: two_checkpoints_def ms_Put_def versions_of_def NewMemorySaver_def config_simps Let_def gomap_simps
      deepCopy_str to_utf8_ascii byte_in_def)

lemma counter_values: "restored_values counter_graph [(''n'', GStr x)] = Inr (Some [(''n'', GStr x)])"
  by (simp add: restored_values_def channel_copies_def counter_graph_def reg_Get_def Register_def NewRegistry_def GetValues_def
      lv_Copy_def NewLastValue_def lv_FromCheckpoint_def lv_Get_def IsMissing_def NewStateGraph_def Let_def)

lemma counter_checkpointer: "cg_checkpointer counter_graph \<noteq> GNil"
  by (simp add: counter_graph_def)

lemma two_checkpoints_Get:
  "ms_Get two_checkpoints [(ConfigKeyThreadID, GStr ''a''), (ConfigKeyCheckpointID, GStr ''1'')] = Inr (Some [(''n'', GStr ''first'')])"
  "ms_Get two_checkpoints [(ConfigKeyThreadID, GStr ''b''), (ConfigKeyCheckpointID, GStr ''3'')] = Inl (Errorf ''checkpoint not found: 3'')"
proof -
  obtain e f where "versions_of two_checkpoints ''a'' = [e, f]" "ce_ID e = ''1''" "ce_Checkpoint e = [(''n'', GStr ''first'')]"
    using two_checkpoints_versions(1) by (auto simp: map_eq_Cons_conv)
  then show "ms_Get two_checkpoints [(ConfigKeyThreadID, GStr ''a''), (ConfigKeyCheckpointID, GStr ''1'')] = Inr (Some [(''n'', GStr ''first'')])"
    by (simp add: ms_Get_def config_simps deepCopy_str to_utf8_ascii byte_in_def)
  show "ms_Get two_checkpoints [(ConfigKeyThreadID, GStr ''b''), (ConfigKeyCheckpointID, GStr ''3'')] = Inl (Errorf ''checkpoint not found: 3'')"
    using two_checkpoints_versions(2) by (simp add: ms_Get_def config_simps)
qed

theorem fork_same_state_witness:
  "\<exists>config s' snap. cg_ForkThread counter_graph (Some ms_ops) ''3'' 0 ''a'' ''b'' ''1'' two_checkpoints = (Inr config, s')
     \<and> cg_GetState counter_graph (Some ms_ops) 0 (Some config) s' = Inr (Some snap)
     \<and> ss_Values snap = Some [(''n'', GStr ''first'')]"
proof -
  have "cg_GetState counter_graph (Some ms_ops) 0 (Some (at_checkpoint ''a'' ''1'')) two_checkpoints =
      Inr (Some \<lparr>ss_Values = Some [(''n'', GStr ''first'')], ss_Next = [], ss_Config = Some (at_checkpoint ''a'' ''1''),
        ss_Metadata = [], ss_CreatedAt = 0\<rparr>)"
    by (simp add: GetState_alt [OF counter_checkpointer] build_at_checkpoint two_checkpoints_Get counter_values extractMeta_def)
  from fork_same_state [OF counter_checkpointer this two_checkpoints_Get(2)] show ?thesis by auto
qed

section \<open>Updates and their history\<close>

text \<open>Restoring never fails, because only keys with a channel are restored.\<close>

lemma Restore_known:
  "\<forall>k \<in> gm_dom cps. map_of (channels r) k \<noteq> None \<Longrightarrow> fst (RestoreFromCheckpoint cps r) = None"
proof (induction cps r rule: RestoreFromCheckpoint.induct)
  case (2 name cp cps r)
  then obtain ch where "map_of (channels r) name = Some ch" by auto
  with 2 show ?case by (auto simp: gomap_simps)
qed simp

lemma filtered_known:
  assumes "\<And>k. k \<in> gm_dom acc \<Longrightarrow> P k"
    and "k \<in> gm_dom (fold (\<lambda>(key, val) f. if P key then gm_put key val f else f) m acc)"
  shows "P k"
  using assms
proof (induction m arbitrary: acc)
  case (Cons kv m)
  let ?acc = "if P (fst kv) then gm_put (fst kv) (snd kv) acc else acc"
  show ?case
  proof (rule Cons.IH)
    show "P k" if "k \<in> gm_dom ?acc" for k
    proof (cases "P (fst kv)")
      case True
      then have "k \<in> insert (fst kv) (gm_dom acc)" using that by (simp only: if_True gm_keys_put)
      then show ?thesis using True Cons.prems(1) by (elim insertE) simp_all
    next
      case False
      then show ?thesis using that Cons.prems(1) by (simp only: if_False)
    qed
    show "k \<in> gm_dom (fold (\<lambda>(key, val) f. if P key then gm_put key val f else f) m ?acc)"
      using Cons.prems(2) by (simp only: fold.simps comp_def case_prod_unfold)
  qed
qed simp

lemma restored_values_ok: "\<exists>vals. restored_values cg cp = Inr vals"
proof -
  let ?f = "fold (\<lambda>(key, val) f. if reg_Get (channel_copies cg) key \<noteq> None then gm_put key val f else f) cp []"
  have "\<forall>k \<in> gm_dom ?f. reg_Get (channel_copies cg) k \<noteq> None"
  proof
    fix k assume "k \<in> gm_dom ?f"
    then show "reg_Get (channel_copies cg) k \<noteq> None"
      by (rule filtered_known [of "[]" "\<lambda>key. reg_Get (channel_copies cg) key \<noteq> None", rotated]) simp
  qed
  then have "fst (RestoreFromCheckpoint ?f (channel_copies cg)) = None"
    by (intro Restore_known) (simp add: reg_Get_def)
  then show ?thesis by (auto simp: restored_values_def Let_def split: prod.split option.split)
qed

text \<open>
  After \<^verbatim>\<open>UpdateState\<close> the thread reads as the checkpoint it was given with the values of the update put
  over it, and \<^verbatim>\<open>GetState\<close> gives a snapshot.
\<close>

lemma update_then_get:
  assumes "cg_checkpointer cg \<noteq> GNil" and "su_ThreadID update = []" and "su_CheckID update = []"
    and "t \<noteq> []" and "ms_Get s (buildCheckpointerConfig (Some (at_checkpoint t i))) = Inr (Some cp)"
  shows "\<exists>res s' snap. cg_UpdateState cg (Some ms_ops) uuid now (Some (at_checkpoint t i)) update s = (Inr res, s')
    \<and> cg_GetState cg (Some ms_ops) now (Some (at_checkpoint t [])) s' = Inr (Some snap)
    \<and> restored_values cg (deepCopyMap (fold (\<lambda>(key, val). gm_put key val) (su_Values update) cp)) = Inr (ss_Values snap)"
proof -
  have th: "config_string ConfigKeyThreadID (buildCheckpointerConfig (Some (at_checkpoint t i))) = Some t"
    "config_string ConfigKeyThreadID [(ConfigKeyThreadID, GStr t)] = Some t"
    "config_string ConfigKeyCheckpointID [(ConfigKeyThreadID, GStr t)] = None"
    by (simp_all add: build_at_checkpoint config_simps)
  obtain res s' where upd: "cg_UpdateState cg (Some ms_ops) uuid now (Some (at_checkpoint t i)) update s = (Inr res, s')"
      "ms_Get s' [(ConfigKeyThreadID, GStr t)] = Inr (Some (deepCopyMap (fold (\<lambda>(key, val). gm_put key val) (su_Values update) cp)))"
    using inspector.update_is_latest [OF assms(1) th(1) assms(4,2,3,5) th(2,3)] by blast
  moreover obtain vals where "restored_values cg (deepCopyMap (fold (\<lambda>(key, val). gm_put key val) (su_Values update) cp)) = Inr vals"
    using restored_values_ok by blast
  ultimately show ?thesis by (auto simp: GetState_alt [OF assms(1)] build_at_checkpoint)
qed

text \<open>
  The configuration that \<^verbatim>\<open>UpdateState\<close> returns does not lead to the update when the thread was
  updated before. The new checkpoint is stored under the empty identifier, the returned configuration
  carries that identifier, and \<^verbatim>\<open>GetState\<close> there finds the oldest checkpoint stored so: the values
  of the first update, not of the last.
\<close>

theorem update_config_is_stale:
  assumes "cg_checkpointer cg \<noteq> GNil" and "su_ThreadID update = []" and "su_CheckID update = []"
    and "t \<noteq> []" and "ms_Get s (buildCheckpointerConfig (Some (at_checkpoint t i))) = Inr (Some cp)"
    and "find (\<lambda>e. ce_ID e = []) (versions_of s t) = Some first"
  shows "\<exists>config s'. cg_UpdateState cg (Some ms_ops) uuid now (Some (at_checkpoint t i)) update s = (Inr (Some config), s')
    \<and> ms_Get s' (buildCheckpointerConfig (Some config)) = Inr (Some (deepCopyMap (ce_Checkpoint first)))"
proof -
  define cp' where "cp' = fold (\<lambda>(key, val). gm_put key val) (su_Values update) cp"
  define newc where "newc = [(ConfigKeyThreadID, GStr t), (''parent_checkpoint_id'', GStr i), (ConfigKeyCheckpointID, GStr [])]"
  define s' where "s' = snd (ms_Put uuid now newc cp' s)"
  have th: "config_string ConfigKeyThreadID newc = Some t" "config_string ConfigKeyCheckpointID newc = Some []"
    by (simp_all add: newc_def config_simps)
  obtain e where e: "ce_ID e = []" "versions_of s' t = versions_of s t @ [e]"
    using versions_of_Put [OF th(1), of uuid cp' now s] th(2) by (auto simp: s'_def)
  have put: "ms_Put uuid now newc cp' s = (None, s')"
    using th(1) by (cases "ms_Put uuid now newc cp' s") (auto simp: s'_def ms_Put_def Let_def)
  have parent: "(case as_string (gm_val (buildCheckpointerConfig (Some (at_checkpoint t i))) ConfigKeyCheckpointID) of
      Some i \<Rightarrow> i | None \<Rightarrow> []) = i"
    by (simp add: build_at_checkpoint config_simps)
  have thread: "as_string (gm_val (buildCheckpointerConfig (Some (at_checkpoint t i))) ConfigKeyThreadID) = Some t"
    by (simp add: build_at_checkpoint config_simps)
  obtain es where es: "ms_List s' [(ConfigKeyThreadID, GStr t)] 1 = Inr [es]" "first_id [es] = []"
    using e by (auto simp: ms_List_def config_simps Let_def first_id_def)
  define config where "config = NewRunnableConfig\<lparr>Configurable := Some (gm_put ConfigKeyThreadID (GStr t)
    (gm_put ConfigKeyCheckpointID (GStr []) (copy_config (Some (at_checkpoint t i)))))\<rparr>"
  have "cg_UpdateState cg (Some ms_ops) uuid now (Some (at_checkpoint t i)) update s = (Inr (Some config), s')"
    using assms(1-5) put es
    by (simp add: cg_UpdateState_def getCheckpointer_def Let_def thread parent newc_def cp'_def config_def)
  moreover have "config_string ConfigKeyThreadID (buildCheckpointerConfig (Some config)) = Some t"
    "config_string ConfigKeyCheckpointID (buildCheckpointerConfig (Some config)) = Some []"
    unfolding config_def inspector.build_config by (simp_all add: config_string_def gm_val_def gomap_simps as_string_def)
  then have "ms_Get s' (buildCheckpointerConfig (Some config)) = Inr (Some (deepCopyMap (ce_Checkpoint first)))"
    using e assms(6) by (simp add: ms_Get_alt find_snoc)
  ultimately show ?thesis by blast
qed

text \<open>Two updates of one thread: the configuration of the second reads the values of the first.\<close>

theorem update_config_is_stale_witness:
  "let up = \<lambda>x. \<lparr>su_Values = [(''n'', GStr x)], su_AsNode = [], su_CheckID = [], su_ThreadID = []\<rparr>;
       s1 = snd (cg_UpdateState counter_graph (Some ms_ops) ''3'' 0 (Some (at_checkpoint ''a'' [])) (up ''x'') two_checkpoints)
   in \<exists>config s2. cg_UpdateState counter_graph (Some ms_ops) ''4'' 0 (Some (at_checkpoint ''a'' [])) (up ''y'') s1 = (Inr (Some config), s2)
        \<and> ms_Get s2 (buildCheckpointerConfig (Some config)) = Inr (Some [(''n'', GStr ''x'')])"
proof -
  define up where "up x = \<lparr>su_Values = [(''n'', GStr x)], su_AsNode = [], su_CheckID = [], su_ThreadID = []\<rparr>" for x
  define s1 where "s1 = snd (cg_UpdateState counter_graph (Some ms_ops) ''3'' 0 (Some (at_checkpoint ''a'' [])) (up ''x'') two_checkpoints)"
  define newc where "newc = [(ConfigKeyThreadID, GStr ''a''), (''parent_checkpoint_id'', GStr []), (ConfigKeyCheckpointID, GStr [])]"
  obtain e f where v: "versions_of two_checkpoints ''a'' = [e, f]" "ce_ID e = ''1''" "ce_ID f = ''2''"
      "ce_Checkpoint f = [(''n'', GStr ''later'')]"
    using two_checkpoints_versions(1) by (auto simp: map_eq_Cons_conv)
  have cfg: "buildCheckpointerConfig (Some (at_checkpoint ''a'' [])) = [(ConfigKeyThreadID, GStr ''a'')]"
    by (simp add: build_at_checkpoint)
  have get: "ms_Get two_checkpoints [(ConfigKeyThreadID, GStr ''a'')] = Inr (Some [(''n'', GStr ''later'')])"
    using v by (simp add: ms_Get_def config_simps deepCopy_str to_utf8_ascii byte_in_def)
  have "s1 = snd (ms_Put ''3'' 0 newc [(''n'', GStr ''x'')] two_checkpoints)"
    unfolding s1_def using counter_checkpointer get
    by (simp add: cg_UpdateState_def getCheckpointer_def cfg up_def Let_def gm_val_def as_string_def newc_def
        split: prod.split option.split sum.split list.split)
  then obtain g where g: "ce_ID g = []" "ce_Checkpoint g = [(''n'', GStr ''x'')]" "versions_of s1 ''a'' = [e, f, g]"
    using versions_of_Put [of newc "''a''" "''3''" "[(''n'', GStr ''x'')]" 0 two_checkpoints] v(1)
    by (auto simp: newc_def config_simps deepCopy_str to_utf8_ascii byte_in_def)
  have get1: "ms_Get s1 (buildCheckpointerConfig (Some (at_checkpoint ''a'' []))) = Inr (Some [(''n'', GStr ''x'')])"
    using g by (simp add: cfg ms_Get_def config_simps deepCopy_str to_utf8_ascii byte_in_def)
  have "find (\<lambda>e. ce_ID e = []) (versions_of s1 ''a'') = Some g" using g v by simp
  from update_config_is_stale [OF counter_checkpointer _ _ _ get1 this, of "up ''y''" "''4''" 0] show ?thesis
    unfolding Let_def up_def [symmetric] s1_def [symmetric]
    by (auto simp: up_def g(2) deepCopy_str to_utf8_ascii byte_in_def)
qed

text \<open>
  What the history holds of a checkpoint entry: the channel values restored from it, its time and
  its metadata.
\<close>

definition snapshot_of :: "compiled_graph \<Rightarrow> checkpoint_entry \<Rightarrow> state_snapshot \<Rightarrow> bool" where
  "snapshot_of cg e snap \<longleftrightarrow>
     restored_values cg (deepCopyMap (ce_Checkpoint e)) = Inr (ss_Values snap)
     \<and> ss_Metadata snap = deepCopyMap (ce_Metadata e) \<and> ss_CreatedAt snap = int (nat (ce_CreatedAt e)) \<and> ss_Next snap = []"

lemma find_distinct_id:
  "distinct (map ce_ID es) \<Longrightarrow> e \<in> set es \<Longrightarrow> find (\<lambda>x. ce_ID x = ce_ID e) es = Some e"
  by (induction es) (auto simp: image_iff)

definition list_entry :: "checkpoint_entry \<Rightarrow> goval gomap" where
  "list_entry e =
     [(ConfigKeyCheckpointID, GStr (ce_ID e)), (ConfigKeyThreadID, GStr (ce_ThreadID e)),
      (''metadata'', GMap (deepCopyMap (ce_Metadata e))), (''created_at'', GOther ''time.Time'' (nat (ce_CreatedAt e))),
      (''parent_id'', GStr (ce_ParentID e))]"

lemma list_entry_fields:
  "as_string (gm_val (list_entry e) ConfigKeyCheckpointID) = Some (ce_ID e)"
  "entry_time (list_entry e) = Some (int (nat (ce_CreatedAt e)))"
  "as_map (gm_val (list_entry e) ''metadata'') = Some (deepCopyMap (ce_Metadata e))"
  by (simp_all add: list_entry_def entry_time_def config_simps)

lemma snapshot_config_build:
  assumes "ce_ID e \<noteq> []"
  shows "config_string ConfigKeyThreadID (buildCheckpointerConfig (Some (snapshot_config (Some (at_checkpoint t [])) (list_entry e)))) = Some t"
    and "config_string ConfigKeyCheckpointID (buildCheckpointerConfig (Some (snapshot_config (Some (at_checkpoint t [])) (list_entry e)))) = Some (ce_ID e)"
  using assms unfolding snapshot_config_def Let_def inspector.build_config list_entry_fields
  by (simp_all add: copy_config_def at_checkpoint_def config_string_def gm_val_def gomap_simps as_string_def)

lemma history_loop_snapshots:
  assumes "cg_checkpointer cg \<noteq> GNil" and "distinct (map ce_ID (versions_of s t))" and "[] \<notin> ce_ID ` set (versions_of s t)"
    and "set es \<subseteq> set (versions_of s t)"
  shows "list_all2 (snapshot_of cg) es (history_loop cg (Some ms_ops) now (Some (at_checkpoint t [])) s (map list_entry es))"
  using assms(4)
proof (induction es)
  case (Cons e es)
  have e: "e \<in> set (versions_of s t)" "ce_ID e \<noteq> []" using Cons.prems assms(3) by force+
  have get: "ms_Get s (buildCheckpointerConfig (Some (snapshot_config (Some (at_checkpoint t [])) (list_entry e)))) =
      Inr (Some (deepCopyMap (ce_Checkpoint e)))"
    using snapshot_config_build [OF e(2), of t] find_distinct_id [OF assms(2) e(1)] by (simp add: ms_Get_alt)
  obtain vals where vals: "restored_values cg (deepCopyMap (ce_Checkpoint e)) = Inr vals" using restored_values_ok by blast
  have "list_all2 (snapshot_of cg) es (history_loop cg (Some ms_ops) now (Some (at_checkpoint t [])) s (map list_entry es))"
    using Cons by simp
  then show ?case
    by (simp add: GetState_alt [OF assms(1)] get vals list_entry_fields snapshot_of_def [of cg e])
qed simp

text \<open>
  \<^verbatim>\<open>GetStateHistory\<close> of a thread whose checkpoints have distinct, non-empty identifiers gives one
  snapshot per checkpoint, the newest first and at most \<open>limit\<close> of them when the limit is positive; each
  has the channel values restored from its checkpoint, with the checkpoint's metadata and time.
\<close>

theorem history_newest_first:
  assumes "cg_checkpointer cg \<noteq> GNil" and "distinct (map ce_ID (versions_of s t))" and "[] \<notin> ce_ID ` set (versions_of s t)"
  shows "\<exists>snaps. cg_GetStateHistory cg (Some ms_ops) now (Some (at_checkpoint t [])) limit before s = Inr snaps
    \<and> list_all2 (snapshot_of cg)
        (take (if limit \<le> 0 then length (versions_of s t) else nat limit) (rev (versions_of s t))) snaps"
proof -
  define lim where "lim = (if limit \<le> 0 \<or> limit > int (length (versions_of s t)) then length (versions_of s t) else nat limit)"
  have "ms_List s [(ConfigKeyThreadID, GStr t)] limit = Inr (map list_entry (take lim (rev (versions_of s t))))"
    unfolding lim_def by (simp add: ms_List_def config_string_def gm_val_def as_string_def Let_def list_entry_def)
  then have hist: "cg_GetStateHistory cg (Some ms_ops) now (Some (at_checkpoint t [])) limit before s =
      Inr (history_loop cg (Some ms_ops) now (Some (at_checkpoint t [])) s (map list_entry (take lim (rev (versions_of s t)))))"
    using assms(1) by (simp add: cg_GetStateHistory_def getCheckpointer_def build_at_checkpoint)
  have "set (take lim (rev (versions_of s t))) \<subseteq> set (versions_of s t)" using set_take_subset by fastforce
  note snaps = history_loop_snapshots [OF assms this, of now]
  have "take lim (rev (versions_of s t)) =
      take (if limit \<le> 0 then length (versions_of s t) else nat limit) (rev (versions_of s t))"
    by (auto simp: lim_def)
  with hist snaps show ?thesis by auto
qed

theorem history_newest_first_witness:
  "\<exists>snaps. cg_GetStateHistory counter_graph (Some ms_ops) 0 (Some (at_checkpoint ''a'' [])) 0 None two_checkpoints = Inr snaps
     \<and> map ss_Values snaps = [Some [(''n'', GStr ''later'')], Some [(''n'', GStr ''first'')]]"
proof -
  obtain e f where v: "versions_of two_checkpoints ''a'' = [e, f]" "ce_ID e = ''1''" "ce_ID f = ''2''"
      "ce_Checkpoint e = [(''n'', GStr ''first'')]" "ce_Checkpoint f = [(''n'', GStr ''later'')]"
    using two_checkpoints_versions(1) by (auto simp: map_eq_Cons_conv)
  from history_newest_first [OF counter_checkpointer, of two_checkpoints "''a''" 0 0 None] v
  obtain snaps where s: "cg_GetStateHistory counter_graph (Some ms_ops) 0 (Some (at_checkpoint ''a'' [])) 0 None two_checkpoints = Inr snaps"
      "list_all2 (snapshot_of counter_graph) [f, e] snaps" by auto
  then show ?thesis using v(4,5)
    by (auto simp: list_all2_Cons1 snapshot_of_def deepCopy_str to_utf8_ascii byte_in_def counter_values)
qed

end
