(* ===== verification/Nested_Graphs.thy ===== *)
theory Nested_Graphs
  imports State_Inspector Loop_Node
begin

text \<open>
  Graphs inside graphs: \<^verbatim>\<open>CompiledStateGraph\<close> (\<^verbatim>\<open>graph/compiled.go\<close>) with its checkpoint namespaces and the
  migration of checkpoint identifiers, and the \<^verbatim>\<open>SubgraphManager\<close> and
  \<^verbatim>\<open>NamespaceIsolatedRegistry\<close> of \<^verbatim>\<open>pregel/subgraph.go\<close>.

  A compiled graph holds pointers to its subgraphs and to its parent. Here the graphs are objects in a heap, a list
  that only grows; a pointer is an index into it, and a nil parent is \<open>None\<close>.
\<close>

section \<open>Compiled graphs and their subgraphs\<close>

record csg =
  csg_graph :: compiled_graph
  csg_subgraphs :: "nat gomap"
  csg_parent :: "nat option"
  csg_namespace :: string
  csg_checkpointMap :: "string gomap"

type_synonym csg_heap = "csg list"

text \<open>The dynamic type of the argument of \<^verbatim>\<open>NewCompiledStateGraph\<close>.\<close>

datatype csg_base = BaseGraph compiled_graph | BaseState nat | BaseOther string

definition NSSep :: string where "NSSep = ''|''"
definition NSEnd :: string where "NSEnd = '':''"

definition NewCompiledStateGraph :: "csg_base \<Rightarrow> csg_heap \<Rightarrow> nat go_result \<times> csg_heap" where
  "NewCompiledStateGraph base h =
     (case base of
        BaseGraph v \<Rightarrow>
          (Inr (length h),
           h @ [\<lparr>csg_graph = v, csg_subgraphs = [], csg_parent = None, csg_namespace = [], csg_checkpointMap = []\<rparr>])
      | BaseState a \<Rightarrow> (Inr a, h)
      | BaseOther t \<Rightarrow>
          (Inl (GoPanic (''NewCompiledStateGraph requires *compiledGraph or *CompiledStateGraph, got '' @ t)), h))"

definition buildSubgraphNamespace :: "string \<Rightarrow> string \<Rightarrow> string" where
  "buildSubgraphNamespace parentNS subgraphName =
     (if parentNS = [] then subgraphName else parentNS @ NSSep @ subgraphName)"

definition buildTaskPath :: "string \<Rightarrow> string \<Rightarrow> string" where
  "buildTaskPath ns subgraphName =
     (if ns = [] then subgraphName @ NSEnd else ns @ NSSep @ subgraphName @ NSEnd)"

definition generateCheckpointID :: "string \<Rightarrow> string" where
  "generateCheckpointID uuid = ''ckp_'' @ uuid"

definition quoted :: "string \<Rightarrow> string" where
  "quoted s = [CHR 0x27] @ s @ [CHR 0x27]"

text \<open>The receiver is an address; one that is not in the heap is nil.\<close>

definition csg_nil :: go_error where
  "csg_nil = GoPanic ''invalid memory address or nil pointer dereference''"

definition csg_AddSubgraph :: "nat \<Rightarrow> string \<Rightarrow> state_graph \<Rightarrow> csg_heap \<Rightarrow> go_error option \<times> csg_heap" where
  "csg_AddSubgraph a name subgraph h =
     (if length h \<le> a then (Some csg_nil, h)
      else if map_of (csg_subgraphs (h ! a)) name \<noteq> None
      then (Some (Errorf (''subgraph '' @ quoted name @ '' already exists'')), h)
      else case fst (Compile [] subgraph) of
             Inl err \<Rightarrow> (Some (WrapErr (''failed to compile subgraph '' @ quoted name @ '': '') err), h)
           | Inr compiled \<Rightarrow>
               (let subgraphCSG = \<lparr>csg_graph = compiled, csg_subgraphs = [], csg_parent = Some a,
                      csg_namespace = buildSubgraphNamespace (csg_namespace (h ! a)) name, csg_checkpointMap = []\<rparr>
                in (None, h[a := (h ! a)\<lparr>csg_subgraphs := gm_put name (length h) (csg_subgraphs (h ! a))\<rparr>] @ [subgraphCSG])))"

definition csg_GetSubgraph :: "nat \<Rightarrow> string \<Rightarrow> csg_heap \<Rightarrow> nat option" where
  "csg_GetSubgraph a name h = map_of (csg_subgraphs (h ! a)) name"

definition csg_GetSubgraphs :: "nat \<Rightarrow> csg_heap \<Rightarrow> nat gomap" where
  "csg_GetSubgraphs a h = csg_subgraphs (h ! a)"

definition csg_GetParent :: "nat \<Rightarrow> csg_heap \<Rightarrow> nat option" where
  "csg_GetParent a h = csg_parent (h ! a)"

definition csg_IsRoot :: "nat \<Rightarrow> csg_heap \<Rightarrow> bool" where
  "csg_IsRoot a h \<longleftrightarrow> csg_parent (h ! a) = None"

definition csg_GetNamespace :: "nat \<Rightarrow> csg_heap \<Rightarrow> string" where
  "csg_GetNamespace a h = csg_namespace (h ! a)"

definition csg_GetCheckpointMap :: "nat \<Rightarrow> csg_heap \<Rightarrow> string gomap" where
  "csg_GetCheckpointMap a h = csg_checkpointMap (h ! a)"

definition csg_config :: "csg \<Rightarrow> runnable_config option \<Rightarrow> runnable_config" where
  "csg_config c config =
     (let rc = (case config of Some rc \<Rightarrow> rc | None \<Rightarrow> zero_config)
      in rc_Set ConfigKeyCheckpointNS (GStr (csg_namespace c)) rc)"

definition csg_Invoke ::
  "'s run_env \<Rightarrow> csg \<Rightarrow> runnable_config option \<Rightarrow> goval \<Rightarrow> 's \<Rightarrow> goval go_result \<times> 's" where
  "csg_Invoke env c config input s = cg_Invoke env (csg_graph c) (Some (csg_config c config)) input s"

text \<open>\<open>uuid\<close> is the new identifier. The thread is not used.\<close>

definition csg_MigrateCheckpoint ::
  "nat \<Rightarrow> string \<Rightarrow> string \<Rightarrow> string \<Rightarrow> csg_heap \<Rightarrow> string go_result \<times> csg_heap" where
  "csg_MigrateCheckpoint a checkpointID toSubgraph uuid h =
     (if length h \<le> a then (Inl csg_nil, h)
      else if toSubgraph = []
      then (if csg_parent (h ! a) = None then (Inl (Errorf ''no parent graph to migrate to''), h)
            else case map_of (csg_checkpointMap (h ! a)) checkpointID of
                   None \<Rightarrow> (Inl (Errorf (''no parent checkpoint mapping found for '' @ checkpointID)), h)
                 | Some parentCheckpointID \<Rightarrow> (Inr parentCheckpointID, h))
      else case map_of (csg_subgraphs (h ! a)) toSubgraph of
             None \<Rightarrow> (Inl (Errorf (''subgraph '' @ quoted toSubgraph @ '' not found'')), h)
           | Some b \<Rightarrow>
               (let newCheckpointID = generateCheckpointID uuid;
                    h = h[b := (h ! b)\<lparr>csg_checkpointMap := gm_put newCheckpointID checkpointID (csg_checkpointMap (h ! b))\<rparr>];
                    h = h[a := (h ! a)\<lparr>csg_checkpointMap := gm_put checkpointID newCheckpointID (csg_checkpointMap (h ! a))\<rparr>]
                in (Inr newCheckpointID, h)))"

section \<open>The shape of nested graphs\<close>

text \<open>The heaps that the operations can make, on any addresses and with any names.\<close>

inductive csg_built :: "csg_heap \<Rightarrow> bool" where
  empty: "csg_built []"
| new_root: "csg_built h \<Longrightarrow> csg_built (snd (NewCompiledStateGraph base h))"
| add_subgraph: "csg_built h \<Longrightarrow> csg_built (snd (csg_AddSubgraph a name sg h))"
| migrate: "csg_built h \<Longrightarrow> csg_built (snd (csg_MigrateCheckpoint a cid sub uuid h))"

text \<open>The two kinds of pointers agree, and a graph is older than its subgraphs.\<close>

definition csg_down :: "csg_heap \<Rightarrow> nat \<Rightarrow> string \<Rightarrow> nat \<Rightarrow> bool" where
  "csg_down h a name b \<longleftrightarrow>
     a < b \<and> b < length h \<and> csg_parent (h ! b) = Some a
     \<and> csg_namespace (h ! b) = buildSubgraphNamespace (csg_namespace (h ! a)) name"

definition csg_up :: "csg_heap \<Rightarrow> nat \<Rightarrow> bool" where
  "csg_up h a \<longleftrightarrow>
     (case csg_parent (h ! a) of
        None \<Rightarrow> csg_namespace (h ! a) = []
      | Some q \<Rightarrow> q < a \<and> (\<exists>name. csg_GetSubgraph q name h = Some a))"

definition csg_ok :: "csg_heap \<Rightarrow> bool" where
  "csg_ok h \<longleftrightarrow> (\<forall>a < length h. (\<forall>name b. csg_GetSubgraph a name h = Some b \<longrightarrow> csg_down h a name b) \<and> csg_up h a)"

lemma csg_okI:
  assumes "\<And>a name b. a < length h \<Longrightarrow> csg_GetSubgraph a name h = Some b \<Longrightarrow> csg_down h a name b"
    and "\<And>a. a < length h \<Longrightarrow> csg_up h a"
  shows "csg_ok h"
  using assms by (simp add: csg_ok_def)

lemma csg_ok_down: "csg_ok h \<Longrightarrow> a < length h \<Longrightarrow> csg_GetSubgraph a name h = Some b \<Longrightarrow> csg_down h a name b"
  and csg_ok_up: "csg_ok h \<Longrightarrow> a < length h \<Longrightarrow> csg_up h a"
  by (simp_all add: csg_ok_def)

lemma csg_ok_sub:
  assumes "csg_ok h" and "a < length h" and "csg_GetSubgraph a name h = Some b"
  shows "a < b" "b < length h" "csg_GetParent b h = Some a"
    "csg_namespace (h ! b) = buildSubgraphNamespace (csg_namespace (h ! a)) name"
  using csg_ok_down [OF assms] by (simp_all add: csg_down_def csg_GetParent_def)

text \<open>The invariant is about subgraphs, parents and namespaces only.\<close>

definition same_shape :: "csg_heap \<Rightarrow> csg_heap \<Rightarrow> bool" where
  "same_shape h h' \<longleftrightarrow> length h' = length h \<and> map csg_subgraphs h' = map csg_subgraphs h
     \<and> map csg_parent h' = map csg_parent h \<and> map csg_namespace h' = map csg_namespace h"

lemma same_shape_nth:
  assumes "same_shape h h'" and "a < length h"
  shows "csg_subgraphs (h' ! a) = csg_subgraphs (h ! a)" "csg_parent (h' ! a) = csg_parent (h ! a)"
    "csg_namespace (h' ! a) = csg_namespace (h ! a)"
  using assms nth_map [of a h csg_subgraphs] nth_map [of a h csg_parent] nth_map [of a h csg_namespace]
  by (metis same_shape_def nth_map)+

lemma csg_ok_same_shape:
  assumes ok: "csg_ok h" and same: "same_shape h h'"
  shows "csg_ok h'"
proof (rule csg_okI)
  have len: "length h' = length h" using same by (simp add: same_shape_def)
  note eq = same_shape_nth [OF same]
  show "csg_down h' a name b" if "a < length h'" "csg_GetSubgraph a name h' = Some b" for a name b
    using csg_ok_down [OF ok, of a name b] that len by (simp add: csg_down_def csg_GetSubgraph_def eq)
  show "csg_up h' a" if "a < length h'" for a
    using csg_ok_up [OF ok, of a] that len by (auto simp: csg_up_def csg_GetSubgraph_def eq split: option.splits)
qed

lemma same_shape_trans: "same_shape h h' \<Longrightarrow> same_shape h' h'' \<Longrightarrow> same_shape h h''"
  by (simp add: same_shape_def)

lemma same_shape_checkpoint: "same_shape h (h[a := (h ! a)\<lparr>csg_checkpointMap := m\<rparr>])"
  by (cases "a < length h") (simp_all add: same_shape_def map_update list_update_same_conv list_update_beyond not_less)

lemma csg_ok_new:
  assumes ok: "csg_ok h"
  shows "csg_ok (snd (NewCompiledStateGraph base h))"
proof -
  have "csg_ok (h @ [\<lparr>csg_graph = v, csg_subgraphs = [], csg_parent = None, csg_namespace = [], csg_checkpointMap = []\<rparr>])"
    (is "csg_ok ?h") for v
  proof (rule csg_okI)
    have old: "?h ! a = h ! a" if "a < length h" for a using that by (simp add: nth_append)
    have young: "csg_subgraphs (?h ! length h) = []" "csg_parent (?h ! length h) = None" "csg_namespace (?h ! length h) = []"
      by simp_all
    show "csg_down ?h a name b" if "a < length ?h" "csg_GetSubgraph a name ?h = Some b" for a name b
    proof -
      have "a \<noteq> length h" using that(2) young by (auto simp: csg_GetSubgraph_def)
      then have "a < length h" using that(1) by simp
      then show ?thesis
        using csg_ok_down [OF ok, of a name b] that(2) by (simp add: csg_down_def csg_GetSubgraph_def old)
    qed
    show "csg_up ?h a" if "a < length ?h" for a
    proof (cases "a = length h")
      case False
      then have a: "a < length h" using that by simp
      then show ?thesis
        using csg_ok_up [OF ok a] by (auto simp: csg_up_def csg_GetSubgraph_def old split: option.splits)
    qed (simp add: csg_up_def)
  qed
  then show ?thesis using ok by (simp add: NewCompiledStateGraph_def split: csg_base.split)
qed

text \<open>The heap after a subgraph was added: the new graph at the end, known to its parent.\<close>

lemma csg_ok_insert:
  assumes ok: "csg_ok h" and a: "a < length h" and fresh: "map_of (csg_subgraphs (h ! a)) name = None"
    and h': "h' = h[a := (h ! a)\<lparr>csg_subgraphs := gm_put name (length h) (csg_subgraphs (h ! a))\<rparr>] @
      [\<lparr>csg_graph = g, csg_subgraphs = [], csg_parent = Some a,
        csg_namespace = buildSubgraphNamespace (csg_namespace (h ! a)) name, csg_checkpointMap = []\<rparr>]"
  shows "csg_ok h'"
proof (rule csg_okI)
  have len: "length h' = Suc (length h)" by (simp add: h')
  have subs: "csg_GetSubgraph x n h' =
      (if x = a \<and> n = name then Some (length h) else csg_GetSubgraph x n h)" if "x < length h" for x n
    using that a by (cases "x = a") (auto simp: h' csg_GetSubgraph_def nth_append gomap_simps)
  have old: "csg_parent (h' ! x) = csg_parent (h ! x)" "csg_namespace (h' ! x) = csg_namespace (h ! x)" if "x < length h" for x
    using that by (cases "x = a"; simp add: h' nth_append)+
  have young: "csg_GetSubgraph (length h) n h' = None" "csg_parent (h' ! length h) = Some a"
    "csg_namespace (h' ! length h) = buildSubgraphNamespace (csg_namespace (h ! a)) name" for n
    by (simp_all add: h' csg_GetSubgraph_def nth_append)
  show "csg_down h' x n b" if "x < length h'" "csg_GetSubgraph x n h' = Some b" for x n b
  proof -
    have "x \<noteq> length h" using that(2) young(1) by auto
    then have x: "x < length h" using that(1) len by simp
    show ?thesis
    proof (cases "x = a \<and> n = name")
      case True
      then show ?thesis using that(2) x young old by (simp add: subs csg_down_def len)
    next
      case False
      then have "csg_down h x n b" using that(2) x csg_ok_down [OF ok x] by (simp only: subs if_False)
      then show ?thesis using old x by (simp add: csg_down_def len)
    qed
  qed
  show "csg_up h' x" if "x < length h'" for x
  proof (cases "x = length h")
    case True
    then show ?thesis using young a subs [OF a, of name] by (auto simp: csg_up_def)
  next
    case False
    then have x: "x < length h" using that len by simp
    show ?thesis
    proof (cases "csg_parent (h ! x)")
      case None
      then show ?thesis using csg_ok_up [OF ok x] old [OF x] by (simp add: csg_up_def)
    next
      case (Some q)
      then obtain n where q: "q < x" and n: "csg_GetSubgraph q n h = Some x"
        using csg_ok_up [OF ok x] by (auto simp: csg_up_def)
      then have "csg_GetSubgraph q n h' = Some x" using subs [of q n] x fresh by (auto simp: csg_GetSubgraph_def)
      then show ?thesis using old [OF x] Some q by (auto simp: csg_up_def)
    qed
  qed
qed

lemma csg_ok_add: "csg_ok h \<Longrightarrow> csg_ok (snd (csg_AddSubgraph a name sg h))"
  using csg_ok_insert [OF _ _ _ refl, of h a name]
  by (auto simp: csg_AddSubgraph_def not_le Let_def split: sum.split)

lemma csg_ok_migrate: "csg_ok h \<Longrightarrow> csg_ok (snd (csg_MigrateCheckpoint a cid sub uuid h))"
  by (auto simp: csg_MigrateCheckpoint_def Let_def split: option.split
      intro!: csg_ok_same_shape [OF _ same_shape_trans [OF same_shape_checkpoint same_shape_checkpoint]])

lemma csg_built_ok: "csg_built h \<Longrightarrow> csg_ok h"
  by (induction rule: csg_built.induct) (simp_all add: csg_ok_new csg_ok_add csg_ok_migrate, simp add: csg_ok_def)

text \<open>The graph that a path of names leads to from a given one.\<close>

fun csg_at :: "nat \<Rightarrow> string list \<Rightarrow> csg_heap \<Rightarrow> nat option" where
  "csg_at a [] h = Some a"
| "csg_at a (n # ns) h = Option.bind (csg_GetSubgraph a n h) (\<lambda>b. csg_at b ns h)"

lemma csg_at_snoc: "csg_at a (ns @ [n]) h = Option.bind (csg_at a ns h) (\<lambda>b. csg_GetSubgraph b n h)"
  by (induction ns arbitrary: a) (simp_all split: Option.bind_split)

lemma csg_at_valid: "csg_ok h \<Longrightarrow> r < length h \<Longrightarrow> csg_at r p h = Some a \<Longrightarrow> a < length h"
  by (induction p arbitrary: r) (auto simp: bind_eq_Some_conv dest: csg_ok_sub)

lemma go_join_snoc: "p \<noteq> [] \<Longrightarrow> go_join sep (p @ [n]) = go_join sep p @ sep @ n"
  by (induction sep p rule: go_join.induct) auto

lemma go_join_empty_iff: "[] \<notin> set p \<Longrightarrow> go_join sep p = [] \<longleftrightarrow> p = []"
  by (induction sep p rule: go_join.induct) auto

lemma join_names_inj:
  assumes "\<forall>n \<in> set p. n \<noteq> [] \<and> CHR ''|'' \<notin> set n" and "\<forall>n \<in> set q. n \<noteq> [] \<and> CHR ''|'' \<notin> set n"
    and "go_join ''|'' p = go_join ''|'' q"
  shows "p = q"
proof -
  have "p = [] \<longleftrightarrow> q = []"
    using assms go_join_empty_iff [of p "''|''"] go_join_empty_iff [of q "''|''"] by metis
  moreover have "go_split CHR ''|'' (go_join ''|'' ps) = ps" if "ps \<noteq> []" "\<forall>n \<in> set ps. n \<noteq> [] \<and> CHR ''|'' \<notin> set n" for ps
    using that by (intro go_split_join) simp_all
  ultimately show ?thesis using assms by metis
qed

text \<open>Joining the names one by one, where empty names at the front leave no trace.\<close>

lemma dropWhile_snoc:
  "dropWhile P (xs @ [x]) = (if dropWhile P xs = [] then dropWhile P [x] else dropWhile P xs @ [x])"
  by (induction xs) auto

lemma buildSubgraphNamespace_join:
  "buildSubgraphNamespace (go_join NSSep (dropWhile (\<lambda>n. n = []) p)) n = go_join NSSep (dropWhile (\<lambda>n. n = []) (p @ [n]))"
proof (cases "dropWhile (\<lambda>n. n = []) p")
  case Nil
  show ?thesis unfolding dropWhile_snoc Nil by (simp add: buildSubgraphNamespace_def)
next
  case (Cons m ms)
  then have m: "m \<noteq> []" by (simp add: dropWhile_eq_Cons_conv)
  have "go_join NSSep (m # ms) \<noteq> []" using m by (cases ms) simp_all
  then show ?thesis
    unfolding dropWhile_snoc Cons using go_join_snoc [of "m # ms" NSSep n] by (simp add: buildSubgraphNamespace_def)
qed

lemma csg_namespace_at:
  assumes ok: "csg_ok h" and r: "r < length h" "csg_IsRoot r h"
  shows "csg_at r p h = Some a \<Longrightarrow> csg_namespace (h ! a) = go_join NSSep (dropWhile (\<lambda>n. n = []) p)"
proof (induction p arbitrary: a rule: rev_induct)
  case Nil
  then show ?case using csg_ok_up [OF ok r(1)] r(2) by (simp add: csg_up_def csg_IsRoot_def)
next
  case (snoc n p)
  then obtain b where b: "csg_at r p h = Some b" "csg_GetSubgraph b n h = Some a"
    by (auto simp: csg_at_snoc bind_eq_Some_conv)
  then show ?case
    using csg_ok_sub(4) [OF ok csg_at_valid [OF ok r(1) b(1)] b(2)] snoc.IH [OF b(1)]
    by (simp add: buildSubgraphNamespace_join)
qed

lemma csg_reachable:
  assumes ok: "csg_ok h"
  shows "a < length h \<Longrightarrow> \<exists>r p. r < length h \<and> csg_IsRoot r h \<and> csg_at r p h = Some a"
proof (induction a rule: less_induct)
  case (less a)
  show ?case
  proof (cases "csg_parent (h ! a)")
    case None
    then show ?thesis using less.prems by (intro exI [of _ a] exI [of _ "[]"]) (simp add: csg_IsRoot_def)
  next
    case (Some p)
    then obtain n where p: "p < a" and n: "csg_GetSubgraph p n h = Some a"
      using csg_ok_up [OF ok less.prems] by (auto simp: csg_up_def)
    from less.IH [OF p] p less.prems obtain r q where "r < length h" "csg_IsRoot r h" "csg_at r q h = Some p" by auto
    then show ?thesis
      by (intro exI [of _ r] exI [of _ "q @ [n]"]) (simp add: csg_at_snoc n)
  qed
qed

text \<open>
  C36: the shape of nested graphs. Take any graphs that \<^verbatim>\<open>NewCompiledStateGraph\<close>, \<^verbatim>\<open>AddSubgraph\<close> with any
  names and \<^verbatim>\<open>MigrateCheckpoint\<close> make, and a root among them. Every graph is reached from some root by a path of
  names. For the graph at a path: its parent pointer leads to the graph at the path without the last
  name, nil for the root, and each of its subgraphs points back to it; its namespace is the names on the path joined by
  the separator, where empty names at the front of the path are left out. Two graphs below one root
  have the same namespace only if they are the same, as long as no name on their paths is empty or contains the separator.
\<close>

theorem nested_namespaces:
  assumes "csg_built h" and "r < length h" and "csg_IsRoot r h" and "csg_at r p h = Some a"
  shows "csg_GetParent a h = (if p = [] then None else csg_at r (butlast p) h)
    \<and> (p \<noteq> [] \<longrightarrow> csg_at r (butlast p) h \<noteq> None)
    \<and> (\<forall>n b. csg_GetSubgraph a n h = Some b \<longrightarrow> csg_GetParent b h = Some a)
    \<and> csg_GetNamespace a h = go_join NSSep (dropWhile (\<lambda>n. n = []) p)
    \<and> (\<forall>q d. csg_at r q h = Some d \<and> csg_GetNamespace d h = csg_GetNamespace a h
         \<and> (\<forall>n \<in> set p \<union> set q. n \<noteq> [] \<and> CHR ''|'' \<notin> set n) \<longrightarrow> q = p)
    \<and> (\<forall>b < length h. \<exists>r' p'. r' < length h \<and> csg_IsRoot r' h \<and> csg_at r' p' h = Some b)"
proof -
  have ok: "csg_ok h" using assms(1) by (rule csg_built_ok)
  have a: "a < length h" using csg_at_valid [OF ok assms(2,4)] .
  have parent: "csg_GetParent a h = (if p = [] then None else csg_at r (butlast p) h)
      \<and> (p \<noteq> [] \<longrightarrow> csg_at r (butlast p) h \<noteq> None)"
  proof (cases p rule: rev_cases)
    case Nil
    then show ?thesis using assms(3,4) by (simp add: csg_GetParent_def csg_IsRoot_def)
  next
    case (snoc q n)
    then obtain b where b: "csg_at r q h = Some b" "csg_GetSubgraph b n h = Some a"
      using assms(4) by (auto simp: csg_at_snoc bind_eq_Some_conv)
    then show ?thesis using csg_ok_sub(3) [OF ok csg_at_valid [OF ok assms(2) b(1)] b(2)] snoc by simp
  qed
  note ns = csg_namespace_at [OF ok assms(2,3)]
  have unique: "q = p" if d: "csg_at r q h = Some d" "csg_namespace (h ! d) = csg_namespace (h ! a)"
    and names: "\<forall>n \<in> set p \<union> set q. n \<noteq> [] \<and> CHR ''|'' \<notin> set n" for q d
  proof -
    have "dropWhile (\<lambda>n. n = []) ps = ps" if "\<forall>n \<in> set ps. n \<noteq> []" for ps :: "string list"
      using that by (cases ps) auto
    then have "go_join ''|'' q = go_join ''|'' p"
      using ns [OF assms(4)] ns [OF d(1)] d(2) names by (simp add: NSSep_def)
    then show ?thesis using names by (intro join_names_inj) auto
  qed
  show ?thesis
    using parent csg_ok_sub(3) [OF ok a] ns [OF assms(4)] unique csg_reachable [OF ok]
    by (intro conjI allI impI) (simp, simp, simp, simp add: csg_GetNamespace_def, elim conjE, simp add: csg_GetNamespace_def, simp)
qed

text \<open>A root with a subgraph, a subgraph in that, and one under the empty name with a subgraph of its own.\<close>

definition leaf_graph :: state_graph where
  "leaf_graph = snd (SetFinishPoint ''a'' (snd (SetEntryPoint ''a''
     (AddNode ''a'' (Some (\<lambda>ctx v. Inr v)) (NewStateGraph (SchemaMap K_String))))))"

definition nested_heap :: csg_heap where
  "nested_heap = snd (csg_AddSubgraph 3 ''z'' leaf_graph (snd (csg_AddSubgraph 0 [] leaf_graph
     (snd (csg_AddSubgraph 1 ''y'' leaf_graph (snd (csg_AddSubgraph 0 ''x'' leaf_graph
       (snd (NewCompiledStateGraph (BaseGraph gate) [])))))))))"

lemma leaf_compiles: "\<exists>cg. fst (Compile [] leaf_graph) = Inr cg"
proof -
  have "case fst (Compile [] leaf_graph) of Inr cg \<Rightarrow> True | Inl e \<Rightarrow> False" by code_simp
  then show ?thesis by (auto split: sum.splits)
qed

theorem nested_namespaces_witness:
  "csg_GetParent 2 nested_heap = Some 1 \<and> csg_GetNamespace 2 nested_heap = ''x|y''
   \<and> csg_GetParent 4 nested_heap = Some 3 \<and> csg_GetNamespace 4 nested_heap = ''z'' \<and> csg_GetNamespace 3 nested_heap = []"
proof -
  have built: "csg_built nested_heap"
    unfolding nested_heap_def by (intro csg_built.intros)
  obtain cg where "fst (Compile [] leaf_graph) = Inr cg" using leaf_compiles by blast
  then have h: "0 < length nested_heap" "csg_IsRoot 0 nested_heap" "csg_at 0 [''x'', ''y''] nested_heap = Some 2"
    "csg_at 0 [''x''] nested_heap = Some 1" "csg_at 0 [[], ''z''] nested_heap = Some 4" "csg_at 0 [[]] nested_heap = Some 3"
    by (simp_all add: nested_heap_def csg_AddSubgraph_def NewCompiledStateGraph_def csg_IsRoot_def csg_GetSubgraph_def Let_def
        nth_append nth_list_update numeral_nat)
  show ?thesis
    using nested_namespaces [OF built h(1,2,3)] nested_namespaces [OF built h(1,2,5)] nested_namespaces [OF built h(1,2,6)] h(4,6)
    by (simp add: NSSep_def)
qed

section \<open>Migrating checkpoint identifiers\<close>

text \<open>
  Down and up again: the identifier that a migration to a subgraph returns leads back, from the
  subgraph, to the identifier it was made for.
\<close>

lemma migrate_round_trip:
  assumes "csg_built h" and "csg_GetSubgraph a name h = Some b"
    and "csg_MigrateCheckpoint a cid name uuid h = (Inr new, h')" and "name \<noteq> []"
  shows "fst (csg_MigrateCheckpoint b new [] uuid' h') = Inr cid"
proof -
  have a: "a < length h" using assms(3) by (auto simp: csg_MigrateCheckpoint_def split: if_splits)
  note b = csg_ok_sub(1-3) [OF csg_built_ok [OF assms(1)] a assms(2)]
  then show ?thesis
    using assms(2-4) a
    by (auto simp: csg_MigrateCheckpoint_def csg_GetSubgraph_def csg_GetParent_def Let_def nth_list_update gomap_simps)
qed

text \<open>
  But the two directions share one table, so a graph in the middle forgets: once it has sent a
  checkpoint that it got from its parent on to a subgraph of its own, asking it for the parent's
  identifier gives the subgraph's.
\<close>

lemma middle_graph_forgets_parent:
  assumes "csg_built h" and "map_of (csg_checkpointMap (h ! a)) cid = Some parentID" and "csg_GetParent a h \<noteq> None"
    and "csg_MigrateCheckpoint a cid name uuid h = (Inr new, h')" and "name \<noteq> []"
  shows "fst (csg_MigrateCheckpoint a cid [] uuid' h) = Inr parentID
    \<and> fst (csg_MigrateCheckpoint a cid [] uuid' h') = Inr new"
proof -
  have a: "a < length h" using assms(4) by (auto simp: csg_MigrateCheckpoint_def split: if_splits)
  obtain b where b: "map_of (csg_subgraphs (h ! a)) name = Some b"
    using assms(4,5) a by (auto simp: csg_MigrateCheckpoint_def split: option.splits)
  then have "a < b" using csg_ok_sub(1) [OF csg_built_ok [OF assms(1)] a] by (simp add: csg_GetSubgraph_def)
  then show ?thesis
    using assms(2-5) a b
    by (auto simp: csg_MigrateCheckpoint_def csg_GetParent_def Let_def nth_list_update gomap_simps)
qed

section \<open>The subgraph manager\<close>

record subgraph_manager =
  sm_parentEngine :: engine
  sm_subgraphs :: "engine gomap"
  sm_namespaceStack :: "string list"
  sm_checkpointNS :: "string gomap"

definition NewSubgraphManager :: "engine \<Rightarrow> subgraph_manager" where
  "NewSubgraphManager parentEngine =
     \<lparr>sm_parentEngine = parentEngine, sm_subgraphs = [], sm_namespaceStack = [], sm_checkpointNS = []\<rparr>"

text \<open>
  \<open>graph\<close> is \<open>None\<close> when the configuration holds no \<^verbatim>\<open>StateGraph\<close>; then the parent engine itself is entered. The
  checkpointer that the new engine shares is part of the environment of a run.
\<close>

definition CreateSubgraph :: "string \<Rightarrow> state_graph option \<Rightarrow> subgraph_manager \<Rightarrow> engine go_result \<times> subgraph_manager" where
  "CreateSubgraph name graph m =
     (if map_of (sm_subgraphs m) name \<noteq> None then (Inl (Errorf (''subgraph '' @ quoted name @ '' already exists'')), m)
      else
      (let eng = (case graph of
                    Some sg \<Rightarrow>
                      NewEngine sg (case en_config (sm_parentEngine m) of
                                      Some c \<Rightarrow> [eo_WithConfig (Some c)] | None \<Rightarrow> [])
                  | None \<Rightarrow> sm_parentEngine m)
       in (Inr eng, m\<lparr>sm_subgraphs := gm_put name eng (sm_subgraphs m)\<rparr>)))"

definition GetSubgraph :: "string \<Rightarrow> subgraph_manager \<Rightarrow> engine option" where
  "GetSubgraph name m = map_of (sm_subgraphs m) name"

definition PushNamespace :: "string \<Rightarrow> subgraph_manager \<Rightarrow> subgraph_manager" where
  "PushNamespace ns m = m\<lparr>sm_namespaceStack := sm_namespaceStack m @ [ns]\<rparr>"

definition PopNamespace :: "subgraph_manager \<Rightarrow> subgraph_manager" where
  "PopNamespace m =
     (if length (sm_namespaceStack m) > 0
      then m\<lparr>sm_namespaceStack := take (length (sm_namespaceStack m) - 1) (sm_namespaceStack m)\<rparr> else m)"

definition CurrentNamespace :: "subgraph_manager \<Rightarrow> string" where
  "CurrentNamespace m = (if sm_namespaceStack m \<noteq> [] then last (sm_namespaceStack m) else [])"

definition BuildNamespacePath :: "subgraph_manager \<Rightarrow> string" where
  "BuildNamespacePath m = (if sm_namespaceStack m = [] then [] else go_join NSSep (sm_namespaceStack m))"

text \<open>
  The node's function runs between the push and the deferred pop, so it sees the manager with the
  namespace pushed; it may itself enter further subgraphs through the manager.
\<close>

definition ExecuteInSubgraph ::
  "(node_func \<Rightarrow> goval \<Rightarrow> subgraph_manager \<Rightarrow> goval go_result \<times> subgraph_manager)
   \<Rightarrow> string \<Rightarrow> string \<Rightarrow> goval \<Rightarrow> subgraph_manager \<Rightarrow> goval go_result \<times> subgraph_manager" where
  "ExecuteInSubgraph call subgraphName nodeName input m =
     (case GetSubgraph subgraphName m of
        None \<Rightarrow> (Inl (Errorf (''subgraph '' @ quoted subgraphName @ '' not found'')), m)
      | Some subgraph \<Rightarrow>
          (let m1 = PushNamespace subgraphName m
           in case getNode subgraph nodeName of
                None \<Rightarrow>
                  (Inl (Errorf (''node '' @ quoted nodeName @ '' not found in subgraph '' @ quoted subgraphName)), PopNamespace m1)
              | Some node \<Rightarrow>
                  (case nd_Function node of
                     None \<Rightarrow>
                       (Inl (Errorf (''node '' @ quoted nodeName @ '' in subgraph '' @ quoted subgraphName
                          @ '' has no executable function'')), PopNamespace m1)
                   | Some f \<Rightarrow> (case call f input m1 of (res, m2) \<Rightarrow> (res, PopNamespace m2)))))"

definition ExecuteRecursive ::
  "(node_func \<Rightarrow> goval \<Rightarrow> subgraph_manager \<Rightarrow> goval go_result \<times> subgraph_manager)
   \<Rightarrow> int \<Rightarrow> string \<Rightarrow> string \<Rightarrow> goval \<Rightarrow> int \<Rightarrow> subgraph_manager \<Rightarrow> goval go_result \<times> subgraph_manager" where
  "ExecuteRecursive call maxDepth subgraphName nodeName input depth m =
     (if depth > maxDepth
      then (Inl (Errorf (''recursion depth limit exceeded: '' @ fmt_d depth @ '' > '' @ fmt_d maxDepth)), m)
      else ExecuteInSubgraph call subgraphName nodeName input m)"

definition MigrateToSubgraph :: "string \<Rightarrow> string \<Rightarrow> string \<Rightarrow> string \<Rightarrow> subgraph_manager \<Rightarrow> string \<times> subgraph_manager" where
  "MigrateToSubgraph uuid threadID parentCheckpointID subgraphName m =
     (uuid, m\<lparr>sm_checkpointNS := gm_put threadID (BuildNamespacePath m @ NSSep @ subgraphName) (sm_checkpointNS m)\<rparr>)"

definition MigrateFromSubgraph :: "string \<Rightarrow> string \<Rightarrow> subgraph_manager \<Rightarrow> subgraph_manager" where
  "MigrateFromSubgraph threadID subgraphCheckpointID m = m\<lparr>sm_checkpointNS := gm_del threadID (sm_checkpointNS m)\<rparr>"

text \<open>Commands of nodes (\<^verbatim>\<open>types.Command\<close>), and what the manager makes of one for the parent graph.\<close>

record graph_command =
  cmd_Graph :: string
  cmd_Update :: goval
  cmd_Resume :: goval
  cmd_Goto :: goval

definition Parent :: string where "Parent = ''__parent__''"

definition ResolveParentCommand :: "graph_command \<Rightarrow> subgraph_manager \<Rightarrow> graph_command go_result" where
  "ResolveParentCommand cmd m =
     (if length (sm_namespaceStack m) = 0 then Inl (Errorf ''no parent graph to resolve to'')
      else Inr \<lparr>cmd_Graph = cmd_Graph cmd, cmd_Update = cmd_Update cmd, cmd_Resume = cmd_Resume cmd,
                cmd_Goto = GStr Parent\<rparr>)"

text \<open>
  The field that names the parent graph is \<^verbatim>\<open>Graph\<close>. The resolved command keeps that field, puts the name of the parent into
  \<^verbatim>\<open>Goto\<close>, where the names of nodes belong, and loses the target the command had.
\<close>

lemma resolved_command_loses_target:
  assumes "ResolveParentCommand cmd m = Inr cmd'"
  shows "cmd_Graph cmd' = cmd_Graph cmd \<and> ResolveParentCommand (cmd\<lparr>cmd_Goto := v\<rparr>) m = Inr cmd'"
  using assms by (auto simp: ResolveParentCommand_def split: if_splits)

text \<open>Whatever a node does inside, a call leaves the namespace stack as it found it.\<close>

lemma ExecuteInSubgraph_stack:
  assumes "\<And>f v m. sm_namespaceStack (snd (call f v m)) = sm_namespaceStack m"
  shows "sm_namespaceStack (snd (ExecuteInSubgraph call sub node input m)) = sm_namespaceStack m"
  using assms
  by (auto simp: ExecuteInSubgraph_def PushNamespace_def PopNamespace_def Let_def case_prod_unfold split: option.split)

text \<open>
  \<^verbatim>\<open>MigrateToSubgraph\<close> at the top level, where the path is empty, records a namespace that begins with the
  separator, which is not the namespace of the subgraph.
\<close>

lemma top_level_namespace_has_separator:
  "sm_namespaceStack m = [] \<Longrightarrow>
   map_of (sm_checkpointNS (snd (MigrateToSubgraph u t cid sub m))) t = Some (''|'' @ sub)
   \<and> buildSubgraphNamespace [] sub = sub"
  by (simp add: MigrateToSubgraph_def BuildNamespacePath_def NSSep_def gomap_simps buildSubgraphNamespace_def)

section \<open>Registries with a namespace\<close>

record isolated_registry =
  nr_namespace :: string
  nr_prefix :: string

definition NewNamespaceIsolatedRegistry :: "string \<Rightarrow> isolated_registry" where
  "NewNamespaceIsolatedRegistry ns =
     \<lparr>nr_namespace = ns, nr_prefix = (if ns \<noteq> [] then ns @ NSSep else ns)\<rparr>"

text \<open>The base registry is shared, so the operations get it.\<close>

definition nr_Get :: "isolated_registry \<Rightarrow> registry \<Rightarrow> string \<Rightarrow> channel option" where
  "nr_Get nr r name = reg_Get r (nr_prefix nr @ name)"

text \<open>\<open>None\<close> is a value that is not a channel, which is ignored.\<close>

definition nr_Register :: "isolated_registry \<Rightarrow> string \<Rightarrow> channel option \<Rightarrow> registry \<Rightarrow> registry" where
  "nr_Register nr name ch r = (case ch of Some c \<Rightarrow> Register (nr_prefix nr @ name) c r | None \<Rightarrow> r)"

definition nr_CreateCheckpoint :: "isolated_registry \<Rightarrow> registry \<Rightarrow> goval gomap" where
  "nr_CreateCheckpoint nr r =
     gm_put ''prefix'' (GStr (nr_prefix nr)) (gm_put ''namespace'' (GStr (nr_namespace nr)) (CreateCheckpoint r))"

definition has_prefix :: "string \<Rightarrow> string \<Rightarrow> bool" where
  "has_prefix s p \<longleftrightarrow> take (length p) s = p"

definition nr_GetValues :: "isolated_registry \<Rightarrow> registry \<Rightarrow> goval gomap go_result \<times> registry" where
  "nr_GetValues nr r =
     (case GetValues r of
        (Inl err, r') \<Rightarrow> (Inl err, r')
      | (Inr allValues, r') \<Rightarrow>
          (Inr (fold (\<lambda>(key, value) filtered.
                  if has_prefix key (nr_prefix nr) then gm_put (drop (length (nr_prefix nr)) key) value filtered
                  else filtered) allValues []), r'))"

lemma reg_Get_Register': "reg_Get (Register n ch r) m = (if m = n then Some ch else reg_Get r m)"
  by (simp add: reg_Get_def Register_def gomap_simps)

text \<open>
  Two namespaces do not interfere: with neither namespaces nor channel names containing the separator,
  registering a channel in one changes nothing that the other reads, and it is read back in its own.
\<close>

lemma separated_append:
  assumes "CHR ''|'' \<notin> set a" and "CHR ''|'' \<notin> set b" and "a @ CHR ''|'' # x = b @ CHR ''|'' # y"
  shows "a = b \<and> x = y"
  using assms by (auto simp: append_eq_append_conv2 append_eq_Cons_conv Cons_eq_append_conv)

lemma namespaces_isolated:
  assumes "a \<noteq> []" and "b \<noteq> []" and "a \<noteq> b" and "CHR ''|'' \<notin> set a" and "CHR ''|'' \<notin> set b"
  shows "nr_Get (NewNamespaceIsolatedRegistry b) (nr_Register (NewNamespaceIsolatedRegistry a) n (Some ch) r) m
      = nr_Get (NewNamespaceIsolatedRegistry b) r m"
    and "nr_Get (NewNamespaceIsolatedRegistry a) (nr_Register (NewNamespaceIsolatedRegistry a) n (Some ch) r) n = Some ch"
  using assms separated_append [of b a m n]
  by (auto simp: nr_Get_def nr_Register_def NewNamespaceIsolatedRegistry_def reg_Get_Register' NSSep_def)

text \<open>Nested namespaces do interfere when a channel name contains the separator.\<close>

lemma namespaces_collide:
  "nr_Get (NewNamespaceIsolatedRegistry ''a|b'')
     (nr_Register (NewNamespaceIsolatedRegistry ''a'') ''b|x'' (Some ch) r) ''x'' = Some ch"
  by (simp add: nr_Get_def nr_Register_def NewNamespaceIsolatedRegistry_def reg_Get_Register' NSSep_def)

text \<open>
  The checkpoint of an isolated registry holds the channels of all namespaces, and cannot be restored: its
  entries for the namespace and the prefix are taken for channels.
\<close>

lemma Restore_unknown:
  "k \<in> gm_dom cps \<Longrightarrow> reg_Get r k = None \<Longrightarrow> fst (RestoreFromCheckpoint cps r) \<noteq> None"
proof (induction cps r rule: RestoreFromCheckpoint.induct)
  case (2 name cp cps r)
  show ?case
  proof (cases "map_of (channels r) name")
    case (Some ch)
    then have "k \<noteq> name" using "2.prems"(2) by (auto simp: reg_Get_def)
    then show ?thesis using 2 Some by (auto simp: reg_Get_def gomap_simps)
  qed simp
qed simp

lemma isolated_checkpoint_not_restorable:
  assumes "reg_Get r ''namespace'' = None"
  shows "fst (RestoreFromCheckpoint (nr_CreateCheckpoint nr r) r) \<noteq> None"
    and "reg_Get r k = Some ch \<Longrightarrow> reg_ok r \<Longrightarrow> ch_Checkpoint ch \<noteq> GMissing \<Longrightarrow> k \<noteq> ''prefix'' \<Longrightarrow>
      map_of (nr_CreateCheckpoint nr r) k = Some (ch_Checkpoint ch)"
proof -
  have "''namespace'' \<in> gm_dom (nr_CreateCheckpoint nr r)" by (simp only: nr_CreateCheckpoint_def gm_keys_put) blast
  then show "fst (RestoreFromCheckpoint (nr_CreateCheckpoint nr r) r) \<noteq> None" using assms by (rule Restore_unknown)
  show "map_of (nr_CreateCheckpoint nr r) k = Some (ch_Checkpoint ch)"
    if "reg_Get r k = Some ch" "reg_ok r" "ch_Checkpoint ch \<noteq> GMissing" "k \<noteq> ''prefix''"
    using that assms by (auto simp: nr_CreateCheckpoint_def CreateCheckpoint_def checkpoint_loop_map_of reg_Get_def gomap_simps)
qed

end
