(* ===== verification/Task_Queues.thy ===== *)
theory Task_Queues
  imports Pregel_Tasks "HOL-Library.Multiset" "HOL-Library.Word"
begin

text \<open>
  The three priority queues of the engine package: the binary heap \<^verbatim>\<open>PriorityQueue\<close> of
  \<^verbatim>\<open>pregel/background.go\<close>, and the sorted \<^verbatim>\<open>PriorityTaskQueue\<close> and the queue behind
  \<^verbatim>\<open>GetNextPriorityTask\<close> of \<^verbatim>\<open>pregel/optimized.go\<close>. The locale \<open>task_queue\<close> states what a priority
  queue promises against an abstract queue whose state is a multiset; each of the three is an
  interpretation.
\<close>

section \<open>The contract\<close>

datatype 'a queue_op = Push 'a | Pop

text \<open>
  The abstract queue: a push adds an element, a pop on an empty queue returns nothing and otherwise some
  element that may precede every element of the queue.
\<close>

inductive serves :: "('a \<Rightarrow> 'a \<Rightarrow> bool) \<Rightarrow> 'a queue_op list \<Rightarrow> 'a multiset \<Rightarrow> 'a option list \<Rightarrow> 'a multiset \<Rightarrow> bool"
  for precedes :: "'a \<Rightarrow> 'a \<Rightarrow> bool" where
  Stop: "serves precedes [] m [] m"
| Push: "serves precedes ops (add_mset x m) outs m' \<Longrightarrow> serves precedes (Push x # ops) m outs m'"
| PopEmpty: "serves precedes ops {#} outs m' \<Longrightarrow> serves precedes (Pop # ops) {#} (None # outs) m'"
| PopSome: "serves precedes ops m outs m' \<Longrightarrow> \<forall>y \<in># m. precedes x y \<Longrightarrow>
    serves precedes (Pop # ops) (add_mset x m) (Some x # outs) m'"

inductive_cases serves_NilE: "serves precedes [] m outs m'"
inductive_cases serves_PushE: "serves precedes (Push x # ops) m outs m'"
inductive_cases serves_PopE: "serves precedes (Pop # ops) m outs m'"

text \<open>The calls of a client on a queue with the operations \<open>push\<close> and \<open>pop\<close>.\<close>

fun queue_calls ::
  "('a \<Rightarrow> 'q \<Rightarrow> 'q) \<Rightarrow> ('q \<Rightarrow> ('a \<times> 'q) option) \<Rightarrow> 'a queue_op list \<Rightarrow> 'q \<Rightarrow> 'a option list \<times> 'q" where
  "queue_calls push pop [] q = ([], q)"
| "queue_calls push pop (Push x # ops) q = queue_calls push pop ops (push x q)"
| "queue_calls push pop (Pop # ops) q =
     (case pop q of
        None \<Rightarrow> apfst (Cons None) (queue_calls push pop ops q)
      | Some (x, q') \<Rightarrow> apfst (Cons (Some x)) (queue_calls push pop ops q'))"

fun drain :: "('q \<Rightarrow> ('a \<times> 'q) option) \<Rightarrow> nat \<Rightarrow> 'q \<Rightarrow> 'a list" where
  "drain pop 0 q = []"
| "drain pop (Suc n) q = (case pop q of None \<Rightarrow> [] | Some (x, q') \<Rightarrow> x # drain pop n q')"

locale task_queue =
  fixes push :: "'a \<Rightarrow> 'q \<Rightarrow> 'q"
    and pop :: "'q \<Rightarrow> ('a \<times> 'q) option"
    and fits :: "'a \<Rightarrow> bool"
    and invar :: "'q \<Rightarrow> bool"
    and elems :: "'q \<Rightarrow> 'a multiset"
    and precedes :: "'a \<Rightarrow> 'a \<Rightarrow> bool"
  assumes push_invar: "invar q \<Longrightarrow> fits x \<Longrightarrow> invar (push x q)"
    and push_elems: "invar q \<Longrightarrow> fits x \<Longrightarrow> elems (push x q) = add_mset x (elems q)"
    and pop_None: "invar q \<Longrightarrow> pop q = None \<longleftrightarrow> elems q = {#}"
    and pop_invar: "invar q \<Longrightarrow> pop q = Some (x, q') \<Longrightarrow> invar q'"
    and pop_elems: "invar q \<Longrightarrow> pop q = Some (x, q') \<Longrightarrow> elems q = add_mset x (elems q')"
    and pop_first: "invar q \<Longrightarrow> pop q = Some (x, q') \<Longrightarrow> y \<in># elems q' \<Longrightarrow> precedes x y"
begin

lemma calls_serve:
  assumes "invar q" and "\<And>x. Push x \<in> set ops \<Longrightarrow> fits x"
  shows "invar (snd (queue_calls push pop ops q))
    \<and> serves precedes ops (elems q) (fst (queue_calls push pop ops q)) (elems (snd (queue_calls push pop ops q)))"
  using assms
proof (induction ops arbitrary: q)
  case Nil
  then show ?case by (simp add: serves.Stop)
next
  case (Cons c ops)
  show ?case
  proof (cases c)
    case (Push x)
    then have x: "invar (push x q)" "elems (push x q) = add_mset x (elems q)"
      using Cons.prems by (simp_all add: push_invar push_elems)
    show ?thesis using Cons.IH [OF x(1)] Cons.prems(2) by (simp add: Push x(2) serves.Push)
  next
    case Pop
    show ?thesis
    proof (cases "pop q")
      case None
      then have "elems q = {#}" using Cons.prems pop_None by blast
      then show ?thesis using Cons.IH [of q] Cons.prems Pop None by (simp add: serves.PopEmpty)
    next
      case (Some r)
      obtain x q' where r: "r = (x, q')" by (cases r)
      with Some Cons.prems have "invar q'" "elems q = add_mset x (elems q')" "\<forall>y \<in># elems q'. precedes x y"
        using pop_invar pop_elems pop_first by auto
      then show ?thesis using Cons.IH [of q'] Cons.prems Pop Some r by (simp add: serves.PopSome)
    qed
  qed
qed

lemma drain_sorts:
  "invar q \<Longrightarrow> n = size (elems q) \<Longrightarrow> sorted_wrt precedes (drain pop n q) \<and> mset (drain pop n q) = elems q"
proof (induction n arbitrary: q)
  case (Suc n)
  then have "pop q \<noteq> None" using pop_None by force
  then obtain x q' where p: "pop q = Some (x, q')" by auto
  note e = pop_elems [OF Suc.prems(1) p]
  from e Suc.prems(2) have "n = size (elems q')" by simp
  with Suc.IH [of q'] pop_invar [OF Suc.prems(1) p]
  have IH: "sorted_wrt precedes (drain pop n q')" "mset (drain pop n q') = elems q'" by auto
  have "\<forall>y \<in> set (drain pop n q'). precedes x y"
    using pop_first [OF Suc.prems(1) p] IH(2) by (metis set_mset_mset)
  with IH e p show ?case by simp
qed simp

lemma push_all:
  "invar q \<Longrightarrow> \<forall>x \<in> set xs. fits x \<Longrightarrow> invar (fold push xs q) \<and> elems (fold push xs q) = elems q + mset xs"
  by (induction xs arbitrary: q) (auto simp: push_invar push_elems)

lemma push_all_drain:
  assumes "invar q" "elems q = {#}" "\<forall>x \<in> set xs. fits x"
  shows "sorted_wrt precedes (drain pop (length xs) (fold push xs q))
    \<and> mset (drain pop (length xs) (fold push xs q)) = mset xs"
  using push_all [OF assms(1,3)] drain_sorts [of "fold push xs q" "length xs"] assms(2) by simp

end

section \<open>The heap\<close>

text \<open>
  The function of a task gets its context, of which it sees whether it is cancelled. The creation time and
  the task's own result channel belong to the executor.
\<close>

record background_task =
  bt_ID :: string
  bt_Name :: string
  bt_Func :: "bool \<Rightarrow> goval \<times> go_error option"
  bt_Priority :: int

definition swap :: "nat \<Rightarrow> nat \<Rightarrow> 'a list \<Rightarrow> 'a list" where
  "swap i j xs = xs[i := xs ! j, j := xs ! i]"

function heapifyUp :: "nat \<Rightarrow> background_task list \<Rightarrow> background_task list" where
  "heapifyUp index tasks =
     (if index > 0
      then let parent = (index - 1) div 2
           in if bt_Priority (tasks ! parent) \<ge> bt_Priority (tasks ! index) then tasks
              else heapifyUp parent (swap parent index tasks)
      else tasks)"
  by auto
termination by (relation "measure fst") auto

definition largest_of :: "nat \<Rightarrow> background_task list \<Rightarrow> nat" where
  "largest_of index tasks =
     (let n = length tasks;
          left = 2 * index + 1;
          right = 2 * index + 2;
          largest = (if left < n \<and> bt_Priority (tasks ! left) > bt_Priority (tasks ! index) then left else index)
      in if right < n \<and> bt_Priority (tasks ! right) > bt_Priority (tasks ! largest) then right else largest)"

lemma largest_of_cases:
  "largest_of index tasks = index \<or> index < largest_of index tasks \<and> largest_of index tasks < length tasks"
  by (simp add: largest_of_def Let_def)

lemma length_swap [simp]: "length (swap i j xs) = length xs"
  by (simp add: swap_def)

function heapifyDown :: "nat \<Rightarrow> background_task list \<Rightarrow> background_task list" where
  "heapifyDown index tasks =
     (let largest = largest_of index tasks
      in if largest = index then tasks else heapifyDown largest (swap index largest tasks))"
  by auto
termination
proof (relation "measure (\<lambda>(index, tasks). length tasks - index)")
  fix index tasks x
  assume "x = largest_of index tasks" "x \<noteq> index"
  then show "((x, swap index x tasks), index, tasks) \<in> measure (\<lambda>(index, tasks). length tasks - index)"
    using largest_of_cases [of index tasks] by auto
qed simp

declare heapifyUp.simps [simp del] heapifyDown.simps [simp del]

definition NewPriorityQueue :: "background_task list" where
  "NewPriorityQueue = []"

definition pq_Push :: "background_task \<Rightarrow> background_task list \<Rightarrow> background_task list" where
  "pq_Push task tasks = (let tasks = tasks @ [task] in heapifyUp (length tasks - 1) tasks)"

definition pq_Pop :: "background_task list \<Rightarrow> (background_task \<times> background_task list) option" where
  "pq_Pop tasks =
     (if length tasks = 0 then None
      else let task = tasks ! 0;
               tasks = tasks[0 := tasks ! (length tasks - 1)];
               tasks = take (length tasks - 1) tasks
           in Some (task, if length tasks > 0 then heapifyDown 0 tasks else tasks))"

definition pq_Len :: "background_task list \<Rightarrow> int" where
  "pq_Len tasks = int (length tasks)"

subsection \<open>The heap property\<close>

abbreviation prio :: "background_task list \<Rightarrow> nat \<Rightarrow> int" where
  "prio xs i \<equiv> bt_Priority (xs ! i)"

abbreviation parent :: "nat \<Rightarrow> nat" where
  "parent i \<equiv> (i - 1) div 2"

definition heap :: "background_task list \<Rightarrow> bool" where
  "heap xs \<longleftrightarrow> (\<forall>i < length xs. 0 < i \<longrightarrow> prio xs i \<le> prio xs (parent i))"

text \<open>
  While an element moves up from \<open>k\<close> only the pair of \<open>k\<close> and its parent may be out of order, while it moves down
  only the pairs of \<open>k\<close> and its children; the children of \<open>k\<close> are always in order with the parent of \<open>k\<close>.
\<close>

definition heap_above :: "nat \<Rightarrow> background_task list \<Rightarrow> bool" where
  "heap_above k xs \<longleftrightarrow> (\<forall>i < length xs. 0 < i \<and> parent i = k \<and> 0 < k \<longrightarrow> prio xs i \<le> prio xs (parent k))"

definition heap_up :: "nat \<Rightarrow> background_task list \<Rightarrow> bool" where
  "heap_up k xs \<longleftrightarrow> (\<forall>i < length xs. 0 < i \<and> i \<noteq> k \<longrightarrow> prio xs i \<le> prio xs (parent i)) \<and> heap_above k xs"

definition heap_down :: "nat \<Rightarrow> background_task list \<Rightarrow> bool" where
  "heap_down k xs \<longleftrightarrow> (\<forall>i < length xs. 0 < i \<and> parent i \<noteq> k \<longrightarrow> prio xs i \<le> prio xs (parent i)) \<and> heap_above k xs"

lemmas heap_defs = heap_def heap_up_def heap_down_def heap_above_def

lemma nth_swap:
  "i < length xs \<Longrightarrow> j < length xs \<Longrightarrow> swap i j xs ! n = (if n = i then xs ! j else if n = j then xs ! i else xs ! n)"
  by (auto simp: swap_def nth_list_update)

lemma mset_swap_eq [simp]: "i < length xs \<Longrightarrow> j < length xs \<Longrightarrow> mset (swap i j xs) = mset xs"
  unfolding swap_def by (rule mset_swap)

lemma parent_less: "0 < i \<Longrightarrow> parent i < i"
  by auto

lemma parent_iff: "0 < i \<Longrightarrow> parent i = k \<longleftrightarrow> i = 2 * k + 1 \<or> i = 2 * k + 2"
  by auto

text \<open>One round of each loop keeps its invariant.\<close>

lemma heap_up_swap:
  assumes up: "heap_up k xs" and k: "0 < k" "k < length xs" and less: "prio xs (parent k) < prio xs k"
  shows "heap_up (parent k) (swap (parent k) k xs)"
proof -
  have p: "parent k < k" using k parent_less by blast
  then have pl: "parent k < length xs" using k by simp
  have nth: "prio (swap (parent k) k xs) n =
      (if n = parent k then prio xs k else if n = k then prio xs (parent k) else prio xs n)" for n
    using nth_swap [OF pl k(2)] by simp
  have ord: "prio xs i \<le> prio xs (parent i)" if "i < length xs" "0 < i" "i \<noteq> k" for i
    using up that by (simp add: heap_up_def)
  have above: "prio xs i \<le> prio xs (parent k)" if "i < length xs" "0 < i" "parent i = k" for i
    using up that k by (simp add: heap_up_def heap_above_def)
  have "prio (swap (parent k) k xs) i \<le> prio (swap (parent k) k xs) (parent i)"
    if "i < length xs" "0 < i" "i \<noteq> parent k" for i
    using ord [OF that(1,2)] above [OF that(1,2)] that less p parent_less [OF that(2)]
    unfolding nth by (auto split: if_splits)
  moreover have "prio (swap (parent k) k xs) i \<le> prio (swap (parent k) k xs) (parent (parent k))"
    if "i < length xs" "0 < i" "parent i = parent k" "0 < parent k" for i
  proof -
    have pp: "parent (parent k) < parent k" using that(4) parent_less by blast
    have "prio xs (parent k) \<le> prio xs (parent (parent k))" using ord [OF pl that(4)] p by simp
    then show ?thesis using ord [OF that(1,2)] that pp p parent_less [OF that(2)] unfolding nth by auto
  qed
  ultimately show ?thesis by (simp add: heap_up_def heap_above_def)
qed

lemma largest_of_children:
  "i < length xs \<Longrightarrow> i = 2 * k + 1 \<or> i = 2 * k + 2 \<Longrightarrow> prio xs i \<le> prio xs (largest_of k xs)"
  by (auto simp: largest_of_def Let_def)

lemma largest_of_max:
  assumes "k < length xs"
  shows "prio xs k \<le> prio xs (largest_of k xs)"
    and "i < length xs \<Longrightarrow> 0 < i \<Longrightarrow> parent i = k \<Longrightarrow> prio xs i \<le> prio xs (largest_of k xs)"
    and "largest_of k xs \<noteq> k \<Longrightarrow> 0 < largest_of k xs \<and> parent (largest_of k xs) = k"
proof -
  show "prio xs k \<le> prio xs (largest_of k xs)" by (simp add: largest_of_def Let_def)
  show "i < length xs \<Longrightarrow> 0 < i \<Longrightarrow> parent i = k \<Longrightarrow> prio xs i \<le> prio xs (largest_of k xs)"
    using largest_of_children [of i xs k] parent_iff [of i k] by blast
  show "largest_of k xs \<noteq> k \<Longrightarrow> 0 < largest_of k xs \<and> parent (largest_of k xs) = k"
    by (simp add: largest_of_def Let_def split: if_splits)
qed

lemma heap_down_swap:
  assumes down: "heap_down k xs" and k: "k < length xs" and l: "l = largest_of k xs" "l \<noteq> k"
  shows "heap_down l (swap k l xs)"
proof -
  have ll: "k < l" "l < length xs" using largest_of_cases [of k xs] l by auto
  have pl: "0 < l" "parent l = k" using largest_of_max(3) [OF k] l by auto
  have nth: "prio (swap k l xs) n = (if n = k then prio xs l else if n = l then prio xs k else prio xs n)" for n
    using nth_swap [OF k ll(2)] by simp
  have ord: "prio xs i \<le> prio xs (parent i)" if "i < length xs" "0 < i" "parent i \<noteq> k" for i
    using down that by (simp add: heap_down_def)
  have above: "prio xs l \<le> prio xs (parent k)" if "0 < k"
    using down that pl ll by (simp add: heap_down_def heap_above_def)
  have child: "prio xs i \<le> prio xs l" if "i < length xs" "0 < i" "parent i = k" for i
    using largest_of_max(2) [OF k that] l by simp
  have top: "prio xs k \<le> prio xs l" using largest_of_max(1) [OF k] l by simp
  have "prio (swap k l xs) i \<le> prio (swap k l xs) (parent i)"
    if "i < length xs" "0 < i" "parent i \<noteq> l" for i
    using ord [OF that(1,2)] above child [OF that(1,2)] that top pl ll parent_less [OF that(2)]
    unfolding nth by (auto split: if_splits)
  moreover have "prio (swap k l xs) i \<le> prio (swap k l xs) (parent l)"
    if "i < length xs" "0 < i" "parent i = l" for i
    using ord [OF that(1,2)] that pl ll parent_less [OF that(2)] unfolding nth by auto
  ultimately show ?thesis by (simp add: heap_down_def heap_above_def)
qed

lemma heapifyUp_ok:
  "k < length xs \<Longrightarrow> heap_up k xs \<Longrightarrow> heap (heapifyUp k xs) \<and> mset (heapifyUp k xs) = mset xs"
proof (induction k xs rule: heapifyUp.induct)
  case (1 k xs)
  show ?case
  proof (cases "0 < k \<and> prio xs (parent k) < prio xs k")
    case True
    then have p: "parent k < length xs" using 1 parent_less [of k] by simp
    have "heap_up (parent k) (swap (parent k) k xs)" using True 1 by (intro heap_up_swap) auto
    moreover have "heapifyUp k xs = heapifyUp (parent k) (swap (parent k) k xs)"
      using True by (subst heapifyUp.simps) (simp add: Let_def)
    ultimately show ?thesis using 1(1) [OF _ refl] True 1(2) p by simp
  next
    case False
    with 1 have "heapifyUp k xs = xs" by (subst heapifyUp.simps) (auto simp: Let_def)
    moreover have "heap xs" unfolding heap_def
    proof (intro allI impI)
      fix i assume i: "i < length xs" "0 < i"
      show "prio xs i \<le> prio xs (parent i)"
        using 1(3) False i by (cases "i = k") (simp_all add: heap_up_def)
    qed
    ultimately show ?thesis by simp
  qed
qed

lemma heapifyDown_ok:
  "k < length xs \<Longrightarrow> heap_down k xs \<Longrightarrow> heap (heapifyDown k xs) \<and> mset (heapifyDown k xs) = mset xs"
proof (induction k xs rule: heapifyDown.induct)
  case (1 k xs)
  show ?case
  proof (cases "largest_of k xs = k")
    case True
    then have "heapifyDown k xs = xs" by (subst heapifyDown.simps) simp
    moreover have "heap xs" unfolding heap_def
    proof (intro allI impI)
      fix i assume i: "i < length xs" "0 < i"
      show "prio xs i \<le> prio xs (parent i)"
        using 1(3) largest_of_max(2) [OF 1(2) i] True i by (cases "parent i = k") (simp_all add: heap_down_def)
    qed
    ultimately show ?thesis by simp
  next
    case False
    then have l: "largest_of k xs < length xs" using largest_of_cases [of k xs] by auto
    have "heap_down (largest_of k xs) (swap k (largest_of k xs) xs)"
      using False 1 by (intro heap_down_swap) auto
    moreover have "heapifyDown k xs = heapifyDown (largest_of k xs) (swap k (largest_of k xs) xs)"
      using False by (subst heapifyDown.simps) (simp add: Let_def)
    ultimately show ?thesis using 1(1) [OF refl False] 1(2) l by simp
  qed
qed

lemma heap_root_max: "heap xs \<Longrightarrow> i < length xs \<Longrightarrow> prio xs i \<le> prio xs 0"
proof (induction i rule: less_induct)
  case (less i)
  show ?case
  proof (cases "i = 0")
    case False
    then have p: "parent i < i" using parent_less by simp
    with less have "prio xs (parent i) \<le> prio xs 0" by simp
    moreover have "prio xs i \<le> prio xs (parent i)" using False less.prems by (simp add: heap_def)
    ultimately show ?thesis by simp
  qed simp
qed

lemma heap_snoc:
  assumes "heap xs"
  shows "heap_up (length xs) (xs @ [x])"
proof -
  have "prio (xs @ [x]) i \<le> prio (xs @ [x]) (parent i)" if "i < length xs" "0 < i" for i
    using assms that parent_less [OF that(2)] by (simp add: heap_def nth_append)
  moreover have "parent i \<noteq> length xs" if "i < Suc (length xs)" "0 < i" for i
    using that parent_less [OF that(2)] by simp
  ultimately show ?thesis by (auto simp: heap_up_def heap_above_def)
qed

lemma heap_replace_root: "heap xs \<Longrightarrow> heap_down 0 (take n (xs[0 := x]))"
  by (auto simp: heap_defs nth_list_update)

lemma pq_Push_ok: "heap q \<Longrightarrow> heap (pq_Push x q) \<and> mset (pq_Push x q) = add_mset x (mset q)"
  using heapifyUp_ok [OF _ heap_snoc, of q x] by (simp add: pq_Push_def)

lemma mset_move_last:
  assumes "xs \<noteq> []"
  shows "mset xs = add_mset (xs ! 0) (mset (take (length xs - 1) (xs[0 := xs ! (length xs - 1)])))"
  using assms
proof (cases xs rule: rev_cases)
  case (snoc ys y)
  then show ?thesis by (cases ys) (auto simp: nth_append)
qed simp

lemma pq_Pop_ok:
  assumes q: "heap q" and p: "pq_Pop q = Some (x, q')"
  shows "heap q' \<and> mset q = add_mset x (mset q') \<and> (\<forall>y \<in># mset q'. bt_Priority y \<le> bt_Priority x)"
proof -
  define r where "r = take (length q - 1) (q[0 := q ! (length q - 1)])"
  have ne: "q \<noteq> []" using p by (auto simp: pq_Pop_def)
  have x: "x = q ! 0" and q': "q' = (if length r > 0 then heapifyDown 0 r else r)"
    using p ne by (auto simp: pq_Pop_def Let_def r_def)
  have "heap_down 0 r" unfolding r_def by (rule heap_replace_root [OF q])
  then have hm: "heap q' \<and> mset q' = mset r"
    using heapifyDown_ok [of 0 r] by (auto simp: q' heap_def)
  moreover have m: "mset q = add_mset x (mset q')"
    using mset_move_last [OF ne] hm by (simp add: x r_def)
  moreover have "bt_Priority y \<le> bt_Priority x" if "y \<in># mset q'" for y
  proof -
    have "y \<in> set q" using that m by (metis insertI2 set_mset_add_mset_insert set_mset_mset)
    then obtain i where "i < length q" "y = q ! i" by (auto simp: in_set_conv_nth)
    then show ?thesis using heap_root_max [OF q] by (simp add: x)
  qed
  ultimately show ?thesis by blast
qed

interpretation heap_queue: task_queue pq_Push pq_Pop "\<lambda>_. True" heap mset "\<lambda>s t. bt_Priority t \<le> bt_Priority s"
proof
  show "heap q \<Longrightarrow> pq_Pop q = None \<longleftrightarrow> mset q = {#}" for q
    by (simp add: pq_Pop_def Let_def)
qed (use pq_Push_ok pq_Pop_ok in blast)+

text \<open>
  C35: the heap is a priority queue. Whatever tasks a client pushes and however it interleaves its pops, every answer
  is one the abstract queue may give: a pop of an empty queue returns nothing, and any other pop returns a
  task in the queue whose priority no other task in it exceeds, and removes just that one. In
  between the slice always satisfies the heap property.
\<close>

theorem heap_queue_refines:
  "heap (snd (queue_calls pq_Push pq_Pop ops NewPriorityQueue))
   \<and> serves (\<lambda>s t. bt_Priority t \<le> bt_Priority s) ops {#} (fst (queue_calls pq_Push pq_Pop ops NewPriorityQueue))
       (mset (snd (queue_calls pq_Push pq_Pop ops NewPriorityQueue)))"
  using heap_queue.calls_serve [of NewPriorityQueue ops] by (simp add: NewPriorityQueue_def heap_def)

text \<open>Pushing tasks and popping them all gives the tasks in the order of falling priority.\<close>

lemma heap_sorts:
  "sorted_wrt (\<lambda>s t. bt_Priority t \<le> bt_Priority s) (drain pq_Pop (length ts) (fold pq_Push ts NewPriorityQueue))
   \<and> mset (drain pq_Pop (length ts) (fold pq_Push ts NewPriorityQueue)) = mset ts"
  by (rule heap_queue.push_all_drain) (auto simp: NewPriorityQueue_def heap_def)

section \<open>The queue by path length\<close>

definition NewPriorityTaskQueue :: "task list" where
  "NewPriorityTaskQueue = []"

text \<open>The loop that moves the new last task forward past the tasks with longer paths.\<close>

primrec ptq_loop :: "nat \<Rightarrow> task list \<Rightarrow> task list" where
  "ptq_loop 0 tasks = tasks"
| "ptq_loop (Suc i) tasks =
     (if length (tk_Path (tasks ! Suc i)) < length (tk_Path (tasks ! i))
      then ptq_loop i (swap (Suc i) i tasks) else tasks)"

definition ptq_Push :: "task \<Rightarrow> task list \<Rightarrow> task list" where
  "ptq_Push task tasks = (let tasks = tasks @ [task] in ptq_loop (length tasks - 1) tasks)"

definition ptq_Pop :: "task list \<Rightarrow> (task \<times> task list) option" where
  "ptq_Pop tasks = (if length tasks = 0 then None else Some (tasks ! 0, drop 1 tasks))"

definition ptq_Len :: "task list \<Rightarrow> int" where
  "ptq_Len tasks = int (length tasks)"

abbreviation path_len :: "task \<Rightarrow> nat" where
  "path_len t \<equiv> length (tk_Path t)"

text \<open>In a sorted slice the new task lands behind every task with a path at most as long.\<close>

lemma ptq_loop_inserts:
  "sorted (map path_len xs) \<Longrightarrow>
   ptq_loop (length xs) (xs @ t # ys) =
     filter (\<lambda>x. path_len x \<le> path_len t) xs @ t # filter (\<lambda>x. path_len t < path_len x) xs @ ys"
proof (induction xs arbitrary: ys rule: rev_induct)
  case (snoc x xs)
  have xs: "sorted (map path_len xs)" and le: "\<forall>y \<in> set xs. path_len y \<le> path_len x"
    using snoc.prems by (auto simp: sorted_append)
  have sw: "swap (Suc (length xs)) (length xs) ((xs @ [x]) @ t # ys) = xs @ t # x # ys"
    by (simp add: swap_def nth_append list_update_append)
  show ?case
  proof (cases "path_len t < path_len x")
    case True
    then show ?thesis using snoc.IH [OF xs, of "x # ys"] sw by (simp add: nth_append)
  next
    case False
    then have all: "\<forall>y \<in> set xs. path_len y \<le> path_len t" using le by auto
    then have "filter (\<lambda>y. path_len y \<le> path_len t) xs = xs" "filter (\<lambda>y. path_len t < path_len y) xs = []"
      by (auto simp: filter_empty_conv intro!: filter_True)
    with False show ?thesis by (simp add: nth_append)
  qed
qed simp

lemma ptq_Push_eq:
  assumes "sorted (map path_len q)"
  shows "ptq_Push t q = filter (\<lambda>x. path_len x \<le> path_len t) q @ t # filter (\<lambda>x. path_len t < path_len x) q"
  using ptq_loop_inserts [OF assms, of t "[]"] by (simp add: ptq_Push_def)

lemma ptq_Push_sorted: "sorted (map path_len q) \<Longrightarrow> sorted (map path_len (ptq_Push t q))"
  by (auto simp: ptq_Push_eq sorted_append sorted_filter intro: order_trans less_imp_le)

lemma ptq_Push_mset: "sorted (map path_len q) \<Longrightarrow> mset (ptq_Push t q) = add_mset t (mset q)"
  by (simp add: ptq_Push_eq) (simp flip: not_less)

lemma ptq_Push_class:
  "sorted (map path_len q) \<Longrightarrow>
   filter (\<lambda>x. path_len x = n) (ptq_Push t q) =
     filter (\<lambda>x. path_len x = n) q @ (if path_len t = n then [t] else [])"
proof (cases "path_len t < n")
  case True
  then have "filter (\<lambda>x. path_len x \<le> path_len t \<and> path_len x = n) q = []"
    "filter (\<lambda>x. path_len t < path_len x \<and> path_len x = n) q = filter (\<lambda>x. path_len x = n) q"
    by (auto simp: filter_empty_conv intro!: filter_cong)
  with True show "sorted (map path_len q) \<Longrightarrow> ?thesis" by (simp add: ptq_Push_eq)
next
  case False
  then have "filter (\<lambda>x. path_len x \<le> path_len t \<and> path_len x = n) q = filter (\<lambda>x. path_len x = n) q"
    "filter (\<lambda>x. path_len t < path_len x \<and> path_len x = n) q = []"
    by (auto simp: filter_empty_conv intro!: filter_cong)
  then show "sorted (map path_len q) \<Longrightarrow> ?thesis" by (simp add: ptq_Push_eq)
qed

interpretation path_queue:
  task_queue ptq_Push ptq_Pop "\<lambda>_. True" "\<lambda>q. sorted (map path_len q)" mset "\<lambda>s t. path_len s \<le> path_len t"
  by unfold_locales
    (auto simp: ptq_Push_sorted ptq_Push_mset ptq_Pop_def neq_Nil_conv split: if_splits)

text \<open>
  The queue by path length is a stable sort. Pushing any tasks into an empty queue leaves the slice that the
  library's stable sort by path length produces: shorter paths come out first, and tasks with paths of
  the same length come out in the order they were pushed.
\<close>

theorem path_queue_is_stable_sort:
  "fold ptq_Push ts NewPriorityTaskQueue = sort_key path_len ts"
proof -
  have gen: "sorted (map path_len (fold ptq_Push ts q)) \<and> mset (fold ptq_Push ts q) = mset q + mset ts
      \<and> (\<forall>n. filter (\<lambda>x. path_len x = n) (fold ptq_Push ts q) =
             filter (\<lambda>x. path_len x = n) q @ filter (\<lambda>x. path_len x = n) ts)"
    if "sorted (map path_len q)" for q
    using that
  proof (induction ts arbitrary: q)
    case (Cons t ts)
    then show ?case using Cons.IH [OF ptq_Push_sorted [OF Cons.prems, of t]]
      by (auto simp: ptq_Push_mset ptq_Push_class)
  qed simp
  have "sort_key path_len ts = fold ptq_Push ts []"
    using gen [of "[]"] by (intro properties_for_sort_key) (auto simp: eq_commute)
  then show ?thesis by (simp add: NewPriorityTaskQueue_def)
qed

section \<open>The queue by priority, path length and path\<close>

text \<open>
  \<^verbatim>\<open>Compare\<close> subtracts two \<^verbatim>\<open>int\<close> priorities, which wraps around at 64 bits.
\<close>

record task_priority =
  tp_Name :: string
  tp_Path :: "string list"
  tp_Priority :: "64 word"

definition NewTaskPriority :: "string \<Rightarrow> string list \<Rightarrow> 64 word \<Rightarrow> task_priority" where
  "NewTaskPriority name path priority = \<lparr>tp_Name = name, tp_Path = path, tp_Priority = priority\<rparr>"

text \<open>The loop over two paths of equal length.\<close>

fun compare_paths :: "string list \<Rightarrow> string list \<Rightarrow> int" where
  "compare_paths (p # ps) (q # qs) = (if p \<noteq> q then if p < q then -1 else 1 else compare_paths ps qs)"
| "compare_paths _ _ = 0"

definition tp_Compare :: "task_priority \<Rightarrow> task_priority \<Rightarrow> int" where
  "tp_Compare tp other =
     (if tp_Priority tp \<noteq> tp_Priority other then sint (tp_Priority tp - tp_Priority other)
      else if length (tp_Path tp) \<noteq> length (tp_Path other)
      then int (length (tp_Path tp)) - int (length (tp_Path other))
      else compare_paths (tp_Path tp) (tp_Path other))"

definition compareTaskPriority :: "task \<Rightarrow> task \<Rightarrow> int" where
  "compareTaskPriority t1 t2 =
     (if path_len t1 \<noteq> path_len t2 then int (path_len t1) - int (path_len t2)
      else if compare_paths (tk_Path t1) (tk_Path t2) \<noteq> 0 then compare_paths (tk_Path t1) (tk_Path t2)
      else if tk_Name t1 \<noteq> tk_Name t2 then if tk_Name t1 < tk_Name t2 then -1 else 1
      else 0)"

record task_with_priority =
  twp_Task :: task
  twp_Priority :: "64 word"
  twp_Namespace :: string
  twp_Path :: "string list"

definition twp_key :: "task_with_priority \<Rightarrow> task_priority" where
  "twp_key t = \<lparr>tp_Name = tk_Name (twp_Task t), tp_Path = twp_Path t, tp_Priority = twp_Priority t\<rparr>"

definition twp_less :: "task_with_priority \<Rightarrow> task_with_priority \<Rightarrow> bool" where
  "twp_less s t \<longleftrightarrow> tp_Compare (twp_key s) (twp_key t) < 0"

text \<open>
  \<open>srt\<close> stands for \<^verbatim>\<open>sort.Slice\<close>, which leaves the order of equal elements open.
\<close>

definition GetNextPriorityTask ::
  "((task_with_priority \<Rightarrow> task_with_priority \<Rightarrow> bool) \<Rightarrow> task_with_priority list \<Rightarrow> task_with_priority list) \<Rightarrow>
   task_with_priority list \<Rightarrow> (task_with_priority \<times> task_with_priority list) option" where
  "GetNextPriorityTask srt queue =
     (if length queue = 0 then None
      else let queue = srt twp_less queue
           in if length queue = 0 then None else Some (queue ! 0, drop 1 queue))"

definition queue_task :: "task \<Rightarrow> 64 word \<Rightarrow> string \<Rightarrow> task_with_priority" where
  "queue_task t priority namespace =
     \<lparr>twp_Task = t, twp_Priority = priority, twp_Namespace = namespace, twp_Path = [namespace, tk_Name t]\<rparr>"

definition enqueue :: "task_with_priority \<Rightarrow> task_with_priority list \<Rightarrow> task_with_priority list" where
  "enqueue t queue = queue @ [t]"

subsection \<open>The order of the comparison\<close>

lemma compare_paths_less: "length ps = length qs \<Longrightarrow> compare_paths ps qs < 0 \<longleftrightarrow> ps < qs"
  by (induction ps qs rule: compare_paths.induct) auto

lemma compare_paths_zero: "length ps = length qs \<Longrightarrow> compare_paths ps qs = 0 \<longleftrightarrow> ps = qs"
  by (induction ps qs rule: compare_paths.induct) auto

lemma sint_diff:
  fixes p q :: "64 word"
  assumes "\<bar>sint p\<bar> < 2 ^ 62" "\<bar>sint q\<bar> < 2 ^ 62"
  shows "sint (p - q) = sint p - sint q"
proof -
  have "p - q = of_int (sint p - sint q)" by simp
  then have "sint (p - q) = signed_take_bit 63 (sint p - sint q)" by (simp only: signed_of_int) simp
  then show ?thesis using assms by (simp add: signed_take_bit_int_eq_self)
qed

text \<open>
  Priorities strictly between \<open>-2 ^ 62\<close> and \<open>2 ^ 62\<close>, whose differences do not wrap around. On them
  the comparison is the lexicographic order of priority, path length and path.
\<close>

definition small_priority :: "task_with_priority \<Rightarrow> bool" where
  "small_priority t \<longleftrightarrow> \<bar>sint (twp_Priority t)\<bar> < 2 ^ 62"

definition sort_rank :: "task_with_priority \<Rightarrow> int \<times> nat \<times> string list" where
  "sort_rank t = (sint (twp_Priority t), length (twp_Path t), twp_Path t)"

definition rank_less :: "int \<times> nat \<times> string list \<Rightarrow> int \<times> nat \<times> string list \<Rightarrow> bool" where
  "rank_less = (\<lambda>(p, n, ps) (q, m, qs). p < q \<or> p = q \<and> (n < m \<or> n = m \<and> ps < qs))"

lemma twp_less_rank:
  assumes "small_priority s" "small_priority t"
  shows "twp_less s t \<longleftrightarrow> rank_less (sort_rank s) (sort_rank t)"
  using sint_diff [of "twp_Priority s" "twp_Priority t"] assms
    compare_paths_less [of "twp_Path s" "twp_Path t"] signed_word_eqI [of "twp_Priority s" "twp_Priority t"]
  by (auto simp: twp_less_def twp_key_def tp_Compare_def rank_less_def sort_rank_def small_priority_def)

lemma rank_less_asym: "rank_less a b \<Longrightarrow> \<not> rank_less b a"
  by (auto simp: rank_less_def)

lemma rank_less_split: "rank_less a c \<Longrightarrow> rank_less a b \<or> rank_less b c"
  by (auto simp: rank_less_def)

text \<open>
  What \<^verbatim>\<open>sort.Slice\<close> documents: the result has the same elements, and when the comparison is a strict
  weak order on them, none of them is below an earlier one.
\<close>

definition strict_weak :: "('a \<Rightarrow> 'a \<Rightarrow> bool) \<Rightarrow> 'a set \<Rightarrow> bool" where
  "strict_weak lt A \<longleftrightarrow> (\<forall>x \<in> A. \<forall>y \<in> A. lt x y \<longrightarrow> \<not> lt y x)
     \<and> (\<forall>x \<in> A. \<forall>y \<in> A. \<forall>z \<in> A. lt x z \<longrightarrow> lt x y \<or> lt y z)"

definition slice_sort :: "(('a \<Rightarrow> 'a \<Rightarrow> bool) \<Rightarrow> 'a list \<Rightarrow> 'a list) \<Rightarrow> bool" where
  "slice_sort srt \<longleftrightarrow> (\<forall>lt xs. mset (srt lt xs) = mset xs
     \<and> (strict_weak lt (set xs) \<longrightarrow> sorted_wrt (\<lambda>x y. \<not> lt y x) (srt lt xs)))"

locale slice_sorter =
  fixes srt :: "(task_with_priority \<Rightarrow> task_with_priority \<Rightarrow> bool) \<Rightarrow> task_with_priority list \<Rightarrow> task_with_priority list"
  assumes slice_sort: "slice_sort srt"
begin

lemma sorted_queue:
  assumes "\<forall>t \<in> set q. small_priority t"
  shows "sorted_wrt (\<lambda>s t. \<not> rank_less (sort_rank t) (sort_rank s)) (srt twp_less q)"
proof -
  have m: "mset (srt twp_less q) = mset q" using slice_sort by (simp add: slice_sort_def)
  then have set: "set (srt twp_less q) = set q" by (rule mset_eq_setD)
  have rank: "twp_less s t \<longleftrightarrow> rank_less (sort_rank s) (sort_rank t)" if "s \<in> set q" "t \<in> set q" for s t
    using assms that by (simp add: twp_less_rank)
  have "strict_weak twp_less (set q)"
    unfolding strict_weak_def using rank_less_asym rank_less_split by (simp add: rank)
  then have "sorted_wrt (\<lambda>s t. \<not> twp_less t s) (srt twp_less q)" using slice_sort by (simp add: slice_sort_def)
  then show ?thesis by (rule sorted_wrt_mono_rel [rotated]) (simp add: rank set)
qed

sublocale ranked: task_queue enqueue "GetNextPriorityTask srt" small_priority
  "\<lambda>q. \<forall>t \<in> set q. small_priority t" mset "\<lambda>s t. \<not> rank_less (sort_rank t) (sort_rank s)"
proof
  fix q x q'
  assume q: "\<forall>t \<in> set q. small_priority t"
  have m: "mset (srt twp_less q) = mset q" using slice_sort by (simp add: slice_sort_def)
  have len: "length (srt twp_less q) = length q" using m by (rule mset_eq_length)
  show "GetNextPriorityTask srt q = None \<longleftrightarrow> mset q = {#}"
    using len by (auto simp: GetNextPriorityTask_def Let_def)
  assume p: "GetNextPriorityTask srt q = Some (x, q')"
  then have s: "srt twp_less q = x # q'"
    using len by (cases "srt twp_less q") (auto simp: GetNextPriorityTask_def Let_def split: if_splits)
  show e: "mset q = add_mset x (mset q')" using m s by simp
  then have "set q = insert x (set q')" by (metis set_mset_add_mset_insert set_mset_mset)
  then show "\<forall>t \<in> set q'. small_priority t" using q by simp
  fix y assume "y \<in># mset q'"
  then show "\<not> rank_less (sort_rank y) (sort_rank x)" using sorted_queue [OF q] by (simp add: s)
qed (auto simp: enqueue_def)

lemmas taken_in_order = ranked.push_all_drain [of "[]"]

end

text \<open>Insertion, which \<^verbatim>\<open>sort.Slice\<close> uses for up to twelve elements.\<close>

fun insert_less :: "('a \<Rightarrow> 'a \<Rightarrow> bool) \<Rightarrow> 'a \<Rightarrow> 'a list \<Rightarrow> 'a list" where
  "insert_less lt x [] = [x]"
| "insert_less lt x (y # ys) = (if lt x y then x # y # ys else y # insert_less lt x ys)"

definition insertion_sort :: "('a \<Rightarrow> 'a \<Rightarrow> bool) \<Rightarrow> 'a list \<Rightarrow> 'a list" where
  "insertion_sort lt xs = fold (insert_less lt) xs []"

lemma mset_insert_less [simp]: "mset (insert_less lt x ys) = add_mset x (mset ys)"
  by (induction ys) auto

lemma set_insert_less [simp]: "set (insert_less lt x ys) = insert x (set ys)"
  by (induction ys) auto

lemma sorted_insert_less:
  assumes "strict_weak lt A" "x \<in> A" "set ys \<subseteq> A" "sorted_wrt (\<lambda>x y. \<not> lt y x) ys"
  shows "sorted_wrt (\<lambda>x y. \<not> lt y x) (insert_less lt x ys)"
  using assms
proof (induction ys)
  case (Cons y ys)
  have asym: "lt a b \<Longrightarrow> \<not> lt b a" if "a \<in> A" "b \<in> A" for a b
    using Cons.prems(1) that by (auto simp: strict_weak_def)
  have split: "lt a c \<Longrightarrow> lt a b \<or> lt b c" if "a \<in> A" "b \<in> A" "c \<in> A" for a b c
    using Cons.prems(1) that unfolding strict_weak_def by blast
  have "\<not> lt z x" if "lt x y" "z \<in> set ys" for z
    using that Cons.prems asym [of x y] split [of z y x] by auto
  then show ?case using Cons asym [of x y] by auto
qed simp

lemma fold_insert_less:
  "strict_weak lt A \<Longrightarrow> set xs \<subseteq> A \<Longrightarrow> set ys \<subseteq> A \<Longrightarrow> sorted_wrt (\<lambda>x y. \<not> lt y x) ys \<Longrightarrow>
   sorted_wrt (\<lambda>x y. \<not> lt y x) (fold (insert_less lt) xs ys)"
  by (induction xs arbitrary: ys) (auto simp: sorted_insert_less)

lemma mset_fold_insert_less: "mset (fold (insert_less lt) xs ys) = mset xs + mset ys"
  by (induction xs arbitrary: ys) auto

lemma slice_sort_insertion: "slice_sort insertion_sort"
  unfolding slice_sort_def insertion_sort_def
  by (auto simp: mset_fold_insert_less intro!: fold_insert_less)

interpretation insertion: slice_sorter insertion_sort
  by unfold_locales (rule slice_sort_insertion)

text \<open>
  For every implementation of \<^verbatim>\<open>sort.Slice\<close> and all tasks with small priorities, taking the tasks out one
  by one gives them by rising priority number, then by path length, then by path.
\<close>

lemma priority_queue_order:
  assumes "slice_sort srt" and "\<forall>t \<in> set ts. small_priority t"
  shows "sorted_wrt (\<lambda>s t. \<not> rank_less (sort_rank t) (sort_rank s))
      (drain (GetNextPriorityTask srt) (length ts) (fold enqueue ts []))
    \<and> mset (drain (GetNextPriorityTask srt) (length ts) (fold enqueue ts [])) = mset ts"
  using slice_sorter.taken_in_order [of srt ts] assms by (simp add: slice_sorter_def)

text \<open>
  The restriction is needed: the subtraction in \<^verbatim>\<open>Compare\<close> wraps around, so the largest priority number
  compares as smaller than \<open>-1\<close> and its task is taken first.
\<close>

lemma Compare_wraps:
  "tp_Compare (NewTaskPriority n ps 0x7FFFFFFFFFFFFFFF) (NewTaskPriority m qs (- 1)) < 0
   \<and> sint (0x7FFFFFFFFFFFFFFF :: 64 word) > sint (- 1 :: 64 word)"
  by (simp add: tp_Compare_def NewTaskPriority_def)

text \<open>
  Ordering tasks by \<^verbatim>\<open>compareTaskPriority\<close> is total: the result is zero only for tasks with the same path and name,
  and swapping the tasks swaps the sign.
\<close>

lemma compare_paths_swap: "compare_paths qs ps = - compare_paths ps qs"
  by (induction ps qs rule: compare_paths.induct) (auto simp: less_le_not_le)

lemma compareTaskPriority_total:
  "(compareTaskPriority s t = 0 \<longleftrightarrow> tk_Path s = tk_Path t \<and> tk_Name s = tk_Name t)
   \<and> compareTaskPriority t s = - compareTaskPriority s t"
  using compare_paths_zero [of "tk_Path s" "tk_Path t"] compare_paths_swap [of "tk_Path s" "tk_Path t"]
  by (auto simp: compareTaskPriority_def)

end
