(* ===== verification/Background_Executor.thy ===== *)
theory Background_Executor
  imports Task_Queues Async_Pipeline
begin

text \<open>
  The \<^verbatim>\<open>BackgroundExecutor\<close> of \<^verbatim>\<open>pregel/background.go\<close>: a queue of tasks and a pool of worker goroutines
  that live from \<^verbatim>\<open>Start\<close> to \<^verbatim>\<open>Stop\<close>.

  Workers, submitters and stoppers run interleaved; an event is one visible step of one of them.
  \<^verbatim>\<open>Submit\<close> checks and registers the task in its first step and ends in one of three ways in its
  second, \<^verbatim>\<open>Stop\<close> closes the stop channel in its first step and the other two channels in its second.
  A stop channel is a number, as every \<^verbatim>\<open>Start\<close> makes a new one and a worker that waits keeps the one it
  read when its \<^verbatim>\<open>select\<close> began. A send on a closed channel, a second close and a panic of a task end the
  program.
\<close>

section \<open>State\<close>

record bg_result =
  bg_TaskID :: string
  bg_Name :: string
  bg_Output :: goval
  bg_Err :: "go_error option"
  bg_Duration :: int

datatype worker_phase =
    Looping
  | Idle nat
  | Busy background_task
  | Returned background_task bg_result
  | Unlisted background_task bg_result
  | Reported bg_result
  | Exited

record background_executor =
  be_maxWorkers :: int
  be_taskQueue :: "background_task event_chan"
  be_results :: "bg_result event_chan"
  be_workers :: "worker_phase list"
  be_running :: bool
  be_stopCh :: nat
  be_activeTasks :: "background_task gomap"

text \<open>
  The whole system: the executor, the stop channels that are closed, the submitters between their two steps, the
  number of stoppers that wait for the workers, the cancelled tasks, the tasks whose \<^verbatim>\<open>Submit\<close> has
  succeeded and the content of the tasks' own result channels.
\<close>

record bg_system =
  bs_exec :: background_executor
  bs_closed :: "nat list"
  bs_submitting :: "background_task list"
  bs_stopping :: nat
  bs_cancelled :: "string list"
  bs_accepted :: "background_task list"
  bs_own :: "(background_task \<times> bg_result) list"
  bs_crashed :: bool

definition NewBackgroundExecutor :: "int \<Rightarrow> int \<Rightarrow> background_executor" where
  "NewBackgroundExecutor maxWorkers queueSize =
     (let maxWorkers = (if maxWorkers \<le> 0 then 10 else maxWorkers);
          queueSize = (if queueSize \<le> 0 then 100 else queueSize)
      in \<lparr>be_maxWorkers = maxWorkers, be_taskQueue = make_chan (nat queueSize), be_results = make_chan (nat queueSize),
          be_workers = [], be_running = False, be_stopCh = 0, be_activeTasks = []\<rparr>)"

definition new_bg_system :: "int \<Rightarrow> int \<Rightarrow> bg_system" where
  "new_bg_system maxWorkers queueSize =
     \<lparr>bs_exec = NewBackgroundExecutor maxWorkers queueSize, bs_closed = [], bs_submitting = [], bs_stopping = 0,
      bs_cancelled = [], bs_accepted = [], bs_own = [], bs_crashed = False\<rparr>"

section \<open>Calls\<close>

definition be_Start :: "background_executor \<Rightarrow> background_executor" where
  "be_Start e =
     (if be_running e then e
      else e\<lparr>be_running := True, be_stopCh := be_stopCh e + 1,
             be_workers := be_workers e @ replicate (nat (be_maxWorkers e)) Looping\<rparr>)"

abbreviation on_exec :: "(background_executor \<Rightarrow> background_executor) \<Rightarrow> bg_system \<Rightarrow> bg_system" where
  "on_exec f s \<equiv> s\<lparr>bs_exec := f (bs_exec s)\<rparr>"

text \<open>A channel operation that panics ends the program.\<close>

definition crash_or :: "go_error + 'a \<Rightarrow> ('a \<Rightarrow> bg_system) \<Rightarrow> bg_system \<Rightarrow> bg_system" where
  "crash_or r f s = (case r of Inl e \<Rightarrow> s\<lparr>bs_crashed := True\<rparr> | Inr x \<Rightarrow> f x)"

definition stop_begin :: "bg_system \<Rightarrow> bg_system" where
  "stop_begin s =
     (if \<not> be_running (bs_exec s) then s
      else (on_exec (\<lambda>e. e\<lparr>be_running := False\<rparr>) s)
             \<lparr>bs_closed := be_stopCh (bs_exec s) # bs_closed s, bs_stopping := bs_stopping s + 1\<rparr>)"

definition all_exited :: "bg_system \<Rightarrow> bool" where
  "all_exited s \<longleftrightarrow> (\<forall>w \<in> set (be_workers (bs_exec s)). w = Exited)"

text \<open>\<open>timedOut\<close> is the second branch of the \<^verbatim>\<open>select\<close>: the workers have not finished within thirty seconds.\<close>

definition stop_end :: "bool \<Rightarrow> bg_system \<Rightarrow> bg_system option" where
  "stop_end timedOut s =
     (if 0 < bs_stopping s \<and> (all_exited s \<or> timedOut)
      then Some (crash_or (close_chan (be_taskQueue (bs_exec s)))
             (\<lambda>q. crash_or (close_chan (be_results (bs_exec s)))
                (\<lambda>r. (on_exec (\<lambda>e. e\<lparr>be_taskQueue := q, be_results := r\<rparr>) s)\<lparr>bs_stopping := bs_stopping s - 1\<rparr>) s) s)
      else None)"

text \<open>
  \<^verbatim>\<open>Submit\<close> up to its \<^verbatim>\<open>select\<close>. The identifier is an argument; \<open>Inl\<close> is the error that the call returns.
\<close>

definition submit_begin ::
  "string \<Rightarrow> string \<Rightarrow> (bool \<Rightarrow> goval \<times> go_error option) \<Rightarrow> int \<Rightarrow> bg_system \<Rightarrow> go_error + bg_system" where
  "submit_begin uid name fn priority s =
     (if \<not> be_running (bs_exec s) then Inl (Errorf ''executor not running'')
      else let task = \<lparr>bt_ID = uid, bt_Name = name, bt_Func = fn, bt_Priority = priority\<rparr>
           in Inr ((on_exec (\<lambda>e. e\<lparr>be_activeTasks := gm_put uid task (be_activeTasks e)\<rparr>) s)
                     \<lparr>bs_submitting := bs_submitting s @ [task]\<rparr>))"

datatype submit_end = Sent | CtxErr go_error | QueueFull

text \<open>The three branches of the \<^verbatim>\<open>select\<close>, with the error that \<^verbatim>\<open>Submit\<close> returns; a send on a full queue blocks.\<close>

definition submit_finish ::
  "submit_end \<Rightarrow> background_task \<Rightarrow> bg_system \<Rightarrow> (go_error option \<times> bg_system) option" where
  "submit_finish how task s =
     (if task \<notin> set (bs_submitting s) then None
      else let s' = s\<lparr>bs_submitting := remove1 task (bs_submitting s)\<rparr>; q = be_taskQueue (bs_exec s);
               cancelled = s'\<lparr>bs_cancelled := bt_ID task # bs_cancelled s\<rparr>
           in case how of
                Sent \<Rightarrow>
                  (if \<not> ec_closed q \<and> \<not> length (ec_buf q) < ec_cap q then None
                   else Some (None, crash_or (try_send task q)
                     (\<lambda>q. (on_exec (\<lambda>e. e\<lparr>be_taskQueue := q\<rparr>) s')\<lparr>bs_accepted := bs_accepted s @ [task]\<rparr>) s))
              | CtxErr err \<Rightarrow> Some (Some err, cancelled)
              | QueueFull \<Rightarrow> Some (Some (Errorf ''task queue full''), cancelled))"

definition CancelTask :: "string \<Rightarrow> bg_system \<Rightarrow> bool \<times> bg_system" where
  "CancelTask taskID s =
     (case map_of (be_activeTasks (bs_exec s)) taskID of
        Some task \<Rightarrow> (True, s\<lparr>bs_cancelled := bt_ID task # bs_cancelled s\<rparr>)
      | None \<Rightarrow> (False, s))"

definition GetActiveTasks :: "bg_system \<Rightarrow> string list" where
  "GetActiveTasks s = gm_keys (be_activeTasks (bs_exec s))"

text \<open>A read of the channel that \<^verbatim>\<open>GetResult\<close> returns.\<close>

definition read_result :: "bg_system \<Rightarrow> bg_system option" where
  "read_result s =
     (case ec_buf (be_results (bs_exec s)) of
        [] \<Rightarrow> None
      | r # rs \<Rightarrow> Some (on_exec (\<lambda>e. e\<lparr>be_results := (be_results e)\<lparr>ec_buf := rs\<rparr>\<rparr>) s))"

section \<open>Workers\<close>

definition worker :: "nat \<Rightarrow> bg_system \<Rightarrow> worker_phase option" where
  "worker i s = (if i < length (be_workers (bs_exec s)) then Some (be_workers (bs_exec s) ! i) else None)"

definition set_worker :: "nat \<Rightarrow> worker_phase \<Rightarrow> bg_system \<Rightarrow> bg_system" where
  "set_worker i ph s = on_exec (\<lambda>e. e\<lparr>be_workers := (be_workers e)[i := ph]\<rparr>) s"

text \<open>
  The loop of \<^verbatim>\<open>run\<close>: it reads the stop channel of the executor, and its \<^verbatim>\<open>select\<close> then finds that channel
  closed, the queue closed, or a task.
\<close>

definition run_select :: "nat \<Rightarrow> bg_system \<Rightarrow> bg_system option" where
  "run_select i s =
     (if worker i s = Some Looping then Some (set_worker i (Idle (be_stopCh (bs_exec s))) s) else None)"

definition run_stop :: "nat \<Rightarrow> bg_system \<Rightarrow> bg_system option" where
  "run_stop i s =
     (case worker i s of
        Some (Idle ch) \<Rightarrow>
          (let q = be_taskQueue (bs_exec s)
           in if ch \<in> set (bs_closed s) \<or> ec_closed q \<and> ec_buf q = [] then Some (set_worker i Exited s) else None)
      | _ \<Rightarrow> None)"

definition run_take :: "nat \<Rightarrow> bg_system \<Rightarrow> bg_system option" where
  "run_take i s =
     (case (worker i s, ec_buf (be_taskQueue (bs_exec s))) of
        (Some (Idle ch), task # tasks) \<Rightarrow>
          Some (set_worker i (Busy task) (on_exec (\<lambda>e. e\<lparr>be_taskQueue := (be_taskQueue e)\<lparr>ec_buf := tasks\<rparr>\<rparr>) s))
      | _ \<Rightarrow> None)"

text \<open>The steps of \<^verbatim>\<open>executeTask\<close>. The task's own channel has room for its one result.\<close>

definition execute_call :: "nat \<Rightarrow> int \<Rightarrow> bg_system \<Rightarrow> bg_system option" where
  "execute_call i duration s =
     (case worker i s of
        Some (Busy task) \<Rightarrow>
          (let (outp, err) = bt_Func task (bt_ID task \<in> set (bs_cancelled s))
           in case Option.bind err IsPanic of
                Some m \<Rightarrow> Some (s\<lparr>bs_crashed := True\<rparr>)
              | None \<Rightarrow> Some (set_worker i (Returned task
                  \<lparr>bg_TaskID = bt_ID task, bg_Name = bt_Name task, bg_Output = outp, bg_Err = err,
                   bg_Duration = duration\<rparr>) s))
      | _ \<Rightarrow> None)"

definition execute_unlist :: "nat \<Rightarrow> bg_system \<Rightarrow> bg_system option" where
  "execute_unlist i s =
     (case worker i s of
        Some (Returned task r) \<Rightarrow>
          Some (set_worker i (Unlisted task r)
            (on_exec (\<lambda>e. e\<lparr>be_activeTasks := gm_del (bt_ID task) (be_activeTasks e)\<rparr>) s))
      | _ \<Rightarrow> None)"

definition execute_report :: "nat \<Rightarrow> bg_system \<Rightarrow> bg_system option" where
  "execute_report i s =
     (case worker i s of
        Some (Unlisted task r) \<Rightarrow> Some (set_worker i (Reported r) (s\<lparr>bs_own := bs_own s @ [(task, r)]\<rparr>))
      | _ \<Rightarrow> None)"

text \<open>\<open>timedOut\<close>: the results channel stayed full for five seconds and the result is not sent to it.\<close>

definition execute_send :: "bool \<Rightarrow> nat \<Rightarrow> bg_system \<Rightarrow> bg_system option" where
  "execute_send timedOut i s =
     (case worker i s of
        Some (Reported r) \<Rightarrow>
          (let ch = be_results (bs_exec s); back = set_worker i Looping
           in if \<not> ec_closed ch \<and> \<not> length (ec_buf ch) < ec_cap ch
              then if timedOut then Some (back s) else None
              else Some (crash_or (try_send r ch) (\<lambda>ch. back (on_exec (\<lambda>e. e\<lparr>be_results := ch\<rparr>) s)) s))
      | _ \<Rightarrow> None)"

section \<open>Runs\<close>

datatype bg_event =
    EStart | EStopBegin | EStopEnd bool
  | ESubmit string string "bool \<Rightarrow> goval \<times> go_error option" int
  | ESubmitEnd submit_end background_task
  | ECancel string | ERead
  | ELoop nat | EExit nat | ETake nat | ECall nat int | EUnlist nat | EReport nat | ESend bool nat

text \<open>Identifiers of \<^verbatim>\<open>uuid.New()\<close> are new; a call of \<^verbatim>\<open>Submit\<close> that fails at once changes nothing.\<close>

definition used_ids :: "bg_system \<Rightarrow> string list" where
  "used_ids s = map bt_ID (bs_submitting s @ bs_accepted s) @ bs_cancelled s @ gm_keys (be_activeTasks (bs_exec s))"

fun bg_event_step :: "bg_event \<Rightarrow> bg_system \<Rightarrow> bg_system option" where
  "bg_event_step EStart s = Some (on_exec be_Start s)"
| "bg_event_step EStopBegin s = Some (stop_begin s)"
| "bg_event_step (EStopEnd t) s = stop_end t s"
| "bg_event_step (ESubmit uid name fn p) s =
     (if uid \<in> set (used_ids s) then None
      else case submit_begin uid name fn p s of Inl err \<Rightarrow> Some s | Inr s' \<Rightarrow> Some s')"
| "bg_event_step (ESubmitEnd how task) s = map_option snd (submit_finish how task s)"
| "bg_event_step (ECancel uid) s = Some (snd (CancelTask uid s))"
| "bg_event_step ERead s = read_result s"
| "bg_event_step (ELoop i) s = run_select i s"
| "bg_event_step (EExit i) s = run_stop i s"
| "bg_event_step (ETake i) s = run_take i s"
| "bg_event_step (ECall i d) s = execute_call i d s"
| "bg_event_step (EUnlist i) s = execute_unlist i s"
| "bg_event_step (EReport i) s = execute_report i s"
| "bg_event_step (ESend t i) s = execute_send t i s"

definition bg_step :: "bg_event \<Rightarrow> bg_system \<Rightarrow> bg_system option" where
  "bg_step ev s = (if bs_crashed s then None else bg_event_step ev s)"

fun bg_run :: "bg_event list \<Rightarrow> bg_system \<Rightarrow> bg_system option" where
  "bg_run [] s = Some s"
| "bg_run (ev # evs) s = Option.bind (bg_step ev s) (bg_run evs)"

section \<open>Every accepted task is run once\<close>

fun worker_task :: "worker_phase \<Rightarrow> background_task list" where
  "worker_task (Busy t) = [t]"
| "worker_task (Returned t r) = [t]"
| "worker_task (Unlisted t r) = [t]"
| "worker_task _ = []"

definition worker_tasks :: "bg_system \<Rightarrow> background_task list" where
  "worker_tasks s = concat (map worker_task (be_workers (bs_exec s)))"

text \<open>A result comes from a call of its task's function.\<close>

definition result_of :: "background_task \<Rightarrow> bg_result \<Rightarrow> bool" where
  "result_of t r \<longleftrightarrow> bg_TaskID r = bt_ID t \<and> bg_Name r = bt_Name t \<and> (\<exists>c. (bg_Output r, bg_Err r) = bt_Func t c)"

lemma result_ofI:
  "bt_Func t c = (outp, err) \<Longrightarrow>
   result_of t \<lparr>bg_TaskID = bt_ID t, bg_Name = bt_Name t, bg_Output = outp, bg_Err = err, bg_Duration = d\<rparr>"
  by (auto simp: result_of_def intro: exI [of _ c])

fun phase_ok :: "worker_phase \<Rightarrow> bool" where
  "phase_ok (Returned t r) = result_of t r"
| "phase_ok (Unlisted t r) = result_of t r"
| "phase_ok _ = True"

definition bg_inv :: "int \<Rightarrow> nat \<Rightarrow> bg_system \<Rightarrow> bool" where
  "bg_inv mw cap s \<longleftrightarrow>
     (let e = bs_exec s
      in mset (bs_accepted s) = mset (ec_buf (be_taskQueue e)) + mset (worker_tasks s) + mset (map fst (bs_own s))
         \<and> distinct (map bt_ID (bs_submitting s @ bs_accepted s))
         \<and> (\<forall>(t, r) \<in> set (bs_own s). result_of t r) \<and> (\<forall>w \<in> set (be_workers e). phase_ok w)
         \<and> be_maxWorkers e = mw \<and> length (be_workers e) = be_stopCh e * nat mw
         \<and> ec_cap (be_taskQueue e) = cap \<and> length (ec_buf (be_taskQueue e)) \<le> cap
         \<and> ec_cap (be_results e) = cap \<and> length (ec_buf (be_results e)) \<le> cap)"

lemma worker_Some: "worker i s = Some ph \<Longrightarrow> i < length (be_workers (bs_exec s)) \<and> be_workers (bs_exec s) ! i = ph"
  by (simp add: worker_def split: if_splits)

lemma mset_concat_update:
  assumes "i < length ws"
  shows "mset (concat (map f (ws[i := x]))) + mset (f (ws ! i)) = mset (concat (map f ws)) + mset (f x)"
proof -
  have "ws = take i ws @ ws ! i # drop (Suc i) ws" using assms by (rule id_take_nth_drop)
  then have "mset (concat (map f ws)) =
      mset (concat (map f (take i ws))) + mset (f (ws ! i)) + mset (concat (map f (drop (Suc i) ws)))"
    by (metis (no_types, lifting) concat.simps(2) concat_append list.simps(9) map_append mset_append union_assoc)
  then show ?thesis by (simp add: upd_conv_take_nth_drop [OF assms])
qed

text \<open>What changing the phase of one worker does to the tasks at the workers.\<close>

lemma set_worker_tasks:
  "worker i s = Some ph \<Longrightarrow>
   mset (worker_tasks (set_worker i ph' s)) + mset (worker_task ph) = mset (worker_tasks s) + mset (worker_task ph')"
  using mset_concat_update [of i "be_workers (bs_exec s)" worker_task ph'] worker_Some [of i s ph]
  by (simp add: worker_tasks_def set_worker_def)

lemma set_worker_phases:
  "\<forall>w \<in> set (be_workers (bs_exec s)). phase_ok w \<Longrightarrow> phase_ok ph' \<Longrightarrow>
   \<forall>w \<in> set (be_workers (bs_exec (set_worker i ph' s))). phase_ok w"
  by (auto simp: set_worker_def dest!: set_update_subset_insert [THEN subsetD])

lemma worker_phase_ok:
  "worker i s = Some ph \<Longrightarrow> \<forall>w \<in> set (be_workers (bs_exec s)). phase_ok w \<Longrightarrow> phase_ok ph"
  using worker_Some [of i s ph] nth_mem by auto

lemma set_worker_fields [simp]:
  "bs_accepted (set_worker i ph s) = bs_accepted s" "bs_own (set_worker i ph s) = bs_own s"
  "bs_submitting (set_worker i ph s) = bs_submitting s" "bs_crashed (set_worker i ph s) = bs_crashed s"
  "be_taskQueue (bs_exec (set_worker i ph s)) = be_taskQueue (bs_exec s)"
  "be_results (bs_exec (set_worker i ph s)) = be_results (bs_exec s)"
  "be_maxWorkers (bs_exec (set_worker i ph s)) = be_maxWorkers (bs_exec s)"
  "be_stopCh (bs_exec (set_worker i ph s)) = be_stopCh (bs_exec s)"
  "length (be_workers (bs_exec (set_worker i ph s))) = length (be_workers (bs_exec s))"
  by (simp_all add: set_worker_def)

lemma worker_other [simp]:
  "worker i (on_exec (\<lambda>e. e\<lparr>be_taskQueue := q\<rparr>) s) = worker i s" "worker i (s\<lparr>bs_own := own\<rparr>) = worker i s"
  "worker i (on_exec (\<lambda>e. e\<lparr>be_results := ch\<rparr>) s) = worker i s"
  "worker i (on_exec (\<lambda>e. e\<lparr>be_activeTasks := ts\<rparr>) s) = worker i s"
  by (simp_all add: worker_def)

text \<open>The invariant does not depend on the fields below.\<close>

lemma bg_inv_fields [simp]:
  "bg_inv mw cap (s\<lparr>bs_crashed := b\<rparr>) = bg_inv mw cap s" "bg_inv mw cap (s\<lparr>bs_cancelled := ids\<rparr>) = bg_inv mw cap s"
  "bg_inv mw cap (s\<lparr>bs_closed := cs\<rparr>) = bg_inv mw cap s" "bg_inv mw cap (s\<lparr>bs_stopping := n\<rparr>) = bg_inv mw cap s"
  "bg_inv mw cap (on_exec (\<lambda>e. e\<lparr>be_activeTasks := ts\<rparr>) s) = bg_inv mw cap s"
  "bg_inv mw cap (on_exec (\<lambda>e. e\<lparr>be_running := b\<rparr>) s) = bg_inv mw cap s"
  by (simp_all add: bg_inv_def worker_tasks_def Let_def)

lemma bg_inv_phase:
  assumes "bg_inv mw cap s" "worker i s = Some ph" "worker_task ph' = worker_task ph" "phase_ok ph'"
  shows "bg_inv mw cap (set_worker i ph' s)"
  using assms set_worker_tasks [OF assms(2), of ph'] set_worker_phases [OF _ assms(4), of s i]
  by (simp add: bg_inv_def Let_def)

lemma bg_inv_start: "bg_inv mw cap s \<Longrightarrow> bg_inv mw cap (on_exec be_Start s)"
  by (auto simp: bg_inv_def be_Start_def worker_tasks_def Let_def)

lemma bg_inv_stop_end:
  assumes "bg_inv mw cap s" "stop_end t s = Some s'"
  shows "bg_inv mw cap s'"
proof -
  have "bg_inv mw cap (on_exec (\<lambda>e. e\<lparr>be_taskQueue := (be_taskQueue e)\<lparr>ec_closed := b\<rparr>,
      be_results := (be_results e)\<lparr>ec_closed := b'\<rparr>\<rparr>) s)" for b b'
    using assms(1) by (simp add: bg_inv_def worker_tasks_def Let_def)
  then show ?thesis using assms by (auto simp: stop_end_def crash_or_def close_chan_def split: if_splits)
qed

lemma bg_inv_submit:
  assumes inv: "bg_inv mw cap s" and uid: "uid \<notin> set (used_ids s)" and step: "submit_begin uid name fn p s = Inr s'"
  shows "bg_inv mw cap s'"
proof -
  define t where "t = \<lparr>bt_ID = uid, bt_Name = name, bt_Func = fn, bt_Priority = p\<rparr>"
  have "distinct (map bt_ID (bs_submitting s @ bs_accepted s))" using inv by (simp add: bg_inv_def Let_def)
  moreover have "uid \<notin> bt_ID ` (set (bs_submitting s) \<union> set (bs_accepted s))"
    using uid by (simp add: used_ids_def image_Un)
  ultimately have "distinct (map bt_ID ((bs_submitting s @ [t]) @ bs_accepted s))"
    by (auto simp: t_def image_iff)
  moreover have "s' = (on_exec (\<lambda>e. e\<lparr>be_activeTasks := gm_put uid t (be_activeTasks e)\<rparr>) s)
      \<lparr>bs_submitting := bs_submitting s @ [t]\<rparr>"
    using step by (simp add: submit_begin_def Let_def t_def split: if_splits)
  ultimately show ?thesis using inv by (simp add: bg_inv_def worker_tasks_def Let_def)
qed

lemma bg_inv_submit_end:
  assumes inv: "bg_inv mw cap s" and step: "submit_finish how t s = Some (r, s')"
  shows "bg_inv mw cap s'"
proof -
  have t: "t \<in> set (bs_submitting s)" using step by (auto simp: submit_finish_def split: if_splits)
  then have m: "mset (map bt_ID (remove1 t (bs_submitting s) @ bs_accepted s @ [t])) =
      mset (map bt_ID (bs_submitting s @ bs_accepted s))"
    by (simp add: image_mset_Diff [symmetric] insert_DiffM)
      (metis add_mset_add_single image_mset_add_mset insert_DiffM set_mset_mset union_mset_add_mset_left)
  have d: "distinct (map bt_ID (bs_submitting s @ bs_accepted s))" using inv by (simp add: bg_inv_def Let_def)
  then have d1: "distinct (map bt_ID (remove1 t (bs_submitting s) @ bs_accepted s @ [t]))"
    using m by (metis mset_eq_imp_distinct_iff)
  then have gone: "bg_inv mw cap (s\<lparr>bs_submitting := remove1 t (bs_submitting s)\<rparr>)"
    using inv by (simp add: bg_inv_def worker_tasks_def Let_def)
  have sent: "bg_inv mw cap ((on_exec (\<lambda>e. e\<lparr>be_taskQueue := q\<lparr>ec_buf := ec_buf q @ [t]\<rparr>\<rparr>)
      (s\<lparr>bs_submitting := remove1 t (bs_submitting s)\<rparr>))\<lparr>bs_accepted := bs_accepted s @ [t]\<rparr>)"
    if "q = be_taskQueue (bs_exec s)" "length (ec_buf q) < ec_cap q" for q
    using inv d1 that by (simp add: bg_inv_def worker_tasks_def Let_def)
  show ?thesis
  proof (cases how)
    case Sent
    then show ?thesis using step inv t sent [OF refl]
      by (auto simp: submit_finish_def crash_or_def try_send_def Let_def split: if_splits)
  qed (use step t gone in \<open>auto simp: submit_finish_def Let_def\<close>)
qed

lemma bg_inv_take:
  assumes inv: "bg_inv mw cap s" and step: "run_take i s = Some s'"
  shows "bg_inv mw cap s'"
proof -
  from step obtain ch t ts where w: "worker i s = Some (Idle ch)" and q: "ec_buf (be_taskQueue (bs_exec s)) = t # ts"
    and s': "s' = set_worker i (Busy t) (on_exec (\<lambda>e. e\<lparr>be_taskQueue := (be_taskQueue e)\<lparr>ec_buf := ts\<rparr>\<rparr>) s)"
    by (auto simp: run_take_def split: option.splits worker_phase.splits list.splits)
  define s1 where "s1 = on_exec (\<lambda>e. e\<lparr>be_taskQueue := (be_taskQueue e)\<lparr>ec_buf := ts\<rparr>\<rparr>) s"
  have "worker i s1 = Some (Idle ch)" using w by (simp add: s1_def)
  from set_worker_tasks [OF this, of "Busy t"] set_worker_phases [of s1 "Busy t" i] inv q
  show ?thesis unfolding s' s1_def [symmetric] by (auto simp: bg_inv_def worker_tasks_def Let_def s1_def)
qed

lemma bg_inv_report:
  assumes inv: "bg_inv mw cap s" and step: "execute_report i s = Some s'"
  shows "bg_inv mw cap s'"
proof -
  from step obtain t r where w: "worker i s = Some (Unlisted t r)"
    and s': "s' = set_worker i (Reported r) (s\<lparr>bs_own := bs_own s @ [(t, r)]\<rparr>)"
    by (auto simp: execute_report_def split: option.splits worker_phase.splits)
  define s1 where "s1 = s\<lparr>bs_own := bs_own s @ [(t, r)]\<rparr>"
  have "result_of t r" using worker_phase_ok [OF w] inv by (simp add: bg_inv_def Let_def)
  moreover have "worker i s1 = Some (Unlisted t r)" using w by (simp add: s1_def)
  ultimately show ?thesis
    using set_worker_tasks [of i s1 "Unlisted t r" "Reported r"] set_worker_phases [of s1 "Reported r" i] inv
    unfolding s' s1_def [symmetric] by (auto simp: bg_inv_def worker_tasks_def Let_def s1_def)
qed

lemma bg_inv_send:
  assumes inv: "bg_inv mw cap s" and step: "execute_send t i s = Some s'"
  shows "bg_inv mw cap s'"
proof -
  from step obtain r where w: "worker i s = Some (Reported r)"
    by (auto simp: execute_send_def split: option.splits worker_phase.splits)
  show ?thesis
    using step w inv
    by (auto simp: execute_send_def crash_or_def try_send_def Let_def split: if_splits
        intro!: bg_inv_phase [where ph = "Reported r"])
      (simp add: bg_inv_def worker_tasks_def Let_def)
qed

lemma bg_inv_step:
  assumes inv: "bg_inv mw cap s" and step: "bg_event_step ev s = Some s'"
  shows "bg_inv mw cap s'"
proof (cases ev)
  case (ESubmit uid name fn p)
  then show ?thesis using step inv bg_inv_submit [OF inv] by (auto split: if_splits sum.splits)
next
  case (ESubmitEnd how t)
  then show ?thesis using step bg_inv_submit_end [OF inv] by auto
next
  case (ECall i d)
  then show ?thesis using step inv
    by (auto simp: execute_call_def Let_def split: option.splits worker_phase.splits prod.splits
        intro!: bg_inv_phase intro: result_ofI)
next
  case (EUnlist i)
  moreover have "\<forall>w \<in> set (be_workers (bs_exec s)). phase_ok w" using inv by (simp add: bg_inv_def Let_def)
  ultimately show ?thesis using step inv worker_phase_ok [of i s]
    by (auto simp: execute_unlist_def split: option.splits worker_phase.splits intro!: bg_inv_phase)
next
  case ERead
  with step obtain r rs where r: "ec_buf (be_results (bs_exec s)) = r # rs"
    and s': "s' = on_exec (\<lambda>e. e\<lparr>be_results := (be_results e)\<lparr>ec_buf := rs\<rparr>\<rparr>) s"
    by (auto simp: read_result_def split: list.splits)
  show ?thesis using inv r unfolding s' by (simp add: bg_inv_def worker_tasks_def Let_def)
qed (use inv step bg_inv_stop_end [OF inv] bg_inv_take [OF inv] bg_inv_report [OF inv] bg_inv_send [OF inv] in
  \<open>auto simp: bg_inv_start stop_begin_def CancelTask_def run_select_def run_stop_def Let_def
     split: option.splits worker_phase.splits if_splits intro!: bg_inv_phase\<close>)

lemma bg_inv_run: "bg_run evs s = Some s' \<Longrightarrow> bg_inv mw cap s \<Longrightarrow> bg_inv mw cap s'"
  by (induction evs arbitrary: s) (auto simp: bg_step_def bind_eq_Some_conv split: if_splits dest: bg_inv_step)

lemma bg_inv_new:
  assumes "mw = (if maxWorkers \<le> 0 then 10 else maxWorkers)" "cap = nat (if queueSize \<le> 0 then 100 else queueSize)"
  shows "bg_inv mw cap (new_bg_system maxWorkers queueSize)"
  using assms
  by (simp add: bg_inv_def new_bg_system_def NewBackgroundExecutor_def make_chan_def worker_tasks_def)

text \<open>
  C33: every accepted task is run once. In every run of submitters, workers, cancellations, reads, starts
  and stops, the tasks whose \<^verbatim>\<open>Submit\<close> succeeded are, one by one, in the queue, at a worker, or reported: none
  is lost or duplicated. No two of them share an identifier, a reported result is what one call of the
  task's function returned, and neither the queue nor the results exceed the queue size. Between
  one effective \<^verbatim>\<open>Start\<close> and the next no more than the maximal number of workers are added.
\<close>

theorem background_exactly_once:
  assumes "bg_run evs (new_bg_system maxWorkers queueSize) = Some s" and "0 < maxWorkers" and "0 < queueSize"
  shows "mset (bs_accepted s) =
      mset (ec_buf (be_taskQueue (bs_exec s))) + mset (worker_tasks s) + mset (map fst (bs_own s))
    \<and> distinct (map bt_ID (bs_accepted s))
    \<and> (\<forall>(t, r) \<in> set (bs_own s). result_of t r)
    \<and> length (ec_buf (be_taskQueue (bs_exec s))) \<le> nat queueSize
    \<and> length (ec_buf (be_results (bs_exec s))) \<le> nat queueSize
    \<and> length (be_workers (bs_exec s)) = be_stopCh (bs_exec s) * nat maxWorkers"
  using bg_inv_run [OF assms(1) bg_inv_new [OF refl refl]] assms(2,3) by (simp add: bg_inv_def Let_def)

text \<open>A task for examples: it returns the number five.\<close>

abbreviation five :: "bool \<Rightarrow> goval \<times> go_error option" where
  "five \<equiv> \<lambda>_. (GInt 5, None)"

abbreviation task_a :: background_task where
  "task_a \<equiv> \<lparr>bt_ID = ''a'', bt_Name = ''n'', bt_Func = five, bt_Priority = 0\<rparr>"

abbreviation submit_a :: "bg_event list" where
  "submit_a \<equiv> [ESubmit ''a'' ''n'' five 0, ESubmitEnd Sent task_a]"

lemmas bg_eval = Let_def bg_step_def new_bg_system_def NewBackgroundExecutor_def make_chan_def be_Start_def stop_begin_def
  stop_end_def submit_begin_def submit_finish_def used_ids_def crash_or_def try_send_def close_chan_def all_exited_def
  run_select_def run_stop_def run_take_def execute_call_def execute_unlist_def execute_report_def execute_send_def
  worker_def set_worker_def read_result_def

theorem background_exactly_once_witness:
  "\<exists>s. bg_run (EStart # submit_a @ [ELoop 0, ETake 0, ECall 0 7, EUnlist 0, EReport 0, ESend False 0]) (new_bg_system 1 1) = Some s
     \<and> mset (bs_accepted s) = {#task_a#} \<and> map fst (bs_own s) = [task_a]
     \<and> length (ec_buf (be_results (bs_exec s))) \<le> 1"
proof -
  define evs where "evs = EStart # submit_a @ [ELoop 0, ETake 0, ECall 0 7, EUnlist 0, EReport 0, ESend False 0]"
  obtain s where s: "bg_run evs (new_bg_system 1 1) = Some s" "ec_buf (be_taskQueue (bs_exec s)) = []"
    "worker_tasks s = []" "map fst (bs_own s) = [task_a]"
    by (simp add: evs_def bg_eval worker_tasks_def)
  show ?thesis
    unfolding evs_def [symmetric] using background_exactly_once [OF s(1)] s by (intro exI [of _ s]) simp
qed

section \<open>Stopping and starting again\<close>

text \<open>
  \<^verbatim>\<open>Stop\<close> closes the queue and the results and \<^verbatim>\<open>Start\<close> does not make new ones: once an executor that was stopped
  is started again, the first \<^verbatim>\<open>Submit\<close> panics.
\<close>

lemma restart_then_submit_panics:
  "map_option bs_crashed (bg_run ([EStart, EStopBegin, ELoop 0, EExit 0, EStopEnd False, EStart] @ submit_a) (new_bg_system 1 1))
   = Some True"
  by (simp add: bg_eval)

text \<open>
  A task in the queue when \<^verbatim>\<open>Stop\<close> is called may never run: the worker may choose the stop channel. The task stays in
  the table of active tasks, and neither result channel tells its submitter.
\<close>

lemma stop_loses_queued_task:
  "\<exists>s. bg_run (EStart # submit_a @ [EStopBegin, ELoop 0, EExit 0, EStopEnd False]) (new_bg_system 1 1) = Some s
     \<and> bs_accepted s = [task_a] \<and> bs_own s = [] \<and> all_exited s \<and> GetActiveTasks s = [''a'']
     \<and> ec_buf (be_results (bs_exec s)) = [] \<and> ec_closed (be_results (bs_exec s))"
  by (simp add: bg_eval GetActiveTasks_def)

text \<open>
  When a task runs longer than the thirty seconds \<^verbatim>\<open>Stop\<close> waits, \<^verbatim>\<open>Stop\<close> closes the results channel and the worker's send
  to it panics.
\<close>

lemma stop_timeout_panics:
  "map_option bs_crashed (bg_run (EStart # submit_a @ [ELoop 0, ETake 0, EStopBegin, EStopEnd True,
       ECall 0 40, EUnlist 0, EReport 0, ESend False 0]) (new_bg_system 1 1)) = Some True"
  by (simp add: bg_eval)

text \<open>
  A \<^verbatim>\<open>Submit\<close> that gives up, because its context is done or the queue stays full, leaves its task in the
  table of active tasks: no later step of a worker removes it.
\<close>

lemma failed_submit_stays_active:
  assumes "submit_begin uid name fn p s = Inr s1" and "how \<noteq> Sent"
    and "submit_finish how \<lparr>bt_ID = uid, bt_Name = name, bt_Func = fn, bt_Priority = p\<rparr> s1 = Some (r, s2)"
  shows "r \<noteq> None \<and> uid \<in> set (GetActiveTasks s2)"
  using assms
  by (cases how) (auto simp: submit_begin_def submit_finish_def GetActiveTasks_def Let_def gomap_simps split: if_splits)

text \<open>The priority of a task plays no part: the queue hands tasks out in the order of submission.\<close>

lemma background_queue_is_fifo:
  "run_take i s = Some s' \<Longrightarrow>
   \<exists>t. ec_buf (be_taskQueue (bs_exec s)) = t # ec_buf (be_taskQueue (bs_exec s')) \<and> worker i s' = Some (Busy t)"
  by (auto simp: run_take_def worker_def set_worker_def split: option.splits worker_phase.splits list.splits if_splits)

end
