(* ===== verification/Optimized_Engine.thy ===== *)
theory Optimized_Engine
  imports Task_Queues Pregel_Engine "HOL-Library.Product_Lexorder"
begin

text \<open>
  The \<^verbatim>\<open>PregelOptimizedEngine\<close> of \<^verbatim>\<open>pregel/optimized.go\<close>: an engine with tables of task dependencies, finished tasks
  and seen channels, its own way of applying writes, and the task queue of \<^verbatim>\<open>Task_Queues\<close>.
  A nil engine is \<open>None\<close>; an engine that is not nil has its graph, as \<^verbatim>\<open>NewEngine\<close> gives it one. A set of
  channel names is a list.
\<close>

section \<open>State\<close>

record optimized_config =
  oc_BumpStep :: bool
  oc_FinishNotification :: bool
  oc_TaskPriority :: bool

record optimized_engine =
  oe_Engine :: "engine option"
  oe_config :: optimized_config
  oe_taskPriorityQueue :: "task_with_priority list"
  oe_stepQueue :: "(int \<times> string list) list"
  oe_seenChannels :: "bool gomap gomap"
  oe_readyChannels :: "bool gomap"
  oe_finishedTasks :: "bool gomap"
  oe_taskDependencies :: "string list gomap"
  oe_channelVersions :: "int gomap"

definition NewPregelOptimizedEngine :: "engine option \<Rightarrow> optimized_config option \<Rightarrow> optimized_engine" where
  "NewPregelOptimizedEngine baseEngine config =
     \<lparr>oe_Engine = baseEngine,
      oe_config = (case config of
          None \<Rightarrow> \<lparr>oc_BumpStep = True, oc_FinishNotification = True, oc_TaskPriority = True\<rparr> | Some c \<Rightarrow> c),
      oe_taskPriorityQueue = [], oe_stepQueue = [], oe_seenChannels = [], oe_readyChannels = [],
      oe_finishedTasks = [], oe_taskDependencies = [], oe_channelVersions = []\<rparr>"

section \<open>Dependencies and steps\<close>

definition dependencies_of :: "optimized_engine \<Rightarrow> string \<Rightarrow> string list" where
  "dependencies_of e taskName = (case map_of (oe_taskDependencies e) taskName of None \<Rightarrow> [] | Some ds \<Rightarrow> ds)"

definition AddTaskDependency :: "string \<Rightarrow> string \<Rightarrow> optimized_engine \<Rightarrow> optimized_engine" where
  "AddTaskDependency fromTask toTask e =
     e\<lparr>oe_taskDependencies := gm_put toTask (dependencies_of e toTask @ [fromTask]) (oe_taskDependencies e)\<rparr>"

definition GetTaskDependencies :: "string \<Rightarrow> optimized_engine \<Rightarrow> string list" where
  "GetTaskDependencies taskName e = dependencies_of e taskName"

definition IsTaskReady :: "string \<Rightarrow> optimized_engine \<Rightarrow> bool" where
  "IsTaskReady taskName e \<longleftrightarrow>
     length (dependencies_of e taskName) = 0 \<or> list_all (gm_bool (oe_finishedTasks e)) (dependencies_of e taskName)"

text \<open>One pass of the loop over the tasks in the table; \<open>None\<close> in the table of seen channels is a nil map.\<close>

definition bump_dependent :: "int \<Rightarrow> string list \<Rightarrow> string \<Rightarrow> optimized_engine \<Rightarrow> optimized_engine" where
  "bump_dependent completedStep updatedChannels depTask e =
     (let seen = map_of (oe_seenChannels e) depTask;
          ready = list_all (\<lambda>channel. \<not> (case seen of None \<Rightarrow> False | Some m \<Rightarrow> \<not> gm_bool m channel)) updatedChannels
      in if ready
         then e\<lparr>oe_stepQueue := AList.update (completedStep + 1)
                  ((case map_of (oe_stepQueue e) (completedStep + 1) of None \<Rightarrow> [] | Some ts \<Rightarrow> ts) @ [depTask]) (oe_stepQueue e),
                oe_seenChannels := gm_put depTask
                  (fold (\<lambda>ch. gm_put ch True) updatedChannels (case seen of None \<Rightarrow> [] | Some m \<Rightarrow> m)) (oe_seenChannels e)\<rparr>
         else e)"

definition BumpStep :: "string \<Rightarrow> int \<Rightarrow> string list \<Rightarrow> optimized_engine \<Rightarrow> optimized_engine" where
  "BumpStep taskName completedStep updatedChannels e =
     (let e = e\<lparr>oe_finishedTasks := gm_put taskName True (oe_finishedTasks e)\<rparr>;
          dependencies = map_of (oe_taskDependencies e) taskName
      in case dependencies of
           None \<Rightarrow> e
         | Some ds \<Rightarrow> if length ds = 0 then e else fold (bump_dependent completedStep updatedChannels) ds e)"

definition hasSeenChannel :: "string \<Rightarrow> string \<Rightarrow> optimized_engine \<Rightarrow> bool" where
  "hasSeenChannel taskName channel e =
     (case map_of (oe_seenChannels e) taskName of Some chans \<Rightarrow> gm_bool chans channel | None \<Rightarrow> False)"

definition ClearFinishedTasks :: "optimized_engine \<Rightarrow> optimized_engine" where
  "ClearFinishedTasks e = e\<lparr>oe_finishedTasks := []\<rparr>"

definition GetFinishedTasks :: "optimized_engine \<Rightarrow> string list" where
  "GetFinishedTasks e = gm_keys (oe_finishedTasks e)"

definition oe_Reset :: "optimized_engine \<Rightarrow> optimized_engine" where
  "oe_Reset e = e\<lparr>oe_taskPriorityQueue := [], oe_stepQueue := [], oe_seenChannels := [], oe_readyChannels := [],
                  oe_finishedTasks := []\<rparr>"

section \<open>Notifications, names and delegation\<close>

record finish_notification =
  fn_TaskName :: string
  fn_Output :: goval
  fn_Error :: "go_error option"
  fn_Step :: int
  fn_Namespace :: string

definition getNamespace :: "optimized_engine \<Rightarrow> string" where
  "getNamespace e = []"

text \<open>The notification is built and dropped; what happens is the line that is printed.\<close>

definition FinishNotification ::
  "(goval \<Rightarrow> string) \<Rightarrow> string \<Rightarrow> goval \<Rightarrow> go_error option \<Rightarrow> int \<Rightarrow> optimized_engine \<Rightarrow>
   (finish_notification \<times> string) option" where
  "FinishNotification fv taskName result err completedStep e =
     (if \<not> oc_FinishNotification (oe_config e) then None
      else Some (\<lparr>fn_TaskName = taskName, fn_Output = result, fn_Error = err, fn_Step = completedStep,
                  fn_Namespace = getNamespace e\<rparr>,
        case err of
          Some er \<Rightarrow> ''[FinishNotification] Task '' @ taskName @ '' failed at step '' @ fmt_d completedStep @ '': ''
                       @ err_Error fv er @ [CHR 10]
        | None \<Rightarrow> ''[FinishNotification] Task '' @ taskName @ '' completed at step '' @ fmt_d completedStep @ [CHR 10]))"

definition getTriggersForNode :: "string \<Rightarrow> optimized_engine \<Rightarrow> string list" where
  "getTriggersForNode nodeName e =
     (case oe_Engine e of
        None \<Rightarrow> []
      | Some eng \<Rightarrow> (case getNode eng nodeName of None \<Rightarrow> [] | Some n \<Rightarrow> remdups (getTriggers (Some n))))"

definition getCurrentNamespace :: "optimized_engine \<Rightarrow> string" where
  "getCurrentNamespace e =
     (case Option.bind (oe_Engine e) en_config of
        None \<Rightarrow> []
      | Some c \<Rightarrow> (case rc_Get c ''namespace'' of
                    None \<Rightarrow> []
                  | Some v \<Rightarrow> (case as_string v of Some s \<Rightarrow> s | None \<Rightarrow> [])))"

text \<open>The registry is passed as any value; \<open>Inl\<close> is the type name of something that is not a registry.\<close>

definition PrepareNextTasksOptimized ::
  "(goval \<Rightarrow> string) \<Rightarrow> (nat \<Rightarrow> string) \<Rightarrow> go_ctx \<Rightarrow> string + registry \<Rightarrow> bool gomap \<Rightarrow> string \<Rightarrow> goval \<Rightarrow>
   optimized_engine \<Rightarrow> plan go_result" where
  "PrepareNextTasksOptimized fv ids ctx registry visited trigger currentState e =
     (case oe_Engine e of
        None \<Rightarrow> Inl (Errorf ''PrepareNextTasksOptimized: engine not initialized'')
      | Some eng \<Rightarrow>
          (case registry of
             Inl t \<Rightarrow> Inl (Errorf (''PrepareNextTasksOptimized: invalid registry type '' @ t))
           | Inr reg \<Rightarrow> prepareNextTasks fv ids ctx eng reg visited trigger currentState))"

text \<open>\<^verbatim>\<open>OptimizedRun\<close> on an engine that is not nil.\<close>

definition OptimizedRun ::
  "'s run_env \<Rightarrow> engine \<Rightarrow> optimized_engine \<Rightarrow> goval \<Rightarrow> 's \<Rightarrow> goval go_result \<times> 's run_state" where
  "OptimizedRun env eng e input store = RunSync env eng input store"

definition ExecuteTaskWithPriority ::
  "go_ctx \<Rightarrow> task \<Rightarrow> 64 word \<Rightarrow> string \<Rightarrow> optimized_engine \<Rightarrow> task_result \<times> optimized_engine" where
  "ExecuteTaskWithPriority ctx t priority namespace e =
     (let e = e\<lparr>oe_taskPriorityQueue := enqueue (queue_task t priority namespace) (oe_taskPriorityQueue e)\<rparr>;
          (outp, err) = node_call (tk_Func t) ctx GNil
      in (\<lparr>tr_Name = tk_Name t, tr_Output = outp, tr_Err = err\<rparr>, e))"

definition oe_GetNextPriorityTask ::
  "((task_with_priority \<Rightarrow> task_with_priority \<Rightarrow> bool) \<Rightarrow> task_with_priority list \<Rightarrow> task_with_priority list) \<Rightarrow>
   optimized_engine \<Rightarrow> task_with_priority option \<times> optimized_engine" where
  "oe_GetNextPriorityTask srt e =
     (case GetNextPriorityTask srt (oe_taskPriorityQueue e) of
        None \<Rightarrow> (None, e)
      | Some (t, q) \<Rightarrow> (Some t, e\<lparr>oe_taskPriorityQueue := q\<rparr>))"

section \<open>Applying the writes of a step\<close>

text \<open>
  The results carry the path of their task. Two results of one step with the same path and name, which the sort
  could leave in either order, do not occur.
\<close>

record path_result = task_result +
  tr_Path :: "string list"

definition result_rank :: "path_result \<Rightarrow> nat \<times> string list \<times> string" where
  "result_rank r = (length (tr_Path r), tr_Path r, tr_Name r)"

definition opt_add :: "string \<times> goval \<Rightarrow> goval list gomap \<Rightarrow> goval list gomap" where
  "opt_add = (\<lambda>(key, value) writes.
     if value = GNil then writes
     else gm_put key ((case map_of writes key of None \<Rightarrow> [] | Some vs \<Rightarrow> vs) @ [value]) writes)"

fun opt_collect :: "path_result list \<Rightarrow> goval list gomap \<Rightarrow> goval list gomap go_result" where
  "opt_collect [] writes = Inr writes"
| "opt_collect (result # results) writes =
     (if tr_Err result \<noteq> None then opt_collect results writes
      else case toMap (tr_Output result) of
             Inl err \<Rightarrow> Inl (WrapErr ''failed to convert output to map: '' err)
           | Inr m \<Rightarrow> opt_collect results (fold opt_add m writes))"

definition opt_bump :: "string \<Rightarrow> optimized_engine \<Rightarrow> optimized_engine go_result" where
  "opt_bump n e =
     (let e = e\<lparr>oe_readyChannels := gm_put n True (oe_readyChannels e)\<rparr>
      in if oc_BumpStep (oe_config e)
         then (case oe_Engine e of
                 None \<Rightarrow> Inl (GoPanic ''invalid memory address or nil pointer dereference'')
               | Some eng \<Rightarrow>
                   Inr (e\<lparr>oe_channelVersions := gm_put n (gm_int (oe_channelVersions e) n + 1) (oe_channelVersions e),
                          oe_Engine := Some (eng\<lparr>en_currentCheckpoint :=
                            map_option (IncrementChannel n) (en_currentCheckpoint eng)\<rparr>)\<rparr>))
         else Inr e)"

fun opt_update ::
  "goval list gomap \<Rightarrow> optimized_engine \<Rightarrow> registry \<Rightarrow> string list \<Rightarrow> string list go_result \<times> optimized_engine \<times> registry" where
  "opt_update [] e r updated = (Inr updated, e, r)"
| "opt_update ((n, values) # ws) e r updated =
     (case reg_Get r n of
        None \<Rightarrow> opt_update ws e r updated
      | Some ch \<Rightarrow>
          (case ch_Update ch (filter (\<lambda>v. v \<noteq> GNil) values) of
             (Inl err, ch') \<Rightarrow> (Inl (WrapErr (''failed to update channel '' @ n @ '': '') err), e, Register n ch' r)
           | (Inr changed, ch') \<Rightarrow>
               (if changed
                then (case opt_bump n e of
                        Inl err \<Rightarrow> (Inl err, e, Register n ch' r)
                      | Inr e' \<Rightarrow> opt_update ws e' (Register n ch' r) (List.insert n updated))
                else opt_update ws e (Register n ch' r) updated)))"

definition finish_channels :: "registry \<Rightarrow> registry" where
  "finish_channels r =
     fold (\<lambda>n r. case reg_Get r n of Some ch \<Rightarrow> Register n (snd (ch_Finish ch)) r | None \<Rightarrow> r) (reg_Names r) r"

definition OptimizedApplyWrites ::
  "registry \<Rightarrow> path_result list \<Rightarrow> string list \<Rightarrow> optimized_engine \<Rightarrow>
   string list go_result \<times> optimized_engine \<times> registry" where
  "OptimizedApplyWrites r results triggerToNodes e =
     (case opt_collect (sort_key result_rank results) [] of
        Inl err \<Rightarrow> (Inl err, e, r)
      | Inr writes \<Rightarrow>
          (case opt_update writes e r [] of
             (Inl err, e', r') \<Rightarrow> (Inl err, e', r')
           | (Inr updated, e', r') \<Rightarrow>
               (Inr updated, e',
                if oc_FinishNotification (oe_config e') \<and> length updated > 0 \<and> set triggerToNodes \<subseteq> set updated
                then finish_channels r' else r')))"

section \<open>What the optimised writes do\<close>

text \<open>The values that the results write to a channel, in the order of the results.\<close>

definition nonnil_values :: "string \<Rightarrow> goval gomap \<Rightarrow> goval list" where
  "nonnil_values n m = map snd (filter (\<lambda>(k, v). k = n \<and> v \<noteq> GNil) m)"

definition opt_values :: "path_result list \<Rightarrow> string \<Rightarrow> goval list" where
  "opt_values results n =
     concat (map (\<lambda>r. if tr_Err r \<noteq> None then []
                      else case toMap (tr_Output r) of Inl err \<Rightarrow> [] | Inr m \<Rightarrow> nonnil_values n m) results)"

lemma opt_add_spec:
  "written_values (opt_add (k, v) ws) n = written_values ws n @ nonnil_values n [(k, v)]"
  "writes_ok ws \<Longrightarrow> writes_ok (opt_add (k, v) ws)"
  by (auto simp: opt_add_def written_values_def nonnil_values_def writes_ok_def gomap_simps
      split: option.split dest!: gm_put_mem)

lemma nonnil_values_Cons: "nonnil_values n (kv # m) = nonnil_values n [kv] @ nonnil_values n m"
  by (simp add: nonnil_values_def)

lemma opt_adds_spec:
  "written_values (fold opt_add m ws) n = written_values ws n @ nonnil_values n m
   \<and> (writes_ok ws \<longrightarrow> writes_ok (fold opt_add m ws))"
proof (induction m arbitrary: ws)
  case (Cons kv m)
  show ?case
    using Cons.IH [of "opt_add kv ws"] opt_add_spec [where k = "fst kv" and v = "snd kv" and ws = ws] nonnil_values_Cons [of n kv m] by simp
qed (simp add: nonnil_values_def)

lemma opt_collect_spec:
  "opt_collect results ws = Inr ws' \<Longrightarrow>
   written_values ws' n = written_values ws n @ opt_values results n \<and> (writes_ok ws \<longrightarrow> writes_ok ws')"
proof (induction results arbitrary: ws)
  case (Cons res results)
  show ?case
  proof (cases "tr_Err res")
    case None
    then obtain m where m: "toMap (tr_Output res) = Inr m"
      and rest: "opt_collect results (fold opt_add m ws) = Inr ws'"
      using Cons.prems by (auto split: sum.splits)
    show ?thesis
      using Cons.IH [OF rest] opt_adds_spec [of m ws n] None m by (auto simp: opt_values_def)
  next
    case (Some err)
    then show ?thesis using Cons.IH [of ws] Cons.prems by (simp add: opt_values_def)
  qed
qed (simp add: opt_values_def)

lemma written_lookup:
  "writes_ok ws \<Longrightarrow> map_of ws n = (if written_values ws n = [] then None else Some (written_values ws n))"
  by (auto simp: written_values_def writes_ok_def split: option.splits dest: map_of_SomeD)

text \<open>One update of a registered channel with all its values.\<close>

definition opt_stepped :: "registry \<Rightarrow> string \<Rightarrow> goval list \<Rightarrow> channel option" where
  "opt_stepped r n vs = map_option (\<lambda>ch. snd (ch_Update ch (filter (\<lambda>v. v \<noteq> GNil) vs))) (map_of (channels r) n)"

definition opt_changes :: "registry \<Rightarrow> string \<Rightarrow> goval list \<Rightarrow> bool" where
  "opt_changes r n vs \<longleftrightarrow>
     (case map_of (channels r) n of
        None \<Rightarrow> False | Some ch \<Rightarrow> fst (ch_Update ch (filter (\<lambda>v. v \<noteq> GNil) vs)) = Inr True)"

lemma opt_bump_versions:
  "opt_bump n e = Inr e' \<Longrightarrow>
   oe_config e' = oe_config e
   \<and> gm_int (oe_channelVersions e') k = gm_int (oe_channelVersions e) k + (if k = n \<and> oc_BumpStep (oe_config e) then 1 else 0)"
  by (auto simp: opt_bump_def Let_def split: if_splits option.splits)

lemma opt_update_step:
  assumes "opt_update ((n, vs) # ws) e r updated = (Inr updated', e', r')"
  shows "\<exists>e1. opt_update ws e1 (case opt_stepped r n vs of None \<Rightarrow> r | Some ch \<Rightarrow> Register n ch r)
      (if opt_changes r n vs then List.insert n updated else updated) = (Inr updated', e', r')
    \<and> oe_config e1 = oe_config e
    \<and> (\<forall>k. gm_int (oe_channelVersions e1) k = gm_int (oe_channelVersions e) k
          + (if k = n \<and> opt_changes r n vs \<and> oc_BumpStep (oe_config e) then 1 else 0))"
  using assms opt_bump_versions [of n e]
  by (auto simp: opt_stepped_def opt_changes_def reg_Get_def split: prod.splits sum.splits if_splits option.splits)

lemma opt_update_spec:
  assumes "opt_update ws e r updated = (Inr updated', e', r')" and "gm_ok ws"
  shows "map_of (channels r') n =
      (case map_of ws n of None \<Rightarrow> map_of (channels r) n | Some vs \<Rightarrow> opt_stepped r n vs)
    \<and> (n \<in> set updated' \<longleftrightarrow> n \<in> set updated \<or> (\<exists>vs. map_of ws n = Some vs \<and> opt_changes r n vs))
    \<and> oe_config e' = oe_config e
    \<and> gm_int (oe_channelVersions e') n = gm_int (oe_channelVersions e) n
        + (if oc_BumpStep (oe_config e) \<and> (\<exists>vs. map_of ws n = Some vs \<and> opt_changes r n vs) then 1 else 0)"
  using assms
proof (induction ws arbitrary: e r updated)
  case (Cons nv ws)
  obtain k vs where nv: "nv = (k, vs)" by force
  define r1 where "r1 = (case opt_stepped r k vs of None \<Rightarrow> r | Some ch \<Rightarrow> Register k ch r)"
  define up1 where "up1 = (if opt_changes r k vs then List.insert k updated else updated)"
  obtain e1 where rest: "opt_update ws e1 r1 up1 = (Inr updated', e', r')" and c1: "oe_config e1 = oe_config e"
    and v1: "\<And>x. gm_int (oe_channelVersions e1) x = gm_int (oe_channelVersions e) x
      + (if x = k \<and> opt_changes r k vs \<and> oc_BumpStep (oe_config e) then 1 else 0)"
    using opt_update_step [OF Cons.prems(1) [unfolded nv]] unfolding r1_def up1_def by blast
  have new: "map_of ws k = None" and ok: "gm_ok ws" using Cons.prems(2) by (auto simp: nv map_of_eq_None_iff)
  have r1: "map_of (channels r1) x = (if x = k then opt_stepped r k vs else map_of (channels r) x)" for x
    by (auto simp: r1_def opt_stepped_def Register_def gomap_simps split: option.split)
  show ?case
  proof (cases "n = k")
    case True
    with Cons.IH [OF rest ok] new show ?thesis by (simp add: nv r1 up1_def c1 v1)
  next
    case False
    then have "opt_stepped r1 n w = opt_stepped r n w" "opt_changes r1 n w = opt_changes r n w" for w
      by (simp_all add: opt_stepped_def opt_changes_def r1)
    with False Cons.IH [OF rest ok] show ?thesis
      by (auto simp: nv r1 up1_def c1 v1 split: option.splits)
  qed
qed simp

text \<open>The finish notification reaches every channel once.\<close>

lemma finish_channels_lookup:
  assumes "reg_ok r"
  shows "map_of (channels (finish_channels r)) n = map_option (\<lambda>ch. snd (ch_Finish ch)) (map_of (channels r) n)"
proof -
  have "map_of (channels (fold (\<lambda>n r. case reg_Get r n of Some ch \<Rightarrow> Register n (snd (ch_Finish ch)) r | None \<Rightarrow> r) ns r)) n =
      (if n \<in> set ns then map_option (\<lambda>ch. snd (ch_Finish ch)) (map_of (channels r) n) else map_of (channels r) n)"
    if "distinct ns" for ns
    using that
    by (induction ns arbitrary: r) (auto simp: reg_Get_def Register_def gomap_simps split: option.split)
  from this [of "reg_Names r"] assms show ?thesis
    using map_of_eq_None_keys [of "channels r" n] by (auto simp: finish_channels_def reg_Names_def)
qed

lemma opt_update_reg_ok: "opt_update ws e r updated = (res, e', r') \<Longrightarrow> reg_ok r \<Longrightarrow> reg_ok r'"
proof (induction ws e r updated rule: opt_update.induct)
  case (2 n vs ws e r updated)
  have "reg_ok (Register n ch r)" for ch using 2(5) by (simp add: Register_def)
  with 2 show ?case by (auto split: option.splits prod.splits sum.splits if_splits)
qed simp

text \<open>
  Every registered channel is updated once with all values written to it, in the order of path length, path and name;
  unregistered names are ignored; exactly the channels whose update reports a change are returned, and
  with the bump option their versions go up by one. When the finish notification is on and something has changed, and with it
  all triggers, every channel is finished at the end.
\<close>

definition notified :: "optimized_engine \<Rightarrow> string list \<Rightarrow> string list \<Rightarrow> bool" where
  "notified e triggers updated \<longleftrightarrow> oc_FinishNotification (oe_config e) \<and> updated \<noteq> [] \<and> set triggers \<subseteq> set updated"

lemma OptimizedApplyWrites_effect:
  assumes run: "OptimizedApplyWrites r results triggers e = (Inr updated, e', r')" and ok_r: "reg_ok r"
    and vs: "vs = opt_values (sort_key result_rank results)"
  shows "map_of (channels r') n =
      map_option (\<lambda>ch. if notified e triggers updated then snd (ch_Finish ch) else ch)
        (if vs n = [] then map_of (channels r) n else opt_stepped r n (vs n))
    \<and> (n \<in> set updated \<longleftrightarrow> vs n \<noteq> [] \<and> opt_changes r n (vs n))
    \<and> gm_int (oe_channelVersions e') n =
        gm_int (oe_channelVersions e) n + (if n \<in> set updated \<and> oc_BumpStep (oe_config e) then 1 else 0)"
proof -
  obtain ws r1 where collect: "opt_collect (sort_key result_rank results) [] = Inr ws"
    and loop: "opt_update ws e r [] = (Inr updated, e', r1)"
    and r': "r' = (if oc_FinishNotification (oe_config e') \<and> length updated > 0 \<and> set triggers \<subseteq> set updated
                   then finish_channels r1 else r1)"
    using run by (auto simp: OptimizedApplyWrites_def split: sum.splits prod.splits)
  have ok: "writes_ok ws" and val: "written_values ws n = vs n"
    using opt_collect_spec [OF collect, of n] by (simp_all add: vs writes_ok_def written_values_def)
  note spec = opt_update_spec [OF loop, of n]
  have "gm_ok ws" using ok by (simp add: writes_ok_def)
  with spec have "r' = (if notified e triggers updated then finish_channels r1 else r1)" by (simp add: r' notified_def)
  then have "map_of (channels r') n =
      map_option (\<lambda>ch. if notified e triggers updated then snd (ch_Finish ch) else ch) (map_of (channels r1) n)"
    using finish_channels_lookup [OF opt_update_reg_ok [OF loop ok_r], of n] by (simp add: option.map_ident)
  with spec \<open>gm_ok ws\<close> written_lookup [OF ok, of n] show ?thesis by (simp add: val)
qed

section \<open>Agreement with the engine's own writes\<close>

text \<open>
  The engine makes results without a path; then the order of the results is that of their names. A plain result is
  one the two routines read alike: some output, no field mapping of its node, no overwrite
  wrappers. \<open>gets_all\<close> says that the engine passes a channel all the values.
\<close>

definition plain_result :: "engine \<Rightarrow> path_result \<Rightarrow> bool" where
  "plain_result e res \<longleftrightarrow>
     tr_Err res = None \<longrightarrow>
       tr_Output res \<noteq> GNil
       \<and> (case getNode e (tr_Name res) of None \<Rightarrow> True | Some nd \<Rightarrow> nd_FieldMapping nd = [])
       \<and> (case toMap (tr_Output res) of Inl err \<Rightarrow> True | Inr m \<Rightarrow> list_all (\<lambda>(k, v). \<not> snd (unwrap_overwrite v)) m)"

definition gets_all :: "channel \<Rightarrow> goval list \<Rightarrow> bool" where
  "gets_all ch vs \<longleftrightarrow>
     length vs \<le> 1 \<or> (case ch of BinaryOperatorAggregate c \<Rightarrow> True | ReducerChannel c f \<Rightarrow> True | _ \<Rightarrow> False)"

lemma insort_key_cong:
  "\<forall>y \<in> set ys. f x \<le> f y \<longleftrightarrow> g x \<le> g y \<Longrightarrow> insort_key f x ys = insort_key g x ys"
  by (induction ys) auto

lemma sort_key_cong:
  "\<forall>x \<in> set xs. \<forall>y \<in> set xs. f x \<le> f y \<longleftrightarrow> g x \<le> g y \<Longrightarrow> sort_key f xs = sort_key g xs"
proof (induction xs)
  case (Cons x xs)
  then have "sort_key f xs = sort_key g xs" by simp
  moreover have "insort_key f x (sort_key g xs) = insort_key g x (sort_key g xs)"
    using Cons.prems by (intro insort_key_cong) simp
  ultimately show ?case by simp
qed simp

lemma map_insort_key: "map h (insort_key (f \<circ> h) x xs) = insort_key f (h x) (map h xs)"
  by (induction xs) auto

lemma map_sort_key: "map h (sort_key (f \<circ> h) xs) = sort_key f (map h xs)"
  by (induction xs) (simp_all add: sort_key_def map_insort_key [unfolded comp_def])

lemma truncated_order:
  assumes "\<forall>res \<in> set results. tr_Path res = []"
  shows "sort_key tr_Name (map task_result.truncate results) = map task_result.truncate (sort_key result_rank results)"
proof -
  have "sort_key result_rank results = sort_key (tr_Name \<circ> task_result.truncate) results"
    using assms by (intro sort_key_cong) (auto simp: result_rank_def task_result.defs)
  then show ?thesis by (simp add: map_sort_key)
qed

lemma plain_values:
  assumes "plain_result e res" "tr_Err res = None" "toMap (tr_Output res) = Inr m"
  shows "output_map e (task_result.truncate res) = Inr m" and "values_for n m = nonnil_values n m"
proof -
  show "output_map e (task_result.truncate res) = Inr m"
    using assms by (auto simp: plain_result_def output_map_def task_result.defs split: option.split)
  have "list_all (\<lambda>(k, v). \<not> snd (unwrap_overwrite v)) m" using assms by (simp add: plain_result_def)
  then show "values_for n m = nonnil_values n m"
    by (induction m) (auto simp: values_for_def nonnil_values_def unwrap_overwrite_def split: goval.splits)
qed

lemma plain_step_values:
  "\<forall>res \<in> set results. plain_result e res \<Longrightarrow>
   step_values e (map task_result.truncate results) n = opt_values results n"
proof (induction results)
  case (Cons res results)
  then have IH: "step_values e (map task_result.truncate results) n = opt_values results n" and p: "plain_result e res"
    by simp_all
  have tr: "tr_Err (task_result.truncate res) = tr_Err res" "tr_Output (task_result.truncate res) = tr_Output res"
    by (simp_all add: task_result.defs)
  show ?case
  proof (cases "tr_Err res")
    case (Some err)
    then show ?thesis using IH by (simp add: step_values_def opt_values_def tr)
  next
    case None
    then have "tr_Output res \<noteq> GNil" using p by (simp add: plain_result_def)
    moreover have "(case output_map e (task_result.truncate res) of Inl err \<Rightarrow> [] | Inr m \<Rightarrow> values_for n m)
        = (case toMap (tr_Output res) of Inl err \<Rightarrow> [] | Inr m \<Rightarrow> nonnil_values n m)"
      using plain_values [OF p None] by (cases "toMap (tr_Output res)") (auto simp: output_map_def tr)
    ultimately show ?thesis using IH None by (simp add: step_values_def opt_values_def tr)
  qed
qed (simp add: step_values_def opt_values_def)

text \<open>
  C34: the optimised writes agree with the engine's. Take results that both routines accept, without task paths as the
  engine makes them and with plain outputs, and a registered channel that is given at most one value or is an
  aggregate or a reducer channel. Both routines update it alike. The engine stores the raised version in it if it reports
  it, and it reports exactly those of the reported channels that are readable. The optimised routine
  stores no version, and finishes the channel when its finish notification takes place.
\<close>

theorem optimized_writes_agree:
  assumes "applyWrites e r (map task_result.truncate results) triggers = (Inr up, e', r1)"
    and "OptimizedApplyWrites r results triggers oe = (Inr up2, oe', r2)"
    and "reg_ok r"
    and "\<forall>res \<in> set results. tr_Path res = [] \<and> plain_result e res"
    and "map_of (channels r) n = Some ch"
    and "gets_all ch (opt_values (sort_key result_rank results) n)"
  shows "\<exists>ch2. map_of (channels r1) n =
          Some (if n \<in> set up then ch_SetVersion (gm_int (en_channelVersions e) n + 1) ch2 else ch2)
      \<and> map_of (channels r2) n =
          Some (if oc_FinishNotification (oe_config oe) \<and> up2 \<noteq> [] \<and> set triggers \<subseteq> set up2
                then snd (ch_Finish ch2) else ch2)
      \<and> (n \<in> set up \<longleftrightarrow> n \<in> set up2 \<and> ch_IsAvailable ch2)"
proof -
  define vs where "vs = opt_values (sort_key result_rank results) n"
  have steps: "step_values e (sort_key tr_Name (map task_result.truncate results)) n = vs"
    using assms(4) truncated_order [of results] plain_step_values [of "sort_key result_rank results" e n]
    by (simp add: vs_def)
  have "filter (\<lambda>v. v \<noteq> GNil) vs = effective_values ch vs"
  proof (cases "length vs \<le> 1")
    case True
    then have "\<not> length (filter (\<lambda>v. v \<noteq> GNil) vs) > 1"
      using length_filter_le [of "\<lambda>v. v \<noteq> GNil" vs] by linarith
    then show ?thesis unfolding effective_values_def Let_def by (simp only: simp_thms if_False)
  next
    case False
    then show ?thesis
      using assms(6) by (cases ch) (simp_all add: gets_all_def effective_values_def vs_def Let_def)
  qed
  then have "opt_stepped r n vs = Some (snd (ch_Update ch (effective_values ch vs)))"
    "opt_changes r n vs \<longleftrightarrow> fst (ch_Update ch (effective_values ch vs)) = Inr True"
    "channel_for r n = ch"
    using assms(5) by (simp_all add: opt_stepped_def opt_changes_def channel_for_def reg_Get_def)
  then show ?thesis
    using applyWrites_effect [OF assms(1) refl, of n] OptimizedApplyWrites_effect [OF assms(2,3) refl, of n] assms(5)
    unfolding steps vs_def [symmetric] notified_def by (auto simp: stepped_def advances_def Let_def)
qed

abbreviation write_x :: path_result where
  "write_x \<equiv> \<lparr>tr_Name = ''a'', tr_Output = GMap [(''x'', GInt 1)], tr_Err = None, tr_Path = []\<rparr>"

abbreviation quiet_engine :: optimized_engine where
  "quiet_engine \<equiv> NewPregelOptimizedEngine (Some (NewEngine (NewStateGraph (SchemaMap K_String)) []))
     (Some \<lparr>oc_BumpStep = True, oc_FinishNotification = False, oc_TaskPriority = True\<rparr>)"

abbreviation x_registry :: registry where
  "x_registry \<equiv> Register ''x'' (LastValue (NewLastValue GNil)) NewRegistry"

lemmas opt_eval = OptimizedApplyWrites_def NewPregelOptimizedEngine_def toMap_def opt_add_def opt_bump_def reg_Get_def
  Register_def NewRegistry_def lv_defs Let_def NewEngine_def gm_int_def

lemmas writes_eval = applyWrites_def output_map_def getNode_def NewStateGraph_def add_write_def unwrap_overwrite_def
  channel_for_def effective_values_def bump_version_def mark_updates_def store_pending_def

text \<open>The default configuration, in which the finish notification is on.\<close>

theorem optimized_writes_agree_witness:
  "let e = NewEngine (NewStateGraph (SchemaMap K_String)) [];
       r = Register ''x'' (LastValueAfterFinish (NewLastValueAfterFinish GNil)) NewRegistry
   in \<exists>up e' r1 up2 oe' r2.
        applyWrites e r (map task_result.truncate [write_x]) [] = (Inr up, e', r1)
        \<and> OptimizedApplyWrites r [write_x] [] (NewPregelOptimizedEngine (Some e) None) = (Inr up2, oe', r2)
        \<and> (\<exists>ch2. map_of (channels r1) ''x'' = Some ch2 \<and> map_of (channels r2) ''x'' = Some (snd (ch_Finish ch2)))"
proof -
  define e where "e = NewEngine (NewStateGraph (SchemaMap K_String)) []"
  define ch where "ch = LastValueAfterFinish (NewLastValueAfterFinish GNil)"
  define r where "r = Register ''x'' ch NewRegistry"
  define oe where "oe = NewPregelOptimizedEngine (Some e) None"
  obtain up e' r1 where w: "applyWrites e r (map task_result.truncate [write_x]) [] = (Inr up, e', r1)" and up: "up = []"
    by (simp add: e_def r_def ch_def writes_eval opt_eval la_defs la_Update_def task_result.defs)
  obtain up2 oe' r2 where o: "OptimizedApplyWrites r [write_x] [] oe = (Inr up2, oe', r2)" and up2: "up2 = [''x'']"
    by (simp add: e_def oe_def r_def ch_def opt_eval la_defs la_Update_def)
  have "\<forall>res \<in> set [write_x]. tr_Path res = [] \<and> plain_result e res"
    by (simp add: plain_result_def e_def getNode_def NewEngine_def NewStateGraph_def toMap_def unwrap_overwrite_def)
  moreover have "gets_all ch (opt_values (sort_key result_rank [write_x]) ''x'')"
    by (simp add: gets_all_def opt_values_def toMap_def nonnil_values_def)
  moreover have "reg_ok r" "map_of (channels r) ''x'' = Some ch" by (simp_all add: r_def Register_def NewRegistry_def)
  moreover have "oc_FinishNotification (oe_config oe)" by (simp add: oe_def NewPregelOptimizedEngine_def)
  ultimately have "\<exists>ch2. map_of (channels r1) ''x'' = Some ch2 \<and> map_of (channels r2) ''x'' = Some (snd (ch_Finish ch2))"
    using optimized_writes_agree [OF w o, of "''x''" ch] up up2 by auto
  then show ?thesis using w o unfolding Let_def e_def [symmetric] ch_def [symmetric] r_def [symmetric] oe_def [symmetric] by blast
qed

section \<open>Where the optimised engine departs from its description\<close>

text \<open>
  A node that returns nil makes the whole step fail: the nil check of \<^verbatim>\<open>applyWrites\<close> is missing here. With two nodes that
  write one \<^verbatim>\<open>LastValue\<close> channel the step fails as well, where \<^verbatim>\<open>applyWrites\<close> keeps the last value.
\<close>

lemma optimized_nil_output_fails:
  assumes "tr_Err res = None" and "tr_Output res = GNil"
  shows "OptimizedApplyWrites r [res] triggers e =
    (Inl (WrapErr ''failed to convert output to map: '' (Errorf ''nil value'')), e, r)"
  using assms by (simp add: OptimizedApplyWrites_def toMap_def)

lemma optimized_concurrent_write_fails:
  "\<exists>err. fst (OptimizedApplyWrites x_registry [write_x, write_x\<lparr>tr_Name := ''b''\<rparr>] [] quiet_engine) = Inl err"
  by (simp add: opt_eval)

text \<open>
  \<^verbatim>\<open>AddTaskDependency(a, b)\<close> records that \<open>a\<close> depends on \<open>b\<close> in the entry of \<open>b\<close>, and \<^verbatim>\<open>IsTaskReady\<close> reads the entry of the task it is
  asked about. So \<open>a\<close> is ready before \<open>b\<close> has finished, and \<open>b\<close> is not ready until \<open>a\<close> has.
\<close>

lemma readiness_is_reversed:
  assumes "a \<noteq> b"
  shows "IsTaskReady a (AddTaskDependency a b (NewPregelOptimizedEngine eng config))
    \<and> \<not> IsTaskReady b (AddTaskDependency a b (NewPregelOptimizedEngine eng config))
    \<and> IsTaskReady b (BumpStep a step chans (AddTaskDependency a b (NewPregelOptimizedEngine eng config)))"
  using assms
  by (auto simp: IsTaskReady_def AddTaskDependency_def dependencies_of_def NewPregelOptimizedEngine_def BumpStep_def Let_def
      gomap_simps gm_bool_def)

text \<open>
  \<^verbatim>\<open>BumpStep\<close> is described as moving on the dependent tasks that have not seen the updated channels. It moves those
  that have seen all of them, or nothing yet: once a task has seen some channels, the update of another
  one leaves its steps as they are.
\<close>

lemma unseen_channel_is_not_bumped:
  assumes "map_of (oe_seenChannels e) d = Some m" and "ch \<in> set chans" and "\<not> gm_bool m ch"
  shows "bump_dependent step chans d e = e"
  using assms by (auto simp: bump_dependent_def list_all_iff)

lemma seen_channels_are_bumped_again:
  assumes "map_of (oe_seenChannels e) d = Some m" and "\<forall>ch \<in> set chans. gm_bool m ch"
  shows "\<exists>ts. map_of (oe_stepQueue (bump_dependent step chans d e)) (step + 1) = Some (ts @ [d])"
  using assms by (auto simp: bump_dependent_def list_all_iff AList.update_conv')

text \<open>\<^verbatim>\<open>Reset\<close>, which clears all state by its description, keeps the dependencies and the versions.\<close>

lemma Reset_keeps_dependencies:
  "oe_taskDependencies (oe_Reset e) = oe_taskDependencies e \<and> oe_channelVersions (oe_Reset e) = oe_channelVersions e"
  by (simp add: oe_Reset_def)

text \<open>
  \<^verbatim>\<open>ExecuteTaskWithPriority\<close> runs its task at once, whatever the priority, and leaves it in the queue, from which
  \<^verbatim>\<open>GetNextPriorityTask\<close> hands it out again.
\<close>

lemma executed_task_stays_queued:
  "\<exists>t. fst (oe_GetNextPriorityTask insertion_sort
        (snd (ExecuteTaskWithPriority ctx tk p ns (NewPregelOptimizedEngine eng config)))) = Some t \<and> twp_Task t = tk"
  by (simp add: ExecuteTaskWithPriority_def oe_GetNextPriorityTask_def GetNextPriorityTask_def enqueue_def queue_task_def
      NewPregelOptimizedEngine_def insertion_sort_def split: prod.split)

end
