(* ===== verification/Scratchpad.thy ===== *)
theory Scratchpad
  imports Go_Values
begin

text \<open>
  The scratchpad of a run (\<^verbatim>\<open>types/scratchpad.go\<close>): temporary data, counters, metadata, stacks, contexts of
  nodes, snapshots and merging.

  A stack and a node context are objects behind pointers, which the scratchpad, its snapshots and the
  clients share. They live in an explicit heap; the scratchpad holds their addresses. All other values are
  trees. The clock is the argument \<open>now\<close>.
\<close>

section \<open>State\<close>

datatype sp_value = Plain goval | StackRef nat | CtxRef nat | Duration int | Time int

record scratchpad =
  sp_data :: "sp_value gomap"
  sp_counters :: "64 word gomap"
  sp_metadata :: "sp_value gomap"
  sp_createdAt :: int
  sp_lastAccess :: int
  sp_step :: "64 word"
  sp_stop :: bool
  sp_callCounter :: "64 word"
  sp_interruptCounter :: "64 word"
  sp_resume :: bool
  sp_subgraphCounter :: "64 word"

record sp_heap =
  hp_stacks :: "goval list list"
  hp_contexts :: "goval gomap list"

definition NewPregelScratchpad :: "int \<Rightarrow> scratchpad" where
  "NewPregelScratchpad now =
     \<lparr>sp_data = [], sp_counters = [], sp_metadata = [], sp_createdAt = now, sp_lastAccess = now, sp_step = 0,
      sp_stop = False, sp_callCounter = 0, sp_interruptCounter = 0, sp_resume = False, sp_subgraphCounter = 0\<rparr>"

section \<open>Data, counters and metadata\<close>

definition sp_Get :: "int \<Rightarrow> string \<Rightarrow> scratchpad \<Rightarrow> sp_value option \<times> scratchpad" where
  "sp_Get now key p = (map_of (sp_data p) key, p\<lparr>sp_lastAccess := now\<rparr>)"

definition sp_Set :: "int \<Rightarrow> string \<Rightarrow> sp_value \<Rightarrow> scratchpad \<Rightarrow> scratchpad" where
  "sp_Set now key value p = p\<lparr>sp_data := gm_put key value (sp_data p), sp_lastAccess := now\<rparr>"

definition sp_Delete :: "int \<Rightarrow> string \<Rightarrow> scratchpad \<Rightarrow> scratchpad" where
  "sp_Delete now key p = p\<lparr>sp_data := gm_del key (sp_data p), sp_lastAccess := now\<rparr>"

definition sp_Has :: "string \<Rightarrow> scratchpad \<Rightarrow> bool" where
  "sp_Has key p \<longleftrightarrow> map_of (sp_data p) key \<noteq> None"

definition sp_GetAll :: "scratchpad \<Rightarrow> sp_value gomap" where
  "sp_GetAll p = fold (\<lambda>(k, v). gm_put k v) (sp_data p) []"

definition sp_Clear :: "int \<Rightarrow> scratchpad \<Rightarrow> scratchpad" where
  "sp_Clear now p = p\<lparr>sp_data := [], sp_counters := [], sp_lastAccess := now\<rparr>"

text \<open>A missing counter reads as zero; counters wrap around.\<close>

definition GetCounter :: "string \<Rightarrow> scratchpad \<Rightarrow> 64 word" where
  "GetCounter key p = (case map_of (sp_counters p) key of None \<Rightarrow> 0 | Some n \<Rightarrow> n)"

definition SetCounter :: "int \<Rightarrow> string \<Rightarrow> 64 word \<Rightarrow> scratchpad \<Rightarrow> scratchpad" where
  "SetCounter now key value p = p\<lparr>sp_counters := gm_put key value (sp_counters p), sp_lastAccess := now\<rparr>"

definition IncrementCounter :: "int \<Rightarrow> string \<Rightarrow> scratchpad \<Rightarrow> 64 word \<times> scratchpad" where
  "IncrementCounter now key p =
     (let p = p\<lparr>sp_counters := gm_put key (GetCounter key p + 1) (sp_counters p), sp_lastAccess := now\<rparr>
      in (GetCounter key p, p))"

definition DecrementCounter :: "int \<Rightarrow> string \<Rightarrow> scratchpad \<Rightarrow> 64 word \<times> scratchpad" where
  "DecrementCounter now key p =
     (let p = p\<lparr>sp_counters := gm_put key (GetCounter key p - 1) (sp_counters p), sp_lastAccess := now\<rparr>
      in (GetCounter key p, p))"

definition ResetCounter :: "int \<Rightarrow> string \<Rightarrow> scratchpad \<Rightarrow> scratchpad" where
  "ResetCounter now key p = p\<lparr>sp_counters := gm_del key (sp_counters p), sp_lastAccess := now\<rparr>"

definition ListCounters :: "scratchpad \<Rightarrow> 64 word gomap" where
  "ListCounters p = fold (\<lambda>(k, v). gm_put k v) (sp_counters p) []"

definition sp_SetMetadata :: "int \<Rightarrow> string \<Rightarrow> sp_value \<Rightarrow> scratchpad \<Rightarrow> scratchpad" where
  "sp_SetMetadata now key value p = p\<lparr>sp_metadata := gm_put key value (sp_metadata p), sp_lastAccess := now\<rparr>"

definition sp_GetMetadata :: "string \<Rightarrow> scratchpad \<Rightarrow> sp_value option" where
  "sp_GetMetadata key p = map_of (sp_metadata p) key"

definition sp_GetAllMetadata :: "scratchpad \<Rightarrow> sp_value gomap" where
  "sp_GetAllMetadata p = fold (\<lambda>(k, v). gm_put k v) (sp_metadata p) []"

definition SetStep :: "int \<Rightarrow> 64 word \<Rightarrow> scratchpad \<Rightarrow> scratchpad" where
  "SetStep now step p = p\<lparr>sp_step := step, sp_lastAccess := now\<rparr>"

definition SetStop :: "int \<Rightarrow> bool \<Rightarrow> scratchpad \<Rightarrow> scratchpad" where
  "SetStop now stop p = p\<lparr>sp_stop := stop, sp_lastAccess := now\<rparr>"

definition SetResume :: "int \<Rightarrow> bool \<Rightarrow> scratchpad \<Rightarrow> scratchpad" where
  "SetResume now resume p = p\<lparr>sp_resume := resume, sp_lastAccess := now\<rparr>"

definition IncrementCallCounter :: "int \<Rightarrow> scratchpad \<Rightarrow> 64 word \<times> scratchpad" where
  "IncrementCallCounter now p =
     (sp_callCounter p + 1, p\<lparr>sp_callCounter := sp_callCounter p + 1, sp_lastAccess := now\<rparr>)"

definition IncrementInterruptCounter :: "int \<Rightarrow> scratchpad \<Rightarrow> 64 word \<times> scratchpad" where
  "IncrementInterruptCounter now p =
     (sp_interruptCounter p + 1, p\<lparr>sp_interruptCounter := sp_interruptCounter p + 1, sp_lastAccess := now\<rparr>)"

definition IncrementSubgraphCounter :: "int \<Rightarrow> scratchpad \<Rightarrow> 64 word \<times> scratchpad" where
  "IncrementSubgraphCounter now p =
     (sp_subgraphCounter p + 1, p\<lparr>sp_subgraphCounter := sp_subgraphCounter p + 1, sp_lastAccess := now\<rparr>)"

record scratchpad_stats =
  st_DataSize :: nat
  st_CountersCount :: nat
  st_MetadataSize :: nat
  st_NodeContexts :: nat
  st_CreatedAt :: int
  st_LastAccess :: int

definition sp_Stats :: "scratchpad \<Rightarrow> scratchpad_stats" where
  "sp_Stats p =
     \<lparr>st_DataSize = length (sp_data p), st_CountersCount = length (sp_counters p),
      st_MetadataSize = length (sp_metadata p), st_NodeContexts = 0, st_CreatedAt = sp_createdAt p,
      st_LastAccess = sp_lastAccess p\<rparr>"

section \<open>Stacks\<close>

definition NewStack :: "sp_heap \<Rightarrow> nat \<times> sp_heap" where
  "NewStack h = (length (hp_stacks h), h\<lparr>hp_stacks := hp_stacks h @ [[]]\<rparr>)"

definition stack_at :: "sp_heap \<Rightarrow> nat \<Rightarrow> goval list" where
  "stack_at h a = hp_stacks h ! a"

definition stk_Push :: "goval \<Rightarrow> nat \<Rightarrow> sp_heap \<Rightarrow> sp_heap" where
  "stk_Push value a h = h\<lparr>hp_stacks := (hp_stacks h)[a := stack_at h a @ [value]]\<rparr>"

definition stk_Pop :: "nat \<Rightarrow> sp_heap \<Rightarrow> goval option \<times> sp_heap" where
  "stk_Pop a h =
     (let items = stack_at h a
      in if length items = 0 then (None, h)
         else let index = length items - 1
              in (Some (items ! index), h\<lparr>hp_stacks := (hp_stacks h)[a := take index items]\<rparr>))"

definition stk_Peek :: "nat \<Rightarrow> sp_heap \<Rightarrow> goval option" where
  "stk_Peek a h = (let items = stack_at h a in if length items = 0 then None else Some (items ! (length items - 1)))"

definition stk_Size :: "nat \<Rightarrow> sp_heap \<Rightarrow> nat" where
  "stk_Size a h = length (stack_at h a)"

definition stk_IsEmpty :: "nat \<Rightarrow> sp_heap \<Rightarrow> bool" where
  "stk_IsEmpty a h \<longleftrightarrow> length (stack_at h a) = 0"

definition stk_Clear :: "nat \<Rightarrow> sp_heap \<Rightarrow> sp_heap" where
  "stk_Clear a h = h\<lparr>hp_stacks := (hp_stacks h)[a := []]\<rparr>"

definition ToSlice :: "nat \<Rightarrow> sp_heap \<Rightarrow> goval list" where
  "ToSlice a h = stack_at h a"

text \<open>A stack under a key of the scratchpad. The first argument is the clock.\<close>

definition as_stack :: "sp_value option \<Rightarrow> nat option" where
  "as_stack v = (case v of Some (StackRef a) \<Rightarrow> Some a | _ \<Rightarrow> None)"

definition ss_Push :: "int \<Rightarrow> string \<Rightarrow> goval \<Rightarrow> scratchpad \<times> sp_heap \<Rightarrow> scratchpad \<times> sp_heap" where
  "ss_Push now key value = (\<lambda>(p, h).
     let (val, p) = sp_Get now key p;
         (a, h) = (case as_stack val of Some a \<Rightarrow> (a, h) | None \<Rightarrow> NewStack h);
         h = stk_Push value a h
     in (sp_Set now key (StackRef a) p, h))"

definition ss_Pop :: "int \<Rightarrow> string \<Rightarrow> scratchpad \<times> sp_heap \<Rightarrow> goval option \<times> scratchpad \<times> sp_heap" where
  "ss_Pop now key = (\<lambda>(p, h).
     let (val, p) = sp_Get now key p
     in case as_stack val of
          None \<Rightarrow> (None, p, h)
        | Some a \<Rightarrow>
            (let (value, h) = stk_Pop a h
             in (value, if stk_IsEmpty a h then sp_Delete now key p else sp_Set now key (StackRef a) p, h)))"

definition ss_Peek :: "int \<Rightarrow> string \<Rightarrow> scratchpad \<times> sp_heap \<Rightarrow> goval option \<times> scratchpad" where
  "ss_Peek now key = (\<lambda>(p, h).
     let (val, p) = sp_Get now key p in (Option.bind (as_stack val) (\<lambda>a. stk_Peek a h), p))"

definition ss_Size :: "int \<Rightarrow> string \<Rightarrow> scratchpad \<times> sp_heap \<Rightarrow> nat \<times> scratchpad" where
  "ss_Size now key = (\<lambda>(p, h).
     let (val, p) = sp_Get now key p in (case as_stack val of None \<Rightarrow> 0 | Some a \<Rightarrow> stk_Size a h, p))"

definition ss_IsEmpty :: "int \<Rightarrow> string \<Rightarrow> scratchpad \<times> sp_heap \<Rightarrow> bool \<times> scratchpad" where
  "ss_IsEmpty now key s = apfst (\<lambda>n. n = 0) (ss_Size now key s)"

definition ss_Clear :: "int \<Rightarrow> string \<Rightarrow> scratchpad \<times> sp_heap \<Rightarrow> scratchpad \<times> sp_heap" where
  "ss_Clear now key = (\<lambda>(p, h). (sp_Delete now key p, h))"

section \<open>Contexts of nodes\<close>

definition NewNodeContext :: "sp_heap \<Rightarrow> nat \<times> sp_heap" where
  "NewNodeContext h = (length (hp_contexts h), h\<lparr>hp_contexts := hp_contexts h @ [[]]\<rparr>)"

definition nc_Get :: "nat \<Rightarrow> string \<Rightarrow> sp_heap \<Rightarrow> goval option" where
  "nc_Get a key h = map_of (hp_contexts h ! a) key"

definition nc_Set :: "nat \<Rightarrow> string \<Rightarrow> goval \<Rightarrow> sp_heap \<Rightarrow> sp_heap" where
  "nc_Set a key value h = h\<lparr>hp_contexts := (hp_contexts h)[a := gm_put key value (hp_contexts h ! a)]\<rparr>"

definition nc_Delete :: "nat \<Rightarrow> string \<Rightarrow> sp_heap \<Rightarrow> sp_heap" where
  "nc_Delete a key h = h\<lparr>hp_contexts := (hp_contexts h)[a := gm_del key (hp_contexts h ! a)]\<rparr>"

definition nc_Clear :: "nat \<Rightarrow> sp_heap \<Rightarrow> sp_heap" where
  "nc_Clear a h = h\<lparr>hp_contexts := (hp_contexts h)[a := []]\<rparr>"

definition nc_GetAll :: "nat \<Rightarrow> sp_heap \<Rightarrow> goval gomap" where
  "nc_GetAll a h = fold (\<lambda>(k, v). gm_put k v) (hp_contexts h ! a) []"

definition node_key :: "string \<Rightarrow> string" where
  "node_key nodeName = ''_node_ctx:'' @ nodeName"

definition NodeContext :: "string \<Rightarrow> scratchpad \<times> sp_heap \<Rightarrow> nat \<times> scratchpad \<times> sp_heap" where
  "NodeContext nodeName = (\<lambda>(p, h).
     case map_of (sp_data p) (node_key nodeName) of
       Some (CtxRef a) \<Rightarrow> (a, p, h)
     | _ \<Rightarrow> (let (a, h) = NewNodeContext h
            in (a, p\<lparr>sp_data := gm_put (node_key nodeName) (CtxRef a) (sp_data p)\<rparr>, h)))"

definition ClearNodeContext :: "string \<Rightarrow> scratchpad \<Rightarrow> scratchpad" where
  "ClearNodeContext nodeName p = p\<lparr>sp_data := gm_del (node_key nodeName) (sp_data p)\<rparr>"

text \<open>The test that singles out the keys of node contexts: it wants at least one byte behind the prefix.\<close>

definition is_node_key :: "string \<Rightarrow> bool" where
  "is_node_key k \<longleftrightarrow> length k > 10 \<and> take 10 k = ''_node_ctx:''"

definition ClearAllNodeContexts :: "scratchpad \<Rightarrow> scratchpad" where
  "ClearAllNodeContexts p =
     p\<lparr>sp_data := fold (\<lambda>k m. if is_node_key k then gm_del k m else m) (gm_keys (sp_data p)) (sp_data p)\<rparr>"

section \<open>Snapshots and merging\<close>

text \<open>\<^verbatim>\<open>deepCopyValue\<close> copies maps and slices; anything else, pointers too, it passes on.\<close>

fun copy_tree :: "goval \<Rightarrow> goval" where
  "copy_tree (GMap m) = GMap (map (\<lambda>(k, v). (k, copy_tree v)) m)"
| "copy_tree (GSlice xs) = GSlice (map copy_tree xs)"
| "copy_tree v = v"

definition deepCopyValue :: "sp_value \<Rightarrow> sp_value" where
  "deepCopyValue v = (case v of Plain g \<Rightarrow> Plain (copy_tree g) | _ \<Rightarrow> v)"

record scratchpad_snapshot =
  sn_Data :: "sp_value gomap"
  sn_Counters :: "64 word gomap"
  sn_Metadata :: "sp_value gomap"
  sn_Step :: "64 word"
  sn_CallCount :: "64 word"
  sn_Interrupts :: "64 word"
  sn_SubGraphs :: "64 word"

definition copy_data :: "sp_value gomap \<Rightarrow> sp_value gomap" where
  "copy_data m = fold (\<lambda>(k, v) c. if is_node_key k then c else gm_put k (deepCopyValue v) c) m []"

definition copy_values :: "sp_value gomap \<Rightarrow> sp_value gomap" where
  "copy_values m = fold (\<lambda>(k, v). gm_put k (deepCopyValue v)) m []"

definition Snapshot :: "scratchpad \<Rightarrow> scratchpad_snapshot" where
  "Snapshot p =
     \<lparr>sn_Data = copy_data (sp_data p), sn_Counters = fold (\<lambda>(k, v). gm_put k v) (sp_counters p) [],
      sn_Metadata = copy_values (sp_metadata p), sn_Step = sp_step p, sn_CallCount = sp_callCounter p,
      sn_Interrupts = sp_interruptCounter p, sn_SubGraphs = sp_subgraphCounter p\<rparr>"

definition node_entries :: "sp_value gomap \<Rightarrow> sp_value gomap" where
  "node_entries m = fold (\<lambda>(k, v) c. if is_node_key k then gm_put k v c else c) m []"

definition Restore :: "scratchpad_snapshot option \<Rightarrow> scratchpad \<Rightarrow> scratchpad" where
  "Restore snap p =
     (case snap of
        None \<Rightarrow> p
      | Some snap \<Rightarrow>
          p\<lparr>sp_data := fold (\<lambda>(k, v). gm_put k v) (node_entries (sp_data p)) (copy_values (sn_Data snap)),
            sp_counters := fold (\<lambda>(k, v). gm_put k v) (sn_Counters snap) [],
            sp_metadata := fold (\<lambda>(k, v). gm_put k v) (sn_Metadata snap) [],
            sp_step := sn_Step snap, sp_callCounter := sn_CallCount snap,
            sp_interruptCounter := sn_Interrupts snap, sp_subgraphCounter := sn_SubGraphs snap\<rparr>)"

definition MergeFrom :: "int \<Rightarrow> scratchpad option \<Rightarrow> scratchpad \<Rightarrow> scratchpad" where
  "MergeFrom now other p =
     (case other of
        None \<Rightarrow> p
      | Some q \<Rightarrow>
          p\<lparr>sp_data := fold (\<lambda>(k, v). gm_put k v) (copy_data (sp_data q)) (sp_data p),
            sp_counters := fold (\<lambda>(k, v) m. gm_put k ((case map_of m k of None \<Rightarrow> 0 | Some n \<Rightarrow> n) + v) m)
              (fold (\<lambda>(k, v). gm_put k v) (sp_counters q) []) (sp_counters p),
            sp_metadata := fold (\<lambda>(k, v). gm_put k v) (copy_values (sp_metadata q)) (sp_metadata p),
            sp_step := (if sint (sp_step q) > sint (sp_step p) then sp_step q else sp_step p),
            sp_callCounter := sp_callCounter p + sp_callCounter q,
            sp_interruptCounter := sp_interruptCounter p + sp_interruptCounter q,
            sp_subgraphCounter := sp_subgraphCounter p + sp_subgraphCounter q,
            sp_lastAccess := now\<rparr>)"

section \<open>Expiry\<close>

definition SetTimeout :: "int \<Rightarrow> int \<Rightarrow> scratchpad \<Rightarrow> scratchpad" where
  "SetTimeout now d p =
     p\<lparr>sp_metadata := gm_put ''_timeout_start'' (Time now) (gm_put ''_timeout_ttl'' (Duration d) (sp_metadata p))\<rparr>"

definition IsExpired :: "int \<Rightarrow> scratchpad \<Rightarrow> bool" where
  "IsExpired now p \<longleftrightarrow>
     (case (map_of (sp_metadata p) ''_timeout_ttl'', map_of (sp_metadata p) ''_timeout_start'') of
        (Some (Duration ttl), Some (Time start)) \<Rightarrow> ttl > 0 \<and> now - start > ttl
      | _ \<Rightarrow> False)"

text \<open>The check before the lock and the check under it may see different times.\<close>

definition ClearExpired :: "int \<Rightarrow> int \<Rightarrow> scratchpad \<Rightarrow> bool \<times> scratchpad" where
  "ClearExpired now now' p =
     (if \<not> IsExpired now p then (False, p)
      else if \<not> IsExpired now' p then (False, p)
      else (True, p\<lparr>sp_data := [], sp_counters := [],
              sp_metadata := gm_del ''_timeout_start'' (gm_del ''_timeout_ttl'' (sp_metadata p)), sp_lastAccess := now'\<rparr>))"

section \<open>Stacks under keys refine a family of stacks\<close>

datatype sk_op = SkPush goval | SkPop | SkPeek | SkClear

fun sk_step :: "int \<Rightarrow> string \<times> sk_op \<Rightarrow> scratchpad \<times> sp_heap \<Rightarrow> goval option \<times> scratchpad \<times> sp_heap" where
  "sk_step now (key, SkPush v) s = (None, ss_Push now key v s)"
| "sk_step now (key, SkPop) s = ss_Pop now key s"
| "sk_step now (key, SkPeek) (p, h) = (let (v, p) = ss_Peek now key (p, h) in (v, p, h))"
| "sk_step now (key, SkClear) s = (None, ss_Clear now key s)"

fun sk_run ::
  "(int \<times> string \<times> sk_op) list \<Rightarrow> scratchpad \<times> sp_heap \<Rightarrow> goval option list \<times> scratchpad \<times> sp_heap" where
  "sk_run [] s = ([], s)"
| "sk_run ((now, c) # cs) s = (let (v, s) = sk_step now c s in apfst (Cons v) (sk_run cs s))"

text \<open>The abstract machine: a stack per key, the top at the end.\<close>

fun abs_step :: "string \<times> sk_op \<Rightarrow> (string \<Rightarrow> goval list) \<Rightarrow> goval option \<times> (string \<Rightarrow> goval list)" where
  "abs_step (key, SkPush v) f = (None, f(key := f key @ [v]))"
| "abs_step (key, SkPop) f = (if f key = [] then None else Some (last (f key)), f(key := butlast (f key)))"
| "abs_step (key, SkPeek) f = (if f key = [] then None else Some (last (f key)), f)"
| "abs_step (key, SkClear) f = (None, f(key := []))"

fun abs_run :: "(int \<times> string \<times> sk_op) list \<Rightarrow> (string \<Rightarrow> goval list) \<Rightarrow> goval option list \<times> (string \<Rightarrow> goval list)" where
  "abs_run [] f = ([], f)"
| "abs_run ((now, c) # cs) f = (let (v, f) = abs_step c f in apfst (Cons v) (abs_run cs f))"

definition stacks_of :: "scratchpad \<times> sp_heap \<Rightarrow> string \<Rightarrow> goval list" where
  "stacks_of = (\<lambda>(p, h) key. case as_stack (map_of (sp_data p) key) of None \<Rightarrow> [] | Some a \<Rightarrow> stack_at h a)"

text \<open>Addresses are allocated, and no two keys share one.\<close>

definition refs_ok :: "scratchpad \<times> sp_heap \<Rightarrow> bool" where
  "refs_ok = (\<lambda>(p, h).
     (\<forall>k a. map_of (sp_data p) k = Some (StackRef a) \<longrightarrow> a < length (hp_stacks h))
     \<and> (\<forall>k k' a. map_of (sp_data p) k = Some (StackRef a) \<and> map_of (sp_data p) k' = Some (StackRef a) \<longrightarrow> k = k'))"

lemma as_stack_Some: "as_stack v = Some a \<longleftrightarrow> v = Some (StackRef a)"
  by (auto simp: as_stack_def split: option.split sp_value.split)

lemma as_stack_simps [simp]: "as_stack (Some (StackRef a)) = Some a" "as_stack None = None"
  by (simp_all add: as_stack_def)

lemma take_length_butlast: "take (length xs - Suc 0) xs = butlast xs"
  by (simp add: butlast_conv_take)

lemmas sk_defs = ss_Push_def ss_Pop_def ss_Peek_def ss_Clear_def sp_Get_def sp_Set_def sp_Delete_def NewStack_def
  stk_Push_def stk_Pop_def stk_Peek_def stk_IsEmpty_def stack_at_def Let_def

lemma sk_push_refines:
  assumes "refs_ok (p, h)"
  shows "refs_ok (ss_Push now key v (p, h)) \<and> stacks_of (ss_Push now key v (p, h)) = (stacks_of (p, h))(key := stacks_of (p, h) key @ [v])"
proof (cases "as_stack (map_of (sp_data p) key)")
  case None
  then have new: "map_of (sp_data p) key \<noteq> Some (StackRef a)" for a by (auto simp: as_stack_def)
  have fresh: "map_of (sp_data p) k \<noteq> Some (StackRef (length (hp_stacks h)))" for k
    using assms by (auto simp: refs_ok_def)
  have old: "map_of (sp_data p) k = Some (StackRef a) \<Longrightarrow> (hp_stacks h @ [[v]]) ! a = hp_stacks h ! a" for k a
    using assms by (auto simp: refs_ok_def nth_append)
  have "refs_ok (ss_Push now key v (p, h))"
    using assms fresh None by (auto simp: refs_ok_def sk_defs gomap_simps less_Suc_eq)
  moreover have "stacks_of (ss_Push now key v (p, h)) k = ((stacks_of (p, h))(key := stacks_of (p, h) key @ [v])) k" for k
    using None old [of k]
    by (cases "k = key") (auto simp: stacks_of_def sk_defs gomap_simps as_stack_Some split: option.split)
  ultimately show ?thesis by blast
next
  case (Some a)
  then have a: "map_of (sp_data p) key = Some (StackRef a)" by (simp add: as_stack_Some)
  then have al: "a < length (hp_stacks h)" using assms by (auto simp: refs_ok_def)
  have other: "map_of (sp_data p) k \<noteq> Some (StackRef a)" if "k \<noteq> key" for k
    using assms a that by (auto simp: refs_ok_def)
  have "refs_ok (ss_Push now key v (p, h))"
    using assms a other by (auto simp: refs_ok_def sk_defs gomap_simps as_stack_def)
  moreover have "stacks_of (ss_Push now key v (p, h)) k = ((stacks_of (p, h))(key := stacks_of (p, h) key @ [v])) k" for k
    using a al other [of k]
    by (auto simp: stacks_of_def sk_defs gomap_simps as_stack_Some as_stack_def nth_list_update split: option.split sp_value.split)
  ultimately show ?thesis by blast
qed

lemma sk_delete_refines:
  assumes "refs_ok (p, h)"
  shows "refs_ok (sp_Delete now key p, h) \<and> stacks_of (sp_Delete now key p, h) = (stacks_of (p, h))(key := [])"
proof -
  have "refs_ok (sp_Delete now key p, h)" using assms by (auto simp: refs_ok_def sp_Delete_def gomap_simps)
  moreover have "stacks_of (sp_Delete now key p, h) k = ((stacks_of (p, h))(key := [])) k" for k
    by (simp add: stacks_of_def sp_Delete_def gomap_simps as_stack_def)
  ultimately show ?thesis by blast
qed

lemma sk_pop_refines:
  assumes ok: "refs_ok (p, h)" and pop: "ss_Pop now key (p, h) = (r, p', h')"
  shows "refs_ok (p', h') \<and> r = fst (abs_step (key, SkPop) (stacks_of (p, h)))
    \<and> stacks_of (p', h') = snd (abs_step (key, SkPop) (stacks_of (p, h)))"
proof (cases "as_stack (map_of (sp_data p) key)")
  case None
  then have "r = None" "h' = h" "sp_data p' = sp_data p" "stacks_of (p, h) key = []"
    using pop by (auto simp: sk_defs stacks_of_def)
  then show ?thesis using ok by (auto simp: refs_ok_def stacks_of_def fun_eq_iff)
next
  case (Some a)
  then have a: "map_of (sp_data p) key = Some (StackRef a)" by (simp add: as_stack_Some)
  then have al: "a < length (hp_stacks h)" using ok by (auto simp: refs_ok_def)
  define items where "items = stack_at h a"
  define h1 where "h1 = (if items = [] then h else h\<lparr>hp_stacks := (hp_stacks h)[a := butlast items]\<rparr>)"
  have items: "stacks_of (p, h) key = items" by (simp add: stacks_of_def Some items_def)
  have len: "length (hp_stacks h1) = length (hp_stacks h)" by (simp add: h1_def)
  have at: "stack_at h1 b = (if b = a then butlast items else stack_at h b)" for b
    using al by (auto simp: h1_def stack_at_def items_def nth_list_update)
  have other: "map_of (sp_data p) k \<noteq> Some (StackRef a)" if "k \<noteq> key" for k
    using ok a that by (auto simp: refs_ok_def)
  have r: "r = (if items = [] then None else Some (last items))" and h': "h' = h1"
    and p': "p' = (if butlast items = [] then sp_Delete now key (p\<lparr>sp_lastAccess := now\<rparr>)
                   else sp_Set now key (StackRef a) (p\<lparr>sp_lastAccess := now\<rparr>))"
    using pop Some al
    by (auto simp: ss_Pop_def sp_Get_def stk_Pop_def stk_IsEmpty_def Let_def items_def h1_def stack_at_def
        take_length_butlast last_conv_nth split: if_splits)
  have data: "map_of (sp_data p') k = (if k = key then (if butlast items = [] then None else Some (StackRef a)) else map_of (sp_data p) k)" for k
    by (simp add: p' sp_Delete_def sp_Set_def gomap_simps)
  have "refs_ok (p', h')" using ok a unfolding refs_ok_def h' by (auto simp: data len split: if_splits)
  moreover have "stacks_of (p', h') k = ((stacks_of (p, h))(key := butlast items)) k" for k
    using other [of k]
    by (auto simp: stacks_of_def h' data at as_stack_def split: option.split sp_value.split)
  ultimately show ?thesis by (auto simp: r items fun_eq_iff)
qed

lemma sk_step_refines:
  assumes "refs_ok s" and "sk_step now c s = (r, s')"
  shows "refs_ok s' \<and> r = fst (abs_step c (stacks_of s)) \<and> stacks_of s' = snd (abs_step c (stacks_of s))"
proof -
  obtain p h key where s: "s = (p, h)" and c: "fst c = key" by (cases s) auto
  show ?thesis
  proof (cases "snd c")
    case (SkPush v)
    then have "c = (key, SkPush v)" using c by (cases c) simp
    then show ?thesis using assms sk_push_refines [of p h now key v] by (auto simp: s)
  next
    case SkPop
    then have "c = (key, SkPop)" using c by (cases c) simp
    then show ?thesis using assms sk_pop_refines [of p h now key r "fst s'" "snd s'"] by (simp add: s)
  next
    case SkPeek
    then have "c = (key, SkPeek)" using c by (cases c) simp
    then show ?thesis using assms
      by (auto simp: s ss_Peek_def sp_Get_def Let_def stacks_of_def refs_ok_def stk_Peek_def last_conv_nth fun_eq_iff
          split: option.splits)
  next
    case SkClear
    then have "c = (key, SkClear)" using c by (cases c) simp
    then show ?thesis using assms sk_delete_refines [of p h now key] by (simp add: s ss_Clear_def)
  qed
qed

text \<open>
  The stacks under the keys of a scratchpad, whose elements live in shared objects, answer every sequence of
  pushes, pops, peeks and clears as a family of separate stacks does.
\<close>

lemma scratchpad_stacks_refine:
  "refs_ok s \<Longrightarrow> fst (sk_run cs s) = fst (abs_run cs (stacks_of s))
   \<and> stacks_of (snd (sk_run cs s)) = snd (abs_run cs (stacks_of s)) \<and> refs_ok (snd (sk_run cs s))"
proof (induction cs arbitrary: s)
  case (Cons nc cs)
  obtain now c where nc: "nc = (now, c)" by (cases nc)
  obtain r s' where st: "sk_step now c s = (r, s')" by (cases "sk_step now c s")
  note one = sk_step_refines [OF Cons.prems st]
  with Cons.IH [of s'] show ?case by (cases "abs_step c (stacks_of s)") (simp add: nc st)
qed simp

section \<open>Snapshots\<close>

definition pad_ok :: "scratchpad \<Rightarrow> bool" where
  "pad_ok p \<longleftrightarrow> gm_ok (sp_data p) \<and> gm_ok (sp_counters p) \<and> gm_ok (sp_metadata p)"

lemma copy_tree_id [simp]: "copy_tree v = v"
  by (induction v rule: copy_tree.induct) (auto intro!: map_idI)

lemma deepCopyValue_id [simp]: "deepCopyValue v = v"
  by (simp add: deepCopyValue_def split: sp_value.split)

text \<open>What filling one map from another, entry by entry, leaves under a key.\<close>

lemma fold_put_lookup:
  "gm_ok m \<Longrightarrow> map_of (fold (\<lambda>(k, v). gm_put k v) m acc) k = (case map_of m k of Some v \<Rightarrow> Some v | None \<Rightarrow> map_of acc k)"
proof (induction m arbitrary: acc)
  case (Cons kv m)
  obtain k' v where kv: "kv = (k', v)" by (cases kv)
  then have "map_of m k' = None" using Cons.prems by (simp add: map_of_eq_None_iff)
  then show ?case using Cons by (auto simp: kv gomap_simps split: option.split)
qed simp

lemma fold_put_some_lookup:
  "gm_ok m \<Longrightarrow> map_of (fold (\<lambda>(k, v) c. if Q k then gm_put k v c else c) m acc) k =
     (if Q k then case map_of m k of Some v \<Rightarrow> Some v | None \<Rightarrow> map_of acc k else map_of acc k)"
proof (induction m arbitrary: acc)
  case (Cons kv m)
  obtain k' v where kv: "kv = (k', v)" by (cases kv)
  then have "map_of m k' = None" using Cons.prems by (simp add: map_of_eq_None_iff)
  then show ?case using Cons by (auto simp: kv gomap_simps split: option.split)
qed simp

lemma fold_put_ok: "gm_ok acc \<Longrightarrow> gm_ok (fold (\<lambda>(k, v). gm_put k v) m acc)"
  by (induction m arbitrary: acc) auto

lemma fold_put_some_ok: "gm_ok acc \<Longrightarrow> gm_ok (fold (\<lambda>(k, v) c. if Q k then gm_put k v c else c) m acc)"
  by (induction m arbitrary: acc) (auto split: prod.splits)

lemma copy_data_alt: "copy_data m = fold (\<lambda>(k, v) c. if \<not> is_node_key k then gm_put k v c else c) m []"
  by (simp add: copy_data_def if_not_P cong: fold_cong) (rule fold_cong; auto)

lemma copy_data_lookup: "gm_ok m \<Longrightarrow> map_of (copy_data m) k = (if is_node_key k then None else map_of m k)"
  by (simp add: copy_data_alt fold_put_some_lookup split: option.split)

lemma copy_data_ok [simp]: "gm_ok (copy_data m)"
  by (simp add: copy_data_alt fold_put_some_ok)

lemma copy_values_lookup: "gm_ok m \<Longrightarrow> map_of (copy_values m) k = map_of m k"
  by (simp add: copy_values_def fold_put_lookup split: option.split)

lemma copy_values_ok [simp]: "gm_ok (copy_values m)"
  by (simp add: copy_values_def fold_put_ok)

lemma node_entries_lookup: "gm_ok m \<Longrightarrow> map_of (node_entries m) k = (if is_node_key k then map_of m k else None)"
  by (simp add: node_entries_def fold_put_some_lookup split: option.split)

lemma node_entries_ok [simp]: "gm_ok (node_entries m)"
  by (simp add: node_entries_def fold_put_some_ok)

text \<open>
  A snapshot brings a scratchpad back. Restoring the snapshot of one scratchpad into another gives that one the
  data, counters, metadata, step and counts of the first and leaves it its own node contexts; and the
  restored scratchpad has the same snapshot again.
\<close>

theorem snapshot_roundtrip:
  assumes "pad_ok p" and "pad_ok q" and "r = Restore (Some (Snapshot p)) q"
  shows "pad_ok r
    \<and> map_of (sp_data r) k = (if is_node_key k then map_of (sp_data q) k else map_of (sp_data p) k)
    \<and> map_of (sp_counters r) k = map_of (sp_counters p) k \<and> map_of (sp_metadata r) k = map_of (sp_metadata p) k
    \<and> sp_step r = sp_step p \<and> sp_callCounter r = sp_callCounter p
    \<and> sp_interruptCounter r = sp_interruptCounter p \<and> sp_subgraphCounter r = sp_subgraphCounter p
    \<and> map_of (sn_Data (Snapshot r)) k = map_of (sn_Data (Snapshot p)) k
    \<and> map_of (sn_Counters (Snapshot r)) k = map_of (sn_Counters (Snapshot p)) k
    \<and> map_of (sn_Metadata (Snapshot r)) k = map_of (sn_Metadata (Snapshot p)) k"
proof -
  have ok: "gm_ok (sp_data p)" "gm_ok (sp_counters p)" "gm_ok (sp_metadata p)" "gm_ok (sp_data q)"
    using assms by (auto simp: pad_ok_def)
  have r: "pad_ok r" using assms(3) by (simp add: pad_ok_def Restore_def fold_put_ok)
  have data: "map_of (sp_data r) k = (if is_node_key k then map_of (sp_data q) k else map_of (sp_data p) k)" for k
    using ok unfolding assms(3)
    by (simp add: Restore_def Snapshot_def fold_put_lookup node_entries_lookup copy_values_lookup copy_data_lookup
        split: option.split)
  have counters: "map_of (sp_counters r) = map_of (sp_counters p)"
    using ok unfolding assms(3) by (simp add: fun_eq_iff Restore_def Snapshot_def fold_put_lookup fold_put_ok split: option.split)
  have meta: "map_of (sp_metadata r) = map_of (sp_metadata p)"
    using ok unfolding assms(3)
    by (simp add: fun_eq_iff Restore_def Snapshot_def fold_put_lookup copy_values_lookup split: option.split)
  show ?thesis
    using r ok data counters meta unfolding pad_ok_def
    by (simp add: Snapshot_def copy_data_lookup copy_values_lookup fold_put_lookup)
      (simp add: assms(3) Restore_def Snapshot_def)
qed

theorem snapshot_roundtrip_witness:
  "let p = sp_Set 1 ''x'' (Plain (GInt 7)) (snd (IncrementCounter 1 ''n'' (NewPregelScratchpad 0)));
       r = Restore (Some (Snapshot p)) (NewPregelScratchpad 5)
   in map_of (sp_data r) ''x'' = Some (Plain (GInt 7)) \<and> map_of (sp_counters r) ''n'' = Some 1"
proof -
  define p where "p = sp_Set 1 ''x'' (Plain (GInt 7)) (snd (IncrementCounter 1 ''n'' (NewPregelScratchpad 0)))"
  have ok: "pad_ok p" "pad_ok (NewPregelScratchpad 5)" and x: "map_of (sp_data p) ''x'' = Some (Plain (GInt 7))"
    "map_of (sp_counters p) ''n'' = Some 1" "\<not> is_node_key ''x''"
    by (simp_all add: p_def pad_ok_def NewPregelScratchpad_def sp_Set_def IncrementCounter_def GetCounter_def is_node_key_def)
  show ?thesis
    unfolding p_def [symmetric] Let_def
    using snapshot_roundtrip [OF ok refl, of "''x''"] snapshot_roundtrip [OF ok refl, of "''n''"] x by simp
qed

section \<open>Merging\<close>

lemma fold_add_lookup:
  "gm_ok m \<Longrightarrow>
   (case map_of (fold (\<lambda>(k, v) m. gm_put k ((case map_of m k of None \<Rightarrow> 0 | Some n \<Rightarrow> n) + v) m) m acc) k
      of None \<Rightarrow> 0 | Some n \<Rightarrow> n) =
   (case map_of acc k of None \<Rightarrow> 0 | Some n \<Rightarrow> n) + (case map_of m k of None \<Rightarrow> 0 | Some n \<Rightarrow> (n :: 64 word))"
proof (induction m arbitrary: acc)
  case (Cons kv m)
  obtain k' v where kv: "kv = (k', v)" by (cases kv)
  then have "map_of m k' = None" using Cons.prems by (simp add: map_of_eq_None_iff)
  then show ?case using Cons by (auto simp: kv gomap_simps)
qed simp

text \<open>
  Merging the scratchpad of a parallel branch: its data and metadata win, its node contexts stay out, counters and counts
  add up (modulo \<open>2 ^ 64\<close>), the step is the larger one.
\<close>

lemma MergeFrom_spec:
  assumes "pad_ok p" and "pad_ok q" and "r = MergeFrom now (Some q) p"
  shows "map_of (sp_data r) k =
      (if is_node_key k then map_of (sp_data p) k
       else case map_of (sp_data q) k of Some v \<Rightarrow> Some v | None \<Rightarrow> map_of (sp_data p) k)
    \<and> map_of (sp_metadata r) k = (case map_of (sp_metadata q) k of Some v \<Rightarrow> Some v | None \<Rightarrow> map_of (sp_metadata p) k)
    \<and> GetCounter k r = GetCounter k p + GetCounter k q
    \<and> sp_callCounter r = sp_callCounter p + sp_callCounter q
    \<and> sint (sp_step r) = max (sint (sp_step p)) (sint (sp_step q))"
proof -
  have ok: "gm_ok (sp_data q)" "gm_ok (sp_counters q)" "gm_ok (sp_metadata q)" using assms by (auto simp: pad_ok_def)
  have "GetCounter k r = GetCounter k p + GetCounter k q"
    using ok unfolding assms(3) by (simp add: MergeFrom_def GetCounter_def fold_add_lookup fold_put_ok fold_put_lookup split: option.splits)
  then show ?thesis
    using ok unfolding assms(3)
    by (simp add: MergeFrom_def fold_put_lookup copy_data_lookup copy_values_lookup max_def split: option.split)
qed

text \<open>
  The copies are not deep where stacks are concerned: the snapshot holds the address of the stack itself, so a
  push after the snapshot is in the snapshot too, and is there after restoring it.
\<close>

lemma snapshot_shares_stacks:
  "let s1 = ss_Push 0 ''k'' a (NewPregelScratchpad 0, \<lparr>hp_stacks = [], hp_contexts = []\<rparr>);
       snap = Snapshot (fst s1);
       s2 = ss_Push 0 ''k'' b s1
   in stacks_of (Restore (Some snap) (fst s2), snd s2) ''k'' = [a, b]"
  by (simp add: Let_def sk_defs NewPregelScratchpad_def Snapshot_def Restore_def stacks_of_def is_node_key_def copy_data_def
      node_entries_def copy_values_def as_stack_def)

text \<open>
  A snapshot, said to hold the full state, has neither the stop flag nor the resume flag. The context of the node with the empty name
  counts as ordinary data, because its key is no longer than the prefix: it is not cleared with the
  other contexts and goes into snapshots.
\<close>

lemma Restore_keeps_flags: "sp_stop (Restore snap q) = sp_stop q \<and> sp_resume (Restore snap q) = sp_resume q"
  by (simp add: Restore_def split: option.split)

lemma empty_node_name_not_cleared:
  "map_of (sp_data (ClearAllNodeContexts (fst (snd (NodeContext [] (NewPregelScratchpad now, h)))))) (node_key [])
   = Some (CtxRef (length (hp_contexts h)))"
  by (simp add: NodeContext_def NewPregelScratchpad_def NewNodeContext_def ClearAllNodeContexts_def node_key_def is_node_key_def)

text \<open>Expiry: data and counters go, the timer is removed, and only after the time has passed.\<close>

lemma ClearExpired_spec:
  assumes "SetTimeout t0 d p = p1" and "t0 \<le> now" "now \<le> now'"
  shows "fst (ClearExpired now now' p1) \<longleftrightarrow> d > 0 \<and> now - t0 > d"
    and "fst (ClearExpired now now' p1) \<Longrightarrow>
      sp_data (snd (ClearExpired now now' p1)) = [] \<and> sp_counters (snd (ClearExpired now now' p1)) = []
      \<and> \<not> IsExpired later (snd (ClearExpired now now' p1))"
  using assms by (auto simp: ClearExpired_def IsExpired_def SetTimeout_def gomap_simps split: if_splits)

end
