(* ===== verification/Chunk_Streams.thy ===== *)
theory Chunk_Streams
  imports Async_Pipeline Stream_Events
begin

text \<open>
  The streams of \<^verbatim>\<open>types/stream.go\<close>: a stream over a buffered channel, its iterator, streams that filter or
  map the chunks of another one, and the duplex stream that merges several.

  A call that blocks returns \<open>None\<close>. The context of a call is the error it reports once it is done;
  when both branches of a \<^verbatim>\<open>select\<close> are ready Go picks one, which is the argument \<open>pick\<close>: true for the
  channel.
\<close>

section \<open>Streams over a channel\<close>

record 'd stream_chunk =
  sc_Mode :: string
  sc_Data :: 'd
  sc_Step :: int
  sc_Node :: string
  sc_Metadata :: "goval gomap"
  sc_Timestamp :: int
  sc_Index :: int

record 'd channel_stream =
  cst_mode :: string
  cst_ch :: "'d stream_chunk event_chan"
  cst_closed :: bool

definition StreamError :: "string \<Rightarrow> string \<Rightarrow> string" where
  "StreamError code message = (if code \<noteq> [] then code @ '': '' @ message else message)"

definition EOF :: go_error where
  "EOF = Errorf ''EOF''"

definition NewChannelStream :: "string \<Rightarrow> nat \<Rightarrow> 'd channel_stream" where
  "NewChannelStream mode bufferSize = \<lparr>cst_mode = mode, cst_ch = make_chan bufferSize, cst_closed = False\<rparr>"

text \<open>
  \<^verbatim>\<open>Emit\<close> looks at the flag under the lock, gives the lock back, and only then sends. The two halves are
  separate definitions, since another goroutine may close the stream in between.
\<close>

definition emit_check :: "'d channel_stream \<Rightarrow> go_error option" where
  "emit_check s = (if cst_closed s then Some (Errorf (StreamError [] ''stream is closed'')) else None)"

definition stamp :: "int \<Rightarrow> string \<Rightarrow> 'd stream_chunk \<Rightarrow> 'd stream_chunk" where
  "stamp now mode chunk = chunk\<lparr>sc_Mode := mode, sc_Timestamp := now\<rparr>"

definition emit_send ::
  "int \<Rightarrow> go_error option \<Rightarrow> bool \<Rightarrow> 'd stream_chunk \<Rightarrow> 'd channel_stream \<Rightarrow> (go_error option \<times> 'd channel_stream) option" where
  "emit_send now ctx pick chunk s =
     (let ch = cst_ch s; ready = ec_closed ch \<or> length (ec_buf ch) < ec_cap ch
      in if ready \<and> (ctx = None \<or> pick)
         then if ec_closed ch then Some (Some (GoPanic ''send on closed channel''), s)
              else Some (None, s\<lparr>cst_ch := ch\<lparr>ec_buf := ec_buf ch @ [stamp now (cst_mode s) chunk]\<rparr>\<rparr>)
         else case ctx of None \<Rightarrow> None | Some err \<Rightarrow> Some (Some err, s))"

definition cst_Emit ::
  "int \<Rightarrow> go_error option \<Rightarrow> bool \<Rightarrow> 'd stream_chunk \<Rightarrow> 'd channel_stream \<Rightarrow> (go_error option \<times> 'd channel_stream) option" where
  "cst_Emit now ctx pick chunk s =
     (case emit_check s of Some err \<Rightarrow> Some (Some err, s) | None \<Rightarrow> emit_send now ctx pick chunk s)"

definition cst_Close :: "'d channel_stream \<Rightarrow> 'd channel_stream" where
  "cst_Close s = (if cst_closed s then s else s\<lparr>cst_closed := True, cst_ch := (cst_ch s)\<lparr>ec_closed := True\<rparr>\<rparr>)"

text \<open>
  The iterator of a channel stream has a flag of its own. The channel \<^verbatim>\<open>closer\<close> that \<^verbatim>\<open>HasMore\<close> looks at is
  never closed, so its branch is never taken.
\<close>

definition chan_Next ::
  "go_error option \<Rightarrow> bool \<Rightarrow> bool \<Rightarrow> 'd channel_stream \<Rightarrow> ((go_error + 'd stream_chunk) \<times> bool \<times> 'd channel_stream) option" where
  "chan_Next ctx pick fin s =
     (let ch = cst_ch s; ready = ec_buf ch \<noteq> [] \<or> ec_closed ch
      in if fin then Some (Inl EOF, fin, s)
         else if ready \<and> (ctx = None \<or> pick)
         then case ec_buf ch of
                [] \<Rightarrow> Some (Inl EOF, True, s)
              | chunk # rest \<Rightarrow> Some (Inr chunk, fin, s\<lparr>cst_ch := ch\<lparr>ec_buf := rest\<rparr>\<rparr>)
         else case ctx of None \<Rightarrow> None | Some err \<Rightarrow> Some (Inl err, fin, s))"

definition chan_HasMore :: "bool \<Rightarrow> 'd channel_stream \<Rightarrow> bool" where
  "chan_HasMore fin s \<longleftrightarrow> \<not> fin \<and> length (ec_buf (cst_ch s)) > 0"

section \<open>Filters and maps\<close>

text \<open>
  A \<^verbatim>\<open>FilterStream\<close> or \<^verbatim>\<open>MapStream\<close> is a layer around another stream, the outermost first in the
  list; the function of a layer may be nil. A filter iterator keeps the first error it met; the state of an iterator is the flag of the
  iterator at the bottom and the kept errors by depth. The field \<^verbatim>\<open>peeked\<close> is never set.
\<close>

datatype 'd layer =
    FilterStream "('d stream_chunk \<Rightarrow> bool) option"
  | MapStream "('d stream_chunk \<Rightarrow> 'd stream_chunk) option"

definition passes :: "('d stream_chunk \<Rightarrow> bool) option \<Rightarrow> 'd stream_chunk \<Rightarrow> bool" where
  "passes flt chunk \<longleftrightarrow> (case flt of None \<Rightarrow> True | Some f \<Rightarrow> f chunk)"

definition mapped :: "('d stream_chunk \<Rightarrow> 'd stream_chunk) option \<Rightarrow> 'd stream_chunk \<Rightarrow> 'd stream_chunk" where
  "mapped mapper chunk = (case mapper of None \<Rightarrow> chunk | Some f \<Rightarrow> f chunk)"

primrec layered_Emit ::
  "'d layer list \<Rightarrow> int \<Rightarrow> go_error option \<Rightarrow> bool \<Rightarrow> 'd stream_chunk \<Rightarrow> 'd channel_stream
     \<Rightarrow> (go_error option \<times> 'd channel_stream) option" where
  "layered_Emit [] now ctx pick chunk s = cst_Emit now ctx pick chunk s"
| "layered_Emit (l # ls) now ctx pick chunk s =
     (case l of
        FilterStream flt \<Rightarrow>
          if passes flt chunk then layered_Emit ls now ctx pick chunk s else Some (None, s)
      | MapStream mapper \<Rightarrow>
          layered_Emit ls now ctx pick (mapped mapper chunk) s)"

record 'd iter_state =
  is_closed :: bool
  is_errs :: "nat \<Rightarrow> go_error option"
  is_stream :: "'d channel_stream"

type_synonym 'd next_fun = "'d iter_state \<Rightarrow> ((go_error + 'd stream_chunk) \<times> 'd iter_state) option"

definition Iterator :: "'d channel_stream \<Rightarrow> 'd iter_state" where
  "Iterator s = \<lparr>is_closed = False, is_errs = (\<lambda>_. None), is_stream = s\<rparr>"

text \<open>\<^verbatim>\<open>filterIterator.Next\<close> reads on until a chunk passes; it may read for ever or block.\<close>

partial_function (option) filter_Next ::
  "('d stream_chunk \<Rightarrow> bool) option \<Rightarrow> nat \<Rightarrow> 'd next_fun \<Rightarrow> 'd next_fun" where
  "filter_Next flt depth source st =
     (case is_errs st depth of
        Some err \<Rightarrow> Some (Inl err, st)
      | None \<Rightarrow>
          Option.bind (source st) (\<lambda>(r, st').
            case r of
              Inl err \<Rightarrow> Some (Inl err, st'\<lparr>is_errs := (is_errs st')(depth := Some err)\<rparr>)
            | Inr chunk \<Rightarrow>
                if passes flt chunk then Some (Inr chunk, st')
                else filter_Next flt depth source st'))"

definition map_Next :: "('d stream_chunk \<Rightarrow> 'd stream_chunk) option \<Rightarrow> 'd next_fun \<Rightarrow> 'd next_fun" where
  "map_Next mapper source st =
     map_option (apfst (map_sum (\<lambda>e. e) (mapped mapper))) (source st)"

primrec it_Next :: "'d layer list \<Rightarrow> go_error option \<Rightarrow> bool \<Rightarrow> 'd next_fun" where
  "it_Next [] ctx pick =
     (\<lambda>st. map_option (\<lambda>(r, fin, s). (r, st\<lparr>is_closed := fin, is_stream := s\<rparr>))
              (chan_Next ctx pick (is_closed st) (is_stream st)))"
| "it_Next (l # ls) ctx pick =
     (case l of
        FilterStream flt \<Rightarrow> filter_Next flt (length ls) (it_Next ls ctx pick)
      | MapStream mapper \<Rightarrow> map_Next mapper (it_Next ls ctx pick))"

primrec it_HasMore :: "'d layer list \<Rightarrow> 'd iter_state \<Rightarrow> bool" where
  "it_HasMore [] st \<longleftrightarrow> chan_HasMore (is_closed st) (is_stream st)"
| "it_HasMore (l # ls) st \<longleftrightarrow>
     (case l of
        FilterStream flt \<Rightarrow> if is_errs st (length ls) \<noteq> None then False else it_HasMore ls st
      | MapStream mapper \<Rightarrow> it_HasMore ls st)"

definition it_Close :: "'d iter_state \<Rightarrow> 'd iter_state" where
  "it_Close st = st\<lparr>is_closed := True\<rparr>"

section \<open>What an iterator delivers\<close>

text \<open>The chunks a reader should see: the buffered ones through all layers.\<close>

primrec layer_view :: "'d layer list \<Rightarrow> 'd stream_chunk list \<Rightarrow> 'd stream_chunk list" where
  "layer_view [] cs = cs"
| "layer_view (l # ls) cs =
     (case l of
        FilterStream flt \<Rightarrow> filter (passes flt) (layer_view ls cs)
      | MapStream mapper \<Rightarrow> map (mapped mapper) (layer_view ls cs))"

abbreviation pending :: "'d iter_state \<Rightarrow> 'd stream_chunk list" where
  "pending st \<equiv> ec_buf (cst_ch (is_stream st))"

definition reading :: "nat \<Rightarrow> 'd iter_state \<Rightarrow> bool" where
  "reading n st \<longleftrightarrow> \<not> is_closed st \<and> (\<forall>d<n. is_errs st d = None)"

definition ended :: "nat \<Rightarrow> 'd iter_state \<Rightarrow> bool" where
  "ended n st \<longleftrightarrow> is_closed st \<and> (\<forall>d<n. is_errs st d = None \<or> is_errs st d = Some EOF)"

text \<open>One call of \<^verbatim>\<open>Next\<close>: a chunk that leaves the rest, the end of a closed stream, or blocking.\<close>

definition takes :: "'d next_fun \<Rightarrow> ('d iter_state \<Rightarrow> 'd stream_chunk list) \<Rightarrow> nat \<Rightarrow> 'd iter_state \<Rightarrow> bool" where
  "takes source view n st \<longleftrightarrow>
     (case view st of
        c # cs \<Rightarrow> \<exists>st'. source st = Some (Inr c, st') \<and> view st' = cs \<and> reading n st' \<and> is_errs st' = is_errs st
                   \<and> ec_closed (cst_ch (is_stream st')) = ec_closed (cst_ch (is_stream st))
      | [] \<Rightarrow> if ec_closed (cst_ch (is_stream st))
              then \<exists>st'. source st = Some (Inl EOF, st') \<and> ended n st' \<and> (\<forall>d\<ge>n. is_errs st' d = is_errs st d)
              else source st = None)"

lemma takes_Cons:
  assumes "takes source view n st" "view st = c # cs"
  obtains st' where "source st = Some (Inr c, st')" "view st' = cs" "reading n st'" "is_errs st' = is_errs st"
    "ec_closed (cst_ch (is_stream st')) = ec_closed (cst_ch (is_stream st))"
  using assms by (auto simp: takes_def)

lemma takes_channel: "reading n st \<Longrightarrow> takes (it_Next [] None pick) pending n st"
  by (cases "pending st") (auto simp: takes_def reading_def ended_def chan_Next_def)

lemma takes_map:
  assumes "takes source view n st"
  shows "takes (map_Next mapper source) (\<lambda>st. map (mapped mapper) (view st)) n st"
  using assms by (cases "view st") (auto simp: takes_def map_Next_def)

lemma reading_Suc: "reading (Suc n) st \<longleftrightarrow> reading n st \<and> is_errs st n = None"
  by (auto simp: reading_def less_Suc_eq)

lemma takes_filter:
  assumes src: "\<And>st. reading n st \<Longrightarrow> takes source view n st" and "reading (Suc n) st"
  shows "takes (filter_Next flt n source) (\<lambda>st. filter (passes flt) (view st)) (Suc n) st"
  using assms(2)
proof (induction "view st" arbitrary: st)
  case Nil
  then have "takes source view n st" "is_errs st n = None" using src by (simp_all add: reading_Suc)
  then show ?case using Nil
    by (auto simp: takes_def filter_Next.simps [of flt n source st] ended_def less_Suc_eq)
next
  case (Cons c cs)
  then have tk: "takes source view n st" and e: "is_errs st n = None" using src by (simp_all add: reading_Suc)
  from takes_Cons [OF tk Cons(2) [symmetric]] obtain st' where st':
    "source st = Some (Inr c, st')" "view st' = cs" "reading n st'" "is_errs st' = is_errs st"
    "ec_closed (cst_ch (is_stream st')) = ec_closed (cst_ch (is_stream st))" by blast
  have step: "filter_Next flt n source st = (if passes flt c then Some (Inr c, st') else filter_Next flt n source st')"
    using st'(1) e by (simp add: filter_Next.simps [of flt n source st])
  have r': "reading (Suc n) st'" using st' e by (simp add: reading_Suc)
  show ?case
  proof (cases "passes flt c")
    case True
    then show ?thesis using step st' r' Cons(2) [symmetric] by (simp add: takes_def)
  next
    case False
    have "takes (filter_Next flt n source) (\<lambda>st. filter (passes flt) (view st)) (Suc n) st'"
      using Cons(1) [OF st'(2) [symmetric] r'] .
    then show ?thesis using False step st' Cons(2) [symmetric]
      by (auto simp: takes_def split: list.splits)
  qed
qed

lemma it_Next_takes:
  "reading (length ls) st \<Longrightarrow> takes (it_Next ls None pick) (\<lambda>st. layer_view ls (pending st)) (length ls) st"
proof (induction ls arbitrary: st)
  case Nil
  then show ?case using takes_channel by fastforce
next
  case (Cons l ls)
  show ?case
  proof (cases l)
    case (FilterStream flt)
    then show ?thesis using takes_filter [OF Cons.IH, of st flt] Cons.prems by simp
  next
    case (MapStream mapper)
    have r: "reading (length ls) st" using Cons.prems by (simp add: reading_Suc)
    have "is_errs st (length ls) = None" using Cons.prems by (simp add: reading_Suc)
    then show ?thesis using takes_map [OF Cons.IH [OF r], of mapper] MapStream r
      by (auto simp: takes_def reading_Suc ended_def less_Suc_eq split: list.splits if_splits)
  qed
qed

lemma it_Next_ended:
  "ended (length ls) st \<Longrightarrow> \<exists>st'. it_Next ls None pick st = Some (Inl EOF, st') \<and> ended (length ls) st'
     \<and> (\<forall>d\<ge>length ls. is_errs st' d = is_errs st d)"
proof (induction ls arbitrary: st)
  case Nil
  then show ?case by (auto simp: ended_def chan_Next_def)
next
  case (Cons l ls)
  have e: "ended (length ls) st" and l: "is_errs st (length ls) = None \<or> is_errs st (length ls) = Some EOF"
    using Cons.prems by (auto simp: ended_def)
  from Cons.IH [OF e] obtain st' where st': "it_Next ls None pick st = Some (Inl EOF, st')" "ended (length ls) st'"
    "\<forall>d\<ge>length ls. is_errs st' d = is_errs st d" by blast
  show ?case
  proof (cases l)
    case (FilterStream flt)
    then show ?thesis using st' l Cons.prems
      by (auto simp: filter_Next.simps [of flt "length ls" _ st] ended_def less_Suc_eq)
  next
    case (MapStream mapper)
    then show ?thesis using st' l by (auto simp: map_Next_def ended_def less_Suc_eq)
  qed
qed

fun read_calls :: "'d layer list \<Rightarrow> nat \<Rightarrow> 'd iter_state \<Rightarrow> ((go_error + 'd stream_chunk) list \<times> 'd iter_state) option" where
  "read_calls ls 0 st = Some ([], st)"
| "read_calls ls (Suc n) st =
     Option.bind (it_Next ls None True st) (\<lambda>(r, st'). map_option (apfst (Cons r)) (read_calls ls n st'))"

lemma read_calls_ended:
  "ended (length ls) st \<Longrightarrow> \<exists>st'. read_calls ls k st = Some (replicate k (Inl EOF), st')"
proof (induction k arbitrary: st)
  case (Suc k)
  from it_Next_ended [OF Suc.prems, of True] obtain st' where "it_Next ls None True st = Some (Inl EOF, st')" "ended (length ls) st'"
    by blast
  then show ?case using Suc.IH [of st'] by auto
qed simp

text \<open>
  The iterator of a closed stream delivers the buffered chunks through all layers, each once and in
  order, and then reports the end at every further call.
\<close>

lemma read_calls_closed:
  assumes "reading (length ls) st" and "ec_closed (cst_ch (is_stream st))"
  shows "\<exists>st'. read_calls ls (length (layer_view ls (pending st)) + k) st
    = Some (map Inr (layer_view ls (pending st)) @ replicate k (Inl EOF), st')"
  using assms
proof (induction "layer_view ls (pending st)" arbitrary: st)
  case Nil
  show ?case
  proof (cases k)
    case 0
    then show ?thesis using Nil(1) [symmetric] by simp
  next
    case (Suc j)
    have "takes (it_Next ls None True) (\<lambda>st. layer_view ls (pending st)) (length ls) st"
      using it_Next_takes [OF Nil.prems(1)] .
    then obtain st' where "it_Next ls None True st = Some (Inl EOF, st')" "ended (length ls) st'"
      using Nil by (auto simp: takes_def)
    then show ?thesis using read_calls_ended [of ls st' j] Nil(1) [symmetric] Suc by auto
  qed
next
  case (Cons c cs)
  from takes_Cons [OF it_Next_takes [OF Cons.prems(1)] Cons(2) [symmetric]] obtain st' where st':
    "it_Next ls None True st = Some (Inr c, st')" "layer_view ls (pending st') = cs" "reading (length ls) st'"
    "ec_closed (cst_ch (is_stream st')) = ec_closed (cst_ch (is_stream st))" by blast
  then have "\<exists>st''. read_calls ls (length cs + k) st' = Some (map Inr cs @ replicate k (Inl EOF), st'')"
    using Cons(1) [of st'] Cons.prems by simp
  then show ?case using st'(1) Cons(2) [symmetric] by auto
qed

section \<open>Emitting through layers and reading back\<close>

primrec emit_view :: "'d layer list \<Rightarrow> 'd stream_chunk \<Rightarrow> 'd stream_chunk option" where
  "emit_view [] c = Some c"
| "emit_view (l # ls) c =
     (case l of
        FilterStream flt \<Rightarrow> if passes flt c then emit_view ls c else None
      | MapStream mapper \<Rightarrow> emit_view ls (mapped mapper c))"

lemma layered_Emit_view:
  assumes "\<not> cst_closed s" "\<not> ec_closed (cst_ch s)" "length (ec_buf (cst_ch s)) < ec_cap (cst_ch s)"
  shows "layered_Emit ls now None pick c s =
    Some (None, case emit_view ls c of None \<Rightarrow> s
      | Some c' \<Rightarrow> s\<lparr>cst_ch := (cst_ch s)\<lparr>ec_buf := ec_buf (cst_ch s) @ [stamp now (cst_mode s) c']\<rparr>\<rparr>)"
  using assms by (induction ls arbitrary: c)
    (auto simp: cst_Emit_def emit_check_def emit_send_def Let_def split: layer.split)

primrec emit_all :: "'d layer list \<Rightarrow> (int \<times> 'd stream_chunk) list \<Rightarrow> 'd channel_stream \<Rightarrow> 'd channel_stream option" where
  "emit_all ls [] s = Some s"
| "emit_all ls (x # xs) s =
     (case layered_Emit ls (fst x) None True (snd x) s of Some (None, s') \<Rightarrow> emit_all ls xs s' | _ \<Rightarrow> None)"

definition chunks_emitted :: "string \<Rightarrow> 'd layer list \<Rightarrow> (int \<times> 'd stream_chunk) list \<Rightarrow> 'd stream_chunk list" where
  "chunks_emitted mode ls xs = concat (map (\<lambda>(now, c). case emit_view ls c of None \<Rightarrow> [] | Some c' \<Rightarrow> [stamp now mode c']) xs)"

lemma chunks_emitted_simps:
  "chunks_emitted mode ls [] = []"
  "chunks_emitted mode ls (x # xs) =
     (case emit_view ls (snd x) of None \<Rightarrow> [] | Some c \<Rightarrow> [stamp (fst x) mode c]) @ chunks_emitted mode ls xs"
  by (simp_all add: chunks_emitted_def case_prod_unfold)

lemma emit_all_buffer:
  assumes "\<not> cst_closed s" "\<not> ec_closed (cst_ch s)" "length (ec_buf (cst_ch s)) + length xs \<le> ec_cap (cst_ch s)"
  shows "\<exists>s'. emit_all ls xs s = Some s' \<and> ec_buf (cst_ch s') = ec_buf (cst_ch s) @ chunks_emitted (cst_mode s) ls xs
    \<and> \<not> cst_closed s'"
  using assms
proof (induction xs arbitrary: s)
  case (Cons x xs)
  let ?s = "case emit_view ls (snd x) of None \<Rightarrow> s
      | Some c' \<Rightarrow> s\<lparr>cst_ch := (cst_ch s)\<lparr>ec_buf := ec_buf (cst_ch s) @ [stamp (fst x) (cst_mode s) c']\<rparr>\<rparr>"
  have "layered_Emit ls (fst x) None True (snd x) s = Some (None, ?s)" using Cons.prems by (simp add: layered_Emit_view)
  moreover have "\<exists>s'. emit_all ls xs ?s = Some s' \<and> ec_buf (cst_ch s') = ec_buf (cst_ch ?s) @ chunks_emitted (cst_mode ?s) ls xs \<and> \<not> cst_closed s'"
    using Cons.prems by (intro Cons.IH) (auto split: option.split)
  moreover have "cst_mode ?s = cst_mode s" by (simp split: option.split)
  ultimately show ?case by (auto simp: chunks_emitted_simps split: option.splits)
qed (simp add: chunks_emitted_simps)

text \<open>
  Chunks that are emitted through layers with room in the buffer, and read back through layers after the stream was closed, come back
  in order; each layer has acted once on the way in and once on the way out.
\<close>

lemma layered_roundtrip:
  assumes "length xs \<le> bufferSize"
  obtains s st where "emit_all ins xs (NewChannelStream mode bufferSize) = Some s"
    "read_calls outs (length (layer_view outs (chunks_emitted mode ins xs)) + k) (Iterator (cst_Close s))
     = Some (map Inr (layer_view outs (chunks_emitted mode ins xs)) @ replicate k (Inl EOF), st)"
proof -
  obtain s where s: "emit_all ins xs (NewChannelStream mode bufferSize) = Some s" "ec_buf (cst_ch s) = chunks_emitted mode ins xs" "\<not> cst_closed s"
    using emit_all_buffer [of "NewChannelStream mode bufferSize" xs ins] assms by (auto simp: NewChannelStream_def make_chan_def)
  have "reading (length outs) (Iterator (cst_Close s))" "ec_closed (cst_ch (is_stream (Iterator (cst_Close s))))"
    "pending (Iterator (cst_Close s)) = chunks_emitted mode ins xs"
    using s(2,3) by (simp_all add: reading_def Iterator_def cst_Close_def)
  then show ?thesis using read_calls_closed [of outs "Iterator (cst_Close s)" k] s(1) that by auto
qed

text \<open>
  So a chunk that goes in and out through the same map stream is mapped twice, although the stream is said
  to transform its chunks.
\<close>

lemma map_stream_maps_twice:
  "\<exists>st. Option.bind (emit_all [MapStream (Some f)] [(now, c)] (NewChannelStream mode 1))
       (\<lambda>s. read_calls [MapStream (Some f)] 1 (Iterator (cst_Close s))) = Some ([Inr (f (stamp now mode (f c)))], st)"
proof -
  obtain s st where "emit_all [MapStream (Some f)] [(now, c)] (NewChannelStream mode 1) = Some s"
    "read_calls [MapStream (Some f)] (1 + 0) (Iterator (cst_Close s)) = Some ([Inr (f (stamp now mode (f c)))], st)"
    using layered_roundtrip [of "[(now, c)]" 1 "[MapStream (Some f)]" mode "[MapStream (Some f)]" 0]
    by (auto simp: chunks_emitted_simps mapped_def)
  then show ?thesis by auto
qed

text \<open>
  A stream that is closed between the two halves of \<^verbatim>\<open>Emit\<close> makes the sender panic: the check has passed and
  the channel is closed.
\<close>

lemma Emit_races_with_Close:
  assumes "emit_check s = None"
  shows "emit_send now None pick c (cst_Close s) = Some (Some (GoPanic ''send on closed channel''), cst_Close s)"
  using assms by (simp add: emit_check_def emit_send_def cst_Close_def split: if_splits)

text \<open>\<^verbatim>\<open>HasMore\<close> of a filter may promise a chunk where \<^verbatim>\<open>Next\<close> finds none.\<close>

lemma HasMore_promises_too_much:
  assumes "emit_all [] [(now, c)] (NewChannelStream mode 1) = Some s"
  shows "it_HasMore [FilterStream (Some (\<lambda>_. False))] (Iterator s)
    \<and> it_Next [FilterStream (Some (\<lambda>_. False))] None pick (Iterator s) = None"
proof -
  have s: "ec_buf (cst_ch s) \<noteq> []" "\<not> ec_closed (cst_ch s)"
    using assms by (auto simp: cst_Emit_def emit_check_def emit_send_def NewChannelStream_def make_chan_def)
  have "reading 1 (Iterator s)" by (simp add: reading_def Iterator_def)
  then have "takes (it_Next [FilterStream (Some (\<lambda>_. False))] None pick) (\<lambda>st. layer_view [FilterStream (Some (\<lambda>_. False))] (pending st)) 1 (Iterator s)"
    using it_Next_takes [of "[FilterStream (Some (\<lambda>_. False))]" "Iterator s" pick] by simp
  then show ?thesis using s by (auto simp: takes_def passes_def Iterator_def chan_HasMore_def)
qed

section \<open>Merging streams\<close>

text \<open>
  A \<^verbatim>\<open>DuplexStream\<close> starts one goroutine per source, which moves chunks from the source to the output and tags
  them with the index of the source. Its states: about to take a chunk, holding one, or finished. The sources are channel
  streams. \<^verbatim>\<open>Close\<close> cancels the context, waits for the goroutines and closes all streams; the two halves
  are separate steps.
\<close>

datatype 'd mux = MuxIdle | MuxHolding "'d stream_chunk" | MuxDone

record 'd duplex =
  dx_streams :: "'d channel_stream list"
  dx_muxes :: "'d mux list"
  dx_output :: "'d channel_stream"
  dx_cancelled :: bool

definition NewDuplexStream :: "'d channel_stream list \<Rightarrow> 'd duplex" where
  "NewDuplexStream streams =
     \<lparr>dx_streams = streams, dx_muxes = replicate (length streams) MuxIdle,
      dx_output = NewChannelStream StreamModeValues 100, dx_cancelled = False\<rparr>"

definition dx_ctx :: "'d duplex \<Rightarrow> go_error option" where
  "dx_ctx d = (if dx_cancelled d then Some (ContextErr ''context canceled'') else None)"

definition tag_source :: "nat \<Rightarrow> 'd stream_chunk \<Rightarrow> 'd stream_chunk" where
  "tag_source index chunk = chunk\<lparr>sc_Metadata := gm_put ''source'' (GInt (of_nat index)) (sc_Metadata chunk)\<rparr>"

definition mux_take :: "nat \<Rightarrow> bool \<Rightarrow> 'd duplex \<Rightarrow> 'd duplex option" where
  "mux_take i pick d =
     (if i < length (dx_muxes d) \<and> dx_muxes d ! i = MuxIdle
      then case chan_Next (dx_ctx d) pick False (dx_streams d ! i) of
             None \<Rightarrow> None
           | Some (Inl err, _, s) \<Rightarrow> Some (d\<lparr>dx_muxes := (dx_muxes d)[i := MuxDone], dx_streams := (dx_streams d)[i := s]\<rparr>)
           | Some (Inr chunk, _, s) \<Rightarrow>
               Some (d\<lparr>dx_muxes := (dx_muxes d)[i := MuxHolding (tag_source i chunk)], dx_streams := (dx_streams d)[i := s]\<rparr>)
      else None)"

definition mux_put :: "nat \<Rightarrow> int \<Rightarrow> bool \<Rightarrow> 'd duplex \<Rightarrow> 'd duplex option" where
  "mux_put i now pick d =
     (if i < length (dx_muxes d)
      then case dx_muxes d ! i of
             MuxHolding chunk \<Rightarrow>
               (case cst_Emit now (dx_ctx d) pick chunk (dx_output d) of
                  None \<Rightarrow> None
                | Some (None, out) \<Rightarrow> Some (d\<lparr>dx_muxes := (dx_muxes d)[i := MuxIdle], dx_output := out\<rparr>)
                | Some (Some err, out) \<Rightarrow> Some (d\<lparr>dx_muxes := (dx_muxes d)[i := MuxDone], dx_output := out\<rparr>))
           | _ \<Rightarrow> None
      else None)"

definition dx_cancel :: "'d duplex \<Rightarrow> 'd duplex" where
  "dx_cancel d = d\<lparr>dx_cancelled := True\<rparr>"

definition dx_close :: "'d duplex \<Rightarrow> 'd duplex option" where
  "dx_close d =
     (if dx_cancelled d \<and> (\<forall>m\<in>set (dx_muxes d). m = MuxDone)
      then Some (d\<lparr>dx_streams := map cst_Close (dx_streams d), dx_output := cst_Close (dx_output d)\<rparr>)
      else None)"

text \<open>
  The steps of the goroutines, of the clients that emit into a source or close it, and of the reader of the
  output. Histories record what went into each source and what the reader got.
\<close>

datatype 'd dx_event =
    EmitTo nat int "'d stream_chunk" | CloseSource nat | Take nat bool | Put nat int bool | Read | CancelAll | CloseAll

record 'd dx_system =
  ds_duplex :: "'d duplex"
  ds_in :: "nat \<Rightarrow> 'd stream_chunk list"
  ds_out :: "'d stream_chunk list"

definition dx_emit_to :: "nat \<Rightarrow> int \<Rightarrow> 'd stream_chunk \<Rightarrow> 'd dx_system \<Rightarrow> 'd dx_system option" where
  "dx_emit_to i now c s =
     (let d = ds_duplex s
      in if i < length (dx_streams d)
         then case cst_Emit now None True c (dx_streams d ! i) of
                None \<Rightarrow> None
              | Some (Some err, _) \<Rightarrow> Some s
              | Some (None, st) \<Rightarrow>
                  Some (s\<lparr>ds_duplex := d\<lparr>dx_streams := (dx_streams d)[i := st]\<rparr>, ds_in := (ds_in s)(i := ds_in s i @ [c])\<rparr>)
         else None)"

definition dx_read :: "'d dx_system \<Rightarrow> 'd dx_system option" where
  "dx_read s =
     (let d = ds_duplex s
      in case chan_Next None True False (dx_output d) of
           None \<Rightarrow> None
         | Some (Inl err, _, out) \<Rightarrow> Some s
         | Some (Inr c, _, out) \<Rightarrow> Some (s\<lparr>ds_duplex := d\<lparr>dx_output := out\<rparr>, ds_out := ds_out s @ [c]\<rparr>))"

fun dx_step :: "'d dx_event \<Rightarrow> 'd dx_system \<Rightarrow> 'd dx_system option" where
  "dx_step (EmitTo i now c) s = dx_emit_to i now c s"
| "dx_step (CloseSource i) s =
     (if i < length (dx_streams (ds_duplex s))
      then Some (s\<lparr>ds_duplex := (ds_duplex s)\<lparr>dx_streams := (dx_streams (ds_duplex s))[i := cst_Close (dx_streams (ds_duplex s) ! i)]\<rparr>\<rparr>)
      else None)"
| "dx_step (Take i pick) s = map_option (\<lambda>d. s\<lparr>ds_duplex := d\<rparr>) (mux_take i pick (ds_duplex s))"
| "dx_step (Put i now pick) s = map_option (\<lambda>d. s\<lparr>ds_duplex := d\<rparr>) (mux_put i now pick (ds_duplex s))"
| "dx_step Read s = dx_read s"
| "dx_step CancelAll s = Some (s\<lparr>ds_duplex := dx_cancel (ds_duplex s)\<rparr>)"
| "dx_step CloseAll s = map_option (\<lambda>d. s\<lparr>ds_duplex := d\<rparr>) (dx_close (ds_duplex s))"

fun dx_run :: "'d dx_event list \<Rightarrow> 'd dx_system \<Rightarrow> 'd dx_system option" where
  "dx_run [] s = Some s"
| "dx_run (e # es) s = Option.bind (dx_step e s) (dx_run es)"

definition new_duplex :: "(string \<times> nat) list \<Rightarrow> 'd dx_system" where
  "new_duplex confs =
     \<lparr>ds_duplex = NewDuplexStream (map (\<lambda>(mode, n). NewChannelStream mode n) confs), ds_in = (\<lambda>_. []), ds_out = []\<rparr>"

text \<open>What merging keeps of a chunk, and the chunks of one source among those that came out.\<close>

definition core :: "'d stream_chunk \<Rightarrow> 'd \<times> int \<times> string \<times> int" where
  "core c = (sc_Data c, sc_Step c, sc_Node c, sc_Index c)"

definition from_source :: "nat \<Rightarrow> 'd stream_chunk list \<Rightarrow> 'd stream_chunk list" where
  "from_source i = filter (\<lambda>c. map_of (sc_Metadata c) ''source'' = Some (GInt (of_nat i)))"

definition held :: "'d mux \<Rightarrow> 'd stream_chunk list" where
  "held m = (case m of MuxHolding c \<Rightarrow> [c] | _ \<Rightarrow> [])"

definition moved :: "nat \<Rightarrow> 'd dx_system \<Rightarrow> 'd stream_chunk list" where
  "moved i s = from_source i (ds_out s @ ec_buf (cst_ch (dx_output (ds_duplex s)))) @ held (dx_muxes (ds_duplex s) ! i)"

lemma of_nat_GInt_inject: "i < 2 ^ 64 \<Longrightarrow> j < 2 ^ 64 \<Longrightarrow> GInt (of_nat i) = GInt (of_nat j) \<longleftrightarrow> i = j"
  by (simp add: word_of_nat_eq_iff take_bit_nat_eq_self)

definition merged_ok :: "'d dx_system \<Rightarrow> nat \<Rightarrow> bool" where
  "merged_ok s i \<longleftrightarrow>
     (\<exists>lost. map core (ds_in s i) = map core (moved i s) @ lost @ map core (ec_buf (cst_ch (dx_streams (ds_duplex s) ! i)))
        \<and> (lost \<noteq> [] \<longrightarrow> dx_cancelled (ds_duplex s) \<and> dx_muxes (ds_duplex s) ! i = MuxDone))
     \<and> (\<forall>c. dx_muxes (ds_duplex s) ! i = MuxHolding c \<longrightarrow> map_of (sc_Metadata c) ''source'' = Some (GInt (of_nat i)))"

definition duplex_inv :: "nat \<Rightarrow> 'd dx_system \<Rightarrow> bool" where
  "duplex_inv n s \<longleftrightarrow>
     length (dx_streams (ds_duplex s)) = n \<and> length (dx_muxes (ds_duplex s)) = n
     \<and> (\<not> dx_cancelled (ds_duplex s) \<longrightarrow>
          \<not> cst_closed (dx_output (ds_duplex s)) \<and> \<not> ec_closed (cst_ch (dx_output (ds_duplex s))))
     \<and> (\<forall>i<n. merged_ok s i)"

lemma core_simps [simp]: "core (stamp now mode c) = core c" "core (tag_source i c) = core c"
  by (simp_all add: core_def stamp_def tag_source_def)

lemma stamp_Metadata [simp]: "sc_Metadata (stamp now mode c) = sc_Metadata c"
  by (simp add: stamp_def)

lemma from_source_append [simp]: "from_source i (xs @ ys) = from_source i xs @ from_source i ys"
  by (simp add: from_source_def)

lemma held_simps [simp]: "held MuxIdle = []" "held (MuxHolding c) = [c]" "held MuxDone = []"
  by (simp_all add: held_def)

text \<open>What the two calls on a channel can do.\<close>

lemma cst_Emit_cases:
  assumes "cst_Emit now ctx pick c s = Some (r, s')"
  obtains (sent) "r = None" "\<not> cst_closed s" "\<not> ec_closed (cst_ch s)"
      "s' = s\<lparr>cst_ch := (cst_ch s)\<lparr>ec_buf := ec_buf (cst_ch s) @ [stamp now (cst_mode s) c]\<rparr>\<rparr>"
    | (failed) err where "r = Some err" "s' = s" "ctx \<noteq> None \<or> cst_closed s \<or> ec_closed (cst_ch s)"
proof (cases "cst_closed s")
  case True
  then have "r = Some (Errorf (StreamError [] ''stream is closed''))" "s' = s"
    using assms by (simp_all add: cst_Emit_def emit_check_def)
  then show ?thesis using True failed by blast
next
  case open_stream: False
  then have send: "emit_send now ctx pick c s = Some (r, s')" using assms by (simp add: cst_Emit_def emit_check_def)
  show ?thesis
  proof (cases "(ec_closed (cst_ch s) \<or> length (ec_buf (cst_ch s)) < ec_cap (cst_ch s)) \<and> (ctx = None \<or> pick)")
    case True
    show ?thesis
    proof (cases "ec_closed (cst_ch s)")
      case ch: True
      then have "r = Some (GoPanic ''send on closed channel'')" "s' = s"
        using send True by (simp_all add: emit_send_def Let_def)
      then show ?thesis using ch failed by blast
    next
      case ch: False
      then have "r = None" "s' = s\<lparr>cst_ch := (cst_ch s)\<lparr>ec_buf := ec_buf (cst_ch s) @ [stamp now (cst_mode s) c]\<rparr>\<rparr>"
        using send True by (simp_all add: emit_send_def Let_def)
      then show ?thesis using ch open_stream sent by blast
    qed
  next
    case False
    have "emit_send now ctx pick c s = (case ctx of None \<Rightarrow> None | Some err \<Rightarrow> Some (Some err, s))"
      unfolding emit_send_def Let_def if_not_P [OF False] by simp
    then obtain err where "ctx = Some err" "r = Some err" "s' = s" using send by (cases ctx) auto
    then show ?thesis using failed by blast
  qed
qed

lemma chan_Next_cases:
  assumes "chan_Next ctx pick False s = Some (r, fin, s')"
  obtains (got) c where "r = Inr c" "ec_buf (cst_ch s) = c # ec_buf (cst_ch s')"
      "cst_closed s' = cst_closed s" "ec_closed (cst_ch s') = ec_closed (cst_ch s)"
    | (failed) err where "r = Inl err" "s' = s"
proof (cases "(ec_buf (cst_ch s) \<noteq> [] \<or> ec_closed (cst_ch s)) \<and> (ctx = None \<or> pick)")
  case True
  show ?thesis
  proof (cases "ec_buf (cst_ch s)")
    case Nil
    then have "r = Inl EOF" "s' = s" using assms True by (simp_all add: chan_Next_def)
    then show ?thesis using failed by blast
  next
    case (Cons c rest)
    then have "r = Inr c" "s' = s\<lparr>cst_ch := (cst_ch s)\<lparr>ec_buf := rest\<rparr>\<rparr>" using assms True by (simp_all add: chan_Next_def)
    then show ?thesis using got [of c] Cons by simp
  qed
next
  case False
  have "chan_Next ctx pick False s = (case ctx of None \<Rightarrow> None | Some err \<Rightarrow> Some (Inl err, False, s))"
    unfolding chan_Next_def Let_def if_not_P [OF False] by simp
  then obtain err where "r = Inl err" "s' = s" using assms by (cases ctx) auto
  then show ?thesis using failed by blast
qed

lemma merged_ok_same:
  assumes "merged_ok s j" "ds_in s' j = ds_in s j" "moved j s' = moved j s"
    "ec_buf (cst_ch (dx_streams (ds_duplex s') ! j)) = ec_buf (cst_ch (dx_streams (ds_duplex s) ! j))"
    "dx_muxes (ds_duplex s') ! j = dx_muxes (ds_duplex s) ! j" "dx_cancelled (ds_duplex s) \<longrightarrow> dx_cancelled (ds_duplex s')"
  shows "merged_ok s' j"
  using assms unfolding merged_ok_def by auto

lemma emit_to_inv:
  assumes "duplex_inv n s" "dx_emit_to i now c s = Some s'"
  shows "duplex_inv n s'"
proof -
  let ?d = "ds_duplex s"
  have i: "i < n" using assms by (auto simp: dx_emit_to_def duplex_inv_def Let_def split: if_splits)
  obtain r st where e: "cst_Emit now None True c (dx_streams ?d ! i) = Some (r, st)"
    using assms(2) by (auto simp: dx_emit_to_def Let_def split: if_splits option.splits)
  from e show ?thesis
  proof (cases rule: cst_Emit_cases)
    case sent
    have s': "s' = s\<lparr>ds_duplex := ?d\<lparr>dx_streams := (dx_streams ?d)[i := st]\<rparr>, ds_in := (ds_in s)(i := ds_in s i @ [c])\<rparr>"
      using assms e sent(1) by (auto simp: dx_emit_to_def Let_def split: if_splits)
    have "merged_ok s' j" if "j < n" for j
    proof (cases "j = i")
      case True
      have "merged_ok s i" "i < length (dx_streams ?d)" using assms(1) i by (auto simp: duplex_inv_def)
      then show ?thesis using True sent by (auto simp: s' merged_ok_def moved_def)
    next
      case False
      have "merged_ok s j" using assms(1) that by (simp add: duplex_inv_def)
      then show ?thesis by (rule merged_ok_same) (use False in \<open>simp_all add: s' moved_def\<close>)
    qed
    then show ?thesis using assms(1) by (simp add: duplex_inv_def s')
  next
    case failed
    then have "s' = s" using assms e by (auto simp: dx_emit_to_def Let_def split: if_splits)
    then show ?thesis using assms by simp
  qed
qed

lemma close_source_inv:
  assumes "duplex_inv n s" "dx_step (CloseSource i) s = Some s'"
  shows "duplex_inv n s'"
proof -
  let ?d = "ds_duplex s"
  have i: "i < length (dx_streams ?d)"
    and s': "s' = s\<lparr>ds_duplex := ?d\<lparr>dx_streams := (dx_streams ?d)[i := cst_Close (dx_streams ?d ! i)]\<rparr>\<rparr>"
    using assms(2) by (simp_all split: if_splits)
  have "merged_ok s' j" if "j < n" for j
  proof -
    have "merged_ok s j" using assms(1) that by (simp add: duplex_inv_def)
    then show ?thesis by (rule merged_ok_same) (use i in \<open>simp_all add: s' moved_def cst_Close_def nth_list_update\<close>)
  qed
  then show ?thesis using assms(1) by (simp add: duplex_inv_def s')
qed

lemma take_inv:
  assumes "duplex_inv n s" "mux_take i pick (ds_duplex s) = Some d'"
  shows "duplex_inv n (s\<lparr>ds_duplex := d'\<rparr>)"
proof -
  let ?d = "ds_duplex s" and ?s' = "s\<lparr>ds_duplex := d'\<rparr>"
  have i: "i < n" and idle: "dx_muxes ?d ! i = MuxIdle" using assms by (auto simp: mux_take_def duplex_inv_def split: if_splits)
  have len: "length (dx_streams ?d) = n" "length (dx_muxes ?d) = n" using assms(1) by (auto simp: duplex_inv_def)
  have ok: "merged_ok s j" if "j < n" for j using assms(1) that by (simp add: duplex_inv_def)
  obtain r fin st where e: "chan_Next (dx_ctx ?d) pick False (dx_streams ?d ! i) = Some (r, fin, st)"
    using assms(2) by (auto simp: mux_take_def split: if_splits option.splits)
  from e have "\<exists>m. d' = ?d\<lparr>dx_muxes := (dx_muxes ?d)[i := m], dx_streams := (dx_streams ?d)[i := st]\<rparr>
      \<and> merged_ok ?s' i"
  proof (cases rule: chan_Next_cases)
    case (got c)
    have d': "d' = ?d\<lparr>dx_muxes := (dx_muxes ?d)[i := MuxHolding (tag_source i c)], dx_streams := (dx_streams ?d)[i := st]\<rparr>"
      using assms(2) i idle e got(1) len by (simp add: mux_take_def)
    have "merged_ok ?s' i"
      using ok [OF i] idle got(2) i len by (simp add: merged_ok_def moved_def d' tag_source_def gomap_simps core_def)
    then show ?thesis using d' by blast
  next
    case (failed err)
    have d': "d' = ?d\<lparr>dx_muxes := (dx_muxes ?d)[i := MuxDone], dx_streams := (dx_streams ?d)[i := st]\<rparr>"
      using assms(2) i idle e failed(1) len by (simp add: mux_take_def)
    have "merged_ok ?s' i" using ok [OF i] idle failed(2) i len by (simp add: merged_ok_def moved_def d')
    then show ?thesis using d' by blast
  qed
  then obtain m where d': "d' = ?d\<lparr>dx_muxes := (dx_muxes ?d)[i := m], dx_streams := (dx_streams ?d)[i := st]\<rparr>"
    and oi: "merged_ok ?s' i" by blast
  have "merged_ok ?s' j" if "j < n" for j
  proof (cases "j = i")
    case False
    show ?thesis using ok [OF that] by (rule merged_ok_same) (use False in \<open>simp_all add: d' moved_def\<close>)
  qed (use oi in simp)
  then show ?thesis using assms(1) by (simp add: duplex_inv_def d')
qed

lemma put_inv:
  assumes "duplex_inv n s" "n \<le> 2 ^ 64" "mux_put i now pick (ds_duplex s) = Some d'"
  shows "duplex_inv n (s\<lparr>ds_duplex := d'\<rparr>)"
proof -
  let ?d = "ds_duplex s" and ?s' = "s\<lparr>ds_duplex := d'\<rparr>"
  have len: "length (dx_streams ?d) = n" "length (dx_muxes ?d) = n" using assms(1) by (auto simp: duplex_inv_def)
  have ok: "merged_ok s j" if "j < n" for j using assms(1) that by (simp add: duplex_inv_def)
  obtain c where i: "i < n" and hold: "dx_muxes ?d ! i = MuxHolding c"
    using assms(3) len by (auto simp: mux_put_def split: if_splits mux.splits)
  have tag: "map_of (sc_Metadata c) ''source'' = Some (GInt (of_nat i))" using ok [OF i] hold by (simp add: merged_ok_def)
  obtain r out where e: "cst_Emit now (dx_ctx ?d) pick c (dx_output ?d) = Some (r, out)"
    using assms(3) hold i len by (cases "cst_Emit now (dx_ctx ?d) pick c (dx_output ?d)") (auto simp: mux_put_def)
  from e show ?thesis
  proof (cases rule: cst_Emit_cases)
    case sent
    have d': "d' = ?d\<lparr>dx_muxes := (dx_muxes ?d)[i := MuxIdle], dx_output := out\<rparr>"
      using assms(3) i hold e sent(1) len by (simp add: mux_put_def)
    have "merged_ok ?s' j" if "j < n" for j
    proof (cases "j = i")
      case True
      then show ?thesis using ok [OF i] hold i len tag sent(4) by (simp add: merged_ok_def moved_def d' from_source_def)
    next
      case False
      have "from_source j [stamp now (cst_mode (dx_output ?d)) c] = []"
        using tag False i that assms(2) of_nat_GInt_inject [of i j] by (simp add: from_source_def)
      then show ?thesis using False
        by - (rule merged_ok_same [OF ok [OF that]], simp_all add: d' moved_def sent(4))
    qed
    then show ?thesis using assms(1) sent by (simp add: duplex_inv_def d')
  next
    case (failed err)
    have d': "d' = ?d\<lparr>dx_muxes := (dx_muxes ?d)[i := MuxDone], dx_output := out\<rparr>"
      using assms(3) i hold e failed(1) len by (simp add: mux_put_def)
    have canc: "dx_cancelled ?d" using failed(3) assms(1) by (auto simp: dx_ctx_def duplex_inv_def split: if_splits)
    have "merged_ok ?s' j" if "j < n" for j
    proof (cases "j = i")
      case True
      then show ?thesis using ok [OF i] hold i len canc failed(2) by (simp add: merged_ok_def moved_def d')
    next
      case False
      then show ?thesis by - (rule merged_ok_same [OF ok [OF that]], simp_all add: d' moved_def failed(2))
    qed
    then show ?thesis using assms(1) failed by (simp add: duplex_inv_def d')
  qed
qed

lemma read_inv:
  assumes "duplex_inv n s" "dx_read s = Some s'"
  shows "duplex_inv n s'"
proof -
  let ?d = "ds_duplex s"
  have ok: "merged_ok s j" if "j < n" for j using assms(1) that by (simp add: duplex_inv_def)
  obtain r fin out where e: "chan_Next None True False (dx_output ?d) = Some (r, fin, out)"
    using assms(2) by (cases "chan_Next None True False (dx_output ?d)") (auto simp: dx_read_def)
  from e show ?thesis
  proof (cases rule: chan_Next_cases)
    case (got c)
    have s': "s' = s\<lparr>ds_duplex := ?d\<lparr>dx_output := out\<rparr>, ds_out := ds_out s @ [c]\<rparr>"
      using assms(2) e got(1) by (simp add: dx_read_def)
    have "merged_ok s' j" if "j < n" for j
      using got(2) by - (rule merged_ok_same [OF ok [OF that]], simp_all add: s' moved_def from_source_def)
    then show ?thesis using assms(1) got by (simp add: duplex_inv_def s')
  next
    case (failed err)
    then have "s' = s" using assms(2) e by (simp add: dx_read_def)
    then show ?thesis using assms by simp
  qed
qed

lemma close_inv:
  assumes "duplex_inv n s" "dx_close (ds_duplex s) = Some d'"
  shows "duplex_inv n (s\<lparr>ds_duplex := d'\<rparr>)"
proof -
  let ?d = "ds_duplex s"
  have d': "dx_cancelled ?d" "d' = ?d\<lparr>dx_streams := map cst_Close (dx_streams ?d), dx_output := cst_Close (dx_output ?d)\<rparr>"
    using assms(2) by (simp_all add: dx_close_def split: if_splits)
  have len: "length (dx_streams ?d) = n" using assms(1) by (simp add: duplex_inv_def)
  have "merged_ok (s\<lparr>ds_duplex := d'\<rparr>) j" if "j < n" for j
  proof -
    have "merged_ok s j" using assms(1) that by (simp add: duplex_inv_def)
    then show ?thesis by (rule merged_ok_same) (use that len in \<open>simp_all add: d'(2) moved_def cst_Close_def\<close>)
  qed
  then show ?thesis using assms(1) d' by (simp add: duplex_inv_def)
qed

lemma cancel_inv: "duplex_inv n s \<Longrightarrow> duplex_inv n (s\<lparr>ds_duplex := dx_cancel (ds_duplex s)\<rparr>)"
  unfolding duplex_inv_def by (auto simp: dx_cancel_def moved_def intro: merged_ok_same [of s])

lemma dx_step_inv:
  assumes "duplex_inv n s" "n \<le> 2 ^ 64" "dx_step e s = Some s'"
  shows "duplex_inv n s'"
proof (cases e)
  case (EmitTo i now c)
  then show ?thesis using assms emit_to_inv by simp
next
  case (CloseSource i)
  then show ?thesis using assms close_source_inv by metis
qed (use assms take_inv put_inv read_inv close_inv cancel_inv in auto)

lemma dx_run_inv: "duplex_inv n s \<Longrightarrow> n \<le> 2 ^ 64 \<Longrightarrow> dx_run es s = Some s' \<Longrightarrow> duplex_inv n s'"
proof (induction es arbitrary: s)
  case (Cons e es)
  then obtain a where "dx_step e s = Some a" "dx_run es a = Some s'" by (cases "dx_step e s") auto
  then show ?case using dx_step_inv [OF Cons.prems(1,2)] Cons.IH [of a] Cons.prems(2) by blast
qed simp

lemma new_duplex_inv: "duplex_inv (length confs) (new_duplex confs)"
  by (auto simp: duplex_inv_def new_duplex_def NewDuplexStream_def NewChannelStream_def make_chan_def merged_ok_def moved_def
      from_source_def split: prod.split)

text \<open>
  Merging, in every interleaving: the reader gets the chunks of each source in the order in which they were
  emitted, none twice and none invented; until the stream is closed nothing is lost, so that what was emitted into a source is
  what came out of it, what waits in the output, the chunk in hand and what waits in the source.
\<close>

lemma duplex_in_order:
  assumes "dx_run es (new_duplex confs) = Some s" and "length confs \<le> 2 ^ 64" and "i < length confs"
  shows "\<exists>rest. map core (ds_in s i) = map core (from_source i (ds_out s)) @ rest"
    and "\<not> dx_cancelled (ds_duplex s) \<Longrightarrow>
      map core (ds_in s i) = map core (moved i s @ ec_buf (cst_ch (dx_streams (ds_duplex s) ! i)))"
proof -
  have "merged_ok s i" using dx_run_inv [OF new_duplex_inv assms(2,1)] assms(3) by (simp add: duplex_inv_def)
  then obtain lost where l: "map core (ds_in s i) = map core (moved i s) @ lost @ map core (ec_buf (cst_ch (dx_streams (ds_duplex s) ! i)))"
    "lost \<noteq> [] \<longrightarrow> dx_cancelled (ds_duplex s)" by (auto simp: merged_ok_def)
  then show "\<exists>rest. map core (ds_in s i) = map core (from_source i (ds_out s)) @ rest" by (simp add: moved_def)
  show "\<not> dx_cancelled (ds_duplex s) \<Longrightarrow>
      map core (ds_in s i) = map core (moved i s @ ec_buf (cst_ch (dx_streams (ds_duplex s) ! i)))"
    using l by auto
qed

text \<open>
  The end of the sources does not end the output. As long as nobody closes the duplex stream itself, its reader blocks once
  the output is empty, also when all sources are closed and drained.
\<close>

lemma duplex_never_ends:
  assumes "dx_run es (new_duplex confs) = Some s" "length confs \<le> 2 ^ 64" "\<not> dx_cancelled (ds_duplex s)"
    and "ec_buf (cst_ch (dx_output (ds_duplex s))) = []"
  shows "dx_read s = None"
proof -
  have "\<not> ec_closed (cst_ch (dx_output (ds_duplex s)))"
    using dx_run_inv [OF new_duplex_inv assms(2,1)] assms(3) by (simp add: duplex_inv_def)
  then show ?thesis using assms(4) by (simp add: dx_read_def chan_Next_def)
qed

end
