(* ===== verification/Message_Streams.thy ===== *)
theory Message_Streams
  imports Chunk_Streams
begin

text \<open>
  Streaming of model messages (\<^verbatim>\<open>pregel/messages.go\<close>): the handler that assembles chunks into messages per
  node, the aggregator that hands finished messages to emitters, the emitters, and the conversion between node outputs
  and chunks.

  An emitter acts on a world, its last argument. An absent map and an empty one are the
  same here; the code tells them apart nowhere. The name inside a stream is its key and is left out. A finished message is not changed any more, so the
  handler, the aggregator and the emitters can share it.
\<close>

section \<open>Chunks, streams and the aggregator\<close>

record tool_call =
  tc_ID :: string
  tc_Name :: string
  tc_Arguments :: "goval gomap"

record message_chunk =
  mc_Index :: nat
  mc_Content :: string
  mc_Metadata :: "goval gomap"
  mc_IsComplete :: bool
  mc_Role :: string
  mc_ToolCalls :: "tool_call list"

record message_stream =
  ms_chunks :: "message_chunk list"
  ms_current :: "message_chunk option"
  ms_closed :: bool

type_synonym flush_trigger = int

definition FlushOnComplete :: flush_trigger where "FlushOnComplete = 0"
definition FlushImmediate :: flush_trigger where "FlushImmediate = 1"
definition FlushOnEnd :: flush_trigger where "FlushOnEnd = 2"

type_synonym 'w emitter = "string \<Rightarrow> message_chunk \<Rightarrow> 'w \<Rightarrow> go_error option \<times> 'w"

record 'w message_aggregator =
  ag_messages :: "message_chunk list gomap"
  ag_emitters :: "'w emitter list"

definition NewMessageAggregator :: "'w message_aggregator" where
  "NewMessageAggregator = \<lparr>ag_messages = [], ag_emitters = []\<rparr>"

definition chunks_at :: "message_chunk list gomap \<Rightarrow> string \<Rightarrow> message_chunk list" where
  "chunks_at m node = (case map_of m node of None \<Rightarrow> [] | Some cs \<Rightarrow> cs)"

definition ag_AddMessage :: "string \<Rightarrow> message_chunk \<Rightarrow> 'w message_aggregator \<Rightarrow> 'w message_aggregator" where
  "ag_AddMessage node chunk a = a\<lparr>ag_messages := gm_put node (chunks_at (ag_messages a) node @ [chunk]) (ag_messages a)\<rparr>"

definition ag_AddEmitter :: "'w emitter \<Rightarrow> 'w message_aggregator \<Rightarrow> 'w message_aggregator" where
  "ag_AddEmitter emitter a = a\<lparr>ag_emitters := ag_emitters a @ [emitter]\<rparr>"

text \<open>The three loops of \<^verbatim>\<open>Flush\<close>, the innermost first. A node is deleted once all of its messages are out.\<close>

fun emit_to_all :: "'w emitter list \<Rightarrow> string \<Rightarrow> message_chunk \<Rightarrow> 'w \<Rightarrow> go_error option \<times> 'w" where
  "emit_to_all [] node chunk w = (None, w)"
| "emit_to_all (e # es) node chunk w =
     (case e node chunk w of (Some err, w') \<Rightarrow> (Some err, w') | (None, w') \<Rightarrow> emit_to_all es node chunk w')"

fun emit_chunks :: "'w emitter list \<Rightarrow> string \<Rightarrow> message_chunk list \<Rightarrow> 'w \<Rightarrow> go_error option \<times> 'w" where
  "emit_chunks es node [] w = (None, w)"
| "emit_chunks es node (c # cs) w =
     (case emit_to_all es node c w of (Some err, w') \<Rightarrow> (Some err, w') | (None, w') \<Rightarrow> emit_chunks es node cs w')"

fun flush_loop ::
  "'w emitter list \<Rightarrow> message_chunk list gomap \<Rightarrow> message_chunk list gomap \<Rightarrow> 'w \<Rightarrow> go_error option \<times> message_chunk list gomap \<times> 'w" where
  "flush_loop es [] m w = (None, m, w)"
| "flush_loop es ((node, chunks) # rest) m w =
     (case emit_chunks es node chunks w of
        (Some err, w') \<Rightarrow> (Some err, m, w')
      | (None, w') \<Rightarrow> flush_loop es rest (gm_del node m) w')"

definition ag_Flush :: "'w message_aggregator \<Rightarrow> 'w \<Rightarrow> go_error option \<times> 'w message_aggregator \<times> 'w" where
  "ag_Flush a w =
     (let (err, m, w') = flush_loop (ag_emitters a) (ag_messages a) (ag_messages a) w
      in (err, a\<lparr>ag_messages := m\<rparr>, w'))"

section \<open>The handler\<close>

record 'w messages_handler =
  mh_streams :: "message_stream gomap"
  mh_aggregator :: "'w message_aggregator"
  mh_flushTrigger :: flush_trigger

definition NewStreamMessagesHandler :: "('w messages_handler \<Rightarrow> 'w messages_handler) list \<Rightarrow> 'w messages_handler" where
  "NewStreamMessagesHandler opts =
     fold (\<lambda>opt h. opt h) opts
       \<lparr>mh_streams = [], mh_aggregator = NewMessageAggregator, mh_flushTrigger = FlushOnComplete\<rparr>"

definition WithFlushTrigger :: "flush_trigger \<Rightarrow> 'w messages_handler \<Rightarrow> 'w messages_handler" where
  "WithFlushTrigger trigger h = h\<lparr>mh_flushTrigger := trigger\<rparr>"

definition mh_Flush :: "'w messages_handler \<Rightarrow> 'w \<Rightarrow> go_error option \<times> 'w messages_handler \<times> 'w" where
  "mh_Flush h w = (let (err, a, w') = ag_Flush (mh_aggregator h) w in (err, h\<lparr>mh_aggregator := a\<rparr>, w'))"

definition mh_AddEmitter :: "'w emitter \<Rightarrow> 'w messages_handler \<Rightarrow> 'w messages_handler" where
  "mh_AddEmitter emitter h = h\<lparr>mh_aggregator := ag_AddEmitter emitter (mh_aggregator h)\<rparr>"

text \<open>What \<^verbatim>\<open>OnChunk\<close> does to the message being assembled.\<close>

definition merge_chunk :: "message_chunk \<Rightarrow> message_chunk \<Rightarrow> message_chunk" where
  "merge_chunk current chunk =
     current\<lparr>mc_Content := mc_Content current @ mc_Content chunk,
       mc_Metadata := gm_merge (mc_Metadata current) (mc_Metadata chunk),
       mc_Role := (if mc_Role chunk \<noteq> [] then mc_Role chunk else mc_Role current),
       mc_ToolCalls := (if length (mc_ToolCalls chunk) > 0 then mc_ToolCalls current @ mc_ToolCalls chunk else mc_ToolCalls current)\<rparr>"

definition new_chunk :: "nat \<Rightarrow> message_chunk" where
  "new_chunk index =
     \<lparr>mc_Index = index, mc_Content = [], mc_Metadata = [], mc_IsComplete = False, mc_Role = [], mc_ToolCalls = []\<rparr>"

text \<open>Moving the assembled message to the finished ones and to the aggregator.\<close>

definition finish_message :: "string \<Rightarrow> message_chunk \<Rightarrow> message_stream \<Rightarrow> 'w messages_handler \<Rightarrow> 'w messages_handler" where
  "finish_message node current ms h =
     (let chunk = current\<lparr>mc_IsComplete := True\<rparr>
      in h\<lparr>mh_streams := gm_put node (ms\<lparr>ms_chunks := ms_chunks ms @ [chunk], ms_current := None\<rparr>) (mh_streams h),
           mh_aggregator := ag_AddMessage node chunk (mh_aggregator h)\<rparr>)"

definition OnChunk ::
  "string \<Rightarrow> message_chunk \<Rightarrow> 'w messages_handler \<Rightarrow> 'w \<Rightarrow> go_error option \<times> 'w messages_handler \<times> 'w" where
  "OnChunk node chunk h w =
     (let ms = (case map_of (mh_streams h) node of
                  None \<Rightarrow> \<lparr>ms_chunks = [], ms_current = None, ms_closed = False\<rparr> | Some ms \<Rightarrow> ms);
          h = h\<lparr>mh_streams := gm_put node ms (mh_streams h)\<rparr>
      in if ms_closed ms then (Some (Errorf (''stream for node '' @ node @ '' is closed'')), h, w)
         else let current = (case ms_current ms of
                               None \<Rightarrow> new_chunk (length (ms_chunks ms))
                             | Some c \<Rightarrow> if mc_IsComplete c then new_chunk (length (ms_chunks ms)) else c);
                  current = merge_chunk current chunk
              in if mc_IsComplete chunk
                 then let h = finish_message node current ms h
                      in if mh_flushTrigger h = FlushOnComplete then mh_Flush h w else (None, h, w)
                 else let h = h\<lparr>mh_streams := gm_put node (ms\<lparr>ms_current := Some current\<rparr>) (mh_streams h)\<rparr>
                      in if mh_flushTrigger h = FlushImmediate then mh_Flush h w else (None, h, w))"

definition OnComplete :: "string \<Rightarrow> 'w messages_handler \<Rightarrow> 'w \<Rightarrow> go_error option \<times> 'w messages_handler \<times> 'w" where
  "OnComplete node h w =
     (case map_of (mh_streams h) node of
        None \<Rightarrow> (None, h, w)
      | Some ms \<Rightarrow>
          if ms_closed ms then (None, h, w)
          else let ms = ms\<lparr>ms_closed := True\<rparr>;
                   h = (case ms_current ms of
                          None \<Rightarrow> h\<lparr>mh_streams := gm_put node ms (mh_streams h)\<rparr>
                        | Some current \<Rightarrow> finish_message node current ms h)
               in if mh_flushTrigger h = FlushOnEnd then mh_Flush h w else (None, h, w))"

definition mh_GetMessages :: "string \<Rightarrow> 'w messages_handler \<Rightarrow> message_chunk list" where
  "mh_GetMessages node h = (case map_of (mh_streams h) node of None \<Rightarrow> [] | Some ms \<Rightarrow> ms_chunks ms)"

definition GetAllMessages :: "'w messages_handler \<Rightarrow> message_chunk list gomap" where
  "GetAllMessages h = fold (\<lambda>(node, ms). gm_put node (ms_chunks ms)) (mh_streams h) []"

fun complete_all :: "string list \<Rightarrow> 'w messages_handler \<Rightarrow> 'w \<Rightarrow> 'w messages_handler \<times> 'w" where
  "complete_all [] h w = (h, w)"
| "complete_all (node # nodes) h w = (let (_, h', w') = OnComplete node h w in complete_all nodes h' w')"

definition mh_Close :: "'w messages_handler \<Rightarrow> 'w \<Rightarrow> go_error option \<times> 'w messages_handler \<times> 'w" where
  "mh_Close h w = (let (h', w') = complete_all (gm_keys (mh_streams h)) h w in mh_Flush h' w')"

section \<open>Emitters and conversions\<close>

datatype chunk_value =
    CV_Val goval
  | CV_Chunk message_chunk
  | CV_Chunks "message_chunk list"
  | CV_ToolCalls "tool_call list"
  | CV_Map "chunk_value gomap"

text \<open>The argument \<open>send\<close> is the \<^verbatim>\<open>Emit\<close> method of the channel stream with the context of the call.\<close>

definition chunk_data :: "string \<Rightarrow> message_chunk \<Rightarrow> chunk_value gomap" where
  "chunk_data node chunk =
     [(''node'', CV_Val (GStr node)), (''role'', CV_Val (GStr (mc_Role chunk))), (''content'', CV_Val (GStr (mc_Content chunk))),
      (''index'', CV_Val (GInt (of_nat (mc_Index chunk)))), (''complete'', CV_Val (GBool (mc_IsComplete chunk)))]
     @ (if length (mc_ToolCalls chunk) > 0 then [(''tool_calls'', CV_ToolCalls (mc_ToolCalls chunk))] else [])
     @ (if length (mc_Metadata chunk) > 0 then [(''metadata'', CV_Val (GMap (mc_Metadata chunk)))] else [])"

definition StreamModeMessages :: string where "StreamModeMessages = ''messages''"

definition StreamToChannel ::
  "(chunk_value stream_chunk \<Rightarrow> 'w \<Rightarrow> go_error option \<times> 'w) \<Rightarrow> 'w emitter" where
  "StreamToChannel send node chunk w =
     send \<lparr>sc_Mode = StreamModeMessages, sc_Data = CV_Map (chunk_data node chunk), sc_Step = 0, sc_Node = node,
           sc_Metadata = [], sc_Timestamp = 0, sc_Index = 0\<rparr> w"

text \<open>\<open>quote\<close> is the verb \<^verbatim>\<open>%q\<close>, \<open>write\<close> the writer.\<close>

definition StreamToWriter ::
  "(string \<Rightarrow> string) \<Rightarrow> (string \<Rightarrow> 'w \<Rightarrow> go_error option \<times> 'w) \<Rightarrow> string \<Rightarrow> 'w emitter" where
  "StreamToWriter quote write format node chunk w =
     (let out = (if format = ''json''
                 then ''{\"node\":\"'' @ node @ ''\",\"role\":\"'' @ mc_Role chunk @ ''\",\"content\":'' @ quote (mc_Content chunk) @ ''}''
                 else if format = ''compact'' then ''['' @ node @ '':'' @ mc_Role chunk @ ''] '' @ mc_Content chunk
                 else mc_Role chunk @ '': '' @ mc_Content chunk)
      in write (out @ nl) w)"

definition CollectToMap :: "message_chunk list gomap emitter" where
  "CollectToMap node chunk target = (None, gm_put node (chunks_at target node @ [chunk]) target)"

fun cv_type :: "chunk_value \<Rightarrow> string" where
  "cv_type (CV_Val g) = fmt_T g"
| "cv_type (CV_Chunk c) = ''*pregel.MessageChunk''"
| "cv_type (CV_Chunks cs) = ''[]*pregel.MessageChunk''"
| "cv_type (CV_ToolCalls ts) = ''[]*pregel.ToolCall''"
| "cv_type (CV_Map m) = ''map[string]interface {}''"

definition cv_map :: "chunk_value \<Rightarrow> chunk_value gomap option" where
  "cv_map v = (case v of CV_Map m \<Rightarrow> Some m | CV_Val (GMap m) \<Rightarrow> Some (map (apsnd CV_Val) m) | _ \<Rightarrow> None)"

definition cv_string :: "chunk_value option \<Rightarrow> string option" where
  "cv_string v = (case v of Some (CV_Val g) \<Rightarrow> as_string g | _ \<Rightarrow> None)"

definition ExtractMessagesFromOutput :: "chunk_value \<Rightarrow> message_chunk list go_result" where
  "ExtractMessagesFromOutput out =
     (case out of
        CV_Chunk chunk \<Rightarrow> Inr [chunk]
      | CV_Chunks chunks \<Rightarrow> Inr chunks
      | _ \<Rightarrow>
          case Option.bind (cv_map out) (\<lambda>m. map_option (\<lambda>content. (m, content)) (cv_string (map_of m ''content''))) of
            Some (m, content) \<Rightarrow>
              Inr [(new_chunk 0)\<lparr>mc_Content := content,
                     mc_Role := (case cv_string (map_of m ''role'') of None \<Rightarrow> ''assistant'' | Some r \<Rightarrow> r)\<rparr>]
          | None \<Rightarrow> Inl (Errorf (''cannot extract messages from output of type '' @ cv_type out)))"

record message_result =
  mr_Name :: string
  mr_Output :: chunk_value
  mr_Err :: "go_error option"

definition ConvertToTaskResult :: "string \<Rightarrow> message_chunk list \<Rightarrow> message_result" where
  "ConvertToTaskResult node chunks =
     (if length chunks = 0 then \<lparr>mr_Name = node, mr_Output = CV_Val GNil, mr_Err = None\<rparr>
      else let merged = foldl merge_chunk (new_chunk 0) chunks
           in \<lparr>mr_Name = node,
               mr_Output = CV_Map ([(''messages'', CV_Chunks [merged]), (''content'', CV_Val (GStr (mc_Content merged))),
                   (''role'', CV_Val (GStr (mc_Role merged)))]
                 @ (if length (mc_ToolCalls merged) > 0 then [(''tool_calls'', CV_ToolCalls (mc_ToolCalls merged))] else [])),
               mr_Err = None\<rparr>)"

text \<open>The wrapper ties a handler to a stream.\<close>

definition NewMessageStreamWrapper ::
  "(chunk_value stream_chunk \<Rightarrow> 'w \<Rightarrow> go_error option \<times> 'w) \<Rightarrow> ('w messages_handler \<Rightarrow> 'w messages_handler) list \<Rightarrow> 'w messages_handler" where
  "NewMessageStreamWrapper send opts = mh_AddEmitter (StreamToChannel send) (NewStreamMessagesHandler opts)"

definition HandleChunk ::
  "string \<Rightarrow> message_chunk \<Rightarrow> 'w messages_handler \<Rightarrow> 'w \<Rightarrow> go_error option \<times> 'w messages_handler \<times> 'w" where
  "HandleChunk node chunk handler w = OnChunk node chunk handler w"

definition HandleComplete :: "string \<Rightarrow> 'w messages_handler \<Rightarrow> 'w \<Rightarrow> go_error option \<times> 'w messages_handler \<times> 'w" where
  "HandleComplete node handler w = OnComplete node handler w"

definition msw_Close :: "'w messages_handler \<Rightarrow> 'w \<Rightarrow> go_error option \<times> 'w messages_handler \<times> 'w" where
  "msw_Close handler w = mh_Close handler w"

section \<open>Messages are delivered whole, once and in order\<close>

text \<open>
  What should come out, without streams and flushes: the chunks of a node fall into groups that end with a
  complete chunk, and each group makes one message.
\<close>

definition whole :: "nat \<Rightarrow> message_chunk list \<Rightarrow> message_chunk" where
  "whole k g =
     \<lparr>mc_Index = k, mc_Content = concat (map mc_Content g), mc_Metadata = foldl gm_merge [] (map mc_Metadata g),
      mc_IsComplete = True, mc_Role = (let rs = filter (\<lambda>r. r \<noteq> []) (map mc_Role g) in if rs = [] then [] else last rs),
      mc_ToolCalls = concat (map mc_ToolCalls g)\<rparr>"

definition split_step :: "message_chunk list list \<times> message_chunk list \<Rightarrow> message_chunk \<Rightarrow> message_chunk list list \<times> message_chunk list" where
  "split_step = (\<lambda>(gs, g) c. if mc_IsComplete c then (gs @ [g @ [c]], []) else (gs, g @ [c]))"

definition split_groups :: "message_chunk list \<Rightarrow> message_chunk list list \<times> message_chunk list" where
  "split_groups cs = foldl split_step ([], []) cs"

definition wholes :: "message_chunk list list \<Rightarrow> message_chunk list" where
  "wholes gs = map (\<lambda>k. whole k (gs ! k)) [0..<length gs]"

definition messages_of :: "message_chunk list \<Rightarrow> message_chunk list" where
  "messages_of cs = (let (gs, g) = split_groups cs in wholes (gs @ (if g = [] then [] else [g])))"

definition part :: "nat \<Rightarrow> message_chunk list \<Rightarrow> message_chunk" where
  "part k g = (whole k g)\<lparr>mc_IsComplete := False\<rparr>"

lemma flush_triggers [simp]:
  "FlushImmediate \<noteq> FlushOnComplete" "FlushOnComplete \<noteq> FlushOnEnd" "FlushImmediate \<noteq> FlushOnEnd"
  "FlushOnComplete \<noteq> FlushImmediate" "FlushOnEnd \<noteq> FlushOnComplete" "FlushOnEnd \<noteq> FlushImmediate"
  by (simp_all add: FlushOnComplete_def FlushImmediate_def FlushOnEnd_def)

lemma wholes_snoc: "wholes (gs @ [g]) = wholes gs @ [whole (length gs) g]"
  by (simp add: wholes_def nth_append)

lemma split_groups_snoc: "split_groups (cs @ [c]) = split_step (split_groups cs) c"
  by (simp add: split_groups_def)

lemma new_chunk_part: "new_chunk k = part k []"
  by (simp add: new_chunk_def part_def whole_def)

lemma merge_part: "merge_chunk (part k g) c = part k (g @ [c])"
  by (simp add: merge_chunk_def part_def whole_def Let_def)

lemma part_complete: "(part k g)\<lparr>mc_IsComplete := True\<rparr> = whole k g" "\<not> mc_IsComplete (part k g)"
  by (simp_all add: part_def whole_def)

text \<open>A stream after the chunks \<open>cs\<close> were fed into it.\<close>

definition mstream_ok :: "message_stream \<Rightarrow> message_chunk list \<Rightarrow> bool" where
  "mstream_ok ms cs \<longleftrightarrow>
     (if ms_closed ms then ms_current ms = None \<and> ms_chunks ms = messages_of cs
      else ms_chunks ms = wholes (fst (split_groups cs))
        \<and> ms_current ms = (let g = snd (split_groups cs) in if g = [] then None else Some (part (length (fst (split_groups cs))) g)))"

type_synonym collected_map = "message_chunk list gomap"

text \<open>Every finished message of a node is either collected or pending in the aggregator.\<close>

definition node_ok :: "collected_map messages_handler \<Rightarrow> collected_map \<Rightarrow> message_chunk list \<Rightarrow> string \<Rightarrow> bool" where
  "node_ok h w cs n \<longleftrightarrow>
     (case map_of (mh_streams h) n of
        None \<Rightarrow> cs = [] \<and> chunks_at w n = [] \<and> chunks_at (ag_messages (mh_aggregator h)) n = []
      | Some ms \<Rightarrow> cs \<noteq> [] \<and> mstream_ok ms cs \<and> chunks_at w n @ chunks_at (ag_messages (mh_aggregator h)) n = ms_chunks ms)"

definition handler_ok :: "(string \<Rightarrow> message_chunk list) \<Rightarrow> collected_map messages_handler \<Rightarrow> collected_map \<Rightarrow> bool" where
  "handler_ok fed h w \<longleftrightarrow>
     gm_ok (ag_messages (mh_aggregator h)) \<and> ag_emitters (mh_aggregator h) = [CollectToMap] \<and> (\<forall>n. node_ok h w (fed n) n)"

subsection \<open>Flushing\<close>

lemma chunks_at_simps [simp]:
  "chunks_at (gm_put n cs m) k = (if k = n then cs else chunks_at m k)"
  "chunks_at (gm_del n m) k = (if k = n then [] else chunks_at m k)" "chunks_at [] k = []"
  by (simp_all add: chunks_at_def gomap_simps)

lemma chunks_at_new: "k \<notin> gm_dom m \<Longrightarrow> chunks_at m k = []"
  by (simp add: chunks_at_def map_of_eq_None_iff [THEN iffD2])

lemma emit_chunks_collects:
  "emit_chunks [CollectToMap] node cs w = (None, w') \<longleftrightarrow> w' = snd (emit_chunks [CollectToMap] node cs w)"
  "chunks_at (snd (emit_chunks [CollectToMap] node cs w)) k = chunks_at w k @ (if k = node then cs else [])"
  by (induction cs arbitrary: w) (auto simp: CollectToMap_def)

lemma flush_loop_collects:
  assumes "distinct (map fst rest)"
  shows "\<exists>w'. flush_loop [CollectToMap] rest m w = (None, fold gm_del (map fst rest) m, w')
    \<and> (\<forall>k. chunks_at w' k = chunks_at w k @ chunks_at rest k)"
  using assms
proof (induction rest arbitrary: m w)
  case (Cons x rest)
  obtain node chunks where x: "x = (node, chunks)" by fastforce
  obtain w1 where e: "emit_chunks [CollectToMap] node chunks w = (None, w1)"
    and w1: "\<And>k. chunks_at w1 k = chunks_at w k @ (if k = node then chunks else [])"
    using emit_chunks_collects by metis
  have "distinct (map fst rest)" and new: "chunks_at rest node = []" using Cons.prems by (simp_all add: x chunks_at_new)
  from Cons.IH [OF this(1), of "gm_del node m" w1] obtain w' where
    l: "flush_loop [CollectToMap] rest (gm_del node m) w1 = (None, fold gm_del (map fst rest) (gm_del node m), w')"
    and w': "\<forall>k. chunks_at w' k = chunks_at w1 k @ chunks_at rest k" by blast
  have "chunks_at w' k = chunks_at w k @ chunks_at (x # rest) k" for k
  proof -
    have "chunks_at (x # rest) k = (if k = node then chunks else chunks_at rest k)" by (simp add: x chunks_at_def)
    then show ?thesis using w' new by (simp add: w1)
  qed
  moreover have "flush_loop [CollectToMap] (x # rest) m w = (None, fold gm_del (map fst (x # rest)) m, w')"
    using e l by (simp add: x)
  ultimately show ?case by blast
qed simp

lemma fold_gm_del_chunks: "chunks_at (fold gm_del ks m) k = (if k \<in> set ks then [] else chunks_at m k)"
  by (induction ks arbitrary: m) auto

lemma flushed_pending: "chunks_at (fold gm_del (map fst m) m) k = []"
  by (simp add: fold_gm_del_chunks chunks_at_new)

lemma fold_gm_del_ok: "gm_ok m \<Longrightarrow> gm_ok (fold gm_del ks m)"
  by (induction ks arbitrary: m) auto

lemma mh_Flush_ok:
  assumes "handler_ok fed h w"
  shows "\<exists>a w'. mh_Flush h w = (None, h\<lparr>mh_aggregator := a\<rparr>, w') \<and> handler_ok fed (h\<lparr>mh_aggregator := a\<rparr>) w'
    \<and> (\<forall>n. chunks_at (ag_messages a) n = [])"
proof -
  let ?a = "mh_aggregator h"
  have ok: "gm_ok (ag_messages ?a)" "ag_emitters ?a = [CollectToMap]" using assms by (auto simp: handler_ok_def)
  obtain w' where f: "flush_loop [CollectToMap] (ag_messages ?a) (ag_messages ?a) w
      = (None, fold gm_del (map fst (ag_messages ?a)) (ag_messages ?a), w')"
    and w': "\<forall>k. chunks_at w' k = chunks_at w k @ chunks_at (ag_messages ?a) k"
    using flush_loop_collects [OF ok(1)] by blast
  let ?m = "fold gm_del (map fst (ag_messages ?a)) (ag_messages ?a)"
  have "node_ok (h\<lparr>mh_aggregator := ?a\<lparr>ag_messages := ?m\<rparr>\<rparr>) w' (fed n) n" for n
  proof -
    have "node_ok h w (fed n) n" using assms by (simp add: handler_ok_def)
    then show ?thesis using w' flushed_pending by (auto simp: node_ok_def split: option.splits)
  qed
  then have "handler_ok fed (h\<lparr>mh_aggregator := ?a\<lparr>ag_messages := ?m\<rparr>\<rparr>) w'"
    using ok by (simp add: handler_ok_def fold_gm_del_ok)
  moreover have "mh_Flush h w = (None, h\<lparr>mh_aggregator := ?a\<lparr>ag_messages := ?m\<rparr>\<rparr>, w')"
    using f ok(2) by (simp add: mh_Flush_def ag_Flush_def)
  ultimately show ?thesis using flushed_pending by fastforce
qed

subsection \<open>The calls\<close>

lemma node_ok_cong:
  assumes "map_of (mh_streams h') k = map_of (mh_streams h) k"
    and "chunks_at (ag_messages (mh_aggregator h')) k = chunks_at (ag_messages (mh_aggregator h)) k"
  shows "node_ok h' w cs k = node_ok h w cs k"
  by (simp only: node_ok_def assms)

lemma handler_ok_node:
  assumes "handler_ok fed h w" "gm_ok (ag_messages (mh_aggregator h'))"
    "ag_emitters (mh_aggregator h') = ag_emitters (mh_aggregator h)"
    "\<And>k. k \<noteq> n \<Longrightarrow> map_of (mh_streams h') k = map_of (mh_streams h) k
       \<and> chunks_at (ag_messages (mh_aggregator h')) k = chunks_at (ag_messages (mh_aggregator h)) k"
    "node_ok h' w cs n"
  shows "handler_ok (fed(n := cs)) h' w"
proof -
  have "node_ok h' w ((fed(n := cs)) k) k" for k
    using assms(1,5) node_ok_cong [of h' k h w "fed k"] assms(4) [of k] by (cases "k = n") (simp_all add: handler_ok_def)
  then show ?thesis using assms(1-3) by (simp add: handler_ok_def)
qed

definition stream_at :: "'w messages_handler \<Rightarrow> string \<Rightarrow> message_stream" where
  "stream_at h n =
     (case map_of (mh_streams h) n of None \<Rightarrow> \<lparr>ms_chunks = [], ms_current = None, ms_closed = False\<rparr> | Some ms \<Rightarrow> ms)"

lemma node_ok_stream_at:
  assumes "node_ok h w cs n"
  shows "\<not> ms_closed (stream_at h n) \<Longrightarrow> mstream_ok (stream_at h n) cs"
    and "chunks_at w n @ chunks_at (ag_messages (mh_aggregator h)) n = ms_chunks (stream_at h n)"
    and "map_of (mh_streams h) n \<noteq> None \<longleftrightarrow> cs \<noteq> []"
  using assms by (auto simp: node_ok_def stream_at_def mstream_ok_def split_groups_def wholes_def split: option.splits)

definition chunk_effect :: "string \<Rightarrow> message_chunk \<Rightarrow> 'w messages_handler \<Rightarrow> 'w messages_handler" where
  "chunk_effect node chunk h =
     (let ms = stream_at h node;
          current = merge_chunk (case ms_current ms of None \<Rightarrow> new_chunk (length (ms_chunks ms))
            | Some c \<Rightarrow> if mc_IsComplete c then new_chunk (length (ms_chunks ms)) else c) chunk
      in if mc_IsComplete chunk then finish_message node current ms (h\<lparr>mh_streams := gm_put node ms (mh_streams h)\<rparr>)
         else h\<lparr>mh_streams := gm_put node (ms\<lparr>ms_current := Some current\<rparr>) (gm_put node ms (mh_streams h))\<rparr>)"

lemma OnChunk_open:
  assumes "\<not> ms_closed (stream_at h node)"
  shows "OnChunk node chunk h w = (None, chunk_effect node chunk h, w)
    \<or> OnChunk node chunk h w = mh_Flush (chunk_effect node chunk h) w"
  using assms unfolding OnChunk_def chunk_effect_def stream_at_def Let_def by simp

lemma chunk_effect_ok:
  assumes ok: "handler_ok fed h w" and cl: "\<not> ms_closed (stream_at h n)"
  shows "handler_ok (fed(n := fed n @ [c])) (chunk_effect n c h) w"
proof (rule handler_ok_node [OF ok])
  let ?ms = "stream_at h n" and ?gs = "fst (split_groups (fed n))" and ?g = "snd (split_groups (fed n))"
  have nd: "node_ok h w (fed n) n" using ok by (simp add: handler_ok_def)
  note st = node_ok_stream_at [OF nd]
  have chunks: "ms_chunks ?ms = wholes ?gs" and cur: "ms_current ?ms = (if ?g = [] then None else Some (part (length ?gs) ?g))"
    using st(1) [OF cl] cl by (simp_all add: mstream_ok_def Let_def)
  have len: "length (wholes ?gs) = length ?gs" by (simp add: wholes_def)
  have merged: "merge_chunk (case ms_current ?ms of None \<Rightarrow> new_chunk (length (ms_chunks ?ms))
      | Some c \<Rightarrow> if mc_IsComplete c then new_chunk (length (ms_chunks ?ms)) else c) c = part (length ?gs) (?g @ [c])"
    by (simp add: chunks cur len new_chunk_part merge_part part_complete)
  have split: "split_groups (fed n @ [c]) = (if mc_IsComplete c then (?gs @ [?g @ [c]], []) else (?gs, ?g @ [c]))"
    by (simp add: split_groups_snoc split_step_def case_prod_unfold)
  have eff: "chunk_effect n c h =
    (if mc_IsComplete c then finish_message n (part (length ?gs) (?g @ [c])) ?ms (h\<lparr>mh_streams := gm_put n ?ms (mh_streams h)\<rparr>)
     else h\<lparr>mh_streams := gm_put n (?ms\<lparr>ms_current := Some (part (length ?gs) (?g @ [c]))\<rparr>) (gm_put n ?ms (mh_streams h))\<rparr>)"
    by (simp only: chunk_effect_def Let_def merged)
  show "node_ok (chunk_effect n c h) w (fed n @ [c]) n"
    using st(2) cl chunks
    by (auto simp: eff node_ok_def mstream_ok_def split finish_message_def ag_AddMessage_def gomap_simps Let_def part_complete wholes_snoc)
  show "gm_ok (ag_messages (mh_aggregator (chunk_effect n c h)))"
    using ok by (simp add: eff handler_ok_def finish_message_def ag_AddMessage_def Let_def)
  show "ag_emitters (mh_aggregator (chunk_effect n c h)) = ag_emitters (mh_aggregator h)"
    by (simp add: eff finish_message_def ag_AddMessage_def Let_def)
  show "map_of (mh_streams (chunk_effect n c h)) k = map_of (mh_streams h) k
       \<and> chunks_at (ag_messages (mh_aggregator (chunk_effect n c h))) k = chunks_at (ag_messages (mh_aggregator h)) k" if "k \<noteq> n" for k
    using that by (simp add: eff finish_message_def ag_AddMessage_def Let_def gomap_simps)
qed

definition closed_at :: "'w messages_handler \<Rightarrow> string \<Rightarrow> bool" where
  "closed_at h n \<longleftrightarrow> ms_closed (stream_at h n)"

lemma chunk_effect_closed: "\<not> closed_at h n \<Longrightarrow> closed_at (chunk_effect n c h) k = closed_at h k"
  by (auto simp: chunk_effect_def Let_def closed_at_def stream_at_def finish_message_def gomap_simps)

lemma closed_at_aggregator [simp]: "closed_at (h\<lparr>mh_aggregator := a\<rparr>) n = closed_at h n"
  by (simp add: closed_at_def stream_at_def)

lemma OnChunk_ok:
  assumes "handler_ok fed h w" "OnChunk n c h w = (r, h', w')"
  shows "handler_ok (fed(n := fed n @ (if closed_at h n then [] else [c]))) h' w' \<and> (\<forall>k. closed_at h' k = closed_at h k)
    \<and> (r \<noteq> None \<longleftrightarrow> closed_at h n)"
proof (cases "closed_at h n")
  case True
  then obtain ms where ms: "map_of (mh_streams h) n = Some ms" "ms_closed ms"
    by (auto simp: closed_at_def stream_at_def split: option.splits)
  then have "OnChunk n c h w = (Some (Errorf (''stream for node '' @ n @ '' is closed'')), h\<lparr>mh_streams := gm_put n ms (mh_streams h)\<rparr>, w)"
    by (simp add: OnChunk_def)
  then have "w' = w" "r \<noteq> None" and h': "h' = h\<lparr>mh_streams := gm_put n ms (mh_streams h)\<rparr>" using assms(2) by auto
  moreover have same: "map_of (mh_streams h') = map_of (mh_streams h)" using ms h' by (auto simp: gomap_simps)
  have "node_ok h' w (fed k) k" for k using assms(1) node_ok_cong [of h' k h w "fed k"] same h' by (simp add: handler_ok_def)
  then have "handler_ok fed h' w" using assms(1) h' by (simp add: handler_ok_def)
  moreover have "closed_at h' k = closed_at h k" for k by (simp add: closed_at_def stream_at_def same)
  ultimately show ?thesis using True by simp
next
  case False
  let ?h = "chunk_effect n c h" and ?fed = "fed(n := fed n @ [c])"
  have ok: "handler_ok ?fed ?h w" using chunk_effect_ok assms(1) False by (simp add: closed_at_def)
  obtain a w2 where fl: "mh_Flush ?h w = (None, ?h\<lparr>mh_aggregator := a\<rparr>, w2)"
    and ok2: "handler_ok ?fed (?h\<lparr>mh_aggregator := a\<rparr>) w2"
    using mh_Flush_ok [OF ok] by blast
  have "OnChunk n c h w = (None, ?h, w) \<or> OnChunk n c h w = (None, ?h\<lparr>mh_aggregator := a\<rparr>, w2)"
    using OnChunk_open [of h n c w] False fl by (simp add: closed_at_def)
  then have "r = None" "h' = ?h \<and> w' = w \<or> h' = ?h\<lparr>mh_aggregator := a\<rparr> \<and> w' = w2" using assms(2) by auto
  then show ?thesis using False ok ok2 chunk_effect_closed [OF False, of c] by (elim disjE) simp_all
qed

definition complete_effect :: "string \<Rightarrow> message_stream \<Rightarrow> 'w messages_handler \<Rightarrow> 'w messages_handler" where
  "complete_effect node ms h =
     (case ms_current ms of
        None \<Rightarrow> h\<lparr>mh_streams := gm_put node (ms\<lparr>ms_closed := True\<rparr>) (mh_streams h)\<rparr>
      | Some current \<Rightarrow> finish_message node current (ms\<lparr>ms_closed := True\<rparr>) h)"

lemma OnComplete_open:
  assumes "map_of (mh_streams h) node = Some ms" "\<not> ms_closed ms"
  shows "OnComplete node h w = (None, complete_effect node ms h, w) \<or> OnComplete node h w = mh_Flush (complete_effect node ms h) w"
  using assms unfolding OnComplete_def complete_effect_def Let_def by simp

lemma complete_effect_ok:
  assumes ok: "handler_ok fed h w" and ms: "map_of (mh_streams h) n = Some ms" "\<not> ms_closed ms"
  shows "handler_ok (fed(n := fed n)) (complete_effect n ms h) w"
proof (rule handler_ok_node [OF ok])
  let ?gs = "fst (split_groups (fed n))" and ?g = "snd (split_groups (fed n))" and ?h = "complete_effect n ms h"
  have "node_ok h w (fed n) n" using ok by (simp add: handler_ok_def)
  then have ne: "fed n \<noteq> []" and st: "mstream_ok ms (fed n)"
    and del: "chunks_at w n @ chunks_at (ag_messages (mh_aggregator h)) n = ms_chunks ms"
    using ms by (simp_all add: node_ok_def)
  have chunks: "ms_chunks ms = wholes ?gs" and cur: "ms_current ms = (if ?g = [] then None else Some (part (length ?gs) ?g))"
    using st ms(2) by (simp_all add: mstream_ok_def Let_def)
  have spec: "messages_of (fed n) = wholes ?gs @ (if ?g = [] then [] else [whole (length ?gs) ?g])"
    by (simp add: messages_of_def case_prod_unfold wholes_snoc Let_def)
  show "node_ok ?h w (fed n) n"
    using ne del chunks
    by (auto simp: complete_effect_def cur node_ok_def mstream_ok_def spec finish_message_def ag_AddMessage_def gomap_simps
        part_complete Let_def)
  show "gm_ok (ag_messages (mh_aggregator ?h))"
    using ok by (simp add: complete_effect_def handler_ok_def finish_message_def ag_AddMessage_def Let_def split: option.split)
  show "ag_emitters (mh_aggregator ?h) = ag_emitters (mh_aggregator h)"
    by (simp add: complete_effect_def finish_message_def ag_AddMessage_def Let_def split: option.split)
  show "map_of (mh_streams ?h) k = map_of (mh_streams h) k
       \<and> chunks_at (ag_messages (mh_aggregator ?h)) k = chunks_at (ag_messages (mh_aggregator h)) k" if "k \<noteq> n" for k
    using that by (simp add: complete_effect_def finish_message_def ag_AddMessage_def Let_def gomap_simps split: option.split)
qed

lemma complete_effect_streams:
  "gm_dom (mh_streams (complete_effect n ms h)) = insert n (gm_dom (mh_streams h))"
  "closed_at (complete_effect n ms h) k \<longleftrightarrow> k = n \<or> closed_at h k"
  by (auto simp: complete_effect_def Let_def closed_at_def stream_at_def finish_message_def gomap_simps split: option.split)

lemma OnComplete_ok:
  assumes ok: "handler_ok fed h w" and call: "OnComplete n h w = (r, h', w')"
  shows "handler_ok fed h' w' \<and> r = None \<and> gm_dom (mh_streams h') = gm_dom (mh_streams h)
    \<and> (\<forall>k. closed_at h' k \<longleftrightarrow> closed_at h k \<or> k = n \<and> fed n \<noteq> [])"
proof (cases "map_of (mh_streams h) n")
  case None
  have "node_ok h w (fed n) n" using ok by (simp add: handler_ok_def)
  then have "fed n = []" using None by (simp add: node_ok_def)
  then show ?thesis using None ok call by (auto simp: OnComplete_def)
next
  case (Some ms)
  have "node_ok h w (fed n) n" using ok by (simp add: handler_ok_def)
  then have ne: "fed n \<noteq> []" using Some by (simp add: node_ok_def)
  show ?thesis
  proof (cases "ms_closed ms")
    case True
    then have "(None, h, w) = (r, h', w')" "closed_at h n" using Some call by (simp_all add: OnComplete_def closed_at_def stream_at_def)
    then show ?thesis using ok by auto
  next
    case False
    let ?h = "complete_effect n ms h"
    have ok1: "handler_ok fed ?h w" using complete_effect_ok [OF ok Some False] by simp
    obtain a w2 where fl: "mh_Flush ?h w = (None, ?h\<lparr>mh_aggregator := a\<rparr>, w2)"
      and ok2: "handler_ok fed (?h\<lparr>mh_aggregator := a\<rparr>) w2" using mh_Flush_ok [OF ok1] by blast
    have "OnComplete n h w = (None, ?h, w) \<or> OnComplete n h w = (None, ?h\<lparr>mh_aggregator := a\<rparr>, w2)"
      using OnComplete_open [OF Some False, of w] fl by simp
    then have "r = None" "h' = ?h \<and> w' = w \<or> h' = ?h\<lparr>mh_aggregator := a\<rparr> \<and> w' = w2" using call by auto
    moreover have "insert n (gm_dom (mh_streams h)) = gm_dom (mh_streams h)" using map_of_Some_key [OF Some] by auto
    ultimately show ?thesis using ok1 ok2 ne complete_effect_streams [of n ms h] by (elim disjE) auto
  qed
qed

lemma complete_all_ok:
  assumes "handler_ok fed h w" "complete_all ns h w = (h', w')"
  shows "handler_ok fed h' w' \<and> gm_dom (mh_streams h') = gm_dom (mh_streams h)
    \<and> (\<forall>k. closed_at h' k \<longleftrightarrow> closed_at h k \<or> k \<in> set ns \<and> fed k \<noteq> [])"
  using assms
proof (induction ns arbitrary: h w)
  case (Cons n ns)
  obtain r h1 w1 where c: "OnComplete n h w = (r, h1, w1)" using prod_cases3 by blast
  then have rest: "complete_all ns h1 w1 = (h', w')" using Cons.prems(2) by simp
  from OnComplete_ok [OF Cons.prems(1) c] have h1: "handler_ok fed h1 w1" "gm_dom (mh_streams h1) = gm_dom (mh_streams h)"
    "\<forall>k. closed_at h1 k \<longleftrightarrow> closed_at h k \<or> k = n \<and> fed n \<noteq> []" by blast+
  then show ?case using Cons.IH [OF h1(1) rest] by auto
qed simp

lemma mh_Close_ok:
  assumes ok: "handler_ok fed h w"
  shows "\<exists>h' w'. mh_Close h w = (None, h', w') \<and> (\<forall>n. chunks_at w' n = messages_of (fed n))"
proof -
  obtain h1 w1 where c: "complete_all (gm_keys (mh_streams h)) h w = (h1, w1)" by fastforce
  note all = complete_all_ok [OF ok c]
  have ok1: "handler_ok fed h1 w1" and dom: "gm_dom (mh_streams h1) = gm_dom (mh_streams h)"
    and cl: "closed_at h1 k \<longleftrightarrow> closed_at h k \<or> k \<in> set (gm_keys (mh_streams h)) \<and> fed k \<noteq> []" for k
    using all by blast+
  obtain a w2 where fl: "mh_Flush h1 w1 = (None, h1\<lparr>mh_aggregator := a\<rparr>, w2)"
    and ok2: "handler_ok fed (h1\<lparr>mh_aggregator := a\<rparr>) w2" and none: "\<forall>n. chunks_at (ag_messages a) n = []"
    using mh_Flush_ok [OF ok1] by blast
  have "chunks_at w2 n = messages_of (fed n)" for n
  proof (cases "map_of (mh_streams h1) n")
    case None
    have "node_ok (h1\<lparr>mh_aggregator := a\<rparr>) w2 (fed n) n" using ok2 by (simp add: handler_ok_def)
    then show ?thesis using None by (simp add: node_ok_def messages_of_def split_groups_def wholes_def)
  next
    case (Some ms)
    have nd: "node_ok (h1\<lparr>mh_aggregator := a\<rparr>) w2 (fed n) n" using ok2 by (simp add: handler_ok_def)
    then have ms: "fed n \<noteq> []" "mstream_ok ms (fed n)" "chunks_at w2 n = ms_chunks ms"
      using Some none by (simp_all add: node_ok_def)
    have "n \<in> set (gm_keys (mh_streams h))" using dom map_of_Some_key [OF Some] by simp
    then have "closed_at h1 n" using cl ms(1) by blast
    then have "ms_closed ms" using Some by (simp add: closed_at_def stream_at_def)
    then show ?thesis using ms by (simp add: mstream_ok_def)
  qed
  moreover have "mh_Close h w = (None, h1\<lparr>mh_aggregator := a\<rparr>, w2)" using c fl by (simp add: mh_Close_def)
  ultimately show ?thesis by blast
qed

subsection \<open>Any sequence of calls\<close>

datatype mh_call = ChunkCall string message_chunk | CompleteCall string | FlushCall

fun mh_run :: "mh_call list \<Rightarrow> 'w messages_handler \<Rightarrow> 'w \<Rightarrow> 'w messages_handler \<times> 'w" where
  "mh_run [] h w = (h, w)"
| "mh_run (ChunkCall n c # cs) h w = (let (_, h', w') = OnChunk n c h w in mh_run cs h' w')"
| "mh_run (CompleteCall n # cs) h w = (let (_, h', w') = OnComplete n h w in mh_run cs h' w')"
| "mh_run (FlushCall # cs) h w = (let (_, h', w') = mh_Flush h w in mh_run cs h' w')"

text \<open>The chunks of a node that are taken: those before its stream is completed. Completing a stream that has not begun does nothing.\<close>

fun accepted :: "bool \<Rightarrow> mh_call list \<Rightarrow> string \<Rightarrow> message_chunk list" where
  "accepted begun [] n = []"
| "accepted begun (ChunkCall m c # cs) n = (if m = n then c # accepted True cs n else accepted begun cs n)"
| "accepted begun (CompleteCall m # cs) n = (if m = n \<and> begun then [] else accepted begun cs n)"
| "accepted begun (FlushCall # cs) n = accepted begun cs n"

lemma mh_run_ok:
  assumes "handler_ok fed h w" "mh_run calls h w = (h', w')"
  shows "handler_ok (\<lambda>n. fed n @ (if closed_at h n then [] else accepted (fed n \<noteq> []) calls n)) h' w'"
  using assms
proof (induction calls arbitrary: fed h w)
  case Nil
  have "fed = (\<lambda>n. fed n @ (if closed_at h n then [] else accepted (fed n \<noteq> []) [] n))" by auto
  then show ?case using Nil by simp
next
  case (Cons call calls)
  show ?case
  proof (cases call)
    case (ChunkCall m c)
    obtain r h1 w1 where s: "OnChunk m c h w = (r, h1, w1)" using prod_cases3 by blast
    note ok = OnChunk_ok [OF Cons.prems(1) s]
    have "mh_run calls h1 w1 = (h', w')" using Cons.prems(2) s ChunkCall by simp
    from Cons.IH [OF conjunct1 [OF ok] this] show ?thesis
      by (rule back_subst [of "\<lambda>f. handler_ok f h' w'"]) (use ok ChunkCall in auto)
  next
    case (CompleteCall m)
    obtain r h1 w1 where s: "OnComplete m h w = (r, h1, w1)" using prod_cases3 by blast
    note ok = OnComplete_ok [OF Cons.prems(1) s]
    have "mh_run calls h1 w1 = (h', w')" using Cons.prems(2) s CompleteCall by simp
    from Cons.IH [OF conjunct1 [OF ok] this] show ?thesis
      by (rule back_subst [of "\<lambda>f. handler_ok f h' w'"]) (use ok CompleteCall in auto)
  next
    case FlushCall
    obtain a w1 where s: "mh_Flush h w = (None, h\<lparr>mh_aggregator := a\<rparr>, w1)" "handler_ok fed (h\<lparr>mh_aggregator := a\<rparr>) w1"
      using mh_Flush_ok [OF Cons.prems(1)] by blast
    have "mh_run calls (h\<lparr>mh_aggregator := a\<rparr>) w1 = (h', w')" using Cons.prems(2) s FlushCall by simp
    from Cons.IH [OF s(2) this] show ?thesis
      by (rule back_subst [of "\<lambda>f. handler_ok f h' w'"]) (use FlushCall in auto)
  qed
qed

lemma split_groups_concat: "concat (fst (split_groups cs)) @ snd (split_groups cs) = cs"
proof (induction cs rule: rev_induct)
  case (snoc c cs)
  then show ?case by (auto simp: split_groups_snoc split_step_def case_prod_unfold)
qed (simp add: split_groups_def)

lemma wholes_Content: "concat (map mc_Content (wholes gs)) = concat (map mc_Content (concat gs))"
proof (induction gs rule: rev_induct)
  case (snoc g gs)
  then show ?case by (simp add: wholes_snoc whole_def)
qed (simp add: wholes_def)

lemma messages_of_Content: "concat (map mc_Content (messages_of cs)) = concat (map mc_Content cs)"
proof -
  have "concat (map mc_Content (messages_of cs)) = concat (map mc_Content (concat (fst (split_groups cs)) @ snd (split_groups cs)))"
    by (simp add: messages_of_def case_prod_unfold wholes_Content Let_def)
  then show ?thesis by (simp add: split_groups_concat)
qed

text \<open>
  C40: whatever chunks of whatever nodes arrive in whatever order, with completions and flushes in between and under every flush
  trigger: after \<^verbatim>\<open>Close\<close>, which succeeds, a collecting emitter has got exactly the messages that the accepted chunks of
  each node make, each once, whole and in order, numbered from zero, and no byte of their content is lost.
\<close>

theorem messages_delivered:
  "let (h, w) = mh_run calls (mh_AddEmitter CollectToMap (NewStreamMessagesHandler [WithFlushTrigger trigger])) [];
       (err, h', target) = mh_Close h w
   in err = None
      \<and> (\<forall>n. chunks_at target n = messages_of (accepted False calls n)
           \<and> concat (map mc_Content (chunks_at target n)) = concat (map mc_Content (accepted False calls n)))"
proof -
  let ?h = "mh_AddEmitter CollectToMap (NewStreamMessagesHandler [WithFlushTrigger trigger])"
  have h: "mh_streams ?h = []" "ag_messages (mh_aggregator ?h) = []" "ag_emitters (mh_aggregator ?h) = [CollectToMap]"
    by (simp_all add: mh_AddEmitter_def NewStreamMessagesHandler_def WithFlushTrigger_def NewMessageAggregator_def ag_AddEmitter_def)
  have ok: "handler_ok (\<lambda>_. []) ?h []" by (simp add: handler_ok_def node_ok_def h)
  obtain h1 w1 where r: "mh_run calls ?h [] = (h1, w1)" by fastforce
  have "\<not> closed_at ?h n" for n by (simp add: closed_at_def stream_at_def h)
  then have "handler_ok (accepted False calls) h1 w1" using mh_run_ok [OF ok r] by simp
  then obtain h2 w2 where "mh_Close h1 w1 = (None, h2, w2)" "\<forall>n. chunks_at w2 n = messages_of (accepted False calls n)"
    using mh_Close_ok by blast
  then show ?thesis using r by (simp add: messages_of_Content)
qed

section \<open>Where the code differs from its comments\<close>

text \<open>
  With the trigger that should flush immediately, nothing comes out when a message is completed: the branch for complete chunks
  knows only the other trigger. And a message that \<^verbatim>\<open>OnComplete\<close> completes is not flushed by the trigger on completion.
\<close>

lemma immediate_flush_is_late:
  assumes "mh_flushTrigger h = FlushImmediate" "mc_IsComplete c"
  shows "snd (snd (OnChunk n c h w)) = w"
  using assms by (simp add: OnChunk_def finish_message_def Let_def)

lemma completion_is_not_flushed:
  assumes "mh_flushTrigger h = FlushOnComplete"
  shows "snd (snd (OnComplete n h w)) = w"
  using assms by (simp add: OnComplete_def finish_message_def Let_def split: option.split)

text \<open>
  An emitter that fails once, at the second message: the flush stops there and keeps both messages, so the next flush hands out
  the first one again.
\<close>

definition failing_once :: "(message_chunk list gomap \<times> nat) emitter" where
  "failing_once node chunk = (\<lambda>(m, k). if k = 1 then (Some (Errorf ''busy''), (m, 2)) else (None, (snd (CollectToMap node chunk m), Suc k)))"

lemma flush_error_repeats:
  assumes "ag_messages a = [(n, [c1, c2])]" "ag_emitters a = [failing_once]"
  shows "case ag_Flush a ([], 0) of (err, a1, w1) \<Rightarrow>
    err \<noteq> None \<and> (case ag_Flush a1 w1 of (err2, a2, w2) \<Rightarrow> err2 = None \<and> chunks_at (fst w2) n = [c1, c1, c2])"
  by (simp add: ag_Flush_def assms failing_once_def CollectToMap_def chunks_at_def)

end
