(* ===== verification/Event_Streams.thy ===== *)
theory Event_Streams
  imports Async_Pipeline Stream_Events
begin

text \<open>
  The rest of \<^verbatim>\<open>pregel/stream.go\<close>: the writer that node functions stream through, event streams with
  cancellation, and the processor that filters, transforms and handles events.
\<close>

section \<open>Writers\<close>

definition sw_Write :: "int \<Rightarrow> string \<Rightarrow> goval \<Rightarrow> stream_manager \<Rightarrow> stream_manager" where
  "sw_Write step node data sm = offer (debug_event step (''custom output from node '' @ node) data) sm"

text \<open>The JSON encoder is an argument; the bytes it makes are written.\<close>

definition sw_WriteJSON ::
  "(goval \<Rightarrow> string go_result) \<Rightarrow> int \<Rightarrow> string \<Rightarrow> goval \<Rightarrow> stream_manager \<Rightarrow> go_error option \<times> stream_manager" where
  "sw_WriteJSON marshal step node data sm =
     (case marshal data of
        Inl err \<Rightarrow> (Some err, sm)
      | Inr jsonData \<Rightarrow> (None, sw_Write step node (GBytes jsonData) sm))"

section \<open>Event streams\<close>

record event_stream =
  es_cancelled :: bool
  es_streamEvents :: "stream_event event_chan"
  es_streamErrors :: "go_error event_chan"

definition NewEventStream :: event_stream where
  "NewEventStream = \<lparr>es_cancelled = False, es_streamEvents = make_chan 100, es_streamErrors = make_chan 10\<rparr>"

definition es_Cancel :: "event_stream \<Rightarrow> event_stream go_result" where
  "es_Cancel es =
     (case close_chan (es_streamEvents es) of
        Inl e \<Rightarrow> Inl e
      | Inr events \<Rightarrow>
          (case close_chan (es_streamErrors es) of
             Inl e \<Rightarrow> Inl e
           | Inr errs \<Rightarrow> Inr (es\<lparr>es_cancelled := True, es_streamEvents := events, es_streamErrors := errs\<rparr>)))"

text \<open>
  A send that also waits for the cancellation. \<open>None\<close> is a call that blocks; \<open>pick\<close> chooses when both branches are
  ready. A send on a closed channel is ready, and panics.
\<close>

definition select_send :: "bool \<Rightarrow> bool \<Rightarrow> 'a \<Rightarrow> 'a event_chan \<Rightarrow> 'a event_chan go_result option" where
  "select_send cancelled pick x ch =
     (if (ec_closed ch \<or> length (ec_buf ch) < ec_cap ch) \<and> (\<not> cancelled \<or> pick)
      then Some (if ec_closed ch then Inl (GoPanic ''send on closed channel'') else Inr (ch\<lparr>ec_buf := ec_buf ch @ [x]\<rparr>))
      else if cancelled then Some (Inr ch) else None)"

definition es_Emit :: "bool \<Rightarrow> stream_event \<Rightarrow> event_stream \<Rightarrow> event_stream go_result option" where
  "es_Emit pick event es =
     map_option (map_sum (\<lambda>e. e) (\<lambda>ch. es\<lparr>es_streamEvents := ch\<rparr>)) (select_send (es_cancelled es) pick event (es_streamEvents es))"

definition es_EmitError :: "bool \<Rightarrow> go_error \<Rightarrow> event_stream \<Rightarrow> event_stream go_result option" where
  "es_EmitError pick err es =
     map_option (map_sum (\<lambda>e. e) (\<lambda>ch. es\<lparr>es_streamErrors := ch\<rparr>)) (select_send (es_cancelled es) pick err (es_streamErrors es))"

section \<open>Processors\<close>

text \<open>The handler acts on a world.\<close>

record 'w stream_processor =
  sp_filter :: "stream_event \<Rightarrow> bool"
  sp_transform :: "stream_event \<Rightarrow> stream_event go_result"
  sp_handler :: "stream_event \<Rightarrow> 'w \<Rightarrow> 'w"

definition NewStreamProcessor :: "'w stream_processor" where
  "NewStreamProcessor = \<lparr>sp_filter = (\<lambda>e. True), sp_transform = (\<lambda>e. Inr e), sp_handler = (\<lambda>e w. w)\<rparr>"

definition WithFilter :: "(stream_event \<Rightarrow> bool) \<Rightarrow> 'w stream_processor \<Rightarrow> 'w stream_processor" where
  "WithFilter f sp = sp\<lparr>sp_filter := f\<rparr>"

definition WithTransform :: "(stream_event \<Rightarrow> stream_event go_result) \<Rightarrow> 'w stream_processor \<Rightarrow> 'w stream_processor" where
  "WithTransform f sp = sp\<lparr>sp_transform := f\<rparr>"

definition WithHandler :: "(stream_event \<Rightarrow> 'w \<Rightarrow> 'w) \<Rightarrow> 'w stream_processor \<Rightarrow> 'w stream_processor" where
  "WithHandler f sp = sp\<lparr>sp_handler := f\<rparr>"

definition Process :: "'w stream_processor \<Rightarrow> stream_event \<Rightarrow> 'w \<Rightarrow> go_error option \<times> 'w" where
  "Process sp event w =
     (if \<not> sp_filter sp event then (None, w)
      else case sp_transform sp event of
             Inl err \<Rightarrow> (Some err, w)
           | Inr transformed \<Rightarrow> (None, sp_handler sp transformed w))"

text \<open>
  The loop over a channel that holds \<open>events\<close> and is closed behind them if \<open>closed_ch\<close>. In iteration
  \<open>k\<close> the cancellation is taken if \<open>stop k\<close> is its error. \<open>None\<close> is a loop that waits for more events.
\<close>

fun ProcessStream ::
  "'w stream_processor \<Rightarrow> (nat \<Rightarrow> go_error option) \<Rightarrow> bool \<Rightarrow> nat \<Rightarrow> stream_event list \<Rightarrow> 'w \<Rightarrow> (go_error option \<times> 'w) option" where
  "ProcessStream sp stop closed_ch k events w =
     (case stop k of
        Some err \<Rightarrow> Some (Some err, w)
      | None \<Rightarrow>
          (case events of
             [] \<Rightarrow> if closed_ch then Some (None, w) else None
           | event # rest \<Rightarrow>
               (case Process sp event w of
                  (Some err, w') \<Rightarrow> Some (Some err, w')
                | (None, w') \<Rightarrow> ProcessStream sp stop closed_ch (Suc k) rest w')))"

declare ProcessStream.simps [simp del]

section \<open>Properties\<close>

text \<open>The events that pass the filter, transformed, up to the first one whose transformation fails.\<close>

fun transformed_prefix :: "'w stream_processor \<Rightarrow> stream_event list \<Rightarrow> go_error option \<times> stream_event list" where
  "transformed_prefix sp [] = (None, [])"
| "transformed_prefix sp (e # es) =
     (if \<not> sp_filter sp e then transformed_prefix sp es
      else case sp_transform sp e of
             Inl err \<Rightarrow> (Some err, [])
           | Inr t \<Rightarrow> apsnd (Cons t) (transformed_prefix sp es))"

text \<open>
  Without cancellation, processing a closed channel returns; the handler has seen exactly those events, in
  order, and the result is the error of the first failed transformation.
\<close>

lemma ProcessStream_closed:
  "ProcessStream sp (\<lambda>_. None) True k events w =
    Some (fst (transformed_prefix sp events), fold (sp_handler sp) (snd (transformed_prefix sp events)) w)"
proof (induction events arbitrary: k w)
  case Nil
  then show ?case by (subst ProcessStream.simps) simp
next
  case (Cons e es)
  then show ?case by (subst ProcessStream.simps) (auto simp: Process_def split: sum.split)
qed

text \<open>
  Cancelled streams: a second \<^verbatim>\<open>Cancel\<close> panics, and an \<^verbatim>\<open>Emit\<close> after \<^verbatim>\<open>Cancel\<close> panics whenever the send is the
  branch that Go picks.
\<close>

lemma double_Cancel_panics:
  "es_Cancel es = Inr es' \<Longrightarrow> es_Cancel es' = Inl (GoPanic ''close of closed channel'')"
  by (auto simp: es_Cancel_def close_chan_def split: if_splits sum.splits)

lemma Emit_after_Cancel_panics:
  "es_Cancel es = Inr es' \<Longrightarrow> es_Emit True event es' = Some (Inl (GoPanic ''send on closed channel''))"
  by (auto simp: es_Cancel_def close_chan_def es_Emit_def select_send_def split: if_splits sum.splits)

text \<open>An open stream takes events up to its capacity, in order, and blocks after that.\<close>

fun emit_events :: "stream_event list \<Rightarrow> event_stream \<Rightarrow> event_stream go_result option" where
  "emit_events [] es = Some (Inr es)"
| "emit_events (e # evs) es = (case es_Emit True e es of Some (Inr es') \<Rightarrow> emit_events evs es' | r \<Rightarrow> r)"

lemma emit_events_capacity:
  assumes "\<not> es_cancelled es" "\<not> ec_closed (es_streamEvents es)" "length (ec_buf (es_streamEvents es)) \<le> ec_cap (es_streamEvents es)"
  shows "emit_events evs es =
    (if length (ec_buf (es_streamEvents es)) + length evs \<le> ec_cap (es_streamEvents es)
     then Some (Inr (es\<lparr>es_streamEvents := (es_streamEvents es)\<lparr>ec_buf := ec_buf (es_streamEvents es) @ evs\<rparr>\<rparr>)) else None)"
  using assms by (induction evs arbitrary: es) (simp_all add: es_Emit_def select_send_def)

end
