(* ===== verification/Spec2Isabelle.thy ===== *)
theory Spec2Isabelle
  imports Channel_Registry Checkpoint_Manager Pregel_Resume Store_Contract Memory_Cache Messages Parallel_Node
    Async_Pipeline Multi_Retry Channel_IO Nested_Graphs Background_Executor Optimized_Engine Scratchpad
    Message_Streams Event_Streams
begin

text \<open>
  A verification of the graph engine of the agent harness, the Go package tree \<^verbatim>\<open>internal/harness/graph\<close>. File names
  below are relative to it.

  \<^bold>\<open>The program.\<close> A client builds a state graph: nodes with functions, edges, conditional edges, branches, and
  channels that hold the state. Compiling validates the graph and derives channels from the fields of the state
  schema. A run copies the channels into a registry, loads a checkpoint if there is one, and goes through supersteps:
  plan the tasks, read their inputs from the channels, run them in parallel with retries, apply their writes to the channels, save a
  checkpoint, emit events. Interrupts stop a run before or inside a step; the next run of the thread
  resumes from the checkpoint. Beside the engine stand a checkpoint manager with optimistic versions, and a key-value store
  with lifetimes.

  \<^bold>\<open>Language.\<close> Go strings are byte strings, \<^verbatim>\<open>int\<close> is a 64-bit word where a value can wrap and an integer where
  the code only counts, \<^verbatim>\<open>float64\<close> is the exact IEEE value with rounding. A dynamic value is a \<^typ>\<open>goval\<close>, with one
  constructor per dynamic type that the code distinguishes. A map is an association list; the order of its entries
  is the order in which a loop over it runs, which Go leaves open, so statements hold for every order. A function
  that returns an error returns a sum; panics are values of the error type. Node functions, the clock, fresh identifiers, the
  scheduling of goroutines, encoders of the standard library and cancellation are arguments.

  \<^bold>\<open>Theories and sources.\<close>
  \<^item> Harness_Prelude: maps and strings. Go_Float: \<^verbatim>\<open>float64\<close>. Go_Values: dynamic values and type assertions. Go_JSON: the copy
    through \<^verbatim>\<open>encoding/json\<close> that savers make, with base64 for bytes.
  \<^item> Go_Errors: \<^verbatim>\<open>errors/errors.go\<close>, one constructor per error type.
  \<^item> Channels, Barrier_Channels, Channel_Interface: \<^verbatim>\<open>channels/*.go\<close>. A record and the six operations per channel type, the interface by
    dispatch. Channel_Contract: resuming from a checkpoint as a locale that every channel type interprets, the barrier as a refinement of a set
    machine, aggregates, topics and reducers. Channel_Registry: the registry of \<^verbatim>\<open>channels/base.go\<close>.
  \<^item> State_Graph, Graph_Validation: \<^verbatim>\<open>graph/graph.go\<close>, \<^verbatim>\<open>graph/state.go\<close>. The builder as functions on a record, a step relation over
    all of its calls and the invariant it keeps; validation against reachability in a relation; compilation.
  \<^item> Retry: \<^verbatim>\<open>pregel/retry.go\<close> and the policy of \<^verbatim>\<open>types/types.go\<close>. Run_Config: \<^verbatim>\<open>types/config.go\<close>.
  \<^item> Checkpoints, Checkpoint_Manager: \<^verbatim>\<open>checkpoint/checkpoint.go\<close>. Memory_Saver: \<^verbatim>\<open>checkpoint/memory.go\<close>, and the locale of checkpointers that
    the engine relies on.
  \<^item> Stream_Events: \<^verbatim>\<open>pregel/stream.go\<close> and the forwarder of \<^verbatim>\<open>Run\<close>, the bounded buffers between engine and consumer as steps of the
    engine, the forwarder, the consumer and a cancellation.
  \<^item> Pregel_Tasks (planning), Pregel_Writes (inputs, outputs and writes), Pregel_Engine (execution, interrupts, checkpoints and
    the run loop): \<^verbatim>\<open>pregel/engine.go\<close>. Pregel_Properties and Pregel_Resume: what a run and its resumption do.
  \<^item> Memory_Store: \<^verbatim>\<open>store/memory.go\<close>. Store_Contract: a locale of expiring stores, interpreted by the store for names without its
    separators, and what happens for other names.
  \<^item> Interrupts: \<^verbatim>\<open>interrupt/interrupt.go\<close>, the values a client answers interrupts with. Loop_Node, Parallel_Node: \<^verbatim>\<open>graph/loop.go\<close> and
    \<^verbatim>\<open>graph/parallel.go\<close>, nodes that run a compiled graph by the modelled engine repeatedly or once per item, and how they are interrupted and
    resumed.
  \<^item> Messages: \<^verbatim>\<open>graph/message.go\<close>, merging conversations by identifier. Memory_Cache: \<^verbatim>\<open>pregel/cache.go\<close>, a bounded cache with eviction, a locale of
    output caches and the cached executor over it.
  \<^item> Async_Executor, Async_Pipeline: \<^verbatim>\<open>pregel/async.go\<close>. The goroutines of the executor as a step relation with its invariant, the
    pipeline, the concurrency limiter and the priority executor. Multi_Retry: \<^verbatim>\<open>pregel/retry_multi.go\<close>, retries under several
    policies with a count of the calls.
  \<^item> Channel_IO: \<^verbatim>\<open>pregel/write.go\<close> and \<^verbatim>\<open>pregel/read.go\<close>, validated and transformed writes to the registry, selected and transformed reads,
    triggers.
  \<^item> State_Inspector: \<^verbatim>\<open>graph/state_inspector.go\<close>, reading, listing, updating and forking the state of a thread, over a locale of
    checkpointers with histories that the memory saver interprets. Nested_Graphs: \<^verbatim>\<open>graph/compiled.go\<close> and
    \<^verbatim>\<open>pregel/subgraph.go\<close>, graphs inside graphs as objects in a heap with pointers to parents and subgraphs, their namespaces and the registries
    they share.
  \<^item> Task_Queues: the three priority queues of \<^verbatim>\<open>pregel/background.go\<close> and \<^verbatim>\<open>pregel/optimized.go\<close> as interpretations of one locale.
    Background_Executor: the worker pool of \<^verbatim>\<open>pregel/background.go\<close> as a step relation. Optimized_Engine:
    \<^verbatim>\<open>pregel/optimized.go\<close>, its tables of dependencies and its own way of applying writes, compared with the engine's.
  \<^item> Chunk_Streams: \<^verbatim>\<open>types/stream.go\<close>, streams over channels, layers that filter and map, the merging of several streams.
    Message_Streams: \<^verbatim>\<open>pregel/messages.go\<close>, messages assembled from chunks and handed to emitters. Event_Streams: the writers, event
    streams and processors of \<^verbatim>\<open>pregel/stream.go\<close>.
  \<^item> Scratchpad: \<^verbatim>\<open>types/scratchpad.go\<close>, the temporary data of a run, with an explicit heap for the stacks and node contexts that
    scratchpads and snapshots share.

  \<^bold>\<open>What is shown.\<close> The run loop ends within the recursion limit and says why; in the all-predecessors mode it makes
  progress. The outcome of a step depends neither on the order in which tasks finish nor on the interleaving of their
  reads. Planning schedules exactly the nodes that are ready along the plain edges; failed tasks beside a successful one leave only
  events. Writes act as one update per channel. Channels whose
  checkpoint holds their state, registries of such channels, checkpoints, the set of completed tasks and nested fields survive their
  round trips, and a run resumed after an interrupt starts from the saved channels. Histories of the
  checkpoint manager stay linear under concurrent clients, but for deletions and for checkpoints that opt out of the check. A retry stops at the first decisive attempt and waits no longer than
  its policy says, as long as the unclipped wait fits an int64. Events arrive in order and, unless the run is cancelled, the final one is
  not lost. The store honours lifetimes, and its sweep cannot be observed through names that are not written. The output cache keeps to its size and cannot be seen by its clients. Interrupts are answered in order; loop and
  parallel nodes resume at the iteration or the items that were interrupted. In every interleaving the async executor keeps to its slots,
  ends and answers each task once, and the background executor runs each accepted task once; the heap is a priority
  queue. A write batch updates each channel with just its own entries. A forked thread reads as its source does, the
  pointers between nested graphs agree and their namespaces are their paths, and the optimised writes agree with the plain ones where both apply, up to
  versions and the finish notification. Streamed messages arrive whole, once
  and in order, and merged streams keep the order of each source. The stacks of a scratchpad are independent stacks per key, and
  restoring a snapshot gives back data, counters and metadata. Several theorems pin down behaviour that differs from what the code means to do, for example that a barrier
  reached by two nodes in one step does not open, or that the input is applied twice.

  \<^bold>\<open>Bounds and termination.\<close> No definition uses fuel. The run loop recurses on the distance to the recursion limit,
  reachability on the nodes not yet marked, a retry on the attempts left, a loop node on the iterations up to its maximum, a heap
  operation on the distance of an index to its end of the slice. Concurrent parts are runs of explicit event lists of any length.

  \<^bold>\<open>Not modelled.\<close> Values are trees, apart from the heaps of Scratchpad and Nested_Graphs: aliasing of maps and slices below the level that the code copies is not
  visible, nor that of one channel added to a graph under two names. The graphs that loop and parallel nodes run do not
  consume resume values or change the interrupt state of the node. A cache has one of the three declared eviction policies. Data races are excluded by the locks the code takes; each method under a lock is one step. Of the tree, the
  helpers that a run does not reach are left out: remote execution, tracing, callbacks, the asynchronous cache,
  managed values, task decorators, the checkpoint store over NATS. The rest of the repository (agent kit, services, parsers, command line, front
  ends) is outside the scope of this development.
\<close>

end
